(* ===== verification/Prelude.thy ===== *)
theory Prelude
  imports "HOL-Library.Word"
begin

text \<open>
  Shared vocabulary of the development: the machine integers of the ARM build as words,
  C's signed arithmetic on \<open>int\<close> (truncating division, 32-bit wrap), byte buffers and
  NUL-terminated strings, and the generic lemmas the component theories use.

  Conventions.  An unsigned C integer is a word of its width.  A signed 32-bit integer
  is an \<open>int\<close> that operations bring back into range with \<open>to_i32\<close>; signed overflow,
  which C++ leaves undefined, is modelled as the wrap-around the compiled code performs,
  and the theorems that depend on it say so.  A \<open>char\<close> array is the list of all its bytes;
  \<open>cstr\<close> is the string a reader of that array sees.  A pointer that may be null is an
  \<open>option\<close>.
\<close>

unbundle bit_operations_syntax

section \<open>Machine integers\<close>

type_synonym u8 = "8 word"
type_synonym u16 = "16 word"
type_synonym u32 = "32 word"
type_synonym u64 = "64 word"

named_theorems icon_codes \<open>values of the HUD icon enumerators\<close>
named_theorems lane_codes \<open>values of the OEM lane-code enumerators\<close>
named_theorems cdefs \<open>definitions of the C arithmetic and string helpers\<close>

definition to_i32 :: "int \<Rightarrow> int" where
  [cdefs]: "to_i32 x = signed_take_bit 31 x"

definition i32_range :: "int \<Rightarrow> bool" where
  "i32_range x \<longleftrightarrow> - (2 ^ 31) \<le> x \<and> x < 2 ^ 31"

definition cdiv :: "int \<Rightarrow> int \<Rightarrow> int" where
  [cdefs]: "cdiv a b = sgn a * sgn b * (\<bar>a\<bar> div \<bar>b\<bar>)"

definition cmod :: "int \<Rightarrow> int \<Rightarrow> int" where
  [cdefs]: "cmod a b = a - cdiv a b * b"

lemma to_i32_id [simp]: "i32_range x \<Longrightarrow> to_i32 x = x"
  by (simp add: to_i32_def i32_range_def signed_take_bit_int_eq_self)

lemma to_i32_range [simp]: "i32_range (to_i32 x)"
  using signed_take_bit_int_greater_eq_minus_exp [of 31 x] signed_take_bit_int_less_exp [of 31 x]
  by (simp add: to_i32_def i32_range_def)

lemma i32_rangeI [intro]: "- 2147483648 \<le> x \<Longrightarrow> x \<le> 2147483647 \<Longrightarrow> i32_range x"
  by (simp add: i32_range_def)

lemma cdiv_nonneg: "0 \<le> a \<Longrightarrow> 0 < b \<Longrightarrow> cdiv a b = a div b"
  by (cases "a = 0") (simp_all add: cdiv_def)

lemma cmod_nonneg: "0 \<le> a \<Longrightarrow> 0 < b \<Longrightarrow> cmod a b = a mod b"
  by (simp add: cmod_def cdiv_nonneg minus_div_mult_eq_mod)

lemma cmod_neg: "a < 0 \<Longrightarrow> 0 < b \<Longrightarrow> cmod a b = - ((- a) mod b)"
proof -
  assume a: "a < 0" and b: "0 < b"
  then have "cdiv a b = - ((- a) div b)" by (simp add: cdiv_def)
  then have "cmod a b = - ((- a) - (- a) div b * b)" by (simp add: cmod_def algebra_simps)
  then show ?thesis by (simp add: minus_div_mult_eq_mod)
qed

text \<open>\<open>x % m\<close> followed by \<open>if (x < 0) x += m\<close> is the mathematical residue.\<close>

lemma cmod_fixup:
  assumes "0 < m"
  shows "(if cmod a m < 0 then cmod a m + m else cmod a m) = a mod m"
proof (cases "0 \<le> a")
  case True
  then have "cmod a m = a mod m" "0 \<le> a mod m"
    using assms by (simp_all add: cmod_nonneg)
  then show ?thesis by simp
next
  case False
  then have neg: "cmod a m = - ((- a) mod m)" using assms by (simp add: cmod_neg)
  show ?thesis
  proof (cases "(- a) mod m = 0")
    case True
    then have "a mod m = 0"
      by (simp add: mod_eq_0_iff_dvd)
    with True neg show ?thesis by simp
  next
    case f: False
    have "0 \<le> (- a) mod m" using assms by simp
    with f have "0 < (- a) mod m" by linarith
    moreover have "a mod m = m - (- a) mod m"
      using f zmod_zminus1_eq_if [of "- a" m] by simp
    ultimately show ?thesis using neg by simp
  qed
qed

text \<open>A 32-bit counter repeats a value only after \<open>2 ^ 32\<close> steps.\<close>

lemma u32_counter_eq:
  assumes "(of_nat a :: u32) = of_nat b" and "a \<le> b" and "b - a < 2 ^ 32"
  shows "a = b"
proof -
  have "a mod 2 ^ 32 = b mod 2 ^ 32"
    using assms(1) by (simp add: word_of_nat_eq_iff take_bit_eq_mod)
  then have "2 ^ 32 dvd b - a"
    by (subst mod_eq_dvd_iff_nat [symmetric]) (simp_all add: assms(2))
  then show ?thesis using assms(2,3) by (auto dest: dvd_imp_le)
qed

section \<open>Byte buffers and C strings\<close>

definition cstr :: "u8 list \<Rightarrow> u8 list" where
  [cdefs]: "cstr buf = takeWhile (\<lambda>b. b \<noteq> 0) buf"

text \<open>\<open>strncpy(dst, src, sizeof(dst) - 1); dst[sizeof(dst) - 1] = 0\<close>, all bytes of \<open>dst\<close>.\<close>

definition strncpy_z :: "nat \<Rightarrow> u8 list \<Rightarrow> u8 list" where
  [cdefs]: "strncpy_z cap src =
     (let s = take (cap - 1) (cstr src) in s @ replicate (cap - length s) 0)"

text \<open>A read through a pointer into a buffer: \<open>None\<close> is an access outside the object.\<close>

definition load :: "'a list \<Rightarrow> nat \<Rightarrow> 'a option" where
  "load buf i = (if i < length buf then Some (buf ! i) else None)"

lemma load_in [simp]: "i < length buf \<Longrightarrow> load buf i = Some (buf ! i)"
  by (simp add: load_def)

lemma load_eq_Some_iff: "load buf i = Some x \<longleftrightarrow> i < length buf \<and> buf ! i = x"
  by (simp add: load_def)

lemma cstr_Nil [simp]: "cstr [] = []"
  by (simp add: cstr_def)

lemma cstr_no_nul [simp]: "0 \<notin> set (cstr s)"
  by (auto simp: cstr_def dest: set_takeWhileD)

lemma cstr_id: "0 \<notin> set s \<Longrightarrow> cstr s = s"
  by (auto simp: cstr_def takeWhile_eq_all_conv)

lemma cstr_append_nul [simp]: "0 \<notin> set s \<Longrightarrow> cstr (s @ 0 # t) = s"
  by (simp add: cstr_def takeWhile_append takeWhile_eq_all_conv)

lemma cstr_cstr [simp]: "cstr (cstr s) = cstr s"
  by (simp add: cstr_id)

lemma length_cstr_le: "length (cstr s) \<le> length s"
  by (simp add: cstr_def length_takeWhile_le)

lemma take_no_nul: "0 \<notin> set s \<Longrightarrow> 0 \<notin> set (take n s)"
  by (meson in_set_takeD)

lemma cstr_pad: "0 \<notin> set s \<Longrightarrow> 0 < k \<Longrightarrow> cstr (s @ replicate k 0) = s"
  by (cases k) simp_all

lemma length_strncpy_z [simp]: "0 < cap \<Longrightarrow> length (strncpy_z cap s) = cap"
  by (simp add: strncpy_z_def Let_def)

lemma cstr_strncpy_z [simp]: "0 < cap \<Longrightarrow> cstr (strncpy_z cap s) = take (cap - 1) (cstr s)"
  unfolding strncpy_z_def Let_def
  by (intro cstr_pad take_no_nul cstr_no_nul) simp

lemma strncpy_z_cstr [simp]: "strncpy_z cap (cstr s) = strncpy_z cap s"
  by (simp add: strncpy_z_def)

end
