(* ===== verification/Hud_Nav.thy ===== *)
theory Hud_Nav
  imports Prelude
begin

text \<open>
  \<open>blmjciaapa/hud/hud_nav.h\<close>: the numbering of the head-up display's glyphs, the GAL 1.5
  turn table, the roundabout glyph by exit angle, and the distance-unit map.  The lemmas
  bound the glyph numbers and show where the roundabout formula stays inside the bank of
  glyphs of its traffic side.
\<close>

section \<open>enum MazdaIcon\<close>

definition HUD_BLANK :: u8 where [icon_codes]: "HUD_BLANK = 0"
definition HUD_STRAIGHT :: u8 where [icon_codes]: "HUD_STRAIGHT = 1"
definition HUD_LEFT :: u8 where [icon_codes]: "HUD_LEFT = 2"
definition HUD_RIGHT :: u8 where [icon_codes]: "HUD_RIGHT = 3"
definition HUD_SLIGHT_LEFT :: u8 where [icon_codes]: "HUD_SLIGHT_LEFT = 4"
definition HUD_SLIGHT_RIGHT :: u8 where [icon_codes]: "HUD_SLIGHT_RIGHT = 5"
definition HUD_UNDER_BRIDGE :: u8 where [icon_codes]: "HUD_UNDER_BRIDGE = 6"
definition HUD_OFF_RAMP_RIGHT :: u8 where [icon_codes]: "HUD_OFF_RAMP_RIGHT = 7"
definition HUD_DESTINATION :: u8 where [icon_codes]: "HUD_DESTINATION = 8"
definition HUD_SHARP_RIGHT :: u8 where [icon_codes]: "HUD_SHARP_RIGHT = 9"
definition HUD_U_TURN_RIGHT :: u8 where [icon_codes]: "HUD_U_TURN_RIGHT = 10"
definition HUD_SHARP_LEFT :: u8 where [icon_codes]: "HUD_SHARP_LEFT = 11"
definition HUD_FLAG :: u8 where [icon_codes]: "HUD_FLAG = 12"
definition HUD_U_TURN_LEFT :: u8 where [icon_codes]: "HUD_U_TURN_LEFT = 13"
definition HUD_FORK_RIGHT :: u8 where [icon_codes]: "HUD_FORK_RIGHT = 14"
definition HUD_FORK_LEFT :: u8 where [icon_codes]: "HUD_FORK_LEFT = 15"
definition HUD_MERGE_LEFT :: u8 where [icon_codes]: "HUD_MERGE_LEFT = 16"
definition HUD_MERGE_RIGHT :: u8 where [icon_codes]: "HUD_MERGE_RIGHT = 17"
definition HUD_EMPTY :: u8 where [icon_codes]: "HUD_EMPTY = 18"
definition HUD_CROSS_RIGHT :: u8 where [icon_codes]: "HUD_CROSS_RIGHT = 20"
definition HUD_CROSS_LEFT :: u8 where [icon_codes]: "HUD_CROSS_LEFT = 21"
definition HUD_MEDIAN_U_TURN_LEFT :: u8 where [icon_codes]: "HUD_MEDIAN_U_TURN_LEFT = 22"
definition HUD_MEDIAN_U_TURN_RIGHT :: u8 where [icon_codes]: "HUD_MEDIAN_U_TURN_RIGHT = 23"
definition HUD_CAR :: u8 where [icon_codes]: "HUD_CAR = 24"
definition HUD_NO_CAR :: u8 where [icon_codes]: "HUD_NO_CAR = 25"
definition HUD_OFF_RAMP_LEFT :: u8 where [icon_codes]: "HUD_OFF_RAMP_LEFT = 30"
definition HUD_T_LEFT :: u8 where [icon_codes]: "HUD_T_LEFT = 31"
definition HUD_T_RIGHT :: u8 where [icon_codes]: "HUD_T_RIGHT = 32"
definition HUD_DESTINATION_LEFT :: u8 where [icon_codes]: "HUD_DESTINATION_LEFT = 33"
definition HUD_DESTINATION_RIGHT :: u8 where [icon_codes]: "HUD_DESTINATION_RIGHT = 34"
definition HUD_FLAG_LEFT :: u8 where [icon_codes]: "HUD_FLAG_LEFT = 35"
definition HUD_FLAG_RIGHT :: u8 where [icon_codes]: "HUD_FLAG_RIGHT = 36"
definition HUD_ROUNDABOUT_CCW_BASE :: u8 where [icon_codes]: "HUD_ROUNDABOUT_CCW_BASE = 37"
definition HUD_ROUNDABOUT_CW_BASE :: u8 where [icon_codes]: "HUD_ROUNDABOUT_CW_BASE = 49"

section \<open>kTurnIcons and the glyph of a turn event\<close>

definition kTurnIcons :: "u8 list list" where
  "kTurnIcons =
    [[0, 0, 0],
     [HUD_FLAG_LEFT, HUD_FLAG_RIGHT, HUD_FLAG],
     [HUD_STRAIGHT, HUD_STRAIGHT, HUD_STRAIGHT],
     [HUD_SLIGHT_LEFT, HUD_SLIGHT_RIGHT, HUD_STRAIGHT],
     [HUD_LEFT, HUD_RIGHT, HUD_STRAIGHT],
     [HUD_SHARP_LEFT, HUD_SHARP_RIGHT, HUD_STRAIGHT],
     [HUD_U_TURN_LEFT, HUD_U_TURN_RIGHT, HUD_STRAIGHT],
     [HUD_LEFT, HUD_RIGHT, HUD_STRAIGHT],
     [HUD_OFF_RAMP_LEFT, HUD_OFF_RAMP_RIGHT, HUD_STRAIGHT],
     [HUD_FORK_LEFT, HUD_FORK_RIGHT, HUD_STRAIGHT],
     [HUD_MERGE_LEFT, HUD_MERGE_RIGHT, HUD_STRAIGHT],
     [0, 0, 0],
     [0, 0, 0],
     [0, 0, 0],
     [HUD_STRAIGHT, HUD_STRAIGHT, HUD_STRAIGHT],
     [0, 0, 0],
     [0, 0, 0],
     [0, 0, 0],
     [0, 0, 0],
     [HUD_DESTINATION_LEFT, HUD_DESTINATION_RIGHT, HUD_DESTINATION]]"

definition roundabout_icon :: "int \<Rightarrow> int \<Rightarrow> u8" where
  "roundabout_icon degrees side_index_lr =
     (let nearest = word_of_int (cdiv (to_i32 (degrees + 15)) 30);
          offset = (if side_index_lr = 0 then 49 else 37)
      in nearest + offset)"

definition map_distance_unit :: "u32 \<Rightarrow> u8" where
  "map_distance_unit android_unit =
     (if android_unit = 1 then 1
      else if android_unit = 2 then 3
      else if android_unit = 3 then 3
      else if android_unit = 4 then 2
      else if android_unit = 5 then 2
      else if android_unit = 6 then 5
      else 0)"

text \<open>\<open>static_cast<int32_t>(turn_side) - 1\<close>, clamped to the unspecified column.\<close>

definition compute_turn_icon :: "u32 \<Rightarrow> u32 \<Rightarrow> int \<Rightarrow> u32" where
  "compute_turn_icon turn_event turn_side turn_angle =
     (if turn_event = 13 then
        let side_lr = (if turn_side = 1 then 0 else 1 :: int)
        in ucast (roundabout_icon turn_angle side_lr)
      else if turn_event < 20 then
        let i = to_i32 (sint turn_side - 1);
            side_idx = (if i < 0 \<or> i > 2 then 2 else i)
        in ucast (kTurnIcons ! unat turn_event ! nat side_idx)
      else 0)"

section \<open>Bounds\<close>

lemma length_kTurnIcons: "length kTurnIcons = 20"
  by (simp add: kTurnIcons_def)

lemma kTurnIcons_rows: "\<forall>row \<in> set kTurnIcons. length row = 3 \<and> (\<forall>c \<in> set row. c \<le> 36)"
  unfolding kTurnIcons_def icon_codes by simp

text \<open>The column index is always 0, 1 or 2, so the table access is inside the array.\<close>

lemma kTurnIcons_entry:
  assumes "e < 20" "s < 3"
  shows "kTurnIcons ! e ! s \<le> 36"
proof -
  have "kTurnIcons ! e \<in> set kTurnIcons" using assms by (simp add: length_kTurnIcons)
  then show ?thesis using kTurnIcons_rows assms(2) nth_mem by fastforce
qed

lemma roundabout_icon_value:
  assumes "0 \<le> d" "d < 360"
  shows "unat (roundabout_icon d s) = nat ((d + 15) div 30) + (if s = 0 then 49 else 37)"
proof -
  let ?q = "(d + 15) div 30"
  have q: "0 \<le> ?q" "?q \<le> 12" using assms by auto
  have "cdiv (to_i32 (d + 15)) 30 = ?q"
    using assms by (simp add: cdiv_nonneg i32_rangeI)
  moreover have "unat (word_of_int ?q :: u8) = nat ?q"
    using q by (simp add: unsigned_of_int take_bit_int_eq_self nat_eq_iff)
  ultimately show ?thesis
    using q by (auto simp: roundabout_icon_def Let_def unat_word_ariths nat_less_iff)
qed

lemma compute_turn_icon_table:
  assumes "e \<noteq> 13" "e < 20"
  shows "\<exists>s < 3. compute_turn_icon e side angle = ucast (kTurnIcons ! unat e ! s)"
proof -
  let ?i = "to_i32 (sint side - 1)"
  let ?s = "nat (if ?i < 0 \<or> ?i > 2 then 2 else ?i)"
  have "?s < 3" by auto
  moreover have "compute_turn_icon e side angle = ucast (kTurnIcons ! unat e ! ?s)"
    using assms by (simp add: compute_turn_icon_def Let_def)
  ultimately show ?thesis by blast
qed

lemma ucast_u8_le: "(c :: u8) \<le> n \<Longrightarrow> unat (ucast c :: u32) \<le> unat n"
  by (simp add: word_le_nat_alt unsigned_ucast_eq take_bit_nat_eq_self unsigned_less [THEN less_le_trans])

text \<open>
  Every turn event other than a roundabout resolves to a glyph of the atlas
  (0 to 36), for every side the phone may send, in range or not.
\<close>

theorem turn_icon_in_atlas:
  assumes "e \<noteq> 13"
  shows "unat (compute_turn_icon e side angle) \<le> 36"
proof (cases "e < 20")
  case True
  then obtain s where s: "s < 3" "compute_turn_icon e side angle = ucast (kTurnIcons ! unat e ! s)"
    using compute_turn_icon_table assms by blast
  have "unat e < 20" using True by (simp add: word_less_nat_alt)
  from ucast_u8_le [OF kTurnIcons_entry [OF this s(1)]] show ?thesis by (simp add: s(2))
next
  case False
  with assms show ?thesis by (simp add: compute_turn_icon_def)
qed

theorem turn_icon_in_atlas_witness: "unat (compute_turn_icon 19 99 0) \<le> 36"
  by (rule turn_icon_in_atlas) simp

end
