(* ===== verification/Hud_Lane.thy ===== *)
theory Hud_Lane
  imports Prelude
begin

text \<open>
  \<open>blmjciaapa/hud/hud_lane.h\<close>: the head unit's lane codes (0 to 70), the translation of an
  Android Auto lane (two bit masks over arrow shapes) into one code, and the two tables
  that turn a code into a cluster glyph.  What a code means is stated separately, from the
  comments on the enumerators (\<open>arrow_dirs\<close>, \<open>detail_of\<close>), and the translation is proved
  against that meaning.
\<close>

section \<open>enum AaLaneShape, enum OemLaneCode, direction bits\<close>

definition AA_SHAPE_UNKNOWN :: u8 where [lane_codes]: "AA_SHAPE_UNKNOWN = 0"
definition AA_SHAPE_STRAIGHT :: u8 where [lane_codes]: "AA_SHAPE_STRAIGHT = 1"
definition AA_SHAPE_SLIGHT_LEFT :: u8 where [lane_codes]: "AA_SHAPE_SLIGHT_LEFT = 2"
definition AA_SHAPE_SLIGHT_RIGHT :: u8 where [lane_codes]: "AA_SHAPE_SLIGHT_RIGHT = 3"
definition AA_SHAPE_NORMAL_LEFT :: u8 where [lane_codes]: "AA_SHAPE_NORMAL_LEFT = 4"
definition AA_SHAPE_NORMAL_RIGHT :: u8 where [lane_codes]: "AA_SHAPE_NORMAL_RIGHT = 5"
definition AA_SHAPE_SHARP_LEFT :: u8 where [lane_codes]: "AA_SHAPE_SHARP_LEFT = 6"
definition AA_SHAPE_SHARP_RIGHT :: u8 where [lane_codes]: "AA_SHAPE_SHARP_RIGHT = 7"
definition AA_SHAPE_U_TURN_LEFT :: u8 where [lane_codes]: "AA_SHAPE_U_TURN_LEFT = 8"
definition AA_SHAPE_U_TURN_RIGHT :: u8 where [lane_codes]: "AA_SHAPE_U_TURN_RIGHT = 9"

definition OEM_LANE_NONE :: u8 where [lane_codes]: "OEM_LANE_NONE = 0"
definition OEM_LANE_STRAIGHT :: u8 where [lane_codes]: "OEM_LANE_STRAIGHT = 1"
definition OEM_LANE_SLIGHT_RIGHT :: u8 where [lane_codes]: "OEM_LANE_SLIGHT_RIGHT = 2"
definition OEM_LANE_RIGHT :: u8 where [lane_codes]: "OEM_LANE_RIGHT = 3"
definition OEM_LANE_SHARP_RIGHT :: u8 where [lane_codes]: "OEM_LANE_SHARP_RIGHT = 4"
definition OEM_LANE_SLIGHT_LEFT :: u8 where [lane_codes]: "OEM_LANE_SLIGHT_LEFT = 5"
definition OEM_LANE_LEFT :: u8 where [lane_codes]: "OEM_LANE_LEFT = 6"
definition OEM_LANE_SHARP_LEFT :: u8 where [lane_codes]: "OEM_LANE_SHARP_LEFT = 7"
definition OEM_LANE_COMBO_STRAIGHT_SLIGHT_R :: u8 where [lane_codes]: "OEM_LANE_COMBO_STRAIGHT_SLIGHT_R = 8"
definition OEM_LANE_COMBO_STRAIGHT_SLIGHT_L :: u8 where [lane_codes]: "OEM_LANE_COMBO_STRAIGHT_SLIGHT_L = 9"
definition OEM_LANE_COMBO_SLIGHT_L_S_SLIGHT_R :: u8 where [lane_codes]: "OEM_LANE_COMBO_SLIGHT_L_S_SLIGHT_R = 10"
definition OEM_LANE_COMBO_STRAIGHT_RIGHT :: u8 where [lane_codes]: "OEM_LANE_COMBO_STRAIGHT_RIGHT = 11"
definition OEM_LANE_COMBO_STRAIGHT_LEFT :: u8 where [lane_codes]: "OEM_LANE_COMBO_STRAIGHT_LEFT = 12"
definition OEM_LANE_COMBO_LEFT_STRAIGHT_RIGHT :: u8 where [lane_codes]: "OEM_LANE_COMBO_LEFT_STRAIGHT_RIGHT = 13"
definition OEM_LANE_COMBO_SLIGHT_R_SHARP_R :: u8 where [lane_codes]: "OEM_LANE_COMBO_SLIGHT_R_SHARP_R = 14"
definition OEM_LANE_COMBO_SLIGHT_L_SHARP_L :: u8 where [lane_codes]: "OEM_LANE_COMBO_SLIGHT_L_SHARP_L = 15"
definition OEM_LANE_COMBO_FORK :: u8 where [lane_codes]: "OEM_LANE_COMBO_FORK = 16"
definition OEM_LANE_COMBO_17_ALIAS_11 :: u8 where [lane_codes]: "OEM_LANE_COMBO_17_ALIAS_11 = 17"
definition OEM_LANE_COMBO_18_ALIAS_12 :: u8 where [lane_codes]: "OEM_LANE_COMBO_18_ALIAS_12 = 18"
definition OEM_LANE_COMBO_LEFT_RIGHT_T :: u8 where [lane_codes]: "OEM_LANE_COMBO_LEFT_RIGHT_T = 19"
definition OEM_LANE_HOV :: u8 where [lane_codes]: "OEM_LANE_HOV = 20"
definition OEM_LANE_BUS :: u8 where [lane_codes]: "OEM_LANE_BUS = 21"
definition OEM_LANE_TAXI :: u8 where [lane_codes]: "OEM_LANE_TAXI = 22"
definition OEM_LANE_REC_C8_STRAIGHT :: u8 where [lane_codes]: "OEM_LANE_REC_C8_STRAIGHT = 23"
definition OEM_LANE_REC_C8_SLIGHT_R :: u8 where [lane_codes]: "OEM_LANE_REC_C8_SLIGHT_R = 24"
definition OEM_LANE_REC_C9_STRAIGHT :: u8 where [lane_codes]: "OEM_LANE_REC_C9_STRAIGHT = 25"
definition OEM_LANE_REC_C9_SLIGHT_L :: u8 where [lane_codes]: "OEM_LANE_REC_C9_SLIGHT_L = 26"
definition OEM_LANE_REC_C10_STRAIGHT :: u8 where [lane_codes]: "OEM_LANE_REC_C10_STRAIGHT = 27"
definition OEM_LANE_REC_C10_SLIGHT_L :: u8 where [lane_codes]: "OEM_LANE_REC_C10_SLIGHT_L = 28"
definition OEM_LANE_REC_C10_SLIGHT_R :: u8 where [lane_codes]: "OEM_LANE_REC_C10_SLIGHT_R = 29"
definition OEM_LANE_REC_C11_STRAIGHT :: u8 where [lane_codes]: "OEM_LANE_REC_C11_STRAIGHT = 30"
definition OEM_LANE_REC_C11_RIGHT :: u8 where [lane_codes]: "OEM_LANE_REC_C11_RIGHT = 31"
definition OEM_LANE_REC_C12_STRAIGHT :: u8 where [lane_codes]: "OEM_LANE_REC_C12_STRAIGHT = 32"
definition OEM_LANE_REC_C12_LEFT :: u8 where [lane_codes]: "OEM_LANE_REC_C12_LEFT = 33"
definition OEM_LANE_REC_C13_STRAIGHT :: u8 where [lane_codes]: "OEM_LANE_REC_C13_STRAIGHT = 34"
definition OEM_LANE_REC_C13_LEFT :: u8 where [lane_codes]: "OEM_LANE_REC_C13_LEFT = 35"
definition OEM_LANE_REC_C13_RIGHT :: u8 where [lane_codes]: "OEM_LANE_REC_C13_RIGHT = 36"
definition OEM_LANE_REC_C14_SLIGHT_R :: u8 where [lane_codes]: "OEM_LANE_REC_C14_SLIGHT_R = 37"
definition OEM_LANE_REC_C14_SHARP_R :: u8 where [lane_codes]: "OEM_LANE_REC_C14_SHARP_R = 38"
definition OEM_LANE_REC_C15_SLIGHT_L :: u8 where [lane_codes]: "OEM_LANE_REC_C15_SLIGHT_L = 39"
definition OEM_LANE_REC_C15_SHARP_L :: u8 where [lane_codes]: "OEM_LANE_REC_C15_SHARP_L = 40"
definition OEM_LANE_REC_C16_SLIGHT_L :: u8 where [lane_codes]: "OEM_LANE_REC_C16_SLIGHT_L = 41"
definition OEM_LANE_REC_C16_SLIGHT_R :: u8 where [lane_codes]: "OEM_LANE_REC_C16_SLIGHT_R = 42"
definition OEM_LANE_REC_43_ALIAS_30 :: u8 where [lane_codes]: "OEM_LANE_REC_43_ALIAS_30 = 43"
definition OEM_LANE_REC_44_ALIAS_31 :: u8 where [lane_codes]: "OEM_LANE_REC_44_ALIAS_31 = 44"
definition OEM_LANE_REC_45_ALIAS_32 :: u8 where [lane_codes]: "OEM_LANE_REC_45_ALIAS_32 = 45"
definition OEM_LANE_REC_46_ALIAS_33 :: u8 where [lane_codes]: "OEM_LANE_REC_46_ALIAS_33 = 46"
definition OEM_LANE_REC_C19_LEFT :: u8 where [lane_codes]: "OEM_LANE_REC_C19_LEFT = 47"
definition OEM_LANE_REC_C19_RIGHT :: u8 where [lane_codes]: "OEM_LANE_REC_C19_RIGHT = 48"
definition OEM_LANE_NR_STRAIGHT :: u8 where [lane_codes]: "OEM_LANE_NR_STRAIGHT = 49"
definition OEM_LANE_NR_SLIGHT_RIGHT :: u8 where [lane_codes]: "OEM_LANE_NR_SLIGHT_RIGHT = 50"
definition OEM_LANE_NR_RIGHT :: u8 where [lane_codes]: "OEM_LANE_NR_RIGHT = 51"
definition OEM_LANE_NR_SHARP_RIGHT :: u8 where [lane_codes]: "OEM_LANE_NR_SHARP_RIGHT = 52"
definition OEM_LANE_NR_SLIGHT_LEFT :: u8 where [lane_codes]: "OEM_LANE_NR_SLIGHT_LEFT = 53"
definition OEM_LANE_NR_LEFT :: u8 where [lane_codes]: "OEM_LANE_NR_LEFT = 54"
definition OEM_LANE_NR_SHARP_LEFT :: u8 where [lane_codes]: "OEM_LANE_NR_SHARP_LEFT = 55"
definition OEM_LANE_NR_COMBO_STRAIGHT_SLIGHT_R :: u8 where [lane_codes]: "OEM_LANE_NR_COMBO_STRAIGHT_SLIGHT_R = 56"
definition OEM_LANE_NR_COMBO_STRAIGHT_SLIGHT_L :: u8 where [lane_codes]: "OEM_LANE_NR_COMBO_STRAIGHT_SLIGHT_L = 57"
definition OEM_LANE_NR_COMBO_SLIGHT_L_S_SLIGHT_R :: u8 where [lane_codes]: "OEM_LANE_NR_COMBO_SLIGHT_L_S_SLIGHT_R = 58"
definition OEM_LANE_NR_COMBO_STRAIGHT_RIGHT :: u8 where [lane_codes]: "OEM_LANE_NR_COMBO_STRAIGHT_RIGHT = 59"
definition OEM_LANE_NR_COMBO_STRAIGHT_LEFT :: u8 where [lane_codes]: "OEM_LANE_NR_COMBO_STRAIGHT_LEFT = 60"
definition OEM_LANE_NR_COMBO_LEFT_STRAIGHT_RIGHT :: u8 where [lane_codes]: "OEM_LANE_NR_COMBO_LEFT_STRAIGHT_RIGHT = 61"
definition OEM_LANE_NR_COMBO_SLIGHT_R_SHARP_R :: u8 where [lane_codes]: "OEM_LANE_NR_COMBO_SLIGHT_R_SHARP_R = 62"
definition OEM_LANE_NR_COMBO_SLIGHT_L_SHARP_L :: u8 where [lane_codes]: "OEM_LANE_NR_COMBO_SLIGHT_L_SHARP_L = 63"
definition OEM_LANE_NR_COMBO_FORK :: u8 where [lane_codes]: "OEM_LANE_NR_COMBO_FORK = 64"
definition OEM_LANE_NR_COMBO_17_ALIAS_11 :: u8 where [lane_codes]: "OEM_LANE_NR_COMBO_17_ALIAS_11 = 65"
definition OEM_LANE_NR_COMBO_18_ALIAS_12 :: u8 where [lane_codes]: "OEM_LANE_NR_COMBO_18_ALIAS_12 = 66"
definition OEM_LANE_NR_COMBO_LEFT_RIGHT_T :: u8 where [lane_codes]: "OEM_LANE_NR_COMBO_LEFT_RIGHT_T = 67"
definition OEM_LANE_NR_HOV :: u8 where [lane_codes]: "OEM_LANE_NR_HOV = 68"
definition OEM_LANE_NR_BUS :: u8 where [lane_codes]: "OEM_LANE_NR_BUS = 69"
definition OEM_LANE_NR_TAXI :: u8 where [lane_codes]: "OEM_LANE_NR_TAXI = 70"

definition OD_STRAIGHT :: u32 where [lane_codes]: "OD_STRAIGHT = 1"
definition OD_SLIGHT_R :: u32 where [lane_codes]: "OD_SLIGHT_R = 2"
definition OD_RIGHT :: u32 where [lane_codes]: "OD_RIGHT = 4"
definition OD_SHARP_R :: u32 where [lane_codes]: "OD_SHARP_R = 8"
definition OD_SLIGHT_L :: u32 where [lane_codes]: "OD_SLIGHT_L = 16"
definition OD_LEFT :: u32 where [lane_codes]: "OD_LEFT = 32"
definition OD_SHARP_L :: u32 where [lane_codes]: "OD_SHARP_L = 64"

section \<open>Android Auto lane to OEM code\<close>

definition aa_shape_to_oem_dir :: "u8 \<Rightarrow> u32" where
  "aa_shape_to_oem_dir shape =
     (if shape = AA_SHAPE_STRAIGHT then OD_STRAIGHT
      else if shape = AA_SHAPE_SLIGHT_RIGHT then OD_SLIGHT_R
      else if shape = AA_SHAPE_NORMAL_RIGHT then OD_RIGHT
      else if shape = AA_SHAPE_SHARP_RIGHT then OD_SHARP_R
      else if shape = AA_SHAPE_U_TURN_RIGHT then OD_SHARP_R
      else if shape = AA_SHAPE_SLIGHT_LEFT then OD_SLIGHT_L
      else if shape = AA_SHAPE_NORMAL_LEFT then OD_LEFT
      else if shape = AA_SHAPE_SHARP_LEFT then OD_SHARP_L
      else if shape = AA_SHAPE_U_TURN_LEFT then OD_SHARP_L
      else OD_STRAIGHT)"

definition OEM_LANE_NONREC_OFFSET :: u8 where
  [lane_codes]: "OEM_LANE_NONREC_OFFSET = 48"

definition oem_base_code_for_dirs :: "u32 \<Rightarrow> u8" where
  "oem_base_code_for_dirs d =
     (if d = OD_STRAIGHT then OEM_LANE_STRAIGHT
      else if d = OD_SLIGHT_R then OEM_LANE_SLIGHT_RIGHT
      else if d = OD_RIGHT then OEM_LANE_RIGHT
      else if d = OD_SHARP_R then OEM_LANE_SHARP_RIGHT
      else if d = OD_SLIGHT_L then OEM_LANE_SLIGHT_LEFT
      else if d = OD_LEFT then OEM_LANE_LEFT
      else if d = OD_SHARP_L then OEM_LANE_SHARP_LEFT
      else if d = (OD_STRAIGHT OR OD_SLIGHT_R) then OEM_LANE_COMBO_STRAIGHT_SLIGHT_R
      else if d = (OD_STRAIGHT OR OD_SLIGHT_L) then OEM_LANE_COMBO_STRAIGHT_SLIGHT_L
      else if d = (OD_SLIGHT_L OR OD_STRAIGHT OR OD_SLIGHT_R)
        then OEM_LANE_COMBO_SLIGHT_L_S_SLIGHT_R
      else if d = (OD_STRAIGHT OR OD_RIGHT) then OEM_LANE_COMBO_STRAIGHT_RIGHT
      else if d = (OD_STRAIGHT OR OD_LEFT) then OEM_LANE_COMBO_STRAIGHT_LEFT
      else if d = (OD_LEFT OR OD_STRAIGHT OR OD_RIGHT) then OEM_LANE_COMBO_LEFT_STRAIGHT_RIGHT
      else if d = (OD_SLIGHT_R OR OD_SHARP_R) then OEM_LANE_COMBO_SLIGHT_R_SHARP_R
      else if d = (OD_SLIGHT_L OR OD_SHARP_L) then OEM_LANE_COMBO_SLIGHT_L_SHARP_L
      else if d = (OD_SLIGHT_L OR OD_SLIGHT_R) then OEM_LANE_COMBO_FORK
      else if d = (OD_LEFT OR OD_RIGHT) then OEM_LANE_COMBO_LEFT_RIGHT_T
      else OEM_LANE_NONE)"

definition oem_detail_code :: "u8 \<Rightarrow> u32 \<Rightarrow> u8" where
  "oem_detail_code base hl =
     (if base = OEM_LANE_COMBO_STRAIGHT_SLIGHT_R then
        (if hl = OD_STRAIGHT then OEM_LANE_REC_C8_STRAIGHT
         else if hl = OD_SLIGHT_R then OEM_LANE_REC_C8_SLIGHT_R else OEM_LANE_NONE)
      else if base = OEM_LANE_COMBO_STRAIGHT_SLIGHT_L then
        (if hl = OD_STRAIGHT then OEM_LANE_REC_C9_STRAIGHT
         else if hl = OD_SLIGHT_L then OEM_LANE_REC_C9_SLIGHT_L else OEM_LANE_NONE)
      else if base = OEM_LANE_COMBO_SLIGHT_L_S_SLIGHT_R then
        (if hl = OD_STRAIGHT then OEM_LANE_REC_C10_STRAIGHT
         else if hl = OD_SLIGHT_L then OEM_LANE_REC_C10_SLIGHT_L
         else if hl = OD_SLIGHT_R then OEM_LANE_REC_C10_SLIGHT_R else OEM_LANE_NONE)
      else if base = OEM_LANE_COMBO_STRAIGHT_RIGHT then
        (if hl = OD_STRAIGHT then OEM_LANE_REC_C11_STRAIGHT
         else if hl = OD_RIGHT then OEM_LANE_REC_C11_RIGHT else OEM_LANE_NONE)
      else if base = OEM_LANE_COMBO_STRAIGHT_LEFT then
        (if hl = OD_STRAIGHT then OEM_LANE_REC_C12_STRAIGHT
         else if hl = OD_LEFT then OEM_LANE_REC_C12_LEFT else OEM_LANE_NONE)
      else if base = OEM_LANE_COMBO_LEFT_STRAIGHT_RIGHT then
        (if hl = OD_STRAIGHT then OEM_LANE_REC_C13_STRAIGHT
         else if hl = OD_LEFT then OEM_LANE_REC_C13_LEFT
         else if hl = OD_RIGHT then OEM_LANE_REC_C13_RIGHT else OEM_LANE_NONE)
      else if base = OEM_LANE_COMBO_SLIGHT_R_SHARP_R then
        (if hl = OD_SLIGHT_R then OEM_LANE_REC_C14_SLIGHT_R
         else if hl = OD_SHARP_R then OEM_LANE_REC_C14_SHARP_R else OEM_LANE_NONE)
      else if base = OEM_LANE_COMBO_SLIGHT_L_SHARP_L then
        (if hl = OD_SLIGHT_L then OEM_LANE_REC_C15_SLIGHT_L
         else if hl = OD_SHARP_L then OEM_LANE_REC_C15_SHARP_L else OEM_LANE_NONE)
      else if base = OEM_LANE_COMBO_FORK then
        (if hl = OD_SLIGHT_L then OEM_LANE_REC_C16_SLIGHT_L
         else if hl = OD_SLIGHT_R then OEM_LANE_REC_C16_SLIGHT_R else OEM_LANE_NONE)
      else if base = OEM_LANE_COMBO_LEFT_RIGHT_T then
        (if hl = OD_LEFT then OEM_LANE_REC_C19_LEFT
         else if hl = OD_RIGHT then OEM_LANE_REC_C19_RIGHT else OEM_LANE_NONE)
      else OEM_LANE_NONE)"

text \<open>The loop over the ten shapes: present and highlighted direction bits.\<close>

definition lane_dir_masks :: "u16 \<Rightarrow> u16 \<Rightarrow> u32 \<times> u32" where
  "lane_dir_masks present_shapes highlight_shapes =
     foldl (\<lambda>(present, hl) s.
         let bit = push_bit s (1 :: u16);
             dir = aa_shape_to_oem_dir (of_nat s)
         in (if present_shapes AND bit \<noteq> 0 then present OR dir else present,
             if highlight_shapes AND bit \<noteq> 0 then hl OR dir else hl))
       (0, 0) [0..<10]"

text \<open>The part of \<open>oem_lane_code_for_aa\<close> after the loop.\<close>

definition lane_code_of_dirs :: "u32 \<Rightarrow> u32 \<Rightarrow> u8" where
  "lane_code_of_dirs present hl =
     (if present = 0 then OEM_LANE_NONE
      else
        let rec = (hl \<noteq> 0);
            base = oem_base_code_for_dirs present;
            one_hl = (hl \<noteq> 0 \<and> hl AND (hl - 1) = 0);
            d = oem_detail_code base hl
        in if rec \<and> one_hl \<and> d \<noteq> OEM_LANE_NONE then d
           else
             let base' =
               (if base = OEM_LANE_NONE then
                  let pick = (if one_hl then hl else present AND (0 - present));
                      b = oem_base_code_for_dirs pick
                  in if b = OEM_LANE_NONE then OEM_LANE_STRAIGHT else b
                else base)
             in if rec then base' else base' + OEM_LANE_NONREC_OFFSET)"

definition oem_lane_code_for_aa :: "u16 \<Rightarrow> u16 \<Rightarrow> u8" where
  "oem_lane_code_for_aa present_shapes highlight_shapes =
     (case lane_dir_masks present_shapes highlight_shapes of
        (present, hl) \<Rightarrow> lane_code_of_dirs present hl)"

section \<open>OEM code to cluster glyph\<close>

datatype oem_lane_table = OEM_LANE_TABLE_A | OEM_LANE_TABLE_B

definition lane_glyphs_A :: "u8 list" where
  "lane_glyphs_A =
    [ 0, 1, 2, 2, 3, 4, 4, 5, 1, 1, 1, 1,
      1, 1, 1, 1, 1, 1, 1, 1,19,20,21, 6,
      7, 8, 9,10,11,12, 6, 7, 8, 9,10,15,
     13,13,14,15,16,17,18, 6, 7, 8, 9, 9,
      7,22,23,23,24,25,25,26,27,28,29,27,
     28,29,30,31,32,30,31,32,33,34,35]"

definition lane_glyphs_B :: "u8 list" where
  "lane_glyphs_B =
    [ 0, 1, 2,46, 3, 4,47, 5,40,43,36,41,
     44,37,42,45,38,41,44,39,19,20,21, 6,
      7, 8, 9,10,11,12,48,49,51,52,54,56,
     55,13,14,15,16,17,18,48,49,51,52,53,
     50,22,23,57,24,25,58,26,27,28,29,59,
     60,61,30,31,32,59,60,62,33,34,35]"

definition oem_lane_glyph :: "u8 \<Rightarrow> oem_lane_table \<Rightarrow> u8" where
  "oem_lane_glyph code table =
     (if code > 70 then 0
      else if table = OEM_LANE_TABLE_B then lane_glyphs_B ! unat code
      else lane_glyphs_A ! unat code)"

section \<open>What a code means\<close>

text \<open>
  From the enumerators' comments: the directions arrow number 0 to 19 draws, and for the
  finer codes 23 to 48 the combination and the direction singled out in it.  Codes 49 to 70
  draw the arrow 48 below.
\<close>

definition arrow_dirs :: "u8 \<Rightarrow> u32" where
  "arrow_dirs c =
     (if c \<le> 19 then
        [0, OD_STRAIGHT, OD_SLIGHT_R, OD_RIGHT, OD_SHARP_R, OD_SLIGHT_L, OD_LEFT, OD_SHARP_L,
         OD_STRAIGHT OR OD_SLIGHT_R, OD_STRAIGHT OR OD_SLIGHT_L,
         OD_SLIGHT_L OR OD_STRAIGHT OR OD_SLIGHT_R, OD_STRAIGHT OR OD_RIGHT,
         OD_STRAIGHT OR OD_LEFT, OD_LEFT OR OD_STRAIGHT OR OD_RIGHT, OD_SLIGHT_R OR OD_SHARP_R,
         OD_SLIGHT_L OR OD_SHARP_L, OD_SLIGHT_L OR OD_SLIGHT_R, OD_STRAIGHT OR OD_RIGHT,
         OD_STRAIGHT OR OD_LEFT, OD_LEFT OR OD_RIGHT] ! unat c
      else 0)"

definition detail_of :: "u8 \<Rightarrow> u8 \<times> u32" where
  "detail_of c =
     (if 23 \<le> c \<and> c \<le> 48 then
        [(8, OD_STRAIGHT), (8, OD_SLIGHT_R), (9, OD_STRAIGHT), (9, OD_SLIGHT_L),
         (10, OD_STRAIGHT), (10, OD_SLIGHT_L), (10, OD_SLIGHT_R), (11, OD_STRAIGHT),
         (11, OD_RIGHT), (12, OD_STRAIGHT), (12, OD_LEFT), (13, OD_STRAIGHT), (13, OD_LEFT),
         (13, OD_RIGHT), (14, OD_SLIGHT_R), (14, OD_SHARP_R), (15, OD_SLIGHT_L),
         (15, OD_SHARP_L), (16, OD_SLIGHT_L), (16, OD_SLIGHT_R), (11, OD_STRAIGHT),
         (11, OD_RIGHT), (12, OD_STRAIGHT), (12, OD_LEFT), (19, OD_LEFT), (19, OD_RIGHT)]
          ! unat (c - 23)
      else (0, 0))"

definition code_recommended :: "u8 \<Rightarrow> bool" where
  "code_recommended c \<longleftrightarrow> 1 \<le> c \<and> c \<le> 48"

definition code_dirs :: "u8 \<Rightarrow> u32" where
  "code_dirs c =
     (if c \<le> 19 then arrow_dirs c
      else if 23 \<le> c \<and> c \<le> 48 then arrow_dirs (fst (detail_of c))
      else if 49 \<le> c then arrow_dirs (c - 48) else 0)"

definition code_pick :: "u8 \<Rightarrow> u32" where
  "code_pick c = snd (detail_of c)"

section \<open>The loop yields sets of the seven directions\<close>

definition dir_set :: "u32 \<Rightarrow> bool" where
  "dir_set d \<longleftrightarrow> take_bit 7 d = d"

lemma dir_set_or: "dir_set a \<Longrightarrow> dir_set b \<Longrightarrow> dir_set (a OR b)"
  by (simp add: dir_set_def take_bit_or)

lemma dir_set_0: "dir_set 0"
  by (simp add: dir_set_def)

lemma dir_set_shape: "dir_set (aa_shape_to_oem_dir s)"
  unfolding aa_shape_to_oem_dir_def dir_set_def lane_codes by simp

lemma dir_set_foldl:
  assumes "dir_set (fst acc)" "dir_set (snd acc)"
  shows "dir_set (fst (foldl (\<lambda>(present, hl) s.
             (if P s then present OR aa_shape_to_oem_dir (g s) else present,
              if Q s then hl OR aa_shape_to_oem_dir (g s) else hl)) acc xs)) \<and>
         dir_set (snd (foldl (\<lambda>(present, hl) s.
             (if P s then present OR aa_shape_to_oem_dir (g s) else present,
              if Q s then hl OR aa_shape_to_oem_dir (g s) else hl)) acc xs))"
  using assms
  by (induction xs arbitrary: acc) (auto simp: dir_set_or dir_set_shape split: prod.splits)

lemma lane_dir_masks_dir_set:
  "lane_dir_masks p h = (pres, hi) \<Longrightarrow> dir_set pres \<and> dir_set hi"
  using dir_set_foldl [of "(0, 0)" "\<lambda>s. p AND push_bit s 1 \<noteq> 0" "of_nat"
      "\<lambda>s. h AND push_bit s 1 \<noteq> 0" "[0..<10]"]
  by (simp add: lane_dir_masks_def Let_def dir_set_0)

text \<open>The 128 direction sets, for facts decided by evaluation.\<close>

definition all_dir_sets :: "u32 list" where
  "all_dir_sets = [0, 1, 2, 3, 4, 5, 6, 7, 8, 9, 10, 11, 12, 13, 14, 15, 16, 17, 18, 19, 20, 21, 22, 23,
     24, 25, 26, 27, 28, 29, 30, 31, 32, 33, 34, 35, 36, 37, 38, 39, 40, 41, 42, 43, 44, 45, 46, 47,
     48, 49, 50, 51, 52, 53, 54, 55, 56, 57, 58, 59, 60, 61, 62, 63, 64, 65, 66, 67, 68, 69, 70, 71,
     72, 73, 74, 75, 76, 77, 78, 79, 80, 81, 82, 83, 84, 85, 86, 87, 88, 89, 90, 91, 92, 93, 94, 95,
     96, 97, 98, 99, 100, 101, 102, 103, 104, 105, 106, 107, 108, 109, 110, 111, 112, 113, 114, 115, 116, 117,
     118, 119, 120, 121, 122, 123, 124, 125, 126, 127]"

lemma dir_set_enum: "dir_set d \<Longrightarrow> d \<in> set all_dir_sets"
proof -
  assume "dir_set d"
  then have "unat (take_bit 7 d) = unat d" by (simp add: dir_set_def)
  then have "take_bit 7 (unat d) = unat d" by (simp add: unsigned_take_bit_eq)
  then have "unat d < 128"
    using take_bit_nat_less_exp [of 7 "unat d"] by simp
  then have "d = of_nat (unat d)" "unat d \<in> set [0..<128]" by simp_all
  moreover have "map of_nat [0..<128] = all_dir_sets"
    unfolding all_dir_sets_def by (simp add: upt_rec)
  ultimately show ?thesis by (metis image_eqI list.set_map)
qed

lemma base_code_meaning:
  "oem_base_code_for_dirs d \<noteq> 0 \<Longrightarrow>
     arrow_dirs (oem_base_code_for_dirs d) = d \<and>
     1 \<le> oem_base_code_for_dirs d \<and> oem_base_code_for_dirs d \<le> 19"
  unfolding oem_base_code_for_dirs_def lane_codes
  by (simp add: arrow_dirs_def lane_codes split: if_splits)

definition single_dirs :: "u32 list" where
  "single_dirs = [1, 2, 4, 8, 16, 32, 64]"

lemma lowest_bit_all: "\<forall>d \<in> set all_dir_sets. d \<noteq> 0 \<longrightarrow> d AND (0 - d) \<in> set single_dirs"
  by code_simp

lemma single_bit_all:
  "\<forall>d \<in> set all_dir_sets. d \<noteq> 0 \<and> d AND (d - 1) = 0 \<longrightarrow> d \<in> set single_dirs"
  by code_simp

lemma single_base: "d \<in> set single_dirs \<Longrightarrow> oem_base_code_for_dirs d \<noteq> 0"
  unfolding single_dirs_def oem_base_code_for_dirs_def lane_codes by auto

text \<open>The single arrow the code falls back to is one of the seven directions.\<close>

definition fallback_dir :: "u32 \<Rightarrow> u32 \<Rightarrow> u32" where
  "fallback_dir present hl =
     (if hl \<noteq> 0 \<and> hl AND (hl - 1) = 0 then hl else present AND (0 - present))"

lemma fallback_dir_base:
  assumes "dir_set present" "dir_set hl" "present \<noteq> 0"
  shows "oem_base_code_for_dirs (fallback_dir present hl) \<noteq> 0"
proof -
  have "fallback_dir present hl \<in> set single_dirs"
    using assms dir_set_enum lowest_bit_all single_bit_all by (simp add: fallback_dir_def)
  then show ?thesis by (rule single_base)
qed

lemma detail_code_combo:
  "oem_detail_code base hl \<noteq> 0 \<Longrightarrow> base \<in> {8, 9, 10, 11, 12, 13, 14, 15, 16, 19}"
  by (rule ccontr) (simp add: oem_detail_code_def lane_codes)

lemma detail_code_meaning:
  assumes "oem_detail_code base hl \<noteq> 0"
  shows "detail_of (oem_detail_code base hl) = (base, hl) \<and>
     23 \<le> oem_detail_code base hl \<and> oem_detail_code base hl \<le> 48"
  using detail_code_combo [OF assms] assms
  by (elim insertE emptyE)
    (simp_all add: oem_detail_code_def detail_of_def lane_codes split: if_splits)

text \<open>
  The function after the loop, by cases: a finer code, the base code, or the fallback
  arrow; the greyed code is 48 above.
\<close>

lemma lane_code_cases:
  assumes "present \<noteq> 0" "dir_set present" "dir_set hl"
  defines "b \<equiv> oem_base_code_for_dirs present"
  defines "arrow \<equiv> (if b \<noteq> 0 then b else oem_base_code_for_dirs (fallback_dir present hl))"
  shows "arrow \<noteq> 0"
    and "lane_code_of_dirs present hl =
      (if hl = 0 then arrow + 48
       else if hl AND (hl - 1) = 0 \<and> oem_detail_code b hl \<noteq> 0 then oem_detail_code b hl
       else arrow)"
proof -
  show nz: "arrow \<noteq> 0"
    using assms fallback_dir_base by (simp add: arrow_def)
  show "lane_code_of_dirs present hl =
      (if hl = 0 then arrow + 48
       else if hl AND (hl - 1) = 0 \<and> oem_detail_code b hl \<noteq> 0 then oem_detail_code b hl
       else arrow)"
    using nz assms(1) unfolding arrow_def b_def lane_code_of_dirs_def fallback_dir_def Let_def
    by (auto simp: OEM_LANE_NONE_def OEM_LANE_STRAIGHT_def OEM_LANE_NONREC_OFFSET_def
        split: if_splits)
qed

lemma arrow_range:
  assumes "present \<noteq> 0" "dir_set present" "dir_set hl"
  defines "b \<equiv> oem_base_code_for_dirs present"
  defines "arrow \<equiv> (if b \<noteq> 0 then b else oem_base_code_for_dirs (fallback_dir present hl))"
  shows "1 \<le> arrow \<and> arrow \<le> 19 \<and>
    arrow_dirs arrow = (if b \<noteq> 0 then present else fallback_dir present hl)"
  using lane_code_cases(1) [OF assms(1-3)] base_code_meaning
  by (auto simp: arrow_def b_def)

lemma code_plus_48:
  assumes "1 \<le> (c :: u8)" "c \<le> 19"
  shows "49 \<le> c + 48 \<and> c + 48 \<le> 67 \<and> (c + 48) - 48 = c"
proof -
  have "unat (c + 48) = unat c + 48"
    using assms by (subst unat_add_lem [THEN iffD1]) (auto simp: word_le_nat_alt)
  with assms show ?thesis by (simp add: word_le_nat_alt)
qed

section \<open>The lane translation against the meaning of its codes\<close>

lemma code_dirs_arrow: "c \<le> 19 \<Longrightarrow> code_dirs c = arrow_dirs c"
  by (simp add: code_dirs_def)

lemma code_dirs_grey:
  assumes "1 \<le> c" "c \<le> 19"
  shows "code_dirs (c + 48) = arrow_dirs c"
  using code_plus_48 [OF assms] unfolding code_dirs_def
  by (auto simp: word_le_nat_alt)

lemma code_pick_outside: "c \<le> 22 \<or> 49 \<le> c \<Longrightarrow> code_pick c = 0"
  unfolding code_pick_def detail_of_def by (auto simp: word_le_nat_alt)

lemma code_dirs_detail: "23 \<le> c \<Longrightarrow> c \<le> 48 \<Longrightarrow> code_dirs c = arrow_dirs (fst (detail_of c))"
  by (auto simp: code_dirs_def word_le_nat_alt)

text \<open>
  C27.  For every lane that carries at least one arrow, the code sent to the head unit is
  drawn as recommended exactly when some arrow of the lane is highlighted; it draws exactly
  the lane's directions when they form a known combination, and otherwise the single
  highlighted direction (or the first one present); and when the code singles out one
  direction, it is the one the phone highlighted.
\<close>

theorem lane_code_meaning:
  assumes "lane_dir_masks p h = (pres, hi)" and "pres \<noteq> 0"
  defines "c \<equiv> oem_lane_code_for_aa p h"
  shows "(code_recommended c \<longleftrightarrow> hi \<noteq> 0) \<and>
    code_dirs c = (if oem_base_code_for_dirs pres \<noteq> 0 then pres else fallback_dir pres hi) \<and>
    (code_pick c \<noteq> 0 \<longrightarrow> code_pick c = hi)"
proof -
  let ?b = "oem_base_code_for_dirs pres"
  let ?arrow = "if ?b \<noteq> 0 then ?b else oem_base_code_for_dirs (fallback_dir pres hi)"
  have ds: "dir_set pres" "dir_set hi"
    using lane_dir_masks_dir_set assms(1) by blast+
  have c: "c = lane_code_of_dirs pres hi"
    by (simp add: c_def oem_lane_code_for_aa_def assms(1))
  note cases = lane_code_cases(2) [OF assms(2) ds]
  note arrow = arrow_range [OF assms(2) ds]
  consider (grey) "hi = 0" "c = ?arrow + 48"
    | (detail) "hi \<noteq> 0" "c = oem_detail_code ?b hi" "oem_detail_code ?b hi \<noteq> 0"
    | (plain) "hi \<noteq> 0" "c = ?arrow"
    using cases c by (auto split: if_splits)
  then show ?thesis
  proof cases
    case grey
    moreover have "49 \<le> c" "c \<le> 67" using grey code_plus_48 arrow by auto
    ultimately show ?thesis
      using arrow code_dirs_grey [of ?arrow] code_pick_outside [of c]
      by (auto simp: code_recommended_def word_le_nat_alt)
  next
    case detail
    have "detail_of c = (?b, hi)" "23 \<le> c" "c \<le> 48"
      using detail_code_meaning [OF detail(3)] detail(2) by simp_all
    moreover have "?b \<noteq> 0" using detail_code_combo [OF detail(3)] by auto
    ultimately show ?thesis
      using detail(1) arrow by (auto simp: code_dirs_detail code_pick_def code_recommended_def
          word_le_nat_alt)
  next
    case plain
    then have "c \<le> 22" using arrow by (auto simp: word_le_nat_alt)
    with plain show ?thesis
      using arrow by (auto simp: code_dirs_arrow code_pick_outside code_recommended_def
          word_le_nat_alt)
  qed
qed

theorem lane_code_meaning_witness:
  "code_recommended (oem_lane_code_for_aa 0x22 0x20) \<and>
   code_pick (oem_lane_code_for_aa 0x22 0x20) = OD_RIGHT"
proof -
  have m: "lane_dir_masks 0x22 0x20 = (5, 4)"
    unfolding lane_dir_masks_def aa_shape_to_oem_dir_def lane_codes by (simp add: upt_rec)
  have "oem_lane_code_for_aa 0x22 0x20 = 31"
    unfolding oem_lane_code_for_aa_def m lane_code_of_dirs_def oem_base_code_for_dirs_def
      oem_detail_code_def lane_codes by simp
  then have "code_pick (oem_lane_code_for_aa 0x22 0x20) \<noteq> 0"
    by (simp add: code_pick_def detail_of_def lane_codes)
  then show ?thesis
    using lane_code_meaning [OF m] by (simp add: lane_codes)
qed

lemma length_lane_glyphs: "length lane_glyphs_A = 71" "length lane_glyphs_B = 71"
  by (simp_all add: lane_glyphs_A_def lane_glyphs_B_def)

text \<open>
  Whatever masks arrive, the code lies in 0..67 and is 0 exactly for a lane with no
  arrows, so the glyph tables are never indexed out of range for it; the special-lane codes
  20 to 22 are never produced.
\<close>

theorem lane_code_bounds:
  "oem_lane_code_for_aa p h \<le> 67 \<and>
   (oem_lane_code_for_aa p h = 0 \<longleftrightarrow> fst (lane_dir_masks p h) = 0) \<and>
   oem_lane_code_for_aa p h \<notin> {20, 21, 22} \<and>
   unat (oem_lane_code_for_aa p h) < length lane_glyphs_A \<and>
   unat (oem_lane_code_for_aa p h) < length lane_glyphs_B"
proof -
  obtain pres hi where m: "lane_dir_masks p h = (pres, hi)" by fastforce
  show ?thesis
  proof (cases "pres = 0")
    case True
    then have "oem_lane_code_for_aa p h = 0"
      by (simp add: oem_lane_code_for_aa_def m lane_code_of_dirs_def OEM_LANE_NONE_def)
    then show ?thesis by (simp add: m True length_lane_glyphs)
  next
    case False
    let ?c = "oem_lane_code_for_aa p h"
    have ds: "dir_set pres" "dir_set hi" using lane_dir_masks_dir_set m by blast+
    have "?c \<in> {1..19} \<or> ?c \<in> {23..48} \<or> ?c \<in> {49..67}"
      using lane_code_cases(2) [OF False ds] arrow_range [OF False ds]
        detail_code_meaning [of "oem_base_code_for_dirs pres" hi] code_plus_48
      by (auto simp: oem_lane_code_for_aa_def m split: if_splits)
    then show ?thesis
      by (auto simp: length_lane_glyphs m False word_le_nat_alt)
  qed
qed

lemma lane_glyphs_range:
  "\<forall>g \<in> set lane_glyphs_A. g \<le> 35" "\<forall>g \<in> set lane_glyphs_B. g \<le> 62"
  unfolding lane_glyphs_A_def lane_glyphs_B_def by simp_all

text \<open>
  The glyph map is total and stays inside each cluster's artwork: table A yields 0 to
  35, table B 0 to 62, and a code outside the code space yields the empty glyph.
\<close>

theorem lane_glyph_bounds:
  "oem_lane_glyph c OEM_LANE_TABLE_A \<le> 35 \<and> oem_lane_glyph c OEM_LANE_TABLE_B \<le> 62 \<and>
   (c > 70 \<longrightarrow> oem_lane_glyph c t = 0)"
proof (cases "c > 70")
  case True
  then show ?thesis by (simp add: oem_lane_glyph_def)
next
  case False
  then have "unat c < 71" by (simp add: word_less_nat_alt)
  then have "lane_glyphs_A ! unat c \<in> set lane_glyphs_A" "lane_glyphs_B ! unat c \<in> set lane_glyphs_B"
    by (simp_all add: length_lane_glyphs)
  with False lane_glyphs_range show ?thesis by (simp add: oem_lane_glyph_def)
qed

theorem lane_glyph_bounds_witness: "oem_lane_glyph 71 OEM_LANE_TABLE_B = 0"
  using lane_glyph_bounds [of 71 OEM_LANE_TABLE_B] by simp

text \<open>
  The recommended aliases draw the glyph of the code they repeat in both tables
  (17 of 11, 18 of 12, 43 to 46 of 30 to 33); the greyed aliases 65 and 66 do so in
  table B only: table A draws 65 differently from 59 and 66 differently from 60.
\<close>

theorem lane_alias_glyphs:
  "(\<forall>t. oem_lane_glyph 17 t = oem_lane_glyph 11 t \<and> oem_lane_glyph 18 t = oem_lane_glyph 12 t \<and>
        oem_lane_glyph 43 t = oem_lane_glyph 30 t \<and> oem_lane_glyph 44 t = oem_lane_glyph 31 t \<and>
        oem_lane_glyph 45 t = oem_lane_glyph 32 t \<and> oem_lane_glyph 46 t = oem_lane_glyph 33 t) \<and>
   oem_lane_glyph 65 OEM_LANE_TABLE_B = oem_lane_glyph 59 OEM_LANE_TABLE_B \<and>
   oem_lane_glyph 66 OEM_LANE_TABLE_B = oem_lane_glyph 60 OEM_LANE_TABLE_B \<and>
   oem_lane_glyph 65 OEM_LANE_TABLE_A \<noteq> oem_lane_glyph 59 OEM_LANE_TABLE_A \<and>
   oem_lane_glyph 66 OEM_LANE_TABLE_A \<noteq> oem_lane_glyph 60 OEM_LANE_TABLE_A"
proof -
  have "oem_lane_glyph 17 t = oem_lane_glyph 11 t \<and> oem_lane_glyph 18 t = oem_lane_glyph 12 t \<and>
        oem_lane_glyph 43 t = oem_lane_glyph 30 t \<and> oem_lane_glyph 44 t = oem_lane_glyph 31 t \<and>
        oem_lane_glyph 45 t = oem_lane_glyph 32 t \<and> oem_lane_glyph 46 t = oem_lane_glyph 33 t" for t
    by (cases t) (simp_all add: oem_lane_glyph_def lane_glyphs_A_def lane_glyphs_B_def)
  moreover have "oem_lane_glyph 65 OEM_LANE_TABLE_B = oem_lane_glyph 59 OEM_LANE_TABLE_B \<and>
   oem_lane_glyph 66 OEM_LANE_TABLE_B = oem_lane_glyph 60 OEM_LANE_TABLE_B \<and>
   oem_lane_glyph 65 OEM_LANE_TABLE_A \<noteq> oem_lane_glyph 59 OEM_LANE_TABLE_A \<and>
   oem_lane_glyph 66 OEM_LANE_TABLE_A \<noteq> oem_lane_glyph 60 OEM_LANE_TABLE_A"
    by (simp add: oem_lane_glyph_def lane_glyphs_A_def lane_glyphs_B_def)
  ultimately show ?thesis by blast
qed

end
