(* ===== verification/Nav16_Msg.thy ===== *)
theory Nav16_Msg
  imports Prelude
begin

text \<open>
  \<open>common/aa_nav16_msg.h\<close>: the contract of the socket between the \<open>aap_service\<close> shim (which
  relays raw Android Auto navigation frames) and the \<open>blmjciaapa\<close> shim (which decodes them):
  message ids, the 8-byte datagram header and its little-endian layout in memory.
\<close>

definition AA_NAV16_MAGIC :: u32 where "AA_NAV16_MAGIC = 0x41483136"
definition AA_NAV16_VERSION :: u8 where "AA_NAV16_VERSION = 1"
definition AA_NAV16_MAX_FRAME :: nat where "AA_NAV16_MAX_FRAME = 1024"

definition AA_NAV16_MSG_CLUSTER_START :: u32 where "AA_NAV16_MSG_CLUSTER_START = 0x8001"
definition AA_NAV16_MSG_CLUSTER_STOP :: u32 where "AA_NAV16_MSG_CLUSTER_STOP = 0x8002"
definition AA_NAV16_MSG_STATUS :: u32 where "AA_NAV16_MSG_STATUS = 0x8003"
definition AA_NAV16_MSG_NEXT_TURN :: u32 where "AA_NAV16_MSG_NEXT_TURN = 0x8004"
definition AA_NAV16_MSG_NEXT_TURN_DIST :: u32 where "AA_NAV16_MSG_NEXT_TURN_DIST = 0x8005"
definition AA_NAV16_MSG_NAV_STATE :: u32 where "AA_NAV16_MSG_NAV_STATE = 0x8006"
definition AA_NAV16_MSG_POSITION :: u32 where "AA_NAV16_MSG_POSITION = 0x8007"
definition AA_NAV16_MSG_SWALLOW_FIRST :: u32 where
  "AA_NAV16_MSG_SWALLOW_FIRST = AA_NAV16_MSG_CLUSTER_START"
definition AA_NAV16_MSG_SWALLOW_LAST :: u32 where
  "AA_NAV16_MSG_SWALLOW_LAST = AA_NAV16_MSG_POSITION"

lemmas nav16_msg_ids =
  AA_NAV16_MSG_CLUSTER_START_def AA_NAV16_MSG_CLUSTER_STOP_def AA_NAV16_MSG_STATUS_def
  AA_NAV16_MSG_NEXT_TURN_def AA_NAV16_MSG_NEXT_TURN_DIST_def AA_NAV16_MSG_NAV_STATE_def
  AA_NAV16_MSG_POSITION_def AA_NAV16_MSG_SWALLOW_FIRST_def AA_NAV16_MSG_SWALLOW_LAST_def

record AaNav16Hdr =
  hdr_magic :: u32
  hdr_version :: u8
  hdr_reserved :: u8
  hdr_len :: u16

text \<open>\<open>memcpy\<close> of the header to and from a byte buffer on the little-endian target.\<close>

definition u16_bytes :: "u16 \<Rightarrow> u8 list" where
  "u16_bytes w = [ucast w, ucast (drop_bit 8 w)]"

definition u32_bytes :: "u32 \<Rightarrow> u8 list" where
  "u32_bytes w = [ucast w, ucast (drop_bit 8 w), ucast (drop_bit 16 w), ucast (drop_bit 24 w)]"

definition bytes_u16 :: "u8 \<Rightarrow> u8 \<Rightarrow> u16" where
  "bytes_u16 a b = ucast a OR push_bit 8 (ucast b)"

definition bytes_u32 :: "u8 \<Rightarrow> u8 \<Rightarrow> u8 \<Rightarrow> u8 \<Rightarrow> u32" where
  "bytes_u32 a b c d =
     ucast a OR push_bit 8 (ucast b) OR push_bit 16 (ucast c) OR push_bit 24 (ucast d)"

definition hdr_bytes :: "AaNav16Hdr \<Rightarrow> u8 list" where
  "hdr_bytes h = u32_bytes (hdr_magic h) @ [hdr_version h, hdr_reserved h] @ u16_bytes (hdr_len h)"

definition bytes_hdr :: "u8 list \<Rightarrow> AaNav16Hdr" where
  "bytes_hdr b =
     \<lparr>hdr_magic = bytes_u32 (b ! 0) (b ! 1) (b ! 2) (b ! 3), hdr_version = b ! 4,
      hdr_reserved = b ! 5, hdr_len = bytes_u16 (b ! 6) (b ! 7)\<rparr>"

lemma bytes_u16_u16_bytes: "bytes_u16 (ucast w) (ucast (drop_bit 8 w)) = w"
  unfolding bytes_u16_def by (rule bit_word_eqI) (auto simp: bit_simps)

lemma bytes_u32_u32_bytes:
  "bytes_u32 (ucast w) (ucast (drop_bit 8 w)) (ucast (drop_bit 16 w)) (ucast (drop_bit 24 w)) = w"
proof (rule bit_word_eqI)
  fix n
  assume "n < LENGTH(32)"
  then consider "n < 8" | "8 \<le> n" "n < 16" | "16 \<le> n" "n < 24" | "24 \<le> n" "n < 32"
    by force
  then show "bit (bytes_u32 (ucast w) (ucast (drop_bit 8 w)) (ucast (drop_bit 16 w))
      (ucast (drop_bit 24 w))) n = bit w n"
    unfolding bytes_u32_def by cases (auto simp: bit_simps)
qed

lemma length_hdr_bytes [simp]: "length (hdr_bytes h) = 8"
  by (simp add: hdr_bytes_def u16_bytes_def u32_bytes_def)

lemma bytes_hdr_bytes [simp]: "bytes_hdr (hdr_bytes h @ rest) = h"
  by (simp add: bytes_hdr_def hdr_bytes_def u16_bytes_def u32_bytes_def nth_append
      bytes_u16_u16_bytes bytes_u32_u32_bytes)

end
