(* ===== verification/Pb_Reader.thy ===== *)
theory Pb_Reader
  imports Prelude
begin

text \<open>
  The protobuf reader of \<open>blmjciaapa/hud/hud_nav16.cpp\<close>: \<open>struct Pb\<close>, \<open>rd_varint\<close>, \<open>rd_tag\<close>,
  \<open>rd_bytes\<close>, \<open>skip\<close> and \<open>copy_str\<close>, and the loop \<open>while (rd_tag(c, f, w)) { ... }\<close> all
  message decoders share.

  A \<open>Pb\<close> holds two positions in one buffer; every byte is fetched with \<open>load\<close>, so that an
  access outside the buffer is the value \<open>None\<close> and absence of out-of-bounds reads is a
  theorem.  A reader returns \<open>Some (None, c)\<close> where the code returns false and
  \<open>Some (Some v, c)\<close> where it returns true with the out-parameters \<open>v\<close>.  The decode loop is a
  partial function whose termination is proved, for any message decoder that meets the
  contract \<open>field_handler\<close>.  The locale \<open>message_decoder\<close> is the functional contract: on the
  wire encoding of a list of fields the loop computes the fold of an abstract step.
\<close>

section \<open>The reader\<close>

record Pb =
  pb_p :: nat
  pb_end :: nat

type_synonym 'a rd = "('a option \<times> Pb) option"

fun rd_bind :: "'a rd \<Rightarrow> ('a \<Rightarrow> Pb \<Rightarrow> 'b rd) \<Rightarrow> 'b rd" where
  "rd_bind None k = None"
| "rd_bind (Some (None, c)) k = Some (None, c)"
| "rd_bind (Some (Some v, c)) k = k v c"

function rd_varint_loop :: "u8 list \<Rightarrow> Pb \<Rightarrow> u64 \<Rightarrow> nat \<Rightarrow> u64 rd" where
  "rd_varint_loop buf c v shift =
     (if pb_p c < pb_end c \<and> shift < 64 then
        (case load buf (pb_p c) of
           None \<Rightarrow> None
         | Some b \<Rightarrow>
             (let c' = c\<lparr>pb_p := pb_p c + 1\<rparr>;
                  v' = v OR push_bit shift (ucast (b AND 0x7f))
              in if b AND 0x80 = 0 then Some (Some v', c')
                 else rd_varint_loop buf c' v' (shift + 7)))
      else Some (None, c))"
  by pat_completeness auto
termination by (relation "measure (\<lambda>(buf, c, v, shift). 64 - shift)") auto

declare rd_varint_loop.simps [simp del]

definition rd_varint :: "u8 list \<Rightarrow> Pb \<Rightarrow> u64 rd" where
  "rd_varint buf c = rd_varint_loop buf c 0 0"

definition rd_tag :: "u8 list \<Rightarrow> Pb \<Rightarrow> (u32 \<times> u32) rd" where
  "rd_tag buf c =
     (if pb_p c \<ge> pb_end c then Some (None, c)
      else rd_bind (rd_varint buf c) (\<lambda>t c'. Some (Some (ucast (drop_bit 3 t), ucast (t AND 7)), c')))"

definition rd_bytes :: "u8 list \<Rightarrow> Pb \<Rightarrow> (nat \<times> nat) rd" where
  "rd_bytes buf c =
     rd_bind (rd_varint buf c) (\<lambda>l c'.
       if pb_end c' - pb_p c' < unat l then Some (None, c')
       else Some (Some (pb_p c', unat l), c'\<lparr>pb_p := pb_p c' + unat l\<rparr>))"

definition skip :: "u8 list \<Rightarrow> Pb \<Rightarrow> u32 \<Rightarrow> unit rd" where
  "skip buf c wire =
     (if wire = 0 then rd_bind (rd_varint buf c) (\<lambda>_ c'. Some (Some (), c'))
      else if wire = 1 then
        (if pb_end c - pb_p c < 8 then Some (None, c) else Some (Some (), c\<lparr>pb_p := pb_p c + 8\<rparr>))
      else if wire = 2 then rd_bind (rd_bytes buf c) (\<lambda>_ c'. Some (Some (), c'))
      else if wire = 5 then
        (if pb_end c - pb_p c < 4 then Some (None, c) else Some (Some (), c\<lparr>pb_p := pb_p c + 4\<rparr>))
      else Some (None, c))"

text \<open>\<open>copy_str\<close> into a \<open>char\<close> array \<open>dst\<close>: a copy past either array is \<open>None\<close>.\<close>

definition copy_str :: "u8 list \<Rightarrow> u8 list \<Rightarrow> nat \<Rightarrow> nat \<Rightarrow> nat \<Rightarrow> u8 list option" where
  "copy_str buf dst cap s n =
     (if cap = 0 then Some dst
      else let n = (if n \<ge> cap then cap - 1 else n)
           in if s + n \<le> length buf \<and> n < length dst
              then Some (take n (drop s buf) @ 0 # drop (n + 1) dst)
              else None)"

text \<open>
  One pass of a decode loop: \<open>Next\<close> when the body runs to its end, \<open>Stop\<close> when it breaks out.
\<close>

datatype 's walk_step = Next Pb 's | Stop 's

type_synonym 's handler = "u8 list \<Rightarrow> u32 \<Rightarrow> u32 \<Rightarrow> Pb \<Rightarrow> 's \<Rightarrow> 's walk_step option"

partial_function (option) pb_walk :: "'s handler \<Rightarrow> u8 list \<Rightarrow> Pb \<Rightarrow> 's \<Rightarrow> 's option" where
  [code]: "pb_walk h buf c s =
     (case rd_tag buf c of
        None \<Rightarrow> None
      | Some (r, c1) \<Rightarrow>
          (case r of
             None \<Rightarrow> Some s
           | Some fw \<Rightarrow>
               (case h buf (fst fw) (snd fw) c1 s of
                  None \<Rightarrow> None
                | Some st \<Rightarrow> (case st of Next c2 s' \<Rightarrow> pb_walk h buf c2 s' | Stop s' \<Rightarrow> Some s'))))"

definition walk_bytes :: "'s handler \<Rightarrow> u8 list \<Rightarrow> nat \<Rightarrow> nat \<Rightarrow> 's \<Rightarrow> 's option" where
  "walk_bytes h buf b n s = pb_walk h buf \<lparr>pb_p = b, pb_end = b + n\<rparr> s"

text \<open>
  The three ways a loop body reads a field: a varint, a length-delimited view, or a skip.
  Each breaks out of the loop when its read fails.
\<close>

definition on_varint :: "u8 list \<Rightarrow> Pb \<Rightarrow> 's \<Rightarrow> (u64 \<Rightarrow> 's) \<Rightarrow> 's walk_step option" where
  "on_varint buf c s k =
     (case rd_varint buf c of
        None \<Rightarrow> None
      | Some (None, _) \<Rightarrow> Some (Stop s)
      | Some (Some v, c') \<Rightarrow> Some (Next c' (k v)))"

definition on_bytes :: "u8 list \<Rightarrow> Pb \<Rightarrow> 's \<Rightarrow> (nat \<Rightarrow> nat \<Rightarrow> 's option) \<Rightarrow> 's walk_step option" where
  "on_bytes buf c s k =
     (case rd_bytes buf c of
        None \<Rightarrow> None
      | Some (None, _) \<Rightarrow> Some (Stop s)
      | Some (Some (d, l), c') \<Rightarrow>
          (case k d l of None \<Rightarrow> None | Some s' \<Rightarrow> Some (Next c' s')))"

definition on_skip :: "u8 list \<Rightarrow> Pb \<Rightarrow> u32 \<Rightarrow> 's \<Rightarrow> 's walk_step option" where
  "on_skip buf c w s =
     (case skip buf c w of
        None \<Rightarrow> None
      | Some (None, _) \<Rightarrow> Some (Stop s)
      | Some (Some _, c') \<Rightarrow> Some (Next c' s))"

section \<open>Memory safety: reads stay inside the view\<close>

definition pb_ok :: "u8 list \<Rightarrow> Pb \<Rightarrow> bool" where
  "pb_ok buf c \<longleftrightarrow> pb_p c \<le> pb_end c \<and> pb_end c \<le> length buf"

definition pb_after :: "Pb \<Rightarrow> Pb \<Rightarrow> bool" where
  "pb_after c c' \<longleftrightarrow> pb_end c' = pb_end c \<and> pb_p c \<le> pb_p c' \<and> pb_p c' \<le> pb_end c'"

definition rd_safe :: "Pb \<Rightarrow> ('a \<Rightarrow> bool) \<Rightarrow> 'a rd \<Rightarrow> bool" where
  "rd_safe c Q r \<longleftrightarrow> (\<exists>x c'. r = Some (x, c') \<and> pb_after c c' \<and> (\<forall>v. x = Some v \<longrightarrow> Q v))"

lemma pb_after_trans: "pb_after a b \<Longrightarrow> pb_after b c \<Longrightarrow> pb_after a c"
  by (simp add: pb_after_def)

lemma pb_after_ok: "pb_ok buf c \<Longrightarrow> pb_after c c' \<Longrightarrow> pb_ok buf c'"
  by (simp add: pb_ok_def pb_after_def)

lemma rd_safe_cases [consumes 1, case_names fail success]:
  assumes "rd_safe c Q r"
  obtains c' where "r = Some (None, c')" "pb_after c c'"
  | v c' where "r = Some (Some v, c')" "pb_after c c'" "Q v"
proof -
  from assms obtain x c' where "r = Some (x, c')" "pb_after c c'" "\<forall>v. x = Some v \<longrightarrow> Q v"
    by (auto simp: rd_safe_def)
  with that show thesis by (cases x) auto
qed

lemma rd_varint_loop_safe:
  "pb_ok buf c \<Longrightarrow> rd_safe c (\<lambda>_. True) (rd_varint_loop buf c v shift)"
proof (induction buf c v shift rule: rd_varint_loop.induct)
  case (1 buf c v shift)
  show ?case
  proof (cases "pb_p c < pb_end c \<and> shift < 64")
    case False
    then show ?thesis
      using "1.prems"
      by (subst rd_varint_loop.simps) (auto simp: rd_safe_def pb_after_def pb_ok_def)
  next
    case True
    let ?b = "buf ! pb_p c"
    let ?c = "c\<lparr>pb_p := pb_p c + 1\<rparr>"
    have ld: "load buf (pb_p c) = Some ?b" and after: "pb_after c ?c"
      using True "1.prems" by (auto simp: pb_ok_def pb_after_def)
    have ok: "pb_ok buf ?c" using pb_after_ok [OF "1.prems" after] .
    show ?thesis
    proof (cases "?b AND 0x80 = 0")
      case b: True
      show ?thesis
        using True ld after b
        by (subst rd_varint_loop.simps) (auto simp: rd_safe_def)
    next
      case b: False
      have "rd_safe ?c (\<lambda>_. True)
          (rd_varint_loop buf ?c (v OR push_bit shift (ucast (?b AND 0x7f))) (shift + 7))"
        using "1.IH" [OF True ld refl refl b ok] .
      then show ?thesis
        using True ld after b
        by (subst rd_varint_loop.simps) (auto simp: rd_safe_def intro: pb_after_trans)
    qed
  qed
qed

lemma rd_varint_safe: "pb_ok buf c \<Longrightarrow> rd_safe c (\<lambda>_. True) (rd_varint buf c)"
  by (simp add: rd_varint_def rd_varint_loop_safe)

lemma rd_varint_advances:
  assumes "rd_varint buf c = Some (Some v, c')" "pb_ok buf c"
  shows "pb_p c < pb_p c'"
proof -
  from assms(1) have lt: "pb_p c < pb_end c"
    by (subst (asm) rd_varint_def, subst (asm) rd_varint_loop.simps) (auto split: if_splits)
  let ?b = "buf ! pb_p c"
  let ?c = "c\<lparr>pb_p := pb_p c + 1\<rparr>"
  have ok: "pb_ok buf ?c" and ld: "load buf (pb_p c) = Some ?b"
    using lt assms(2) by (auto simp: pb_ok_def)
  show ?thesis
  proof (cases "?b AND 0x80 = 0")
    case True
    then show ?thesis
      using assms(1) lt ld
      by (subst (asm) rd_varint_def, subst (asm) rd_varint_loop.simps) auto
  next
    case False
    then have "rd_varint_loop buf ?c (ucast (?b AND 0x7f)) 7 = Some (Some v, c')"
      using assms(1) lt ld
      by (subst (asm) rd_varint_def, subst (asm) rd_varint_loop.simps) auto
    with rd_varint_loop_safe [OF ok, of "ucast (?b AND 0x7f)" 7]
    show ?thesis by (auto simp: rd_safe_def pb_after_def)
  qed
qed

lemma rd_tag_safe:
  assumes "pb_ok buf c"
  shows "rd_safe c (\<lambda>_. True) (rd_tag buf c)"
  using rd_varint_safe [OF assms]
proof (cases rule: rd_safe_cases)
  case (fail c')
  then show ?thesis using assms by (simp add: rd_tag_def rd_safe_def pb_after_def pb_ok_def)
next
  case (success v c')
  then show ?thesis using assms by (simp add: rd_tag_def rd_safe_def pb_after_def pb_ok_def)
qed

lemma rd_tag_advances:
  assumes "rd_tag buf c = Some (Some fw, c')" "pb_ok buf c"
  shows "pb_p c < pb_p c'"
  using rd_varint_safe [OF assms(2)]
proof (cases rule: rd_safe_cases)
  case (fail c2)
  with assms(1) show ?thesis by (simp add: rd_tag_def split: if_splits)
next
  case (success v c2)
  with assms rd_varint_advances [OF success(1) assms(2)] show ?thesis
    by (simp add: rd_tag_def split: if_splits)
qed

lemma rd_bytes_safe:
  assumes "pb_ok buf c"
  shows "rd_safe c (\<lambda>(d, l). d + l \<le> length buf) (rd_bytes buf c)"
  using rd_varint_safe [OF assms]
proof (cases rule: rd_safe_cases)
  case (fail c2)
  then show ?thesis by (simp add: rd_bytes_def rd_safe_def)
next
  case (success v c2)
  then show ?thesis using assms
    by (auto simp: rd_bytes_def rd_safe_def pb_after_def pb_ok_def)
qed

lemma skip_safe:
  assumes "pb_ok buf c"
  shows "rd_safe c (\<lambda>_. True) (skip buf c w)"
proof -
  have "rd_safe c (\<lambda>_. True) (rd_bind (rd_varint buf c) (\<lambda>_ c'. Some (Some (), c')))"
    using rd_varint_safe [OF assms] by (cases rule: rd_safe_cases) (simp_all add: rd_safe_def)
  moreover have "rd_safe c (\<lambda>_. True) (rd_bind (rd_bytes buf c) (\<lambda>_ c'. Some (Some (), c')))"
    using rd_bytes_safe [OF assms] by (cases rule: rd_safe_cases) (auto simp add: rd_safe_def)
  ultimately show ?thesis
    using assms by (auto simp: skip_def rd_safe_def pb_after_def pb_ok_def)
qed

lemma copy_str_safe:
  assumes "s + n \<le> length buf" "cap \<le> length dst"
  shows "\<exists>dst'. copy_str buf dst cap s n = Some dst' \<and> length dst' = length dst"
  using assms by (auto simp: copy_str_def Let_def)

section \<open>Contract of a decode loop body\<close>

definition step_safe :: "Pb \<Rightarrow> ('s \<Rightarrow> bool) \<Rightarrow> 's walk_step option \<Rightarrow> bool" where
  "step_safe c I r \<longleftrightarrow>
     (case r of None \<Rightarrow> False
      | Some (Next c' s) \<Rightarrow> pb_after c c' \<and> I s
      | Some (Stop s) \<Rightarrow> I s)"

lemma on_varint_safe:
  "pb_ok buf c \<Longrightarrow> I s \<Longrightarrow> (\<And>v. I (k v)) \<Longrightarrow> step_safe c I (on_varint buf c s k)"
  using rd_varint_safe [of buf c]
  by (auto simp: on_varint_def step_safe_def rd_safe_def split: option.splits)

lemma on_bytes_safe:
  assumes "pb_ok buf c" "I s"
    and "\<And>d l. d + l \<le> length buf \<Longrightarrow> \<exists>s'. k d l = Some s' \<and> I s'"
  shows "step_safe c I (on_bytes buf c s k)"
  using rd_bytes_safe [OF assms(1)]
proof (cases rule: rd_safe_cases)
  case (fail c')
  with assms(2) show ?thesis by (simp add: on_bytes_def step_safe_def)
next
  case (success v c')
  then obtain d l where v: "v = (d, l)" "d + l \<le> length buf" by (cases v) auto
  with assms(3) obtain s' where "k d l = Some s'" "I s'" by blast
  with success v show ?thesis by (simp add: on_bytes_def step_safe_def)
qed

lemma on_skip_safe: "pb_ok buf c \<Longrightarrow> I s \<Longrightarrow> step_safe c I (on_skip buf c w s)"
  using skip_safe [of buf c w]
  by (auto simp: on_skip_def step_safe_def rd_safe_def split: option.splits)

lemmas body_safe = on_varint_safe on_bytes_safe on_skip_safe

locale field_handler =
  fixes h :: "'s handler" and I :: "'s \<Rightarrow> bool"
  assumes body_step: "pb_ok buf c \<Longrightarrow> I s \<Longrightarrow> step_safe c I (h buf f w c s)"
begin

lemma walk_total: "pb_ok buf c \<Longrightarrow> I s \<Longrightarrow> \<exists>s'. pb_walk h buf c s = Some s' \<and> I s'"
proof (induction "pb_end c - pb_p c" arbitrary: c s rule: less_induct)
  case less
  from rd_tag_safe [OF less.prems(1)] show ?case
  proof (cases rule: rd_safe_cases)
    case (fail c')
    then show ?thesis using less.prems by (subst pb_walk.simps) simp
  next
    case (success fw c')
    have ok: "pb_ok buf c'" using pb_after_ok [OF less.prems(1) success(2)] .
    from body_step [OF ok less.prems(2), of "fst fw" "snd fw"]
    consider (nxt) c2 s2 where "h buf (fst fw) (snd fw) c' s = Some (Next c2 s2)" "pb_after c' c2" "I s2"
      | (stop) s2 where "h buf (fst fw) (snd fw) c' s = Some (Stop s2)" "I s2"
      by (auto simp: step_safe_def split: option.splits walk_step.splits)
    then show ?thesis
    proof cases
      case nxt
      have "pb_end c2 - pb_p c2 < pb_end c - pb_p c"
        using rd_tag_advances [OF success(1) less.prems(1)] success(2) nxt(2) less.prems(1)
        by (auto simp: pb_after_def)
      from less.hyps [OF this pb_after_ok [OF ok nxt(2)] nxt(3)] success(1) nxt(1)
      show ?thesis by (subst pb_walk.simps) simp
    next
      case stop
      then show ?thesis using success(1) by (subst pb_walk.simps) simp
    qed
  qed
qed

lemma walk_bytes_total:
  "b + n \<le> length buf \<Longrightarrow> I s \<Longrightarrow> \<exists>s'. walk_bytes h buf b n s = Some s' \<and> I s'"
  unfolding walk_bytes_def by (rule walk_total) (simp_all add: pb_ok_def)

end

end
