(* ===== verification/Pb_Wire.thy ===== *)
theory Pb_Wire
  imports Pb_Reader
begin

text \<open>
  The protobuf wire format as an abstract specification for the reader of \<open>Pb_Reader\<close>: the
  encoding of varints, tags and fields, the lemmas that each reader inverts its encoder at any
  position of a buffer, and the contract \<open>message_decoder\<close> under which a decode loop computes
  the fold of an abstract step over the fields of the message.
\<close>

section \<open>Encoding\<close>

function enc_varint :: "u64 \<Rightarrow> u8 list" where
  "enc_varint v =
     (if v < 128 then [ucast v] else (ucast (v AND 0x7f) OR 0x80) # enc_varint (drop_bit 7 v))"
  by pat_completeness auto
termination
proof (relation "measure (\<lambda>v::u64. unat v)")
  fix v :: u64
  assume "\<not> v < 128"
  then have "128 \<le> unat v" by (simp add: word_less_nat_alt)
  then have "unat v div 128 < unat v" by simp
  then show "(drop_bit 7 v, v) \<in> measure (\<lambda>v::u64. unat v)"
    by (simp add: unat_drop_bit_eq drop_bit_nat_def)
qed simp

declare enc_varint.simps [simp del]

datatype pb_payload =
    Varint u64
  | Fixed64 "u8 list"
  | Bytes "u8 list"
  | Fixed32 "u8 list"

fun wire_of :: "pb_payload \<Rightarrow> u32" where
  "wire_of (Varint _) = 0"
| "wire_of (Fixed64 _) = 1"
| "wire_of (Bytes _) = 2"
| "wire_of (Fixed32 _) = 5"

fun enc_payload :: "pb_payload \<Rightarrow> u8 list" where
  "enc_payload (Varint v) = enc_varint v"
| "enc_payload (Fixed64 bs) = bs"
| "enc_payload (Bytes bs) = enc_varint (of_nat (length bs)) @ bs"
| "enc_payload (Fixed32 bs) = bs"

fun payload_ok :: "pb_payload \<Rightarrow> bool" where
  "payload_ok (Varint v) = True"
| "payload_ok (Fixed64 bs) = (length bs = 8)"
| "payload_ok (Bytes bs) = (length bs < 2 ^ 32)"
| "payload_ok (Fixed32 bs) = (length bs = 4)"

definition enc_tag :: "u32 \<Rightarrow> u32 \<Rightarrow> u8 list" where
  "enc_tag f w = enc_varint (push_bit 3 (ucast f) OR ucast w)"

definition enc_field :: "u32 \<times> pb_payload \<Rightarrow> u8 list" where
  "enc_field fp = enc_tag (fst fp) (wire_of (snd fp)) @ enc_payload (snd fp)"

definition enc_message :: "('f \<Rightarrow> u32 \<times> pb_payload) \<Rightarrow> 'f list \<Rightarrow> u8 list" where
  "enc_message enc fs = concat (map (\<lambda>f. enc_field (enc f)) fs)"

lemma enc_message_Nil [simp]: "enc_message enc [] = []"
  by (simp add: enc_message_def)

lemma enc_message_Cons [simp]:
  "enc_message enc (f # fs) = enc_field (enc f) @ enc_message enc fs"
  by (simp add: enc_message_def)

section \<open>Readers invert encoders\<close>

text \<open>\<open>bytes_at buf p bs\<close>: the bytes \<open>bs\<close> stand at position \<open>p\<close> of the buffer.\<close>

definition bytes_at :: "u8 list \<Rightarrow> nat \<Rightarrow> u8 list \<Rightarrow> bool" where
  "bytes_at buf p bs \<longleftrightarrow> p + length bs \<le> length buf \<and> take (length bs) (drop p buf) = bs"

lemma bytes_at_append [simp]:
  "bytes_at buf p (xs @ ys) \<longleftrightarrow> bytes_at buf p xs \<and> bytes_at buf (p + length xs) ys"
proof (cases "p + (length xs + length ys) \<le> length buf")
  case True
  let ?d = "drop p buf"
  have "take (length xs + length ys) ?d = take (length xs) ?d @ take (length ys) (drop (length xs) ?d)"
    by (rule take_add)
  moreover have "length (take (length xs) ?d) = length xs" using True by simp
  ultimately have "take (length xs + length ys) ?d = xs @ ys \<longleftrightarrow>
      take (length xs) ?d = xs \<and> take (length ys) (drop (length xs) ?d) = ys"
    by (simp add: append_eq_append_conv)
  then show ?thesis using True by (auto simp: bytes_at_def add.commute add.left_commute)
qed (auto simp: bytes_at_def)

lemma bytes_at_Cons [simp]:
  "bytes_at buf p (x # xs) \<longleftrightarrow> p < length buf \<and> buf ! p = x \<and> bytes_at buf (p + 1) xs"
proof -
  have "bytes_at buf p ([x] @ xs) \<longleftrightarrow> bytes_at buf p [x] \<and> bytes_at buf (p + 1) xs"
    by (simp only: bytes_at_append) simp
  moreover have "bytes_at buf p [x] \<longleftrightarrow> p < length buf \<and> buf ! p = x"
    by (auto simp: bytes_at_def take_Suc_conv_app_nth hd_drop_conv_nth take_Suc Suc_le_eq)
  ultimately show ?thesis by simp
qed

lemma bytes_at_self [simp]: "bytes_at bs 0 bs"
  by (simp add: bytes_at_def)

lemma bytes_at_len: "bytes_at buf p bs \<Longrightarrow> p + length bs \<le> length buf"
  by (simp add: bytes_at_def)

lemma and_7f: "(b::'a::len word) AND 0x7f = take_bit 7 b"
  by (simp add: take_bit_eq_mask mask_eq_exp_minus_1)

lemma and_80: "(b::u8) AND 0x80 = 0 \<longleftrightarrow> \<not> bit b 7"
  using and_exp_eq_0_iff_not_bit [of b 7] by simp

lemma small_7: "(w::u64) < 128 \<longleftrightarrow> take_bit 7 w = w"
  by (simp add: word_less_nat_alt word_unat_eq_iff unsigned_take_bit_eq take_bit_nat_eq_self_iff)

lemma varint_byte: "ucast (take_bit 7 (ucast (w::u64) :: u8)) = take_bit 7 w"
  by (rule bit_word_eqI) (auto simp: bit_simps)

lemma varint_cont_byte:
  "bit (ucast (w AND 0x7f) OR 0x80 :: u8) 7"
  "ucast (take_bit 7 (ucast ((w::u64) AND 0x7f) OR 0x80 :: u8)) = take_bit 7 w"
proof -
  have b: "bit (0x80 :: u8) n \<longleftrightarrow> n = 7" for n
    using bit_exp_iff [of 7 n, where 'a = u8] by auto
  show "bit (ucast (w AND 0x7f) OR 0x80 :: u8) 7" by (simp add: bit_or_iff b)
  show "ucast (take_bit 7 (ucast (w AND 0x7f) OR 0x80 :: u8)) = take_bit 7 w"
    unfolding and_7f by (rule bit_word_eqI) (auto simp: bit_simps b)
qed

lemma varint_join:
  "(v OR push_bit s (take_bit 7 w)) OR push_bit (s + 7) (drop_bit 7 w) = v OR push_bit s (w::u64)"
proof (rule bit_word_eqI)
  fix n
  assume "n < LENGTH(64)"
  moreover have "n - (s + 7) + 7 = n - s" if "s + 7 \<le> n" using that by simp
  ultimately show "bit ((v OR push_bit s (take_bit 7 w)) OR push_bit (s + 7) (drop_bit 7 w)) n =
      bit (v OR push_bit s w) n"
    by (cases "n - s < 7") (auto simp: bit_simps add.commute)
qed

text \<open>The two kinds of bytes an encoder writes, as the reader tests them.\<close>

lemma last_byte:
  assumes "w < (128 :: u64)" and "b = (ucast w :: u8)"
  shows "b AND 0x80 = 0" and "ucast (b AND 0x7f) = w"
proof -
  have w: "take_bit 7 w = w" using assms(1) by (simp only: small_7)
  then have "\<not> bit w 7" by (metis bit_take_bit_iff less_irrefl)
  then have "\<not> bit (ucast w :: u8) 7" by (simp add: bit_simps)
  then show "b AND 0x80 = 0" "ucast (b AND 0x7f) = w"
    using varint_byte [of w] unfolding assms(2) and_80 and_7f w by simp_all
qed

lemma more_byte:
  assumes "b = (ucast ((w :: u64) AND 0x7f) OR 0x80 :: u8)"
  shows "b AND 0x80 \<noteq> 0" and "ucast (b AND 0x7f) = take_bit 7 w"
  using varint_cont_byte [of w] assms by (simp_all only: and_80 and_7f simp_thms)

text \<open>What is left of the value after seven bits fits where the reader puts it.\<close>

lemma varint_room:
  fixes w :: u64
  assumes "\<not> w < 128" and "unat w < 2 ^ (64 - shift)"
  shows "shift + 7 < 64" and "unat (drop_bit 7 w) < 2 ^ (64 - (shift + 7))"
proof -
  have big: "128 \<le> unat w" using assms(1) by (simp add: word_less_nat_alt)
  show sh: "shift + 7 < 64"
  proof (rule ccontr)
    assume "\<not> shift + 7 < 64"
    then have "(2::nat) ^ (64 - shift) \<le> 2 ^ 7" by (intro power_increasing) auto
    with assms(2) big show False by simp
  qed
  obtain k where k: "k = 64 - (shift + 7)" by simp
  then have "64 - shift = 7 + k" using sh by simp
  then have pw: "(2::nat) ^ (64 - shift) = 128 * 2 ^ (64 - (shift + 7))" by (simp add: power_add flip: k)
  have "unat w div 128 < 2 ^ (64 - (shift + 7))"
    using assms(2) unfolding pw by (intro less_mult_imp_div_less) (simp only: mult.commute)
  then show "unat (drop_bit 7 w) < 2 ^ (64 - (shift + 7))" by (simp add: unat_drop_bit_eq drop_bit_nat_def)
qed

lemma rd_varint_loop_enc:
  assumes "bytes_at buf p (enc_varint w)" "p + length (enc_varint w) \<le> e"
    and "unat w < 2 ^ (64 - shift)" "shift < 64"
  shows "rd_varint_loop buf \<lparr>pb_p = p, pb_end = e\<rparr> v shift =
    Some (Some (v OR push_bit shift w), \<lparr>pb_p = p + length (enc_varint w), pb_end = e\<rparr>)"
  using assms
proof (induction w arbitrary: p v shift rule: enc_varint.induct)
  case (1 w)
  show ?case
  proof (cases "w < 128")
    case True
    then have ev: "enc_varint w = [ucast w]" by (simp add: enc_varint.simps)
    have lt: "p < e" "p < length buf" "buf ! p = ucast w"
      using "1.prems"(1,2) ev by auto
    show ?thesis
      using lt "1.prems"(4) last_byte [OF True lt(3)] unfolding ev
      by (subst rd_varint_loop.simps) simp
  next
    case False
    let ?b = "ucast (w AND 0x7f) OR 0x80 :: u8"
    let ?r = "drop_bit 7 w"
    have ev: "enc_varint w = ?b # enc_varint ?r" using False by (simp add: enc_varint.simps)
    have lt: "p < e" "p < length buf" "buf ! p = ?b" "bytes_at buf (p + 1) (enc_varint ?r)"
        "p + 1 + length (enc_varint ?r) \<le> e"
      using "1.prems"(1,2) ev by auto
    note room = varint_room [OF False "1.prems"(3)]
    obtain b where b: "b = buf ! p" by simp
    have "rd_varint_loop buf \<lparr>pb_p = p, pb_end = e\<rparr> v shift =
        rd_varint_loop buf \<lparr>pb_p = p + 1, pb_end = e\<rparr>
          (v OR push_bit shift (take_bit 7 w)) (shift + 7)"
      using lt(1,2) "1.prems"(4) more_byte [OF lt(3)]
      by (subst rd_varint_loop.simps) (simp flip: b)
    also have "\<dots> = Some (Some (v OR push_bit shift w),
        \<lparr>pb_p = p + 1 + length (enc_varint ?r), pb_end = e\<rparr>)"
      using "1.IH" [OF False lt(4,5) room(2,1)] by (simp only: varint_join)
    finally show ?thesis using ev by simp
  qed
qed

lemma rd_varint_enc:
  assumes "bytes_at buf p (enc_varint w)" "p + length (enc_varint w) \<le> e"
  shows "rd_varint buf \<lparr>pb_p = p, pb_end = e\<rparr> =
    Some (Some w, \<lparr>pb_p = p + length (enc_varint w), pb_end = e\<rparr>)"
  using rd_varint_loop_enc [OF assms, of 0 0] unsigned_less [of w]
  by (simp add: rd_varint_def)

lemma enc_varint_nonempty [simp]: "enc_varint v \<noteq> []"
  by (subst enc_varint.simps) simp

lemma rd_tag_enc:
  assumes "bytes_at buf p (enc_tag f w)" "p + length (enc_tag f w) \<le> e" "w < 8"
  shows "rd_tag buf \<lparr>pb_p = p, pb_end = e\<rparr> =
    Some (Some (f, w), \<lparr>pb_p = p + length (enc_tag f w), pb_end = e\<rparr>)"
proof -
  let ?t = "push_bit 3 (ucast f) OR ucast w :: u64"
  have hi: "\<not> bit w n" if "3 \<le> n" for n
  proof -
    have "take_bit 3 w = w"
      using assms(3)
      by (simp add: word_less_nat_alt word_unat_eq_iff unsigned_take_bit_eq take_bit_nat_eq_self_iff)
    then show ?thesis using that by (metis bit_take_bit_iff not_le)
  qed
  have f: "ucast (drop_bit 3 ?t) = f"
    by (rule bit_word_eqI) (simp add: bit_simps hi)
  have seven: "(?t AND 7) = take_bit 3 ?t" by (simp add: take_bit_eq_mask mask_eq_exp_minus_1)
  have w: "ucast (?t AND 7) = w"
  proof (unfold seven, rule bit_word_eqI)
    fix n
    assume "n < LENGTH(32)"
    then show "bit (ucast (take_bit 3 ?t) :: u32) n = bit w n"
      by (cases "n < 3") (simp_all add: bit_simps hi)
  qed
  have "0 < length (enc_tag f w)" by (simp add: enc_tag_def)
  then have "p < e" using assms(2) by linarith
  then show ?thesis
    using rd_varint_enc [OF assms(1,2) [unfolded enc_tag_def]] f w
    by (simp add: rd_tag_def enc_tag_def)
qed

lemma rd_bytes_enc:
  assumes "bytes_at buf p (enc_payload (Bytes bs))" "payload_ok (Bytes bs)"
    and "p + length (enc_payload (Bytes bs)) \<le> e"
  shows "\<exists>d. rd_bytes buf \<lparr>pb_p = p, pb_end = e\<rparr> =
      Some (Some (d, length bs), \<lparr>pb_p = p + length (enc_payload (Bytes bs)), pb_end = e\<rparr>) \<and>
      bytes_at buf d bs"
proof -
  let ?l = "of_nat (length bs) :: u64"
  have "unat ?l = length bs" using assms(2) by (simp add: unsigned_of_nat take_bit_nat_eq_self_iff)
  moreover have "rd_varint buf \<lparr>pb_p = p, pb_end = e\<rparr> =
      Some (Some ?l, \<lparr>pb_p = p + length (enc_varint ?l), pb_end = e\<rparr>)"
    using assms by (intro rd_varint_enc) simp_all
  ultimately show ?thesis using assms by (auto simp: rd_bytes_def)
qed

section \<open>A loop over a field list\<close>

lemma on_varint_enc:
  assumes "bytes_at buf p (enc_varint v)" "p + length (enc_varint v) \<le> e"
  shows "on_varint buf \<lparr>pb_p = p, pb_end = e\<rparr> s k =
    Some (Next \<lparr>pb_p = p + length (enc_varint v), pb_end = e\<rparr> (k v))"
  using rd_varint_enc [OF assms] by (simp add: on_varint_def)

lemma on_bytes_enc:
  assumes "bytes_at buf p (enc_payload (Bytes bs))" "payload_ok (Bytes bs)"
    and "p + length (enc_payload (Bytes bs)) \<le> e"
    and "\<And>d. bytes_at buf d bs \<Longrightarrow> k d (length bs) = Some s'"
  shows "on_bytes buf \<lparr>pb_p = p, pb_end = e\<rparr> s k =
    Some (Next \<lparr>pb_p = p + length (enc_payload (Bytes bs)), pb_end = e\<rparr> s')"
  using rd_bytes_enc [OF assms(1-3)] assms(4) by (auto simp: on_bytes_def)

lemma on_skip_enc:
  assumes "bytes_at buf p (enc_payload pl)" "payload_ok pl" "p + length (enc_payload pl) \<le> e"
  shows "on_skip buf \<lparr>pb_p = p, pb_end = e\<rparr> (wire_of pl) s =
    Some (Next \<lparr>pb_p = p + length (enc_payload pl), pb_end = e\<rparr> s)"
proof (cases pl)
  case (Bytes bs)
  with rd_bytes_enc [of buf p bs e] assms show ?thesis by (auto simp: on_skip_def skip_def)
qed (use assms in \<open>simp_all add: on_skip_def skip_def rd_varint_enc\<close>)

locale message_decoder = field_handler h I for h :: "'s handler" and I :: "'s \<Rightarrow> bool" +
  fixes enc :: "'f \<Rightarrow> u32 \<times> pb_payload"
    and ok :: "'f \<Rightarrow> bool"
    and apply_field :: "'f \<Rightarrow> 's \<Rightarrow> 's"
  assumes body: "ok f \<Longrightarrow> I s \<Longrightarrow> bytes_at buf p (enc_payload (snd (enc f))) \<Longrightarrow>
      p + length (enc_payload (snd (enc f))) \<le> e \<Longrightarrow>
      h buf (fst (enc f)) (wire_of (snd (enc f))) \<lparr>pb_p = p, pb_end = e\<rparr> s =
        Some (Next \<lparr>pb_p = p + length (enc_payload (snd (enc f))), pb_end = e\<rparr> (apply_field f s))"
begin

lemma walk_encoded:
  "list_all ok fs \<Longrightarrow> I s \<Longrightarrow> bytes_at buf p (enc_message enc fs) \<Longrightarrow>
   pb_walk h buf \<lparr>pb_p = p, pb_end = p + length (enc_message enc fs)\<rparr> s = Some (fold apply_field fs s)"
proof (induction fs arbitrary: p s)
  case Nil
  then show ?case by (subst pb_walk.simps) (simp add: rd_tag_def)
next
  case (Cons f fs)
  let ?t = "enc_tag (fst (enc f)) (wire_of (snd (enc f)))"
  let ?pl = "enc_payload (snd (enc f))"
  let ?e = "p + length (enc_message enc (f # fs))"
  have at: "bytes_at buf p ?t" "bytes_at buf (p + length ?t) ?pl"
    "bytes_at buf (p + length ?t + length ?pl) (enc_message enc fs)"
    using Cons.prems(3) by (simp_all add: enc_field_def add.assoc)
  have len: "?e = p + length ?t + length ?pl + length (enc_message enc fs)"
    by (simp add: enc_field_def)
  have "wire_of (snd (enc f)) < 8" by (cases "snd (enc f)") simp_all
  then have tag: "rd_tag buf \<lparr>pb_p = p, pb_end = ?e\<rparr> =
      Some (Some (fst (enc f), wire_of (snd (enc f))), \<lparr>pb_p = p + length ?t, pb_end = ?e\<rparr>)"
    using at(1) len by (intro rd_tag_enc) simp_all
  have h: "h buf (fst (enc f)) (wire_of (snd (enc f))) \<lparr>pb_p = p + length ?t, pb_end = ?e\<rparr> s =
      Some (Next \<lparr>pb_p = p + length ?t + length ?pl, pb_end = ?e\<rparr> (apply_field f s))"
    using Cons.prems(1,2) at(2) len by (intro body) simp_all
  have "pb_ok buf \<lparr>pb_p = p + length ?t, pb_end = ?e\<rparr>"
    using bytes_at_len [OF Cons.prems(3)] len by (simp add: pb_ok_def)
  from body_step [OF this Cons.prems(2), of "fst (enc f)" "wire_of (snd (enc f))"] h
  have inv: "I (apply_field f s)" by (simp add: step_safe_def)
  have "pb_walk h buf \<lparr>pb_p = p, pb_end = ?e\<rparr> s =
      pb_walk h buf \<lparr>pb_p = p + length ?t + length ?pl, pb_end = ?e\<rparr> (apply_field f s)"
    using tag h by (subst pb_walk.simps) simp
  also have "\<dots> = Some (fold apply_field fs (apply_field f s))"
    unfolding len using Cons.prems(1) at(3) inv by (intro Cons.IH) simp_all
  finally show ?case by simp
qed

lemma walk_bytes_encoded:
  "list_all ok fs \<Longrightarrow> I s \<Longrightarrow> bytes_at buf d (enc_message enc fs) \<Longrightarrow>
   walk_bytes h buf d (length (enc_message enc fs)) s = Some (fold apply_field fs s)"
  unfolding walk_bytes_def by (rule walk_encoded)

end

end
