(* ===== verification/Nav16_Decode.thy ===== *)
theory Nav16_Decode
  imports Pb_Reader Nav16_Msg Hud_Nav
begin

text \<open>
  \<open>blmjciaapa/hud/hud_nav16.cpp\<close> and \<open>hud_nav16.h\<close>: the decoder of the GAL 1.6 navigation
  messages.  Each \<open>dec_*\<close> of the source is a loop body (\<open>*_body\<close>) run by \<open>walk_bytes\<close>; output
  parameters and fields written through references are the state of the walk.  The glyph,
  unit and display-value maps and the dispatch of a raw frame to the registered callbacks
  follow.  Every loop body is an instance of \<open>field_handler\<close>, which gives memory safety,
  termination and the invariants of the decoded structures.
\<close>

section \<open>Decoded structures\<close>

definition HUD_NAV16_MAX_LANES :: int where "HUD_NAV16_MAX_LANES = 8"

record AaLane =
  present_mask :: u16
  highlight_mask :: u16

record AaGuidance =
  have_maneuver :: bool
  maneuver_type :: u32
  roundabout_exit_number :: int
  roundabout_exit_angle :: int
  road :: "u8 list"
  n_steps :: int
  n_lanes :: int
  lanes :: "AaLane list"

record AaPosition =
  have_step :: bool
  step_meters :: int
  step_display :: "u8 list"
  step_units :: u32
  have_dest :: bool
  dest_meters :: int
  dest_display :: "u8 list"
  dest_units :: u32
  eta :: "u8 list"

record AaStatus =
  nav_status :: int
  cluster_stop :: bool

definition zero_lane :: AaLane where
  "zero_lane = \<lparr>present_mask = 0, highlight_mask = 0\<rparr>"

definition zero_guidance :: AaGuidance where
  "zero_guidance =
     \<lparr>have_maneuver = False, maneuver_type = 0, roundabout_exit_number = 0,
      roundabout_exit_angle = 0, road = replicate 64 0, n_steps = 0, n_lanes = 0,
      lanes = replicate (nat HUD_NAV16_MAX_LANES) zero_lane\<rparr>"

definition zero_position :: AaPosition where
  "zero_position =
     \<lparr>have_step = False, step_meters = 0, step_display = replicate 16 0, step_units = 0,
      have_dest = False, dest_meters = 0, dest_display = replicate 16 0, dest_units = 0,
      eta = replicate 16 0\<rparr>"

section \<open>Message decoders\<close>

text \<open>\<open>dec_distance\<close> writes three of its caller's variables.\<close>

record AaDistance =
  dist_meters :: int
  dist_display :: "u8 list"
  dist_units :: u32

definition i32_of_u64 :: "u64 \<Rightarrow> int" where
  "i32_of_u64 v = to_i32 (uint v)"

definition dec_distance_body :: "nat \<Rightarrow> AaDistance handler" where
  "dec_distance_body disp_cap buf f w c s =
     (if f = 1 \<and> w = 0 then on_varint buf c s (\<lambda>v. s\<lparr>dist_meters := i32_of_u64 v\<rparr>)
      else if f = 2 \<and> w = 2 then
        on_bytes buf c s (\<lambda>d l. map_option (\<lambda>x. s\<lparr>dist_display := x\<rparr>)
          (copy_str buf (dist_display s) disp_cap d l))
      else if f = 3 \<and> w = 0 then on_varint buf c s (\<lambda>v. s\<lparr>dist_units := ucast v\<rparr>)
      else on_skip buf c w s)"

definition dec_distance :: "u8 list \<Rightarrow> nat \<Rightarrow> nat \<Rightarrow> nat \<Rightarrow> AaDistance \<Rightarrow> AaDistance option" where
  "dec_distance buf b n disp_cap s = walk_bytes (dec_distance_body disp_cap) buf b n s"

definition dec_road_name_body :: "nat \<Rightarrow> u8 list handler" where
  "dec_road_name_body cap buf f w c dst =
     (if f = 1 \<and> w = 2 then on_bytes buf c dst (\<lambda>d l. copy_str buf dst cap d l)
      else on_skip buf c w dst)"

definition dec_road_name :: "u8 list \<Rightarrow> nat \<Rightarrow> nat \<Rightarrow> u8 list \<Rightarrow> nat \<Rightarrow> u8 list option" where
  "dec_road_name buf b n dst cap = walk_bytes (dec_road_name_body cap) buf b n dst"

record lane_dir_state =
  ld_shape :: u64
  ld_have_shape :: bool
  ld_hi :: bool

definition dec_lane_direction_body :: "lane_dir_state handler" where
  "dec_lane_direction_body buf f w c s =
     (if f = 1 \<and> w = 0 then on_varint buf c s (\<lambda>v. s\<lparr>ld_shape := v, ld_have_shape := True\<rparr>)
      else if f = 2 \<and> w = 0 then on_varint buf c s (\<lambda>v. s\<lparr>ld_hi := (v \<noteq> 0)\<rparr>)
      else on_skip buf c w s)"

definition apply_lane_direction :: "lane_dir_state \<Rightarrow> AaLane \<Rightarrow> AaLane" where
  "apply_lane_direction s lane =
     (if ld_have_shape s \<and> ld_shape s \<le> 9 then
        (let bit = push_bit (unat (ld_shape s)) 1;
             lane = lane\<lparr>present_mask := present_mask lane OR bit\<rparr>
         in if ld_hi s then lane\<lparr>highlight_mask := highlight_mask lane OR bit\<rparr> else lane)
      else lane)"

definition dec_lane_direction :: "u8 list \<Rightarrow> nat \<Rightarrow> nat \<Rightarrow> AaLane \<Rightarrow> AaLane option" where
  "dec_lane_direction buf b n lane =
     map_option (\<lambda>s. apply_lane_direction s lane)
       (walk_bytes dec_lane_direction_body buf b n
         \<lparr>ld_shape = 0, ld_have_shape = False, ld_hi = False\<rparr>)"

definition dec_lane_body :: "AaLane handler" where
  "dec_lane_body buf f w c lane =
     (if f = 1 \<and> w = 2 then on_bytes buf c lane (\<lambda>d l. dec_lane_direction buf d l lane)
      else on_skip buf c w lane)"

definition dec_lane :: "u8 list \<Rightarrow> nat \<Rightarrow> nat \<Rightarrow> AaLane \<Rightarrow> AaLane option" where
  "dec_lane buf b n lane = walk_bytes dec_lane_body buf b n lane"

definition dec_maneuver_body :: "AaGuidance handler" where
  "dec_maneuver_body buf f w c g =
     (if f = 1 \<and> w = 0 then
        on_varint buf c g (\<lambda>v. g\<lparr>maneuver_type := ucast v, have_maneuver := True\<rparr>)
      else if f = 2 \<and> w = 0 then
        on_varint buf c g (\<lambda>v. g\<lparr>roundabout_exit_number := i32_of_u64 v\<rparr>)
      else if f = 3 \<and> w = 0 then
        on_varint buf c g (\<lambda>v. g\<lparr>roundabout_exit_angle := i32_of_u64 v\<rparr>)
      else on_skip buf c w g)"

definition dec_maneuver :: "u8 list \<Rightarrow> nat \<Rightarrow> nat \<Rightarrow> AaGuidance \<Rightarrow> AaGuidance option" where
  "dec_maneuver buf b n g = walk_bytes dec_maneuver_body buf b n g"

definition dec_step_body :: "AaGuidance handler" where
  "dec_step_body buf f w c g =
     (if w = 2 then
        on_bytes buf c g (\<lambda>d l.
          if f = 1 then dec_maneuver buf d l g
          else if f = 2 then map_option (\<lambda>r. g\<lparr>road := r\<rparr>) (dec_road_name buf d l (road g) 64)
          else if f = 3 then
            (if n_lanes g < HUD_NAV16_MAX_LANES then
               (case load (lanes g) (nat (n_lanes g)) of
                  None \<Rightarrow> None
                | Some ln \<Rightarrow>
                    map_option (\<lambda>ln'. g\<lparr>lanes := (lanes g)[nat (n_lanes g) := ln'],
                                        n_lanes := n_lanes g + 1\<rparr>)
                      (dec_lane buf d l ln))
             else Some g)
          else Some g)
      else on_skip buf c w g)"

definition dec_step :: "u8 list \<Rightarrow> nat \<Rightarrow> nat \<Rightarrow> AaGuidance \<Rightarrow> AaGuidance option" where
  "dec_step buf b n g = walk_bytes dec_step_body buf b n g"

definition dec_step_distance_body :: "AaPosition handler" where
  "dec_step_distance_body buf f w c p =
     (if f = 1 \<and> w = 2 then
        on_bytes buf c p (\<lambda>d l.
          map_option (\<lambda>x. p\<lparr>step_meters := dist_meters x, step_display := dist_display x,
                            step_units := dist_units x, have_step := True\<rparr>)
            (dec_distance buf d l 16
              \<lparr>dist_meters = step_meters p, dist_display = step_display p, dist_units = step_units p\<rparr>))
      else on_skip buf c w p)"

definition dec_step_distance :: "u8 list \<Rightarrow> nat \<Rightarrow> nat \<Rightarrow> AaPosition \<Rightarrow> AaPosition option" where
  "dec_step_distance buf b n p = walk_bytes dec_step_distance_body buf b n p"

definition dec_dest_distance_body :: "AaPosition handler" where
  "dec_dest_distance_body buf f w c p =
     (if f = 1 \<and> w = 2 then
        on_bytes buf c p (\<lambda>d l.
          map_option (\<lambda>x. p\<lparr>dest_meters := dist_meters x, dest_display := dist_display x,
                            dest_units := dist_units x, have_dest := True\<rparr>)
            (dec_distance buf d l 16
              \<lparr>dist_meters = dest_meters p, dist_display = dest_display p, dist_units = dest_units p\<rparr>))
      else if f = 2 \<and> w = 2 then
        on_bytes buf c p (\<lambda>d l. map_option (\<lambda>x. p\<lparr>eta := x\<rparr>) (copy_str buf (eta p) 16 d l))
      else on_skip buf c w p)"

definition dec_dest_distance :: "u8 list \<Rightarrow> nat \<Rightarrow> nat \<Rightarrow> AaPosition \<Rightarrow> AaPosition option" where
  "dec_dest_distance buf b n p = walk_bytes dec_dest_distance_body buf b n p"

text \<open>The locals \<open>got_step\<close> and \<open>got_dest\<close> are the second component of the walk state.\<close>

definition navstate_body :: "(AaGuidance \<times> bool) handler" where
  "navstate_body buf f w c s =
     (if f = 1 \<and> w = 2 then
        on_bytes buf c s (\<lambda>d l.
          let g = (fst s)\<lparr>n_steps := to_i32 (n_steps (fst s) + 1)\<rparr>
          in if \<not> snd s then map_option (\<lambda>g'. (g', True)) (dec_step buf d l g)
             else Some (g, snd s))
      else on_skip buf c w s)"

definition hud_nav16_decode_navstate :: "u8 list \<Rightarrow> nat \<Rightarrow> int \<Rightarrow> (bool \<times> AaGuidance) option" where
  "hud_nav16_decode_navstate buf proto len =
     (if len < 0 then Some (False, zero_guidance)
      else map_option (\<lambda>s. (True, fst s))
        (walk_bytes navstate_body buf proto (nat len) (zero_guidance, False)))"

definition position_body :: "(AaPosition \<times> bool) handler" where
  "position_body buf f w c s =
     (if f = 1 \<and> w = 2 then
        on_bytes buf c s (\<lambda>d l. map_option (\<lambda>p. (p, snd s)) (dec_step_distance buf d l (fst s)))
      else if f = 2 \<and> w = 2 then
        on_bytes buf c s (\<lambda>d l.
          if \<not> snd s then map_option (\<lambda>p. (p, True)) (dec_dest_distance buf d l (fst s))
          else Some s)
      else on_skip buf c w s)"

definition hud_nav16_decode_position :: "u8 list \<Rightarrow> nat \<Rightarrow> int \<Rightarrow> (bool \<times> AaPosition) option" where
  "hud_nav16_decode_position buf proto len =
     (if len < 0 then Some (False, zero_position)
      else map_option (\<lambda>s. (True, fst s))
        (walk_bytes position_body buf proto (nat len) (zero_position, False)))"

section \<open>Frame dispatch\<close>

definition frame_msg_id :: "u8 list \<Rightarrow> u32 option" where
  "frame_msg_id raw =
     (case load raw 0 of None \<Rightarrow> None
      | Some a \<Rightarrow> (case load raw 1 of None \<Rightarrow> None
                   | Some b \<Rightarrow> Some (push_bit 8 (ucast a) OR ucast b)))"

text \<open>
  \<open>on_frame raw sz g p\<close>: the out-parameters are \<open>None\<close> for a null pointer; the result carries
  what they point to afterwards.
\<close>

definition hud_nav16_on_frame ::
  "u8 list option \<Rightarrow> int \<Rightarrow> AaGuidance option \<Rightarrow> AaPosition option \<Rightarrow>
   (u32 \<times> AaGuidance option \<times> AaPosition option) option" where
  "hud_nav16_on_frame raw sz g p =
     (case raw of
        None \<Rightarrow> Some (0, g, p)
      | Some buf \<Rightarrow>
          if sz < 2 then Some (0, g, p)
          else
            (case frame_msg_id buf of
               None \<Rightarrow> None
             | Some mid \<Rightarrow>
                 let blen = sz - 2 in
                 if mid = AA_NAV16_MSG_NAV_STATE \<and> g \<noteq> None then
                   map_option (\<lambda>r. (mid, Some (snd r), p)) (hud_nav16_decode_navstate buf 2 blen)
                 else if mid = AA_NAV16_MSG_POSITION \<and> p \<noteq> None then
                   map_option (\<lambda>r. (mid, g, Some (snd r))) (hud_nav16_decode_position buf 2 blen)
                 else Some (mid, g, p)))"

text \<open>
  \<open>read_status\<close>: the state of the walk is \<open>*status_out\<close> and the flag returned; the body
  returns from the middle of the loop, which is \<open>Stop\<close>.
\<close>

definition read_status_body :: "(bool \<times> int) handler" where
  "read_status_body buf f w c s =
     (if f = 1 \<and> w = 0 then
        (case rd_varint buf c of
           None \<Rightarrow> None
         | Some (None, _) \<Rightarrow> Some (Stop s)
         | Some (Some v, _) \<Rightarrow> Some (Stop (True, i32_of_u64 v)))
      else on_skip buf c w s)"

definition hud_nav16_read_status :: "u8 list option \<Rightarrow> int \<Rightarrow> (bool \<times> int) option" where
  "hud_nav16_read_status raw sz =
     (case raw of
        None \<Rightarrow> Some (False, -1)
      | Some buf \<Rightarrow>
          if sz < 2 then Some (False, -1)
          else walk_bytes read_status_body buf 2 (nat (sz - 2)) (False, -1))"

text \<open>
  The registered callbacks, acting on the consumer's state \<open>'st\<close>; \<open>None\<close> is a null callback.
\<close>

record 'st nav16_sink =
  on_guidance :: "(AaGuidance \<Rightarrow> 'st \<Rightarrow> 'st) option"
  on_position :: "(AaPosition \<Rightarrow> 'st \<Rightarrow> 'st) option"
  on_status :: "(AaStatus \<Rightarrow> 'st \<Rightarrow> 'st) option"

definition hud_nav16_set_sink ::
  "(AaGuidance \<Rightarrow> 'st \<Rightarrow> 'st) option \<Rightarrow> (AaPosition \<Rightarrow> 'st \<Rightarrow> 'st) option \<Rightarrow>
   (AaStatus \<Rightarrow> 'st \<Rightarrow> 'st) option \<Rightarrow> 'st nav16_sink \<Rightarrow> 'st nav16_sink" where
  "hud_nav16_set_sink gf pf sf _ = \<lparr>on_guidance = gf, on_position = pf, on_status = sf\<rparr>"

definition hud_nav16_feed :: "'st nav16_sink \<Rightarrow> u8 list option \<Rightarrow> int \<Rightarrow> 'st \<Rightarrow> 'st option" where
  "hud_nav16_feed sink frame len st =
     (case frame of
        None \<Rightarrow> Some st
      | Some buf \<Rightarrow>
          if len < 2 then Some st
          else
            (case frame_msg_id buf of
               None \<Rightarrow> None
             | Some mid \<Rightarrow>
                 if mid = AA_NAV16_MSG_NAV_STATE then
                   (case on_guidance sink of
                      None \<Rightarrow> Some st
                    | Some cb \<Rightarrow>
                        (case hud_nav16_on_frame frame len (Some zero_guidance) None of
                           Some (_, Some g, _) \<Rightarrow> Some (cb g st)
                         | _ \<Rightarrow> None))
                 else if mid = AA_NAV16_MSG_POSITION then
                   (case on_position sink of
                      None \<Rightarrow> Some st
                    | Some cb \<Rightarrow>
                        (case hud_nav16_on_frame frame len None (Some zero_position) of
                           Some (_, _, Some p) \<Rightarrow> Some (cb p st)
                         | _ \<Rightarrow> None))
                 else if mid = AA_NAV16_MSG_STATUS then
                   (case on_status sink of
                      None \<Rightarrow> Some st
                    | Some cb \<Rightarrow>
                        map_option (\<lambda>r. cb \<lparr>nav_status = snd r, cluster_stop = False\<rparr> st)
                          (hud_nav16_read_status frame len))
                 else if mid = AA_NAV16_MSG_CLUSTER_STOP then
                   (case on_status sink of
                      None \<Rightarrow> Some st
                    | Some cb \<Rightarrow> Some (cb \<lparr>nav_status = -1, cluster_stop = True\<rparr> st))
                 else Some st))"

section \<open>Memory safety, termination and the invariants of the decoded structures\<close>

definition lane_ok :: "AaLane \<Rightarrow> bool" where
  "lane_ok l \<longleftrightarrow> highlight_mask l AND present_mask l = highlight_mask l \<and> present_mask l < 1024"

definition cbuf_ok :: "nat \<Rightarrow> u8 list \<Rightarrow> bool" where
  "cbuf_ok n b \<longleftrightarrow> length b = n \<and> 0 \<in> set b"

definition guidance_ok :: "AaGuidance \<Rightarrow> bool" where
  "guidance_ok g \<longleftrightarrow>
     cbuf_ok 64 (road g) \<and> length (lanes g) = 8 \<and> 0 \<le> n_lanes g \<and> n_lanes g \<le> 8 \<and>
     (\<forall>l \<in> set (lanes g). lane_ok l) \<and> (\<forall>i < 8. n_lanes g \<le> int i \<longrightarrow> lanes g ! i = zero_lane) \<and>
     i32_range (roundabout_exit_number g) \<and> i32_range (roundabout_exit_angle g) \<and>
     i32_range (n_steps g)"

definition distance_ok :: "AaDistance \<Rightarrow> bool" where
  "distance_ok s \<longleftrightarrow> cbuf_ok 16 (dist_display s) \<and> i32_range (dist_meters s)"

definition position_ok :: "AaPosition \<Rightarrow> bool" where
  "position_ok p \<longleftrightarrow>
     cbuf_ok 16 (step_display p) \<and> cbuf_ok 16 (dest_display p) \<and> cbuf_ok 16 (eta p) \<and>
     i32_range (step_meters p) \<and> i32_range (dest_meters p)"

lemma i32_of_u64_range [simp]: "i32_range (i32_of_u64 v)"
  by (simp add: i32_of_u64_def)

lemma i32_range_small [simp]: "i32_range 0" "i32_range (-1)"
  by (simp_all add: i32_range_def)

lemma copy_str_cbuf:
  assumes "d + l \<le> length buf" "cbuf_ok cap dst" "0 < cap"
  shows "\<exists>x. copy_str buf dst cap d l = Some x \<and> cbuf_ok cap x"
  using assms by (auto simp: copy_str_def cbuf_ok_def Let_def)

lemma map_option_total:
  "\<exists>x. r = Some x \<and> P x \<Longrightarrow> (\<And>x. P x \<Longrightarrow> Q (k x)) \<Longrightarrow>
    \<exists>y. map_option k r = Some y \<and> Q y"
  by auto

interpretation distance_walk: field_handler "dec_distance_body 16" distance_ok
proof
  fix buf c s f w
  assume "pb_ok buf c" "distance_ok s"
  then show "step_safe c distance_ok (dec_distance_body 16 buf f w c s)"
    unfolding dec_distance_body_def
    by (auto intro!: body_safe simp: distance_ok_def dest: copy_str_cbuf [where cap = 16])
qed

interpretation road_walk: field_handler "dec_road_name_body 64" "cbuf_ok 64"
proof
  fix buf c s f w
  assume "pb_ok buf c" "cbuf_ok 64 s"
  then show "step_safe c (cbuf_ok 64) (dec_road_name_body 64 buf f w c s)"
    unfolding dec_road_name_body_def
    by (auto intro!: body_safe dest: copy_str_cbuf [where cap = 64])
qed

interpretation lane_dir_walk: field_handler dec_lane_direction_body "\<lambda>_. True"
proof
  fix buf c f w and s :: lane_dir_state
  assume "pb_ok buf c"
  then show "step_safe c (\<lambda>_. True) (dec_lane_direction_body buf f w c s)"
    unfolding dec_lane_direction_body_def by (auto intro!: body_safe)
qed

lemma small_bit_word:
  assumes "k \<le> 9"
  shows "(push_bit k 1 :: u16) < 1024"
proof -
  have "k \<in> {0,1,2,3,4,5,6,7,8,9}" using assms by auto
  then show ?thesis by auto
qed

lemma or_below_1024: "(a::u16) < 1024 \<Longrightarrow> b < 1024 \<Longrightarrow> a OR b < 1024"
  using OR_upper [of "uint a" 10 "uint b"] by (simp add: word_less_def unsigned_or_eq)

lemma or_and_keep: "h AND p = h \<Longrightarrow> (h OR b) AND (p OR b) = h OR (b::u16)"
proof (rule bit_word_eqI)
  fix n
  assume "h AND p = h"
  then have "bit h n \<and> bit p n \<longleftrightarrow> bit h n" by (metis bit_and_iff)
  then show "bit ((h OR b) AND (p OR b)) n = bit (h OR b) n"
    by (auto simp: bit_and_iff bit_or_iff)
qed

lemma or_and_grow: "h AND p = h \<Longrightarrow> h AND (p OR b) = (h::u16)"
proof (rule bit_word_eqI)
  fix n
  assume "h AND p = h"
  then have "bit h n \<and> bit p n \<longleftrightarrow> bit h n" by (metis bit_and_iff)
  then show "bit (h AND (p OR b)) n = bit h n"
    by (auto simp: bit_and_iff bit_or_iff)
qed

lemma apply_lane_direction_ok [simp]:
  assumes "lane_ok l"
  shows "lane_ok (apply_lane_direction s l)"
proof -
  have "(push_bit (unat (ld_shape s)) 1 :: u16) < 1024" if "ld_shape s \<le> 9"
    using that by (intro small_bit_word) (simp add: word_le_nat_alt)
  then show ?thesis using assms
    by (auto simp: apply_lane_direction_def Let_def lane_ok_def or_below_1024 or_and_keep or_and_grow)
qed

lemma dec_lane_direction_total:
  assumes "d + l \<le> length buf" "lane_ok ln"
  shows "\<exists>ln'. dec_lane_direction buf d l ln = Some ln' \<and> lane_ok ln'"
  using lane_dir_walk.walk_bytes_total [OF assms(1) TrueI] apply_lane_direction_ok [OF assms(2)]
  by (fastforce simp: dec_lane_direction_def)

interpretation lane_walk: field_handler dec_lane_body lane_ok
proof
  fix buf c f w s
  assume "pb_ok buf c" "lane_ok s"
  then show "step_safe c lane_ok (dec_lane_body buf f w c s)"
    unfolding dec_lane_body_def by (auto intro!: body_safe dec_lane_direction_total)
qed

interpretation maneuver_walk: field_handler dec_maneuver_body guidance_ok
proof
  fix buf c f w s
  assume "pb_ok buf c" "guidance_ok s"
  then show "step_safe c guidance_ok (dec_maneuver_body buf f w c s)"
    unfolding dec_maneuver_body_def by (auto intro!: body_safe simp: guidance_ok_def)
qed

lemma dec_lane_total:
  assumes "d + l \<le> length buf" "lane_ok ln"
  shows "\<exists>ln'. dec_lane buf d l ln = Some ln' \<and> lane_ok ln'"
  using lane_walk.walk_bytes_total [OF assms] by (simp add: dec_lane_def)

lemma step_lane_ok:
  assumes "guidance_ok g" "n_lanes g < 8" "lane_ok ln"
  shows "guidance_ok (g\<lparr>lanes := (lanes g)[nat (n_lanes g) := ln], n_lanes := n_lanes g + 1\<rparr>)"
  using assms
  by (auto simp: guidance_ok_def nth_list_update dest: set_update_subset_insert [THEN subsetD])

interpretation step_walk: field_handler dec_step_body guidance_ok
proof
  fix buf c w and f :: u32 and g :: AaGuidance
  assume a: "pb_ok buf c" "guidance_ok g"
  let ?k = "\<lambda>d l. if f = 1 then dec_maneuver buf d l g
          else if f = 2 then map_option (\<lambda>r. g\<lparr>road := r\<rparr>) (dec_road_name buf d l (road g) 64)
          else if f = 3 then
            (if n_lanes g < HUD_NAV16_MAX_LANES then
               (case load (lanes g) (nat (n_lanes g)) of
                  None \<Rightarrow> None
                | Some ln \<Rightarrow>
                    map_option (\<lambda>ln'. g\<lparr>lanes := (lanes g)[nat (n_lanes g) := ln'],
                                        n_lanes := n_lanes g + 1\<rparr>)
                      (dec_lane buf d l ln))
             else Some g)
          else Some g"
  have "\<exists>g'. ?k d l = Some g' \<and> guidance_ok g'" if dl: "d + l \<le> length buf" for d l
  proof -
    have m: "\<exists>g'. dec_maneuver buf d l g = Some g' \<and> guidance_ok g'"
      using maneuver_walk.walk_bytes_total [OF dl a(2)] by (simp add: dec_maneuver_def)
    have r: "\<exists>r. dec_road_name buf d l (road g) 64 = Some r \<and> cbuf_ok 64 r"
      using road_walk.walk_bytes_total [OF dl, of "road g"] a(2)
      by (simp add: dec_road_name_def guidance_ok_def)
    have n: "\<exists>ln. load (lanes g) (nat (n_lanes g)) = Some ln \<and>
        (\<exists>ln'. dec_lane buf d l ln = Some ln' \<and> lane_ok ln')" if "n_lanes g < 8"
    proof -
      have "nat (n_lanes g) < length (lanes g)" using a(2) that by (simp add: guidance_ok_def)
      moreover from this have "lane_ok (lanes g ! nat (n_lanes g))"
        using a(2) unfolding guidance_ok_def by (meson nth_mem)
      ultimately show ?thesis using dec_lane_total [OF dl] by simp
    qed
    show ?thesis
      using m r n step_lane_ok [OF a(2)] a(2)
      by (auto simp: HUD_NAV16_MAX_LANES_def) (auto simp: guidance_ok_def)
  qed
  then show "step_safe c guidance_ok (dec_step_body buf f w c g)"
    unfolding dec_step_body_def using a by (auto intro!: body_safe)
qed

lemma dec_distance_total:
  assumes "d + l \<le> length buf" "distance_ok s"
  shows "\<exists>s'. dec_distance buf d l 16 s = Some s' \<and> distance_ok s'"
  using distance_walk.walk_bytes_total [OF assms] by (simp add: dec_distance_def)

interpretation step_distance_walk: field_handler dec_step_distance_body position_ok
proof
  fix buf c f w p
  assume a: "pb_ok buf c" "position_ok p"
  let ?s = "\<lparr>dist_meters = step_meters p, dist_display = step_display p, dist_units = step_units p\<rparr>"
  have "distance_ok ?s" using a(2) by (simp add: distance_ok_def position_ok_def)
  then have d: "\<exists>s'. dec_distance buf d l 16 ?s = Some s' \<and> distance_ok s'"
    if "d + l \<le> length buf" for d l using dec_distance_total [OF that] by blast
  then show "step_safe c position_ok (dec_step_distance_body buf f w c p)"
    unfolding dec_step_distance_body_def using a
    by (auto intro!: body_safe map_option_total [OF d] simp: position_ok_def distance_ok_def)
qed

interpretation dest_distance_walk: field_handler dec_dest_distance_body position_ok
proof
  fix buf c f w p
  assume a: "pb_ok buf c" "position_ok p"
  let ?s = "\<lparr>dist_meters = dest_meters p, dist_display = dest_display p, dist_units = dest_units p\<rparr>"
  have "distance_ok ?s" using a(2) by (simp add: distance_ok_def position_ok_def)
  then have d: "\<exists>s'. dec_distance buf d l 16 ?s = Some s' \<and> distance_ok s'"
    if "d + l \<le> length buf" for d l using dec_distance_total [OF that] by blast
  have e: "\<exists>x. copy_str buf (eta p) 16 d l = Some x \<and> cbuf_ok 16 x"
    if "d + l \<le> length buf" for d l
    using copy_str_cbuf [OF that] a(2) by (simp add: position_ok_def)
  show "step_safe c position_ok (dec_dest_distance_body buf f w c p)"
    unfolding dec_dest_distance_body_def using a
    by (auto intro!: body_safe map_option_total [OF d] map_option_total [OF e]
        simp: position_ok_def distance_ok_def)
qed

lemma zero_lane_ok [simp]: "lane_ok zero_lane"
  by (simp add: lane_ok_def zero_lane_def)

lemma zero_guidance_ok [simp]: "guidance_ok zero_guidance"
  by (simp add: guidance_ok_def zero_guidance_def cbuf_ok_def HUD_NAV16_MAX_LANES_def)

lemma zero_position_ok [simp]: "position_ok zero_position"
  by (simp add: position_ok_def zero_position_def cbuf_ok_def)

interpretation navstate_walk: field_handler navstate_body "\<lambda>s. guidance_ok (fst s)"
proof
  fix buf c f w and s :: "AaGuidance \<times> bool"
  assume a: "pb_ok buf c" "guidance_ok (fst s)"
  let ?g = "(fst s)\<lparr>n_steps := to_i32 (n_steps (fst s) + 1)\<rparr>"
  have g: "guidance_ok ?g" using a(2) by (simp add: guidance_ok_def)
  have "\<exists>s'. (if \<not> snd s then map_option (\<lambda>g'. (g', True)) (dec_step buf d l ?g)
       else Some (?g, snd s)) = Some s' \<and> guidance_ok (fst s')" if "d + l \<le> length buf" for d l
    using step_walk.walk_bytes_total [OF that g] g by (auto simp: dec_step_def)
  then show "step_safe c (\<lambda>s. guidance_ok (fst s)) (navstate_body buf f w c s)"
    unfolding navstate_body_def Let_def using a by (auto intro!: body_safe)
qed

interpretation position_walk: field_handler position_body "\<lambda>s. position_ok (fst s)"
proof
  fix buf c f w and s :: "AaPosition \<times> bool"
  assume a: "pb_ok buf c" "position_ok (fst s)"
  have "\<exists>s'. map_option (\<lambda>p. (p, snd s)) (dec_step_distance buf d l (fst s)) = Some s' \<and>
      position_ok (fst s')" if "d + l \<le> length buf" for d l
    using step_distance_walk.walk_bytes_total [OF that a(2)]
    by (auto simp: dec_step_distance_def)
  moreover have "\<exists>s'. (if \<not> snd s then map_option (\<lambda>p. (p, True)) (dec_dest_distance buf d l (fst s))
      else Some s) = Some s' \<and> position_ok (fst s')" if "d + l \<le> length buf" for d l
    using dest_distance_walk.walk_bytes_total [OF that a(2)] a(2)
    by (cases s) (auto simp: dec_dest_distance_def)
  ultimately show "step_safe c (\<lambda>s. position_ok (fst s)) (position_body buf f w c s)"
    unfolding position_body_def using a by (simp add: on_bytes_safe on_skip_safe)
qed

interpretation read_status_walk: field_handler read_status_body "\<lambda>s. i32_range (snd s)"
proof
  fix buf c f w s
  assume "pb_ok buf c" "i32_range (snd (s :: bool \<times> int))"
  then show "step_safe c (\<lambda>s. i32_range (snd s)) (read_status_body buf f w c s)"
    using rd_varint_safe [of buf c] on_skip_safe [of buf c "\<lambda>s. i32_range (snd s)" s w]
    by (auto simp: read_status_body_def step_safe_def rd_safe_def split: option.splits)
qed

lemma frame_msg_id_total: "2 \<le> length buf \<Longrightarrow> \<exists>m. frame_msg_id buf = Some m"
  by (cases buf; cases "tl buf") (auto simp: frame_msg_id_def load_def)

lemma decode_navstate_total:
  assumes "pos \<le> length buf" "len \<le> int (length buf - pos)"
  shows "\<exists>ok g. hud_nav16_decode_navstate buf pos len = Some (ok, g) \<and> guidance_ok g"
proof (cases "len < 0")
  case True
  then show ?thesis by (auto simp: hud_nav16_decode_navstate_def)
next
  case False
  then have "pos + nat len \<le> length buf" using assms by linarith
  from navstate_walk.walk_bytes_total [OF this, of "(zero_guidance, False)"] False
  show ?thesis by (auto simp: hud_nav16_decode_navstate_def)
qed

lemma decode_position_total:
  assumes "pos \<le> length buf" "len \<le> int (length buf - pos)"
  shows "\<exists>ok p. hud_nav16_decode_position buf pos len = Some (ok, p) \<and> position_ok p"
proof (cases "len < 0")
  case True
  then show ?thesis by (auto simp: hud_nav16_decode_position_def)
next
  case False
  then have "pos + nat len \<le> length buf" using assms by linarith
  from position_walk.walk_bytes_total [OF this, of "(zero_position, False)"] False
  show ?thesis by (auto simp: hud_nav16_decode_position_def)
qed

lemma read_status_total:
  assumes "len \<le> int (length buf)"
  shows "\<exists>ok n. hud_nav16_read_status (Some buf) len = Some (ok, n) \<and> i32_range n"
proof (cases "len < 2")
  case True
  then show ?thesis by (auto simp: hud_nav16_read_status_def)
next
  case False
  then have "2 + nat (len - 2) \<le> length buf" using assms by linarith
  from read_status_walk.walk_bytes_total [OF this, of "(False, -1)"] False
  show ?thesis by (auto simp: hud_nav16_read_status_def)
qed

lemma on_frame_navstate:
  assumes "frame_msg_id buf = Some AA_NAV16_MSG_NAV_STATE" "2 \<le> len"
  shows "hud_nav16_on_frame (Some buf) len (Some g0) p =
    map_option (\<lambda>r. (AA_NAV16_MSG_NAV_STATE, Some (snd r), p)) (hud_nav16_decode_navstate buf 2 (len - 2))"
  using assms by (simp add: hud_nav16_on_frame_def)

lemma on_frame_position:
  assumes "frame_msg_id buf = Some AA_NAV16_MSG_POSITION" "2 \<le> len"
  shows "hud_nav16_on_frame (Some buf) len g (Some p0) =
    map_option (\<lambda>r. (AA_NAV16_MSG_POSITION, g, Some (snd r))) (hud_nav16_decode_position buf 2 (len - 2))"
  using assms by (simp add: hud_nav16_on_frame_def nav16_msg_ids)

lemma feed_guidance:
  assumes "frame_msg_id buf = Some AA_NAV16_MSG_NAV_STATE" "2 \<le> len" "on_guidance sink = Some cb"
    and "hud_nav16_decode_navstate buf 2 (len - 2) = Some (r, g)"
  shows "hud_nav16_feed sink (Some buf) len st = Some (cb g st)"
  using assms by (simp add: hud_nav16_feed_def on_frame_navstate)

lemma feed_delivers:
  assumes "frame_msg_id buf = Some m" and "2 \<le> len"
    and "hud_nav16_decode_navstate buf 2 (len - 2) = Some (r1, g)"
    and "hud_nav16_decode_position buf 2 (len - 2) = Some (r2, p)"
    and "hud_nav16_read_status (Some buf) len = Some (r3, n)"
  shows "hud_nav16_feed sink (Some buf) len st = Some
    (if m = AA_NAV16_MSG_NAV_STATE then (case on_guidance sink of None \<Rightarrow> st | Some cb \<Rightarrow> cb g st)
     else if m = AA_NAV16_MSG_POSITION then (case on_position sink of None \<Rightarrow> st | Some cb \<Rightarrow> cb p st)
     else if m = AA_NAV16_MSG_STATUS then
       (case on_status sink of None \<Rightarrow> st | Some cb \<Rightarrow> cb \<lparr>nav_status = n, cluster_stop = False\<rparr> st)
     else if m = AA_NAV16_MSG_CLUSTER_STOP then
       (case on_status sink of None \<Rightarrow> st | Some cb \<Rightarrow> cb \<lparr>nav_status = -1, cluster_stop = True\<rparr> st)
     else st)"
  using assms by (simp add: hud_nav16_feed_def hud_nav16_on_frame_def nav16_msg_ids split: option.split)

lemma delivered:
  assumes "P x"
  shows "(case h of None \<Rightarrow> st | Some cb \<Rightarrow> cb x st) = st \<or>
    (\<exists>cb y. h = Some cb \<and> P y \<and> (case h of None \<Rightarrow> st | Some cb \<Rightarrow> cb x st) = cb y st)"
  using assms by (cases h) auto

text \<open>
  C12.  Feeding a frame is memory safe and terminates for every byte sequence a phone can send:
  \<open>hud_nav16_feed\<close> never reads outside the frame, always returns, and calls at most one
  registered callback, with a structure that satisfies its invariant (NUL-terminated strings,
  at most 8 lanes, highlighted arrows among the arrows present, no arrow beyond shape 9).
\<close>

theorem feed_safe:
  assumes len: "len \<le> int (length buf)"
  shows "\<exists>st'. hud_nav16_feed sink (Some buf) len st = Some st' \<and>
    (st' = st
     \<or> (\<exists>cb g. on_guidance sink = Some cb \<and> guidance_ok g \<and> st' = cb g st)
     \<or> (\<exists>cb p. on_position sink = Some cb \<and> position_ok p \<and> st' = cb p st)
     \<or> (\<exists>cb s. on_status sink = Some cb \<and> i32_range (nav_status s) \<and> st' = cb s st))"
proof (cases "len < 2")
  case True
  then show ?thesis by (simp add: hud_nav16_feed_def)
next
  case False
  then have l: "2 \<le> length buf" "2 \<le> len" "len - 2 \<le> int (length buf - 2)" using len by linarith+
  then obtain m r1 g r2 p r3 n where m: "frame_msg_id buf = Some m"
    and d: "hud_nav16_decode_navstate buf 2 (len - 2) = Some (r1, g)"
      "hud_nav16_decode_position buf 2 (len - 2) = Some (r2, p)"
      "hud_nav16_read_status (Some buf) len = Some (r3, n)"
    and ok: "guidance_ok g" "position_ok p" "i32_range n"
    using frame_msg_id_total decode_navstate_total decode_position_total read_status_total [OF len] by meson
  have s: "i32_range (nav_status \<lparr>nav_status = n, cluster_stop = False\<rparr>)"
    "i32_range (nav_status \<lparr>nav_status = -1, cluster_stop = True\<rparr>)"
    using ok(3) by simp_all
  show ?thesis
    unfolding feed_delivers [OF m l(2) d]
    using delivered [where P = guidance_ok and h = "on_guidance sink" and st = st, OF ok(1)] delivered [where P = position_ok and h = "on_position sink" and st = st, OF ok(2)]
      delivered [where P = "\<lambda>s. i32_range (nav_status s)" and h = "on_status sink" and st = st, OF s(1)]
      delivered [where P = "\<lambda>s. i32_range (nav_status s)" and h = "on_status sink" and st = st, OF s(2)]
    by (simp split: if_split) blast
qed

theorem feed_safe_witness:
  "\<exists>st'. hud_nav16_feed \<lparr>on_guidance = None, on_position = None, on_status = Some (\<lambda>s _. nav_status s)\<rparr>
     (Some [0x80, 0x03, 0x08, 0x81, 0x01]) 5 7 = Some st'"
  using feed_safe [of 5 "[0x80, 0x03, 0x08, 0x81, 0x01]"
      "\<lparr>on_guidance = None, on_position = None, on_status = Some (\<lambda>s _. nav_status s)\<rparr>" 7]
  by auto

end
