(* ===== verification/Nav16_Spec.thy ===== *)
theory Nav16_Spec
  imports Pb_Wire Nav16_Decode
begin

text \<open>
  What the decoder of \<open>Nav16_Decode\<close> computes, stated on messages instead of bytes.  A message
  is the list of its fields in wire order, with every unknown field a newer phone may add; its
  meaning is the fold of the field's effect on the decoded structure.  Each loop body is an
  instance of \<open>message_decoder\<close>, so decoding the wire encoding of a message gives its meaning.
\<close>

section \<open>Messages and their meaning\<close>

datatype maneuver_field =
    ManType u64 | ManExitNumber u64 | ManExitAngle u64 | ManOther u32 pb_payload

datatype road_field = RoadName "u8 list" | RoadOther u32 pb_payload

datatype direction_field = DirShape u64 | DirHighlighted u64 | DirOther u32 pb_payload

datatype lane_field = LaneDirection "direction_field list" | LaneOther u32 pb_payload

datatype step_field =
    StepManeuver "maneuver_field list" | StepRoad "road_field list" | StepLane "lane_field list"
  | StepOther u32 pb_payload

datatype state_field = StateStep "step_field list" | StateOther u32 pb_payload

fun enc_maneuver :: "maneuver_field \<Rightarrow> u32 \<times> pb_payload" where
  "enc_maneuver (ManType v) = (1, Varint v)"
| "enc_maneuver (ManExitNumber v) = (2, Varint v)"
| "enc_maneuver (ManExitAngle v) = (3, Varint v)"
| "enc_maneuver (ManOther f pl) = (f, pl)"

fun maneuver_field_ok :: "maneuver_field \<Rightarrow> bool" where
  "maneuver_field_ok (ManOther f pl) \<longleftrightarrow> payload_ok pl \<and> \<not> (f \<in> {1, 2, 3} \<and> wire_of pl = 0)"
| "maneuver_field_ok _ \<longleftrightarrow> True"

fun apply_maneuver :: "maneuver_field \<Rightarrow> AaGuidance \<Rightarrow> AaGuidance" where
  "apply_maneuver (ManType v) g = g\<lparr>maneuver_type := ucast v, have_maneuver := True\<rparr>"
| "apply_maneuver (ManExitNumber v) g = g\<lparr>roundabout_exit_number := i32_of_u64 v\<rparr>"
| "apply_maneuver (ManExitAngle v) g = g\<lparr>roundabout_exit_angle := i32_of_u64 v\<rparr>"
| "apply_maneuver (ManOther _ _) g = g"

fun enc_road :: "road_field \<Rightarrow> u32 \<times> pb_payload" where
  "enc_road (RoadName bs) = (1, Bytes bs)"
| "enc_road (RoadOther f pl) = (f, pl)"

fun road_field_ok :: "road_field \<Rightarrow> bool" where
  "road_field_ok (RoadName bs) \<longleftrightarrow> payload_ok (Bytes bs)"
| "road_field_ok (RoadOther f pl) \<longleftrightarrow> payload_ok pl \<and> \<not> (f = 1 \<and> wire_of pl = 2)"

text \<open>A string copied into a \<open>char\<close> array: cut to the capacity, then terminated.\<close>

definition copy_into :: "nat \<Rightarrow> u8 list \<Rightarrow> u8 list \<Rightarrow> u8 list" where
  "copy_into cap dst bs =
     (let n = min (length bs) (cap - 1) in take n bs @ 0 # drop (n + 1) dst)"

fun apply_road :: "road_field \<Rightarrow> u8 list \<Rightarrow> u8 list" where
  "apply_road (RoadName bs) dst = copy_into 64 dst bs"
| "apply_road (RoadOther _ _) dst = dst"

fun enc_direction :: "direction_field \<Rightarrow> u32 \<times> pb_payload" where
  "enc_direction (DirShape v) = (1, Varint v)"
| "enc_direction (DirHighlighted v) = (2, Varint v)"
| "enc_direction (DirOther f pl) = (f, pl)"

fun direction_field_ok :: "direction_field \<Rightarrow> bool" where
  "direction_field_ok (DirOther f pl) \<longleftrightarrow> payload_ok pl \<and> \<not> (f \<in> {1, 2} \<and> wire_of pl = 0)"
| "direction_field_ok _ \<longleftrightarrow> True"

fun apply_direction :: "direction_field \<Rightarrow> lane_dir_state \<Rightarrow> lane_dir_state" where
  "apply_direction (DirShape v) s = s\<lparr>ld_shape := v, ld_have_shape := True\<rparr>"
| "apply_direction (DirHighlighted v) s = s\<lparr>ld_hi := (v \<noteq> 0)\<rparr>"
| "apply_direction (DirOther _ _) s = s"

definition direction_of :: "direction_field list \<Rightarrow> lane_dir_state" where
  "direction_of fs =
     fold apply_direction fs \<lparr>ld_shape = 0, ld_have_shape = False, ld_hi = False\<rparr>"

fun enc_lane :: "lane_field \<Rightarrow> u32 \<times> pb_payload" where
  "enc_lane (LaneDirection fs) = (1, Bytes (enc_message enc_direction fs))"
| "enc_lane (LaneOther f pl) = (f, pl)"

fun lane_field_ok :: "lane_field \<Rightarrow> bool" where
  "lane_field_ok (LaneDirection fs) \<longleftrightarrow>
     list_all direction_field_ok fs \<and> payload_ok (Bytes (enc_message enc_direction fs))"
| "lane_field_ok (LaneOther f pl) \<longleftrightarrow> payload_ok pl \<and> \<not> (f = 1 \<and> wire_of pl = 2)"

fun apply_lane :: "lane_field \<Rightarrow> AaLane \<Rightarrow> AaLane" where
  "apply_lane (LaneDirection fs) l = apply_lane_direction (direction_of fs) l"
| "apply_lane (LaneOther _ _) l = l"

fun enc_step :: "step_field \<Rightarrow> u32 \<times> pb_payload" where
  "enc_step (StepManeuver fs) = (1, Bytes (enc_message enc_maneuver fs))"
| "enc_step (StepRoad fs) = (2, Bytes (enc_message enc_road fs))"
| "enc_step (StepLane fs) = (3, Bytes (enc_message enc_lane fs))"
| "enc_step (StepOther f pl) = (f, pl)"

fun step_field_ok :: "step_field \<Rightarrow> bool" where
  "step_field_ok (StepManeuver fs) \<longleftrightarrow>
     list_all maneuver_field_ok fs \<and> payload_ok (Bytes (enc_message enc_maneuver fs))"
| "step_field_ok (StepRoad fs) \<longleftrightarrow>
     list_all road_field_ok fs \<and> payload_ok (Bytes (enc_message enc_road fs))"
| "step_field_ok (StepLane fs) \<longleftrightarrow>
     list_all lane_field_ok fs \<and> payload_ok (Bytes (enc_message enc_lane fs))"
| "step_field_ok (StepOther f pl) \<longleftrightarrow> payload_ok pl \<and> \<not> (f \<in> {1, 2, 3} \<and> wire_of pl = 2)"

fun apply_step :: "step_field \<Rightarrow> AaGuidance \<Rightarrow> AaGuidance" where
  "apply_step (StepManeuver fs) g = fold apply_maneuver fs g"
| "apply_step (StepRoad fs) g = g\<lparr>road := fold apply_road fs (road g)\<rparr>"
| "apply_step (StepLane fs) g =
     (if n_lanes g < HUD_NAV16_MAX_LANES then
        g\<lparr>lanes := (lanes g)[nat (n_lanes g) := fold apply_lane fs (lanes g ! nat (n_lanes g))],
          n_lanes := n_lanes g + 1\<rparr>
      else g)"
| "apply_step (StepOther _ _) g = g"

fun enc_state :: "state_field \<Rightarrow> u32 \<times> pb_payload" where
  "enc_state (StateStep fs) = (1, Bytes (enc_message enc_step fs))"
| "enc_state (StateOther f pl) = (f, pl)"

fun state_field_ok :: "state_field \<Rightarrow> bool" where
  "state_field_ok (StateStep fs) \<longleftrightarrow>
     list_all step_field_ok fs \<and> payload_ok (Bytes (enc_message enc_step fs))"
| "state_field_ok (StateOther f pl) \<longleftrightarrow> payload_ok pl \<and> \<not> (f = 1 \<and> wire_of pl = 2)"

fun apply_state :: "state_field \<Rightarrow> AaGuidance \<times> bool \<Rightarrow> AaGuidance \<times> bool" where
  "apply_state (StateStep fs) s =
     (let g = (fst s)\<lparr>n_steps := to_i32 (n_steps (fst s) + 1)\<rparr>
      in if \<not> snd s then (fold apply_step fs g, True) else (g, snd s))"
| "apply_state (StateOther _ _) s = s"

section \<open>The decoders compute the meaning\<close>

lemma copy_str_at:
  assumes "bytes_at buf d bs" "0 < cap" "cap \<le> length dst"
  shows "copy_str buf dst cap d (length bs) = Some (copy_into cap dst bs)"
proof -
  define n where "n = min (length bs) (cap - 1)"
  have n: "(if length bs \<ge> cap then cap - 1 else length bs) = n"
    using assms(2) by (auto simp: n_def)
  have "take n (drop d buf) = take n (take (length bs) (drop d buf))"
    by (simp add: n_def)
  also have "\<dots> = take n bs" using assms(1) by (simp add: bytes_at_def)
  finally have "take n (drop d buf) = take n bs" .
  moreover have "d + n \<le> length buf" "n < length dst"
    using bytes_at_len [OF assms(1)] assms(2,3) unfolding n_def by linarith+
  ultimately show ?thesis
    using assms(2) unfolding copy_str_def copy_into_def Let_def n n_def [symmetric] by simp
qed

lemma cstr_copy_into:
  "0 \<notin> set bs \<Longrightarrow> cstr (copy_into cap dst bs) = take (min (length bs) (cap - 1)) bs"
  by (simp add: copy_into_def Let_def take_no_nul)

lemmas body_enc = on_varint_enc on_skip_enc

lemma dec_maneuver_other:
  "\<not> (f \<in> {1, 2, 3} \<and> w = 0) \<Longrightarrow> dec_maneuver_body buf f w c s = on_skip buf c w s"
  by (auto simp: dec_maneuver_body_def)

lemma dec_direction_other:
  "\<not> (f \<in> {1, 2} \<and> w = 0) \<Longrightarrow> dec_lane_direction_body buf f w c s = on_skip buf c w s"
  by (auto simp: dec_lane_direction_body_def)

interpretation maneuver_msg:
  message_decoder dec_maneuver_body guidance_ok enc_maneuver maneuver_field_ok apply_maneuver
proof (intro message_decoder.intro maneuver_walk.field_handler_axioms message_decoder_axioms.intro)
  fix f s buf p e
  assume "maneuver_field_ok f" "bytes_at buf p (enc_payload (snd (enc_maneuver f)))"
    "p + length (enc_payload (snd (enc_maneuver f))) \<le> e"
  then show "dec_maneuver_body buf (fst (enc_maneuver f)) (wire_of (snd (enc_maneuver f)))
      \<lparr>pb_p = p, pb_end = e\<rparr> s =
    Some (Next \<lparr>pb_p = p + length (enc_payload (snd (enc_maneuver f))), pb_end = e\<rparr> (apply_maneuver f s))"
    by (cases f) (simp_all add: dec_maneuver_other body_enc, simp_all add: dec_maneuver_body_def body_enc)
qed

interpretation direction_msg:
  message_decoder dec_lane_direction_body "\<lambda>_. True" enc_direction direction_field_ok apply_direction
proof (intro message_decoder.intro lane_dir_walk.field_handler_axioms message_decoder_axioms.intro)
  fix f s buf p e
  assume "direction_field_ok f" "bytes_at buf p (enc_payload (snd (enc_direction f)))"
    "p + length (enc_payload (snd (enc_direction f))) \<le> e"
  then show "dec_lane_direction_body buf (fst (enc_direction f)) (wire_of (snd (enc_direction f)))
      \<lparr>pb_p = p, pb_end = e\<rparr> s =
    Some (Next \<lparr>pb_p = p + length (enc_payload (snd (enc_direction f))), pb_end = e\<rparr> (apply_direction f s))"
    by (cases f) (simp_all add: dec_direction_other body_enc, simp_all add: dec_lane_direction_body_def body_enc)
qed

text \<open>A length-delimited field whose continuation decodes a nested message.\<close>

lemma on_bytes_msg:
  assumes "bytes_at buf p (enc_payload (Bytes bs))" "payload_ok (Bytes bs)"
    and "p + length (enc_payload (Bytes bs)) \<le> e"
    and "\<And>d. bytes_at buf d bs \<Longrightarrow> k d (length bs) = Some s'"
    and "q = p + length (enc_payload (Bytes bs))"
  shows "on_bytes buf \<lparr>pb_p = p, pb_end = e\<rparr> s k = Some (Next \<lparr>pb_p = q, pb_end = e\<rparr> s')"
  unfolding assms(5) using assms(1-3) by (rule on_bytes_enc) (rule assms(4))

interpretation road_msg:
  message_decoder "dec_road_name_body 64" "cbuf_ok 64" enc_road road_field_ok apply_road
proof (intro message_decoder.intro road_walk.field_handler_axioms message_decoder_axioms.intro)
  fix f s buf p e
  assume a: "road_field_ok f" "cbuf_ok 64 s" "bytes_at buf p (enc_payload (snd (enc_road f)))"
    "p + length (enc_payload (snd (enc_road f))) \<le> e"
  show "dec_road_name_body 64 buf (fst (enc_road f)) (wire_of (snd (enc_road f)))
      \<lparr>pb_p = p, pb_end = e\<rparr> s =
    Some (Next \<lparr>pb_p = p + length (enc_payload (snd (enc_road f))), pb_end = e\<rparr> (apply_road f s))"
  proof (cases f)
    case (RoadName bs)
    then have "on_bytes buf \<lparr>pb_p = p, pb_end = e\<rparr> s (\<lambda>d l. copy_str buf s 64 d l) =
        Some (Next \<lparr>pb_p = p + length (enc_payload (Bytes bs)), pb_end = e\<rparr> (apply_road f s))"
      using a by (intro on_bytes_msg) (auto simp: cbuf_ok_def copy_str_at)
    with RoadName show ?thesis by (simp add: dec_road_name_body_def)
  next
    case (RoadOther n pl)
    with a show ?thesis by (auto simp: dec_road_name_body_def body_enc)
  qed
qed

interpretation lane_msg: message_decoder dec_lane_body lane_ok enc_lane lane_field_ok apply_lane
proof (intro message_decoder.intro lane_walk.field_handler_axioms message_decoder_axioms.intro)
  fix f s buf p e
  assume a: "lane_field_ok f" "bytes_at buf p (enc_payload (snd (enc_lane f)))"
    "p + length (enc_payload (snd (enc_lane f))) \<le> e"
  show "dec_lane_body buf (fst (enc_lane f)) (wire_of (snd (enc_lane f))) \<lparr>pb_p = p, pb_end = e\<rparr> s =
    Some (Next \<lparr>pb_p = p + length (enc_payload (snd (enc_lane f))), pb_end = e\<rparr> (apply_lane f s))"
  proof (cases f)
    case (LaneDirection fs)
    let ?bs = "enc_message enc_direction fs"
    have "dec_lane_direction buf d (length ?bs) s = Some (apply_lane f s)" if "bytes_at buf d ?bs" for d
      using direction_msg.walk_bytes_encoded [OF _ TrueI that] a(1) LaneDirection
      by (simp add: dec_lane_direction_def direction_of_def)
    then have "on_bytes buf \<lparr>pb_p = p, pb_end = e\<rparr> s (\<lambda>d l. dec_lane_direction buf d l s) =
        Some (Next \<lparr>pb_p = p + length (enc_payload (Bytes ?bs)), pb_end = e\<rparr> (apply_lane f s))"
      using a LaneDirection by (intro on_bytes_msg) auto
    with LaneDirection show ?thesis by (simp add: dec_lane_body_def)
  next
    case (LaneOther n pl)
    with a show ?thesis by (auto simp: dec_lane_body_def body_enc)
  qed
qed

lemma dec_maneuver_encoded:
  assumes "list_all maneuver_field_ok fs" "guidance_ok g" "bytes_at buf d (enc_message enc_maneuver fs)"
  shows "dec_maneuver buf d (length (enc_message enc_maneuver fs)) g = Some (fold apply_maneuver fs g)"
  using maneuver_msg.walk_bytes_encoded [OF _ assms(2,3)] assms(1) by (simp add: dec_maneuver_def)

lemma dec_road_encoded:
  assumes "list_all road_field_ok fs" "guidance_ok g" "bytes_at buf d (enc_message enc_road fs)"
  shows "dec_road_name buf d (length (enc_message enc_road fs)) (road g) 64 = Some (fold apply_road fs (road g))"
proof -
  have "cbuf_ok 64 (road g)" using assms(2) by (simp add: guidance_ok_def)
  then show ?thesis
    using road_msg.walk_bytes_encoded [OF _ _ assms(3)] assms(1) by (simp add: dec_road_name_def)
qed

lemma dec_lane_encoded:
  fixes g
  defines "i \<equiv> nat (n_lanes g)"
  assumes "list_all lane_field_ok fs" "guidance_ok g" "bytes_at buf d (enc_message enc_lane fs)"
    and "n_lanes g < HUD_NAV16_MAX_LANES"
  shows "dec_lane buf d (length (enc_message enc_lane fs)) (lanes g ! i) = Some (fold apply_lane fs (lanes g ! i))"
    and "load (lanes g) i = Some (lanes g ! i)"
proof -
  have i: "i < length (lanes g)"
    using assms(3,5) by (simp add: i_def guidance_ok_def HUD_NAV16_MAX_LANES_def)
  then show "load (lanes g) i = Some (lanes g ! i)" by simp
  have "lane_ok (lanes g ! i)" using assms(3) i unfolding guidance_ok_def by (meson nth_mem)
  then show "dec_lane buf d (length (enc_message enc_lane fs)) (lanes g ! i) =
      Some (fold apply_lane fs (lanes g ! i))"
    using lane_msg.walk_bytes_encoded [OF _ _ assms(4)] assms(2) by (simp add: dec_lane_def)
qed

interpretation step_msg: message_decoder dec_step_body guidance_ok enc_step step_field_ok apply_step
proof (intro message_decoder.intro step_walk.field_handler_axioms message_decoder_axioms.intro)
  fix f g buf p e
  assume a: "step_field_ok f" "guidance_ok g" "bytes_at buf p (enc_payload (snd (enc_step f)))"
    "p + length (enc_payload (snd (enc_step f))) \<le> e"
  show "dec_step_body buf (fst (enc_step f)) (wire_of (snd (enc_step f))) \<lparr>pb_p = p, pb_end = e\<rparr> g =
    Some (Next \<lparr>pb_p = p + length (enc_payload (snd (enc_step f))), pb_end = e\<rparr> (apply_step f g))"
  proof (cases f)
    case (StepManeuver fs)
    with a dec_maneuver_encoded [of fs g] show ?thesis
      by (auto simp: dec_step_body_def intro!: on_bytes_msg)
  next
    case (StepRoad fs)
    with a dec_road_encoded [of fs g] show ?thesis
      by (auto simp: dec_step_body_def intro!: on_bytes_msg)
  next
    case (StepLane fs)
    with a dec_lane_encoded [of fs g] show ?thesis
      by (auto simp: dec_step_body_def intro!: on_bytes_msg)
  next
    case (StepOther n pl)
    show ?thesis
    proof (cases "wire_of pl = 2")
      case True
      then obtain bs where "pl = Bytes bs" by (cases pl) auto
      with StepOther a show ?thesis by (auto simp: dec_step_body_def intro!: on_bytes_msg)
    next
      case False
      with StepOther a show ?thesis by (simp add: dec_step_body_def on_skip_enc)
    qed
  qed
qed

interpretation state_msg:
  message_decoder navstate_body "\<lambda>s. guidance_ok (fst s)" enc_state state_field_ok apply_state
proof (intro message_decoder.intro navstate_walk.field_handler_axioms message_decoder_axioms.intro)
  fix f buf p e and s :: "AaGuidance \<times> bool"
  assume a: "state_field_ok f" "guidance_ok (fst s)" "bytes_at buf p (enc_payload (snd (enc_state f)))"
    "p + length (enc_payload (snd (enc_state f))) \<le> e"
  show "navstate_body buf (fst (enc_state f)) (wire_of (snd (enc_state f))) \<lparr>pb_p = p, pb_end = e\<rparr> s =
    Some (Next \<lparr>pb_p = p + length (enc_payload (snd (enc_state f))), pb_end = e\<rparr> (apply_state f s))"
  proof (cases f)
    case (StateStep fs)
    let ?bs = "enc_message enc_step fs"
    let ?g = "(fst s)\<lparr>n_steps := to_i32 (n_steps (fst s) + 1)\<rparr>"
    have "guidance_ok ?g" using a(2) by (simp add: guidance_ok_def)
    then have "dec_step buf d (length ?bs) ?g = Some (fold apply_step fs ?g)" if "bytes_at buf d ?bs" for d
      using step_msg.walk_bytes_encoded [OF _ _ that] a(1) StateStep by (simp add: dec_step_def)
    with StateStep a show ?thesis
      by (auto simp: navstate_body_def Let_def intro!: on_bytes_msg)
  next
    case (StateOther n pl)
    with a show ?thesis by (auto simp: navstate_body_def body_enc)
  qed
qed

section \<open>From frames to callbacks\<close>

definition msg_frame :: "u32 \<Rightarrow> u8 list \<Rightarrow> u8 list" where
  "msg_frame m body = ucast (drop_bit 8 m) # ucast m # body"

definition guidance_of :: "state_field list \<Rightarrow> AaGuidance" where
  "guidance_of fs = fst (fold apply_state fs (zero_guidance, False))"

lemma frame_msg_id_frame:
  assumes "m < 65536"
  shows "frame_msg_id (msg_frame m body) = Some m"
proof -
  have hi: "\<not> bit m n" if "16 \<le> n" for n
  proof -
    have "take_bit 16 m = m"
      using assms
      by (simp add: word_less_nat_alt word_unat_eq_iff unsigned_take_bit_eq take_bit_nat_eq_self_iff)
    then show ?thesis using that by (metis bit_take_bit_iff not_le)
  qed
  have "push_bit 8 (ucast (ucast (drop_bit 8 m) :: u8)) OR ucast (ucast m :: u8) = (m :: u32)"
  proof (rule bit_word_eqI)
    fix n
    assume "n < LENGTH(32)"
    then consider "n < 8" | "8 \<le> n" "n < 16" | "16 \<le> n" by linarith
    then show "bit (push_bit 8 (ucast (ucast (drop_bit 8 m) :: u8)) OR ucast (ucast m :: u8) :: u32) n = bit m n"
      by cases (auto simp: bit_simps hi)
  qed
  then show ?thesis by (simp add: frame_msg_id_def msg_frame_def)
qed

lemma decode_encoded_state:
  assumes "list_all state_field_ok fs"
  shows "hud_nav16_decode_navstate (msg_frame m (enc_message enc_state fs)) 2
      (int (length (enc_message enc_state fs))) = Some (True, guidance_of fs)"
proof -
  let ?bs = "enc_message enc_state fs"
  have "bytes_at (msg_frame m ?bs) 2 ?bs" by (simp add: bytes_at_def msg_frame_def)
  from state_msg.walk_bytes_encoded [OF assms _ this, of "(zero_guidance, False)"]
  show ?thesis by (simp add: hud_nav16_decode_navstate_def guidance_of_def)
qed

text \<open>
  C4.  Decoding a NavigationState: for every message built from known and unknown fields, in
  any order and repetition, feeding its wire encoding delivers to the guidance callback exactly
  the meaning of the message: the first step's maneuver, road name (cut to 63 bytes) and lanes
  (at most eight), unknown fields skipped, later steps only counted.
\<close>

theorem feed_nav_state:
  assumes "list_all state_field_ok fs" and "on_guidance sink = Some cb"
  shows "hud_nav16_feed sink (Some (msg_frame AA_NAV16_MSG_NAV_STATE (enc_message enc_state fs)))
      (int (length (enc_message enc_state fs)) + 2) st = Some (cb (guidance_of fs) st)"
proof -
  have "frame_msg_id (msg_frame AA_NAV16_MSG_NAV_STATE (enc_message enc_state fs)) =
      Some AA_NAV16_MSG_NAV_STATE"
    by (rule frame_msg_id_frame) (simp add: nav16_msg_ids)
  then show ?thesis
    by (rule feed_guidance [where r = True])
      (use assms decode_encoded_state [OF assms(1)] in simp_all)
qed

definition sample_state :: "state_field list" where
  "sample_state =
     [StateOther 9 (Fixed32 [1, 2, 3, 4]),
      StateStep [StepManeuver [ManType 34, ManOther 7 (Varint 300), ManExitAngle 95],
                 StepRoad [RoadName [65, 49]],
                 StepLane [LaneDirection [DirShape 0, DirHighlighted 1], LaneDirection [DirShape 3]],
                 StepOther 4 (Bytes [7, 7])],
      StateStep [StepManeuver [ManType 1]]]"

lemma sample_state_ok: "list_all state_field_ok sample_state"
  by (simp add: sample_state_def enc_field_def enc_tag_def enc_varint.simps drop_bit_eq_div)

lemma sample_state_meaning:
  "guidance_of sample_state =
     \<lparr>have_maneuver = True, maneuver_type = 34, roundabout_exit_number = 0,
      roundabout_exit_angle = 95, road = [65, 49, 0] @ replicate 61 0, n_steps = 2, n_lanes = 1,
      lanes = (replicate 8 zero_lane)[0 := \<lparr>present_mask = 9, highlight_mask = 1\<rparr>]\<rparr>"
  by (simp add: sample_state_def guidance_of_def zero_guidance_def copy_into_def i32_of_u64_def
      apply_lane_direction_def direction_of_def zero_lane_def HUD_NAV16_MAX_LANES_def Let_def i32_range_def)

theorem feed_nav_state_witness:
  "\<exists>frame len. hud_nav16_feed
     \<lparr>on_guidance = Some (\<lambda>g _. g), on_position = None, on_status = None\<rparr> (Some frame) len zero_guidance =
     Some \<lparr>have_maneuver = True, maneuver_type = 34, roundabout_exit_number = 0,
      roundabout_exit_angle = 95, road = [65, 49, 0] @ replicate 61 0, n_steps = 2, n_lanes = 1,
      lanes = (replicate 8 zero_lane)[0 := \<lparr>present_mask = 9, highlight_mask = 1\<rparr>]\<rparr>"
  using feed_nav_state [OF sample_state_ok, of
      "\<lparr>on_guidance = Some (\<lambda>g _. g), on_position = None, on_status = None\<rparr>" "\<lambda>g _. g" zero_guidance]
  unfolding sample_state_meaning by auto

end
