(* ===== verification/Nav16_Glyph.thy ===== *)
theory Nav16_Glyph
  imports Nav16_Decode
begin

text \<open>
  The constant maps of \<open>blmjciaapa/hud/hud_nav16.cpp\<close> from decoded Android Auto 1.6 values to
  the Mazda head-up display: maneuver glyph, roundabout glyph by exit angle, distance unit and
  the display value times ten.  The lemmas bound every map, relate the roundabout formula to
  the exact nearest-direction specification and to the GAL 1.5 formula of \<open>Hud_Nav\<close>, and
  determine the display-value parser.
\<close>

section \<open>Glyphs and units\<close>

definition kManeuver :: "string list" where
  "kManeuver =
    [''UNKNOWN'', ''DEPART'', ''NAME_CHANGE'', ''KEEP_LEFT'', ''KEEP_RIGHT'',
     ''TURN_SLIGHT_LEFT'', ''TURN_SLIGHT_RIGHT'', ''TURN_NORMAL_LEFT'', ''TURN_NORMAL_RIGHT'',
     ''TURN_SHARP_LEFT'', ''TURN_SHARP_RIGHT'', ''U_TURN_LEFT'', ''U_TURN_RIGHT'',
     ''ON_RAMP_SLIGHT_LEFT'', ''ON_RAMP_SLIGHT_RIGHT'', ''ON_RAMP_NORMAL_LEFT'',
     ''ON_RAMP_NORMAL_RIGHT'', ''ON_RAMP_SHARP_LEFT'', ''ON_RAMP_SHARP_RIGHT'',
     ''ON_RAMP_U_TURN_LEFT'', ''ON_RAMP_U_TURN_RIGHT'', ''OFF_RAMP_SLIGHT_LEFT'',
     ''OFF_RAMP_SLIGHT_RIGHT'', ''OFF_RAMP_NORMAL_LEFT'', ''OFF_RAMP_NORMAL_RIGHT'',
     ''FORK_LEFT'', ''FORK_RIGHT'', ''MERGE_LEFT'', ''MERGE_RIGHT'',
     ''MERGE_SIDE_UNSPECIFIED'', ''ROUNDABOUT_ENTER'', ''ROUNDABOUT_EXIT'',
     ''RA_ENTER_EXIT_CW'', ''RA_ENTER_EXIT_CW_ANGLE'', ''RA_ENTER_EXIT_CCW'',
     ''RA_ENTER_EXIT_CCW_ANGLE'', ''STRAIGHT'', ''FERRY_BOAT'', ''FERRY_TRAIN'',
     ''DESTINATION'', ''DESTINATION_STRAIGHT'', ''DESTINATION_LEFT'', ''DESTINATION_RIGHT'']"

definition hud_nav16_maneuver_name :: "u32 \<Rightarrow> string" where
  "hud_nav16_maneuver_name t =
     (if unat t < length kManeuver then kManeuver ! unat t else ''?'')"

definition kManeuverGlyph :: "u8 list" where
  "kManeuverGlyph =
    [HUD_EMPTY, HUD_FLAG, HUD_STRAIGHT, HUD_FORK_LEFT, HUD_FORK_RIGHT, HUD_SLIGHT_LEFT,
     HUD_SLIGHT_RIGHT, HUD_LEFT, HUD_RIGHT, HUD_SHARP_LEFT, HUD_SHARP_RIGHT, HUD_U_TURN_LEFT,
     HUD_U_TURN_RIGHT, HUD_SLIGHT_LEFT, HUD_SLIGHT_RIGHT, HUD_LEFT, HUD_RIGHT, HUD_SHARP_LEFT,
     HUD_SHARP_RIGHT, HUD_U_TURN_LEFT, HUD_U_TURN_RIGHT, HUD_OFF_RAMP_LEFT, HUD_OFF_RAMP_RIGHT,
     HUD_OFF_RAMP_LEFT, HUD_OFF_RAMP_RIGHT, HUD_FORK_LEFT, HUD_FORK_RIGHT, HUD_MERGE_LEFT,
     HUD_MERGE_RIGHT, HUD_STRAIGHT, HUD_STRAIGHT, HUD_STRAIGHT, HUD_STRAIGHT, HUD_STRAIGHT,
     HUD_STRAIGHT, HUD_STRAIGHT, HUD_STRAIGHT, HUD_EMPTY, HUD_EMPTY, HUD_DESTINATION,
     HUD_DESTINATION, HUD_DESTINATION_LEFT, HUD_DESTINATION_RIGHT]"

definition roundabout_glyph :: "int \<Rightarrow> bool \<Rightarrow> u8" where
  "roundabout_glyph exit_angle clockwise =
     (let a = cmod exit_angle 360;
          a = (if a < 0 then a + 360 else a);
          idx = cmod (cdiv (a + 15) 30) 12
      in word_of_int (uint (if clockwise then HUD_ROUNDABOUT_CW_BASE else HUD_ROUNDABOUT_CCW_BASE) + idx))"

definition hud_nav16_glyph :: "AaGuidance option \<Rightarrow> u8" where
  "hud_nav16_glyph go =
     (case go of
        None \<Rightarrow> HUD_BLANK
      | Some g \<Rightarrow>
          if maneuver_type g = 32 \<or> maneuver_type g = 33 then
            roundabout_glyph (roundabout_exit_angle g) True
          else if maneuver_type g = 34 \<or> maneuver_type g = 35 then
            roundabout_glyph (roundabout_exit_angle g) False
          else if maneuver_type g < 43 then kManeuverGlyph ! unat (maneuver_type g)
          else HUD_EMPTY)"

definition aa_to_mazda_unit :: "u32 \<Rightarrow> u8" where
  "aa_to_mazda_unit u =
     (if u = 1 then 1
      else if u = 2 \<or> u = 3 then 3
      else if u = 4 \<or> u = 5 then 2
      else if u = 6 then 5
      else if u = 7 then 4
      else 0)"

section \<open>The display value\<close>

text \<open>
  The loop of \<open>parse_dist_x10\<close> over the characters before the NUL; the state is
  \<open>(ip, frac, sep, any)\<close> and \<open>long\<close> has 32 bits on the target.
\<close>

fun parse_dist_loop :: "u8 list \<Rightarrow> int \<Rightarrow> bool \<Rightarrow> bool \<Rightarrow> int \<times> int \<times> bool" where
  "parse_dist_loop [] ip sep any = (ip, 0, any)"
| "parse_dist_loop (p # ps) ip sep any =
     (if p \<ge> 48 \<and> p \<le> 57 then
        (if \<not> sep then
           parse_dist_loop ps
             (if ip < 100000000 then to_i32 (ip * 10 + (uint p - 48)) else ip) sep True
         else (ip, uint p - 48, any))
      else if p = 44 \<or> p = 46 then parse_dist_loop ps ip True any
      else parse_dist_loop ps ip sep any)"

definition parse_dist_x10 :: "u8 list option \<Rightarrow> int" where
  "parse_dist_x10 s =
     (case s of
        None \<Rightarrow> 0
      | Some buf \<Rightarrow>
          (case parse_dist_loop (cstr buf) 0 False False of
             (ip, frac, any) \<Rightarrow> if any then to_i32 (ip * 10 + frac) else 0))"

section \<open>Properties of the glyph map\<close>

lemma direction_range: "0 \<le> (x mod 360) div (30::int)" "(x mod 360) div (30::int) < 12"
proof -
  have "0 \<le> x mod 360" "x mod 360 < 360" by simp_all
  then show "0 \<le> (x mod 360) div 30" "(x mod 360) div 30 < 12" by linarith+
qed

lemma direction_div_mod: "(x div 30) mod 12 = (x mod 360) div (30 :: int)"
proof -
  have "x mod 360 = x mod 30 + 30 * (x div 30 mod 12)"
    using zmod_zmult2_eq [of 12 x 30] by simp
  also have "\<dots> div 30 = x div 30 mod 12"
    by (subst div_mult_self2) (simp_all add: div_pos_pos_trivial)
  finally show ?thesis by simp
qed

lemma unat_u8_of_int: "0 \<le> x \<Longrightarrow> x < 256 \<Longrightarrow> unat (word_of_int x :: u8) = nat x"
  by (simp add: unsigned_of_int take_bit_int_eq_self nat_eq_iff)

lemma roundabout_glyph_value:
  "unat (roundabout_glyph angle cw) =
     nat (((angle + 15) mod 360) div 30) + (if cw then 49 else 37)"
proof -
  let ?a = "angle mod 360"
  let ?k = "((angle + 15) mod 360) div 30"
  have a: "(if cmod angle 360 < 0 then cmod angle 360 + 360 else cmod angle 360) = ?a"
    by (rule cmod_fixup) simp
  have nn: "0 \<le> ?a + 15" by (simp add: add_nonneg_nonneg)
  then have "cmod (cdiv (?a + 15) 30) 12 = ((?a + 15) div 30) mod 12"
    by (simp add: cdiv_nonneg cmod_nonneg pos_imp_zdiv_nonneg_iff)
  also have "\<dots> = ((?a + 15) mod 360) div 30"
    by (rule direction_div_mod)
  also have "\<dots> = ?k" by (simp only: mod_add_left_eq)
  finally have idx: "cmod (cdiv (?a + 15) 30) 12 = ?k" .
  obtain k where k: "k = ?k" "0 \<le> k" "k < 12" using direction_range by blast
  show ?thesis
    unfolding roundabout_glyph_def Let_def a idx k(1) [symmetric]
    using k(2,3) unat_u8_of_int [of "49 + k"] unat_u8_of_int [of "37 + k"]
    by (simp add: icon_codes nat_add_distrib)
qed

lemma kManeuverGlyph_bounds: "length kManeuverGlyph = 43" "\<forall>c \<in> set kManeuverGlyph. c \<le> 36"
  by (simp_all add: kManeuverGlyph_def icon_codes)

lemma kManeuver_names: "length kManeuver = length kManeuverGlyph"
  by (simp add: kManeuver_def kManeuverGlyph_def)

text \<open>
  C25.  The maneuver glyph is total and stays in the atlas: for every decoded guidance the glyph
  is at most 60, and a roundabout maneuver with an exit uses the bank of its traffic side (49
  plus the direction for clockwise traffic, 37 plus the direction otherwise), the direction
  being the multiple of 30 degrees nearest to the exit angle, for any angle the phone sends.
\<close>

theorem maneuver_glyph:
  "unat (hud_nav16_glyph (Some g)) =
     (if maneuver_type g \<in> {32, 33} then
        49 + nat (((roundabout_exit_angle g + 15) mod 360) div 30)
      else if maneuver_type g \<in> {34, 35} then
        37 + nat (((roundabout_exit_angle g + 15) mod 360) div 30)
      else if maneuver_type g < 43 then unat (kManeuverGlyph ! unat (maneuver_type g))
      else 18) \<and>
   unat (hud_nav16_glyph (Some g)) \<le> (if maneuver_type g \<in> {32, 33, 34, 35} then 60 else 36)"
  (is "?eq \<and> ?bound")
proof
  show ?eq
    by (auto simp: hud_nav16_glyph_def roundabout_glyph_value icon_codes)
  have tab: "unat (kManeuverGlyph ! unat (maneuver_type g)) \<le> 36" if "maneuver_type g < 43"
    using that kManeuverGlyph_bounds nth_mem [of "unat (maneuver_type g)" kManeuverGlyph]
    by (auto simp: word_less_nat_alt word_le_nat_alt)
  have "((roundabout_exit_angle g + 15) mod 360) div 30 \<le> 11"
    using direction_range(2) [of "roundabout_exit_angle g + 15"] by linarith
  then have "nat (((roundabout_exit_angle g + 15) mod 360) div 30) \<le> 11" by linarith
  then show ?bound
    using tab unfolding \<open>?eq\<close> by auto
qed

text \<open>
  C26.  The 1.5 and the 1.6 roundabout formulas name the same glyph for every exit angle from 0
  to 344 degrees; from 345 to 359 degrees the 1.5 formula, which lacks the reduction modulo 12,
  leaves the bank of its traffic side: right-hand traffic shows glyph 49, the left-hand glyph of
  direction 0, and left-hand traffic shows glyph 61, outside the atlas.
\<close>

theorem roundabout_formulas:
  assumes "0 \<le> d" "d < 360"
  shows "(d < 345 \<longrightarrow> roundabout_icon d s = roundabout_glyph d (s = 0)) \<and>
    (345 \<le> d \<longrightarrow> unat (roundabout_icon d s) = (if s = 0 then 61 else 49) \<and>
       unat (roundabout_glyph d (s = 0)) = (if s = 0 then 49 else 37))"
proof (cases "d < 345")
  case True
  then show ?thesis
    using assms by (simp add: word_unat_eq_iff roundabout_icon_value roundabout_glyph_value)
next
  case False
  then have "(d + 15) div 30 = 12" "(d + 15) mod 360 = d + 15 - 360"
    using assms by (simp_all add: mod_pos_geq [of 360])
  then show ?thesis using assms False by (simp add: roundabout_icon_value roundabout_glyph_value)
qed

theorem roundabout_formulas_witness:
  "roundabout_icon 95 1 = roundabout_glyph 95 False \<and> unat (roundabout_icon 350 1) = 49 \<and>
   unat (roundabout_glyph 350 False) = 37"
  using roundabout_formulas [of 95 1] roundabout_formulas [of 350 1] by simp

section \<open>Properties of the display-value parser\<close>

definition digits :: "u8 list \<Rightarrow> bool" where
  "digits ds \<longleftrightarrow> (\<forall>d \<in> set ds. 48 \<le> d \<and> d \<le> 57)"

definition dec_value :: "u8 list \<Rightarrow> int" where
  "dec_value ds = foldl (\<lambda>n d. n * 10 + (uint d - 48)) 0 ds"

lemma dec_value_simps [simp]:
  "dec_value [] = 0" "dec_value (ds @ [d]) = dec_value ds * 10 + (uint d - 48)"
  by (simp_all add: dec_value_def)

lemma dec_value_bounds: "digits ds \<Longrightarrow> 0 \<le> dec_value ds \<and> dec_value ds < 10 ^ length ds"
proof (induction ds rule: rev_induct)
  case (snoc d ds)
  then have "48 \<le> uint d" "uint d \<le> 57" "digits ds"
    by (auto simp: digits_def word_le_def)
  with snoc.IH show ?case by simp
qed simp

lemma parse_dist_loop_digits:
  assumes "digits ds" "length pre + length ds \<le> 9" "digits pre"
  shows "parse_dist_loop (ds @ rest) (dec_value pre) False (pre \<noteq> []) =
    parse_dist_loop rest (dec_value (pre @ ds)) False (pre @ ds \<noteq> [])"
  using assms
proof (induction ds arbitrary: pre)
  case (Cons d ds)
  have d: "48 \<le> d" "d \<le> 57" "48 \<le> uint d" "uint d \<le> 57" and ds: "digits ds"
    using Cons.prems(1) by (auto simp: digits_def word_le_def)
  have pre: "digits (pre @ [d])" using Cons.prems(1,3) by (auto simp: digits_def)
  have "(10::int) ^ length pre \<le> 10 ^ 8" using Cons.prems(2) by (intro power_increasing) auto
  then have small: "dec_value pre < 100000000" "0 \<le> dec_value pre"
    using dec_value_bounds [OF Cons.prems(3)] by simp_all
  have "to_i32 (dec_value pre * 10 + (uint d - 48)) = dec_value (pre @ [d])"
    using small d by (simp add: i32_rangeI)
  then show ?case
    using Cons.IH [OF ds _ pre] Cons.prems(2) small d by simp
qed simp

lemma cstr_digits: "digits ds \<Longrightarrow> cstr (ds @ 0 # rest) = ds"
  by (rule cstr_append_nul) (auto simp: digits_def)

text \<open>
  The display-value parser is exact on the values navigation uses: at most eight digits
  give ten times their value, and a separator (comma or point) followed by a digit adds that
  digit, whatever follows it (further digits are dropped).
\<close>

theorem parse_dist_exact:
  assumes "digits ds" "ds \<noteq> []" "length ds \<le> 8" "sep = 44 \<or> sep = 46" "digits [f]"
  shows "parse_dist_x10 (Some (ds @ 0 # rest)) = 10 * dec_value ds \<and>
    parse_dist_x10 (Some (ds @ sep # f # tail @ 0 # rest)) = 10 * dec_value ds + (uint f - 48)"
proof -
  have "(10::int) ^ length ds \<le> 10 ^ 8" using assms(3) by (intro power_increasing) auto
  then have v: "0 \<le> dec_value ds" "dec_value ds < 100000000"
    using dec_value_bounds [OF assms(1)] by simp_all
  have f: "48 \<le> f" "f \<le> 57" "48 \<le> uint f" "uint f \<le> 57"
    using assms(5) by (simp_all add: digits_def word_le_def)
  have r1: "i32_range (dec_value ds * 10)" and r2: "i32_range (dec_value ds * 10 + (uint f - 48))"
    using v f by (auto simp: i32_range_def)
  have "parse_dist_loop ds 0 False False = (dec_value ds, 0, True)"
    using parse_dist_loop_digits [of ds "[]" "[]"] assms by (simp add: digits_def)
  then have "parse_dist_x10 (Some (ds @ 0 # rest)) = 10 * dec_value ds"
    using r1 by (simp add: parse_dist_x10_def cstr_digits assms(1))
  moreover have "parse_dist_loop (cstr (ds @ sep # f # tail @ 0 # rest)) 0 False False =
      (dec_value ds, uint f - 48, True)"
  proof -
    have "0 \<notin> set (ds @ [sep, f])" using assms by (auto simp: digits_def)
    then have "cstr (ds @ sep # f # tail @ 0 # rest) = ds @ sep # f # cstr (tail @ 0 # rest)"
      by (auto simp: cstr_def takeWhile_append)
    moreover have "\<not> (48 \<le> sep \<and> sep \<le> 57)" using assms(4) by auto
    ultimately show ?thesis
      using parse_dist_loop_digits [of ds "[]"] assms f by (auto simp: digits_def)
  qed
  then have "parse_dist_x10 (Some (ds @ sep # f # tail @ 0 # rest)) = 10 * dec_value ds + (uint f - 48)"
    using r2 by (simp add: parse_dist_x10_def)
  ultimately show ?thesis by blast
qed

theorem parse_dist_exact_witness:
  "parse_dist_x10 (Some [49, 44, 51, 0]) = 13"
  using parse_dist_exact [of "[49]" 44 51 "[]" "[]"] by (simp add: digits_def dec_value_def)

text \<open>
  The cap that is meant to keep the 32-bit accumulator from overflowing does not cover the
  final scaling: a ninth digit is still accumulated, and the product with ten then leaves the
  32-bit range, so that the display value 300000000 is parsed as a negative distance.
\<close>

theorem parse_dist_overflow:
  "parse_dist_x10 (Some [51, 48, 48, 48, 48, 48, 48, 48, 48, 0]) = -1294967296"
  by (simp add: parse_dist_x10_def cstr_def to_i32_def)

end
