(* ===== verification/Nav16_Relay.thy ===== *)
theory Nav16_Relay
  imports Nav16_Decode
begin

text \<open>
  The two ends of the cross-process path of GAL 1.6 navigation frames:
  \<open>aap_service/navi/navi.cpp\<close> (version bump, vtable hook, relay) and
  \<open>blmjciaapa/hud/nav16_rx.cpp\<close> (receiver thread, header validation, session bracket).

  Arguments stand for what the code calls outside the repository: the OEM accessors of an
  IO buffer, the OEM \<open>routeMessage\<close>, \<open>mprotect\<close>, the results of the socket calls and of thread
  creation.  A write to a page that is not writable, and a copy past a buffer, is \<open>None\<close>.
\<close>

section \<open>navi.cpp: code patching\<close>

definition kVersionInsnAddr :: u32 where "kVersionInsnAddr = 0x00173eb4"
definition kVersionInsnOld :: u32 where "kVersionInsnOld = 0xe3a02005"
definition kVersionInsnNew :: u32 where "kVersionInsnNew = 0xe3a02006"
definition kVtableSlotAddr :: u32 where "kVtableSlotAddr = 0x001f7d2c"
definition kRouteMessageAddr :: u32 where "kRouteMessageAddr = 0x0017be10"

lemmas navi_addrs = kVersionInsnAddr_def kVersionInsnOld_def kVersionInsnNew_def
  kVtableSlotAddr_def kRouteMessageAddr_def

datatype prot = PROT_READ_WRITE | PROT_READ_EXEC | PROT_READ_ONLY

text \<open>The words and page protections of the process.\<close>

record proc_mem =
  mem_word :: "u32 \<Rightarrow> u32"
  page_prot :: "u32 \<Rightarrow> prot"

definition page_of :: "u32 \<Rightarrow> u32 \<Rightarrow> u32" where
  "page_of ps addr = addr AND NOT (ps - 1)"

text \<open>
  \<open>mprot page len prot\<close> tells whether \<open>mprotect\<close> succeeds; \<open>ps\<close> is \<open>sysconf(_SC_PAGESIZE)\<close>.
\<close>

definition set_prot ::
  "u32 \<Rightarrow> (u32 \<Rightarrow> u32 \<Rightarrow> prot \<Rightarrow> bool) \<Rightarrow> u32 \<Rightarrow> u32 \<Rightarrow> prot \<Rightarrow> proc_mem \<Rightarrow> bool \<times> proc_mem" where
  "set_prot ps mprot addr len prot m =
     (let page = page_of ps addr in
      if mprot page (addr + len - page) prot
      then (True, m\<lparr>page_prot := (page_prot m)(page := prot)\<rparr>) else (False, m))"

definition store_word :: "u32 \<Rightarrow> u32 \<Rightarrow> u32 \<Rightarrow> proc_mem \<Rightarrow> proc_mem option" where
  "store_word ps addr w m =
     (if page_prot m (page_of ps addr) = PROT_READ_WRITE
      then Some (m\<lparr>mem_word := (mem_word m)(addr := w)\<rparr>) else None)"

definition bump_version ::
  "u32 \<Rightarrow> (u32 \<Rightarrow> u32 \<Rightarrow> prot \<Rightarrow> bool) \<Rightarrow> proc_mem \<Rightarrow> proc_mem option" where
  "bump_version ps mprot m =
     (if mem_word m kVersionInsnAddr \<noteq> kVersionInsnOld then Some m
      else
        (case set_prot ps mprot kVersionInsnAddr 4 PROT_READ_WRITE m of
           (ok, m) \<Rightarrow>
             if \<not> ok then Some m
             else
               (case store_word ps kVersionInsnAddr kVersionInsnNew m of
                  None \<Rightarrow> None
                | Some m \<Rightarrow> Some (snd (set_prot ps mprot kVersionInsnAddr 4 PROT_READ_EXEC m)))))"

definition install_nav_hook ::
  "u32 \<Rightarrow> (u32 \<Rightarrow> u32 \<Rightarrow> prot \<Rightarrow> bool) \<Rightarrow> u32 \<Rightarrow> proc_mem \<Rightarrow> (bool \<times> proc_mem) option" where
  "install_nav_hook ps mprot hook m =
     (if mem_word m kVtableSlotAddr \<noteq> kRouteMessageAddr then Some (False, m)
      else
        (case set_prot ps mprot kVtableSlotAddr 4 PROT_READ_WRITE m of
           (ok, m) \<Rightarrow>
             if \<not> ok then Some (False, m)
             else
               (case store_word ps kVtableSlotAddr hook m of
                  None \<Rightarrow> None
                | Some m \<Rightarrow> Some (True, snd (set_prot ps mprot kVtableSlotAddr 4 PROT_READ_ONLY m)))))"

definition navi_init ::
  "u32 \<Rightarrow> (u32 \<Rightarrow> u32 \<Rightarrow> prot \<Rightarrow> bool) \<Rightarrow> u32 \<Rightarrow> proc_mem \<Rightarrow> proc_mem option" where
  "navi_init ps mprot hook m =
     (case install_nav_hook ps mprot hook m of
        None \<Rightarrow> None
      | Some (ok, m) \<Rightarrow> if ok then bump_version ps mprot m else Some m)"

section \<open>navi.cpp: the relay\<close>

record ('r, 'b) oem_iob =
  sp_deref :: "'r \<Rightarrow> 'b option"
  iob_raw :: "'b \<Rightarrow> u8 list option"
  iob_size :: "'b \<Rightarrow> int"

definition frame_bytes :: "('r, 'b) oem_iob \<Rightarrow> 'r option \<Rightarrow> u8 list option \<times> int" where
  "frame_bytes oem iobuf_ref =
     (case iobuf_ref of
        None \<Rightarrow> (None, 0)
      | Some r \<Rightarrow>
          (case sp_deref oem r of
             None \<Rightarrow> (None, 0)
           | Some iob \<Rightarrow>
               (case iob_raw oem iob of
                  None \<Rightarrow> (None, 0)
                | Some raw \<Rightarrow>
                    if iob_size oem iob \<le> 0 then (None, 0) else (Some raw, iob_size oem iob))))"

text \<open>
  The sender's socket: \<open>sock\<close> is what \<open>socket()\<close> returns, \<open>sent\<close> whether \<open>sendto\<close> succeeds; the
  result is the new descriptor and the datagram put on the wire.
\<close>

record tx_env =
  tx_sock :: int
  tx_sent :: bool

definition nav16_send_raw :: "tx_env \<Rightarrow> u8 list \<Rightarrow> int \<Rightarrow> int \<times> u8 list option" where
  "nav16_send_raw env buf fd =
     (let fd = (if fd < 0 then tx_sock env else fd) in
      if fd < 0 then (fd, None) else (fd, if tx_sent env then Some buf else None))"

definition relay_frame ::
  "('r, 'b) oem_iob \<Rightarrow> tx_env \<Rightarrow> 'r option \<Rightarrow> int \<Rightarrow> (int \<times> u8 list option) option" where
  "relay_frame oem env iobuf_ref fd =
     (case frame_bytes oem iobuf_ref of
        (raw, sz) \<Rightarrow>
          (case raw of
             None \<Rightarrow> Some (fd, None)
           | Some bytes \<Rightarrow>
               if sz < 2 then Some (fd, None)
               else
                 (let sz = (if sz > int AA_NAV16_MAX_FRAME then int AA_NAV16_MAX_FRAME else sz);
                      hdr = \<lparr>hdr_magic = AA_NAV16_MAGIC, hdr_version = AA_NAV16_VERSION,
                             hdr_reserved = 0, hdr_len = word_of_int sz\<rparr>
                  in if nat sz \<le> length bytes
                     then Some (nav16_send_raw env (hdr_bytes hdr @ take (nat sz) bytes) fd)
                     else None)))"

definition hook_routeMessage ::
  "('r, 'b) oem_iob \<Rightarrow> (u32 \<Rightarrow> u32 \<Rightarrow> 'r option \<Rightarrow> int) \<Rightarrow> tx_env \<Rightarrow> u32 \<Rightarrow> u32 \<Rightarrow> 'r option \<Rightarrow> int \<Rightarrow>
   (int \<times> int \<times> u8 list option) option" where
  "hook_routeMessage oem oem_route env chan msgId iobuf_ref fd =
     (let mid = msgId AND 0xffff in
      if mid \<ge> AA_NAV16_MSG_SWALLOW_FIRST \<and> mid \<le> AA_NAV16_MSG_SWALLOW_LAST then
        map_option (\<lambda>r. (0, r)) (relay_frame oem env iobuf_ref fd)
      else Some (oem_route chan msgId iobuf_ref, fd, None))"

section \<open>nav16_rx.cpp: the receiver\<close>

record 'st rx =
  rx_stop :: bool
  rx_seen :: bool
  rx_thread_up :: bool
  rx_fd :: int
  rx_stop_fd :: int
  rx_sink :: "'st nav16_sink"

definition no_sink :: "'st nav16_sink" where
  "no_sink = \<lparr>on_guidance = None, on_position = None, on_status = None\<rparr>"

text \<open>
  The part of a loop pass after \<open>recv\<close>, on the bytes received into the 1032-byte buffer; a
  longer datagram is truncated by the kernel.
\<close>

definition rx_datagram :: "u8 list \<Rightarrow> 'st rx \<Rightarrow> 'st \<Rightarrow> ('st rx \<times> 'st) option" where
  "rx_datagram dg rx st =
     (let buf = take (8 + AA_NAV16_MAX_FRAME) dg; n = length buf in
      if n < 8 then Some (rx, st)
      else
        (let hdr = bytes_hdr buf; len = int (unat (hdr_len hdr)) in
         if hdr_magic hdr \<noteq> AA_NAV16_MAGIC \<or> hdr_version hdr \<noteq> AA_NAV16_VERSION then Some (rx, st)
         else if len < 2 \<or> len > int AA_NAV16_MAX_FRAME \<or> 8 + len > int n then Some (rx, st)
         else map_option (\<lambda>st'. (rx\<lparr>rx_seen := True\<rparr>, st'))
                (hud_nav16_feed (rx_sink rx) (Some (drop 8 buf)) len st)))"

text \<open>
  One pass of the loop of \<open>rx_main\<close>: what \<open>poll\<close> returns, the two \<open>POLLIN\<close> flags, and what
  \<open>recv\<close> delivers (\<open>None\<close> for an error).  The first component tells whether the loop goes on.
\<close>

record poll_result =
  poll_r :: int
  poll_stop :: bool
  poll_data :: bool
  poll_recv :: "u8 list option"

definition rx_pass :: "poll_result \<Rightarrow> 'st rx \<Rightarrow> 'st \<Rightarrow> (bool \<times> 'st rx \<times> 'st) option" where
  "rx_pass p rx st =
     (if rx_stop rx then Some (False, rx, st)
      else if poll_r p \<le> 0 then Some (True, rx, st)
      else if poll_stop p then Some (False, rx, st)
      else if \<not> poll_data p then Some (True, rx, st)
      else
        (case poll_recv p of
           None \<Rightarrow> Some (True, rx, st)
         | Some dg \<Rightarrow> map_option (\<lambda>r. (True, r)) (rx_datagram dg rx st)))"

text \<open>
  \<open>start\<close>: \<open>efd\<close> is the result of \<open>eventfd\<close>, \<open>spawned\<close> that of the thread creation, \<open>sock\<close> that of
  \<open>open_rx_socket\<close> in the new thread; \<open>reset\<close> is \<open>hud_feed_nav16_reset\<close> of the consumer.
\<close>

definition hud_nav16_rx_start ::
  "('st \<Rightarrow> 'st) \<Rightarrow> 'st nav16_sink \<Rightarrow> int \<Rightarrow> bool \<Rightarrow> int \<Rightarrow> 'st rx \<Rightarrow> 'st \<Rightarrow> 'st rx \<times> 'st" where
  "hud_nav16_rx_start reset sink efd spawned sock rx st =
     (if rx_thread_up rx then (rx, st)
      else
        (let rx = rx\<lparr>rx_sink := hud_nav16_set_sink (on_guidance sink) (on_position sink)
                                 (on_status sink) (rx_sink rx)\<rparr>;
             st = reset st;
             rx = rx\<lparr>rx_seen := False, rx_stop := False, rx_stop_fd := efd\<rparr>
         in if \<not> spawned then
              (rx\<lparr>rx_sink := no_sink, rx_stop_fd := (if efd \<ge> 0 then -1 else efd)\<rparr>, st)
            else (rx\<lparr>rx_thread_up := True, rx_fd := sock\<rparr>, st)))"

definition hud_nav16_rx_seen :: "'st rx \<Rightarrow> bool" where
  "hud_nav16_rx_seen rx = rx_seen rx"

definition hud_nav16_rx_stop :: "'st rx \<Rightarrow> 'st rx" where
  "hud_nav16_rx_stop rx =
     (if \<not> rx_thread_up rx then rx
      else rx\<lparr>rx_stop := True, rx_fd := -1, rx_sink := no_sink,
              rx_stop_fd := (if rx_stop_fd rx \<ge> 0 then -1 else rx_stop_fd rx),
              rx_thread_up := False\<rparr>)"

section \<open>Properties of the relay and the receiver\<close>

lemma bytes_hdr_take: "length h = 8 \<Longrightarrow> 8 \<le> k \<Longrightarrow> bytes_hdr (take k (h @ rest)) = bytes_hdr (h @ rest)"
  by (simp add: bytes_hdr_def nth_append)

lemma unat_hdr_len: "0 \<le> n \<Longrightarrow> n \<le> 1024 \<Longrightarrow> unat (word_of_int n :: u16) = nat n"
  by (simp add: unsigned_of_int take_bit_int_eq_self nat_eq_iff)

lemma relayed_datagram:
  assumes "frame_bytes oem r = (Some raw, sz)" and "2 \<le> sz" and "sz \<le> int (length raw)"
    and "relay_frame oem env r fd = Some (fd', Some dg)"
  shows "take (8 + AA_NAV16_MAX_FRAME) dg =
    hdr_bytes \<lparr>hdr_magic = AA_NAV16_MAGIC, hdr_version = AA_NAV16_VERSION, hdr_reserved = 0,
      hdr_len = word_of_int (min sz 1024)\<rparr> @ take (nat (min sz 1024)) raw"
proof -
  have "dg = hdr_bytes \<lparr>hdr_magic = AA_NAV16_MAGIC, hdr_version = AA_NAV16_VERSION, hdr_reserved = 0,
      hdr_len = word_of_int (min sz 1024)\<rparr> @ take (nat (min sz 1024)) raw"
    using assms by (auto simp: relay_frame_def AA_NAV16_MAX_FRAME_def nav16_send_raw_def min_def
        Let_def split: if_splits)
  moreover have "nat (min sz 1024) \<le> 1024" by simp
  ultimately show ?thesis by (simp add: AA_NAV16_MAX_FRAME_def)
qed

lemma rx_good_datagram:
  assumes "take (8 + AA_NAV16_MAX_FRAME) dg =
    hdr_bytes \<lparr>hdr_magic = AA_NAV16_MAGIC, hdr_version = AA_NAV16_VERSION, hdr_reserved = 0,
      hdr_len = word_of_int n\<rparr> @ f"
    and "2 \<le> n" and "n \<le> 1024" and "length f = nat n"
  shows "rx_datagram dg rx st =
    map_option (\<lambda>st'. (rx\<lparr>rx_seen := True\<rparr>, st')) (hud_nav16_feed (rx_sink rx) (Some f) n st)"
proof -
  have len: "int (unat (hdr_len \<lparr>hdr_magic = AA_NAV16_MAGIC, hdr_version = AA_NAV16_VERSION,
      hdr_reserved = 0, hdr_len = word_of_int n\<rparr>)) = n" using assms(2,3) by (simp add: unat_hdr_len)
  show ?thesis
    unfolding rx_datagram_def Let_def assms(1) bytes_hdr_bytes len
    using assms(2-4) by (auto simp: AA_NAV16_MAX_FRAME_def)
qed

text \<open>
  C11.  The relay is transparent: when the OEM hands the hook a navigation frame of at least two
  bytes, the receiver feeds its decoder exactly the first 1024 bytes of that frame, and latches
  that a 1.6 frame was seen.
\<close>

theorem relay_roundtrip:
  assumes frame: "frame_bytes oem r = (Some raw, sz)" "2 \<le> sz" "sz \<le> int (length raw)"
    and sent: "relay_frame oem env r fd = Some (fd', Some dg)"
  shows "rx_datagram dg rx st =
    map_option (\<lambda>st'. (rx\<lparr>rx_seen := True\<rparr>, st'))
      (hud_nav16_feed (rx_sink rx) (Some (take (nat (min sz 1024)) raw)) (min sz 1024) st)"
proof (rule rx_good_datagram [OF relayed_datagram [OF frame sent]])
  show "length (take (nat (min sz 1024)) raw) = nat (min sz 1024)" using frame(2,3) by auto
qed (use frame(2) in simp_all)

theorem relay_roundtrip_witness:
  "\<exists>dg. relay_frame \<lparr>sp_deref = Some, iob_raw = Some, iob_size = \<lambda>b. int (length b)\<rparr>
       \<lparr>tx_sock = 3, tx_sent = True\<rparr> (Some [0x80, 0x02]) (-1) = Some (3, Some dg) \<and>
     rx_datagram dg \<lparr>rx_stop = False, rx_seen = False, rx_thread_up = True, rx_fd = 4, rx_stop_fd = 5,
       rx_sink = \<lparr>on_guidance = None, on_position = None, on_status = Some (\<lambda>s _. cluster_stop s)\<rparr>\<rparr> False =
     Some (\<lparr>rx_stop = False, rx_seen = True, rx_thread_up = True, rx_fd = 4, rx_stop_fd = 5,
       rx_sink = \<lparr>on_guidance = None, on_position = None, on_status = Some (\<lambda>s _. cluster_stop s)\<rparr>\<rparr>, True)"
proof -
  let ?oem = "\<lparr>sp_deref = Some, iob_raw = Some, iob_size = \<lambda>b. int (length b)\<rparr> :: (u8 list, u8 list) oem_iob"
  let ?env = "\<lparr>tx_sock = 3, tx_sent = True\<rparr>"
  have f: "frame_bytes ?oem (Some [0x80, 0x02]) = (Some [0x80, 0x02], 2)"
    by (simp add: frame_bytes_def)
  obtain dg where dg: "relay_frame ?oem ?env (Some [0x80, 0x02]) (-1) = Some (3, Some dg)"
    by (simp add: relay_frame_def f nav16_send_raw_def AA_NAV16_MAX_FRAME_def)
  have m: "frame_msg_id [0x80, 0x02] = Some AA_NAV16_MSG_CLUSTER_STOP"
    by (simp add: frame_msg_id_def nav16_msg_ids)
  show ?thesis
    using relay_roundtrip [OF f _ _ dg, where st = False and rx = "\<lparr>rx_stop = False, rx_seen = False,
        rx_thread_up = True, rx_fd = 4, rx_stop_fd = 5, rx_sink = \<lparr>on_guidance = None,
        on_position = None, on_status = Some (\<lambda>s _. cluster_stop s)\<rparr>\<rparr>"] dg m by (simp add: hud_nav16_feed_def nav16_msg_ids)
qed

text \<open>
  The receiver is robust on its world-writable socket: for every datagram, it never reads
  outside the received bytes and always returns; a datagram without the right magic, version
  and length leaves the receiver and the consumer unchanged and in particular does not latch
  the 1.6 path.
\<close>

theorem rx_robust:
  "\<exists>rx' st'. rx_datagram dg rx st = Some (rx', st') \<and>
     ((rx' = rx \<and> st' = st) \<or>
      (8 \<le> length dg \<and> hdr_magic (bytes_hdr dg) = AA_NAV16_MAGIC \<and>
       hdr_version (bytes_hdr dg) = AA_NAV16_VERSION \<and>
       2 \<le> unat (hdr_len (bytes_hdr dg)) \<and> unat (hdr_len (bytes_hdr dg)) \<le> 1024 \<and>
       8 + unat (hdr_len (bytes_hdr dg)) \<le> length dg \<and> rx' = rx\<lparr>rx_seen := True\<rparr>))"
proof -
  let ?buf = "take (8 + AA_NAV16_MAX_FRAME) dg"
  let ?hdr = "bytes_hdr ?buf"
  let ?len = "int (unat (hdr_len ?hdr))"
  let ?bad = "hdr_magic ?hdr \<noteq> AA_NAV16_MAGIC \<or> hdr_version ?hdr \<noteq> AA_NAV16_VERSION \<or>
      ?len < 2 \<or> ?len > int AA_NAV16_MAX_FRAME \<or> 8 + ?len > int (length ?buf)"
  show ?thesis
  proof (cases "length ?buf < 8 \<or> ?bad")
    case True
    then have "rx_datagram dg rx st = Some (rx, st)"
      unfolding rx_datagram_def Let_def by presburger
    then show ?thesis by blast
  next
    case False
    then have long: "8 \<le> length dg" by auto
    then have hdr: "?hdr = bytes_hdr dg"
      by (simp add: bytes_hdr_def AA_NAV16_MAX_FRAME_def)
    have len: "?len \<le> int (length (drop 8 ?buf))" using False by auto
    from feed_safe [OF len, of "rx_sink rx" st] obtain st' where
      "hud_nav16_feed (rx_sink rx) (Some (drop 8 ?buf)) ?len st = Some st'" by blast
    then have "rx_datagram dg rx st = Some (rx\<lparr>rx_seen := True\<rparr>, st')"
      using False unfolding rx_datagram_def Let_def by simp
    moreover have "hdr_magic ?hdr = AA_NAV16_MAGIC" "hdr_version ?hdr = AA_NAV16_VERSION"
      using False by blast+
    moreover have "2 \<le> unat (hdr_len ?hdr)" "unat (hdr_len ?hdr) \<le> 1024"
        "8 + unat (hdr_len ?hdr) \<le> length dg"
      using False unfolding AA_NAV16_MAX_FRAME_def length_take by linarith+
    ultimately show ?thesis using long unfolding hdr by blast
  qed
qed

text \<open>
  Start-up is all or nothing on the hook: for every initial memory and every behaviour of
  \<open>mprotect\<close>, \<open>init\<close> never writes to a protected page, changes no word but the vtable slot and
  the version instruction, and advertises GAL 1.6 only when the hook is in place.
\<close>

theorem init_patches:
  assumes "hook \<noteq> kRouteMessageAddr"
  shows "\<exists>m'. navi_init ps mprot hook m = Some m' \<and>
    (\<forall>a. a \<noteq> kVtableSlotAddr \<and> a \<noteq> kVersionInsnAddr \<longrightarrow> mem_word m' a = mem_word m a) \<and>
    (mem_word m' kVersionInsnAddr \<noteq> mem_word m kVersionInsnAddr \<longrightarrow>
       mem_word m kVersionInsnAddr = kVersionInsnOld \<and> mem_word m' kVersionInsnAddr = kVersionInsnNew \<and>
       mem_word m kVtableSlotAddr = kRouteMessageAddr \<and> mem_word m' kVtableSlotAddr = hook)"
proof -
  have ne: "kVtableSlotAddr \<noteq> kVersionInsnAddr" by (simp add: navi_addrs)
  have hook: "\<exists>ok m1. install_nav_hook ps mprot hook m = Some (ok, m1) \<and>
      (if ok then mem_word m kVtableSlotAddr = kRouteMessageAddr \<and>
         mem_word m1 = (mem_word m)(kVtableSlotAddr := hook) else mem_word m1 = mem_word m)"
    by (auto simp: install_nav_hook_def set_prot_def store_word_def Let_def)
  have bump: "\<exists>m2. bump_version ps mprot m1 = Some m2 \<and>
      (mem_word m2 = mem_word m1 \<or>
       mem_word m1 kVersionInsnAddr = kVersionInsnOld \<and>
       mem_word m2 = (mem_word m1)(kVersionInsnAddr := kVersionInsnNew))" for m1
    by (auto simp: bump_version_def set_prot_def store_word_def Let_def)
  from hook obtain ok m1 where m1: "install_nav_hook ps mprot hook m = Some (ok, m1)"
    and w1: "if ok then mem_word m kVtableSlotAddr = kRouteMessageAddr \<and>
         mem_word m1 = (mem_word m)(kVtableSlotAddr := hook) else mem_word m1 = mem_word m"
    by blast
  show ?thesis
  proof (cases ok)
    case False
    then show ?thesis using m1 w1 by (simp add: navi_init_def)
  next
    case True
    from bump [of m1] obtain m2 where m2: "bump_version ps mprot m1 = Some m2"
      "mem_word m2 = mem_word m1 \<or> mem_word m1 kVersionInsnAddr = kVersionInsnOld \<and>
         mem_word m2 = (mem_word m1)(kVersionInsnAddr := kVersionInsnNew)" by blast
    then show ?thesis using m1 w1 True ne by (auto simp: navi_init_def)
  qed
qed

theorem init_patches_witness:
  "\<exists>m'. navi_init 4096 (\<lambda>_ _ _. True) 7 \<lparr>mem_word = (\<lambda>_. 0)(kVtableSlotAddr := kRouteMessageAddr,
       kVersionInsnAddr := kVersionInsnOld), page_prot = \<lambda>_. PROT_READ_EXEC\<rparr> = Some m'"
  using init_patches [of 7 4096 "\<lambda>_ _ _. True" "\<lparr>mem_word = (\<lambda>_. 0)(kVtableSlotAddr := kRouteMessageAddr,
       kVersionInsnAddr := kVersionInsnOld), page_prot = \<lambda>_. PROT_READ_EXEC\<rparr>"]
  by (auto simp: navi_addrs)

text \<open>
  The hook keeps the legacy turn events from their OEM handler even when the phone speaks
  GAL 1.5: a turn event (0x8004) is swallowed and relayed, and on the receiving side it latches
  the 1.6 path, which suppresses the 1.5 callbacks, while no callback of the decoder runs.
\<close>

theorem legacy_turn_event_lost:
  assumes "frame_bytes oem r = (Some raw, sz)" "2 \<le> sz" "sz \<le> 1024" "sz \<le> int (length raw)"
    and "raw ! 0 = 0x80" "raw ! 1 = 0x04" "0 \<le> sock" "rx_stop rx = False"
  shows "\<exists>dg. hook_routeMessage oem route \<lparr>tx_sock = sock, tx_sent = True\<rparr> chan 0x8004 r (-1) =
      Some (0, sock, Some dg) \<and> rx_datagram dg rx st = Some (rx\<lparr>rx_seen := True\<rparr>, st)"
proof -
  let ?h = "\<lparr>hdr_magic = AA_NAV16_MAGIC, hdr_version = AA_NAV16_VERSION, hdr_reserved = 0,
      hdr_len = word_of_int sz\<rparr>"
  let ?env = "\<lparr>tx_sock = sock, tx_sent = True\<rparr>"
  have dg: "relay_frame oem ?env r (-1) = Some (sock, Some (hdr_bytes ?h @ take (nat sz) raw))"
    using assms by (simp add: relay_frame_def nav16_send_raw_def AA_NAV16_MAX_FRAME_def Let_def nat_le_iff)
  then have hook: "hook_routeMessage oem route ?env chan 0x8004 r (-1) =
      Some (0, sock, Some (hdr_bytes ?h @ take (nat sz) raw))"
    by (simp add: hook_routeMessage_def nav16_msg_ids)
  have "2 \<le> length raw" using assms by linarith
  then have "frame_msg_id (take (nat sz) raw) = Some 0x8004"
    using assms by (simp add: frame_msg_id_def)
  then have "hud_nav16_feed (rx_sink rx) (Some (take (nat sz) raw)) sz st = Some st"
    using assms by (simp add: hud_nav16_feed_def nav16_msg_ids)
  then have "rx_datagram (hdr_bytes ?h @ take (nat sz) raw) rx st = Some (rx\<lparr>rx_seen := True\<rparr>, st)"
    using relay_roundtrip [OF assms(1,2,4) dg, of rx st] assms(3) by simp
  with hook show ?thesis by blast
qed

theorem legacy_turn_event_lost_witness:
  "\<exists>dg. hook_routeMessage \<lparr>sp_deref = Some, iob_raw = Some, iob_size = \<lambda>b. int (length b)\<rparr>
       (\<lambda>_ _ _. -1) \<lparr>tx_sock = 3, tx_sent = True\<rparr> 1 0x8004 (Some [0x80, 0x04, 0x08, 0x01]) (-1) =
      Some (0, 3, Some dg)"
proof -
  let ?oem = "\<lparr>sp_deref = Some, iob_raw = Some, iob_size = \<lambda>b. int (length b)\<rparr> :: (u8 list, u8 list) oem_iob"
  have "frame_bytes ?oem (Some [0x80, 0x04, 0x08, 0x01]) = (Some [0x80, 0x04, 0x08, 0x01], 4)"
    by (simp add: frame_bytes_def)
  from legacy_turn_event_lost [OF this, where sock = 3 and route = "\<lambda>_ _ _. -1" and chan = 1
      and rx = "\<lparr>rx_stop = False, rx_seen = False, rx_thread_up = True, rx_fd = 4, rx_stop_fd = 5,
        rx_sink = no_sink\<rparr>" and st = "()"]
  show ?thesis by auto
qed

section \<open>The session bracket as a state machine\<close>

text \<open>
  Sessions start and stop on the lifecycle thread; passes of the receive loop interleave while
  the thread runs.  \<open>rx_live\<close>: the thread exists and its socket is bound.
\<close>

definition rx_live :: "'st rx \<Rightarrow> bool" where
  "rx_live rx \<longleftrightarrow> rx_thread_up rx \<and> 0 \<le> rx_fd rx"

inductive rx_step ::
  "('st \<Rightarrow> 'st) \<Rightarrow> 'st nav16_sink \<Rightarrow> 'st rx \<times> 'st \<Rightarrow> 'st rx \<times> 'st \<Rightarrow> bool"
  for reset sink where
  start: "rx_step reset sink (rx, st) (hud_nav16_rx_start reset sink efd spawned sock rx st)"
| pass: "rx_live rx \<Longrightarrow> rx_pass p rx st = Some (go, rx', st') \<Longrightarrow>
    rx_step reset sink (rx, st) (rx', st')"
| stop: "rx_step reset sink (rx, st) (hud_nav16_rx_stop rx, st)"

definition rx_init :: "'st rx" where
  "rx_init = \<lparr>rx_stop = False, rx_seen = False, rx_thread_up = False, rx_fd = -1, rx_stop_fd = -1,
     rx_sink = no_sink\<rparr>"

definition rx_inv :: "'st nav16_sink \<Rightarrow> 'st rx \<Rightarrow> bool" where
  "rx_inv sink rx \<longleftrightarrow>
     (if rx_thread_up rx then rx_sink rx = sink else rx_sink rx = no_sink \<and> rx_stop_fd rx < 0)"

lemma rx_pass_keeps:
  assumes "rx_pass p rx st = Some (go, rx', st')"
  shows "rx_thread_up rx' = rx_thread_up rx \<and> rx_sink rx' = rx_sink rx \<and> rx_stop_fd rx' = rx_stop_fd rx"
  using assms
  by (auto simp: rx_pass_def rx_datagram_def Let_def split: if_splits option.splits)

lemma rx_inv_step: "rx_step reset sink s s' \<Longrightarrow> rx_inv sink (fst s) \<Longrightarrow> rx_inv sink (fst s')"
proof (induction rule: rx_step.induct)
  case (start rx st efd spawned sock)
  then show ?case
    by (auto simp: hud_nav16_rx_start_def hud_nav16_set_sink_def rx_inv_def Let_def)
next
  case (pass rx p st go rx' st')
  then show ?case using rx_pass_keeps by (fastforce simp: rx_inv_def)
next
  case (stop rx st)
  then show ?case by (auto simp: hud_nav16_rx_stop_def rx_inv_def)
qed

text \<open>
  C40.  Along every interleaving of session starts, stops and receive-loop passes, the consumer's
  callbacks are registered exactly while the receiver thread exists, no stop descriptor leaks
  out of a session, and no pass of the loop ever fails: the thread can always take the next
  datagram.
\<close>

theorem rx_sessions_safe:
  assumes "(rx_step reset sink)\<^sup>*\<^sup>* (rx_init, st0) (rx, st)"
  shows "(if rx_thread_up rx then rx_sink rx = sink else rx_sink rx = no_sink \<and> rx_stop_fd rx < 0) \<and>
    rx_pass p rx st \<noteq> None"
proof -
  have "rx_inv sink (fst (rx, st))"
    using assms
  proof (induction rule: rtranclp_induct)
    case base
    then show ?case by (simp add: rx_inv_def rx_init_def)
  next
    case (step s s')
    then show ?case using rx_inv_step by blast
  qed
  moreover have "rx_pass p rx st \<noteq> None"
    using rx_robust [of "the (poll_recv p)" rx st]
    by (auto simp: rx_pass_def split: option.splits)
  ultimately show ?thesis by (simp add: rx_inv_def)
qed

theorem rx_sessions_safe_witness:
  "\<exists>rx st. (rx_step (\<lambda>_. 0) no_sink)\<^sup>*\<^sup>* (rx_init, 5::nat) (rx, st) \<and> rx_thread_up rx \<and>
     rx_pass \<lparr>poll_r = 1, poll_stop = False, poll_data = True, poll_recv = Some [1, 2]\<rparr> rx st \<noteq> None"
proof -
  let ?s = "hud_nav16_rx_start (\<lambda>_. 0) no_sink 9 True 8 rx_init (5::nat)"
  have r: "(rx_step (\<lambda>_. 0) no_sink)\<^sup>*\<^sup>* (rx_init, 5::nat) (fst ?s, snd ?s)"
    using rx_step.start [of "\<lambda>_. 0" no_sink rx_init "5::nat" 9 True 8] by (simp add: r_into_rtranclp)
  moreover have "rx_thread_up (fst ?s)"
    by (simp add: hud_nav16_rx_start_def rx_init_def Let_def)
  ultimately show ?thesis using rx_sessions_safe [OF r] by blast
qed

end
