(* ===== verification/Config.thy ===== *)
theory Config
  imports Prelude
begin

text \<open>
  \<open>common/config.h\<close>: the \<open>key = value\<close> file next to the shared object, its line parser, the
  schema with its defaults, and the load-once state.  The dynamic linker (\<open>dladdr\<close>) and the
  file system (\<open>fopen\<close>) are arguments: the path of the object that holds a symbol, and the
  contents of the file at a path.  Strings are the bytes before the NUL.
\<close>

section \<open>C strings\<close>

definition ascii :: "string \<Rightarrow> u8 list" where
  "ascii s = map of_char s"

definition tolower :: "u8 \<Rightarrow> u8" where
  "tolower c = (if 65 \<le> c \<and> c \<le> 90 then c + 32 else c)"

definition strcaseeq :: "u8 list \<Rightarrow> u8 list \<Rightarrow> bool" where
  "strcaseeq a b \<longleftrightarrow> map tolower a = map tolower b"

definition is_blank :: "u8 \<Rightarrow> bool" where
  "is_blank c \<longleftrightarrow> c = 32 \<or> c = 9"

definition is_eol :: "u8 \<Rightarrow> bool" where
  "is_eol c \<longleftrightarrow> c = 10 \<or> c = 13"

definition rstrip :: "('a \<Rightarrow> bool) \<Rightarrow> 'a list \<Rightarrow> 'a list" where
  "rstrip P xs = rev (dropWhile P (rev xs))"

section \<open>find_sibling_file\<close>

definition kConfigFile :: "u8 list" where "kConfigFile = ascii ''libpatch.conf''"
definition kCarplayConfigFile :: "u8 list" where
  "kCarplayConfigFile = ascii ''libpatch-carplay.conf''"
definition PATH_MAX :: nat where "PATH_MAX = 4096"

text \<open>\<open>strrchr(path, '/') - path\<close>, or 0 when there is no slash.\<close>

definition dir_length :: "u8 list \<Rightarrow> nat" where
  "dir_length path =
     (if 47 \<in> set path then length path - length (takeWhile (\<lambda>c. c \<noteq> 47) (rev path)) - 1 else 0)"

text \<open>\<open>fname\<close> is the \<open>dli_fname\<close> that \<open>dladdr\<close> reports, \<open>None\<close> when it fails or is null.\<close>

definition find_sibling_file :: "u8 list option \<Rightarrow> u8 list \<Rightarrow> nat \<Rightarrow> u8 list option" where
  "find_sibling_file fname filename out_sz =
     (case fname of
        None \<Rightarrow> None
      | Some path \<Rightarrow>
          (let dir_len = dir_length path in
           if dir_len + 1 + length filename + 1 > out_sz then None
           else if dir_len > 0 then Some (take dir_len path @ 47 # filename)
           else Some filename))"

section \<open>parse_file\<close>

text \<open>One \<open>fgets\<close> into \<open>char line[256]\<close>: at most 255 bytes, up to and including a newline.\<close>

definition fgets_chunk :: "u8 list \<Rightarrow> u8 list" where
  "fgets_chunk xs =
     (let body = takeWhile (\<lambda>c. c \<noteq> 10) xs
      in take 255 (if length body < length xs then body @ [10] else body))"

function fgets_all :: "u8 list \<Rightarrow> u8 list list" where
  "fgets_all xs =
     (if xs = [] then [] else fgets_chunk xs # fgets_all (drop (length (fgets_chunk xs)) xs))"
  by pat_completeness auto
termination
proof (relation "measure length")
  fix xs :: "u8 list"
  assume "xs \<noteq> []"
  then obtain x xs' where "xs = x # xs'" by (cases xs) auto
  then have "0 < length (fgets_chunk xs)" by (auto simp: fgets_chunk_def Let_def)
  with \<open>xs \<noteq> []\<close> show "(drop (length (fgets_chunk xs)) xs, xs) \<in> measure length"
    by simp
qed simp

declare fgets_all.simps [simp del]

text \<open>The body of the loop: \<open>None\<close> is \<open>continue\<close>, \<open>Some (key, val)\<close> is the callback.\<close>

definition parse_line :: "u8 list \<Rightarrow> (u8 list \<times> u8 list) option" where
  "parse_line line =
     (let p = dropWhile is_blank (rstrip is_eol (cstr line)) in
      if p = [] \<or> p ! 0 = 35 then None
      else if 61 \<notin> set p then None
      else
        (let key = rstrip is_blank (takeWhile (\<lambda>c. c \<noteq> 61) p);
             val = rstrip is_blank (dropWhile is_blank (drop 1 (dropWhile (\<lambda>c. c \<noteq> 61) p)))
         in if key = [] then None else Some (key, val)))"

definition parse_file ::
  "u8 list option \<Rightarrow> (u8 list \<Rightarrow> u8 list \<Rightarrow> 's \<Rightarrow> 's) \<Rightarrow> 's \<Rightarrow> bool \<times> 's" where
  "parse_file contents cb ud =
     (case contents of
        None \<Rightarrow> (False, ud)
      | Some bytes \<Rightarrow>
          (True, fold (\<lambda>line ud.
             case parse_line line of None \<Rightarrow> ud | Some (k, v) \<Rightarrow> cb k v ud) (fgets_all bytes) ud))"

definition parse_bool :: "u8 list option \<Rightarrow> bool \<Rightarrow> bool" where
  "parse_bool vo deflt =
     (case vo of
        None \<Rightarrow> deflt
      | Some val \<Rightarrow>
          if strcaseeq val (ascii ''true'') \<or> strcaseeq val (ascii ''1'') \<or>
             strcaseeq val (ascii ''yes'') \<or> strcaseeq val (ascii ''on'') then True
          else if strcaseeq val (ascii ''false'') \<or> strcaseeq val (ascii ''0'') \<or>
             strcaseeq val (ascii ''no'') \<or> strcaseeq val (ascii ''off'') then False
          else deflt)"

section \<open>Schema and state\<close>

datatype HudTransport = HUD_TRANSPORT_VBS | HUD_TRANSPORT_SVCNAVI

record Settings =
  cfg_touch :: bool
  cfg_hud :: bool
  cfg_hud_transport :: HudTransport
  cfg_force_street_name :: bool
  cfg_hud_fold_latin :: bool
  cfg_use_protocol_v1_6 :: bool
  cfg_aa_audio_low_latency :: bool
  cfg_mute_pauses_phone :: bool
  cfg_block_headunit_media_play :: bool
  cfg_carplay_vn_normalize :: bool
  cfg_carplay_speed_limit :: bool
  cfg_carplay_udpd_launch :: bool
  cfg_carplay_nav_diag :: bool
  cfg_carplay_msgtype_diag :: bool
  cfg_carplay_hud_debug :: bool
  cfg_loaded :: bool

definition default_settings :: Settings where
  "default_settings =
     \<lparr>cfg_touch = True, cfg_hud = True, cfg_hud_transport = HUD_TRANSPORT_SVCNAVI,
      cfg_force_street_name = False, cfg_hud_fold_latin = True, cfg_use_protocol_v1_6 = False,
      cfg_aa_audio_low_latency = False, cfg_mute_pauses_phone = True,
      cfg_block_headunit_media_play = False, cfg_carplay_vn_normalize = True,
      cfg_carplay_speed_limit = False, cfg_carplay_udpd_launch = True,
      cfg_carplay_nav_diag = False, cfg_carplay_msgtype_diag = False,
      cfg_carplay_hud_debug = False, cfg_loaded = False\<rparr>"

definition transport_name :: "HudTransport \<Rightarrow> string" where
  "transport_name t = (if t = HUD_TRANSPORT_SVCNAVI then ''svcnavi'' else ''vbs'')"

definition apply_kv :: "u8 list \<Rightarrow> u8 list \<Rightarrow> Settings \<Rightarrow> Settings" where
  "apply_kv key v s =
     (let val = Some v in
      if strcaseeq key (ascii ''touch'') then s\<lparr>cfg_touch := parse_bool val (cfg_touch s)\<rparr>
      else if strcaseeq key (ascii ''hud'') then s\<lparr>cfg_hud := parse_bool val (cfg_hud s)\<rparr>
      else if strcaseeq key (ascii ''hud_transport'') then
        (if strcaseeq v (ascii ''svcnavi'') \<or> strcaseeq v (ascii ''svcjcinavi'') then
           s\<lparr>cfg_hud_transport := HUD_TRANSPORT_SVCNAVI\<rparr>
         else if strcaseeq v (ascii ''vbs'') then s\<lparr>cfg_hud_transport := HUD_TRANSPORT_VBS\<rparr>
         else s)
      else if strcaseeq key (ascii ''force_street_name'') then
        s\<lparr>cfg_force_street_name := parse_bool val (cfg_force_street_name s)\<rparr>
      else if strcaseeq key (ascii ''hud_fold_latin'') then
        s\<lparr>cfg_hud_fold_latin := parse_bool val (cfg_hud_fold_latin s)\<rparr>
      else if strcaseeq key (ascii ''use_protocol_v1_6'') then
        s\<lparr>cfg_use_protocol_v1_6 := parse_bool val (cfg_use_protocol_v1_6 s)\<rparr>
      else if strcaseeq key (ascii ''aa_audio_low_latency'') then
        s\<lparr>cfg_aa_audio_low_latency := parse_bool val (cfg_aa_audio_low_latency s)\<rparr>
      else if strcaseeq key (ascii ''mute_pauses_phone'') then
        s\<lparr>cfg_mute_pauses_phone := parse_bool val (cfg_mute_pauses_phone s)\<rparr>
      else if strcaseeq key (ascii ''block_headunit_media_play'') then
        s\<lparr>cfg_block_headunit_media_play := parse_bool val (cfg_block_headunit_media_play s)\<rparr>
      else if strcaseeq key (ascii ''carplay_vn_normalize'') then
        s\<lparr>cfg_carplay_vn_normalize := parse_bool val (cfg_carplay_vn_normalize s)\<rparr>
      else if strcaseeq key (ascii ''carplay_speed_limit'') then
        s\<lparr>cfg_carplay_speed_limit := parse_bool val (cfg_carplay_speed_limit s)\<rparr>
      else if strcaseeq key (ascii ''carplay_udpd_launch'') then
        s\<lparr>cfg_carplay_udpd_launch := parse_bool val (cfg_carplay_udpd_launch s)\<rparr>
      else if strcaseeq key (ascii ''carplay_nav_diag'') then
        s\<lparr>cfg_carplay_nav_diag := parse_bool val (cfg_carplay_nav_diag s)\<rparr>
      else if strcaseeq key (ascii ''carplay_msgtype_diag'') then
        s\<lparr>cfg_carplay_msgtype_diag := parse_bool val (cfg_carplay_msgtype_diag s)\<rparr>
      else if strcaseeq key (ascii ''carplay_hud_debug'') then
        s\<lparr>cfg_carplay_hud_debug := parse_bool val (cfg_carplay_hud_debug s)\<rparr>
      else s)"

text \<open>\<open>fs\<close> gives the contents of a readable file, \<open>None\<close> where \<open>fopen\<close> fails.\<close>

definition load_config ::
  "u8 list option \<Rightarrow> (u8 list \<Rightarrow> u8 list option) \<Rightarrow> u8 list \<Rightarrow> Settings \<Rightarrow> Settings" where
  "load_config fname fs filename s =
     (if cfg_loaded s then s
      else
        (let s = s\<lparr>cfg_loaded := True\<rparr> in
         case find_sibling_file fname filename PATH_MAX of
           None \<Rightarrow> s
         | Some path \<Rightarrow> snd (parse_file (fs path) apply_kv s)))"

section \<open>Properties\<close>

lemma rstrip_no [simp]: "xs = [] \<or> \<not> P (last xs) \<Longrightarrow> rstrip P xs = xs"
  by (cases xs rule: rev_cases) (auto simp: rstrip_def)

lemma rstrip_append_all:
  assumes "\<forall>y \<in> set ys. P y"
  shows "rstrip P (xs @ ys) = rstrip P xs"
proof -
  have "dropWhile P (rev ys @ rev xs) = dropWhile P (rev xs)"
    using assms by (intro dropWhile_append2) auto
  then show ?thesis by (simp add: rstrip_def)
qed

lemma strcaseeq_refl [simp]: "strcaseeq a a"
  by (simp add: strcaseeq_def)

text \<open>
  Reading back a setting line: with any blanks around the key and the value and any line
  ending, the parser delivers exactly the key and the value, for a key without an equals sign
  and words that neither start nor end with a blank.
\<close>

theorem parse_line_roundtrip:
  assumes "list_all is_blank b1" "list_all is_blank b2" "list_all is_blank b3" "list_all is_blank b4"
    and "list_all is_eol nl"
    and "key \<noteq> []" "\<not> is_blank (key ! 0)" "\<not> is_blank (last key)" "key ! 0 \<noteq> 35" "61 \<notin> set key"
    and "v \<noteq> []" "\<not> is_blank (v ! 0)" "\<not> is_blank (last v)" "\<not> is_eol (last v)"
    and "0 \<notin> set key" "0 \<notin> set v"
  shows "parse_line (b1 @ key @ b2 @ [61] @ b3 @ v @ b4 @ nl) = Some (key, v)"
proof -
  let ?line = "b1 @ key @ b2 @ [61] @ b3 @ v @ b4 @ nl"
  let ?p = "key @ b2 @ [61] @ b3 @ v @ b4"
  have blank0: "0 \<notin> set b" "61 \<notin> set b" if "list_all is_blank b" for b
    using that by (auto simp: list_all_iff is_blank_def)
  have "0 \<notin> set nl" using assms(5) by (auto simp: list_all_iff is_eol_def)
  then have "cstr ?line = ?line"
    using assms blank0 by (intro cstr_id) auto
  moreover have "rstrip is_eol ?line = b1 @ ?p"
  proof -
    have "rstrip is_eol ((b1 @ ?p) @ nl) = rstrip is_eol (b1 @ ?p)"
      using assms(5) by (intro rstrip_append_all) (simp add: list_all_iff)
    also have "\<dots> = b1 @ ?p"
    proof (rule rstrip_no, rule disjI2)
      show "\<not> is_eol (last (b1 @ ?p))"
      proof (cases "b4 = []")
        case False
        then have "is_blank (last b4)" using assms(4) by (simp add: list_all_iff)
        then show ?thesis using False by (auto simp: is_blank_def is_eol_def)
      qed (use assms in auto)
    qed
    finally show ?thesis by simp
  qed
  moreover have "dropWhile is_blank (b1 @ ?p) = ?p"
    using assms(1,6,7) by (cases key) (auto simp: dropWhile_append2 list_all_iff)
  ultimately have p: "dropWhile is_blank (rstrip is_eol (cstr ?line)) = ?p" by simp
  have tw: "takeWhile (\<lambda>c. c \<noteq> 61) ?p = key @ b2" "dropWhile (\<lambda>c. c \<noteq> 61) ?p = 61 # b3 @ v @ b4"
    using assms(10) blank0 [OF assms(2)]
    by (auto simp: takeWhile_append dropWhile_append takeWhile_eq_all_conv dropWhile_eq_Nil_conv)
  have "rstrip is_blank (key @ b2) = key"
    using assms(2,8) by (simp add: rstrip_append_all list_all_iff)
  moreover have "dropWhile is_blank (b3 @ v @ b4) = v @ b4"
    using assms(3,11,12) by (cases v) (auto simp: dropWhile_append2 list_all_iff)
  moreover have "rstrip is_blank (v @ b4) = v"
    using assms(4,13) by (simp add: rstrip_append_all list_all_iff)
  ultimately show ?thesis
    unfolding parse_line_def p Let_def tw using assms(6,9) by (simp add: nth_append)
qed

theorem parse_line_roundtrip_witness:
  "parse_line (ascii '' hud = off '' @ [13, 10]) = Some (ascii ''hud'', ascii ''off'')"
  using parse_line_roundtrip [of "[32]" "[32]" "[32]" "[32]" "[13, 10]" "ascii ''hud''" "ascii ''off''"]
  by (simp add: ascii_def is_blank_def is_eol_def)

text \<open>Distinct keys of the schema stay distinct when case is ignored.\<close>

definition lower :: "string \<Rightarrow> bool" where
  "lower a \<longleftrightarrow> map tolower (ascii a) = ascii a"

lemma ascii_inj: "ascii a = ascii b \<longleftrightarrow> a = b"
proof -
  have "inj (of_char :: char \<Rightarrow> u8)"
  proof (rule injI)
    fix c d :: char
    assume "(of_char c :: u8) = of_char d"
    then have "unat (of_char c :: u8) = unat (of_char d :: u8)" by simp
    moreover have "unat (of_char x :: u8) = of_char x" for x
    proof -
      have "unat (of_nat (of_char x) :: u8) = of_char x"
        using nat_of_char_less_256 [of x] by (simp only: unsigned_of_nat) (simp add: take_bit_nat_eq_self)
      then show ?thesis by (simp only: of_nat_of_char)
    qed
    ultimately have "(of_char c :: nat) = of_char d" by simp
    then show "c = d" by simp
  qed
  then show ?thesis by (simp add: ascii_def inj_map_eq_map)
qed

lemma strcaseeq_keys: "lower a \<Longrightarrow> lower b \<Longrightarrow> strcaseeq (ascii a) (ascii b) \<longleftrightarrow> a = b"
  by (simp add: lower_def strcaseeq_def ascii_inj)

lemma lower_keys [simp]:
  "lower ''touch''"
  "lower ''hud''"
  "lower ''force_street_name''"
  "lower ''hud_fold_latin''"
  "lower ''use_protocol_v1_6''"
  "lower ''aa_audio_low_latency''"
  "lower ''mute_pauses_phone''"
  "lower ''block_headunit_media_play''"
  "lower ''carplay_vn_normalize''"
  "lower ''carplay_speed_limit''"
  "lower ''carplay_udpd_launch''"
  "lower ''carplay_nav_diag''"
  "lower ''carplay_msgtype_diag''"
  "lower ''carplay_hud_debug''"
  "lower ''hud_transport''"
  by (simp_all add: lower_def ascii_def tolower_def)

lemmas key_words = strcaseeq_def ascii_def tolower_def

lemma strcaseeq_trans: "strcaseeq k a \<Longrightarrow> strcaseeq k b \<longleftrightarrow> strcaseeq a b"
  by (simp add: strcaseeq_def)

text \<open>The value a boolean key ends up with: its assignments in file order, others ignored.\<close>

definition bool_setting :: "string \<Rightarrow> (u8 list \<times> u8 list) list \<Rightarrow> bool \<Rightarrow> bool" where
  "bool_setting name kvs deflt =
     fold (\<lambda>(k, v) d. if strcaseeq k (ascii name) then parse_bool (Some v) d else d) kvs deflt"

definition settings_of :: "(u8 list \<times> u8 list) list \<Rightarrow> Settings" where
  "settings_of kvs = fold (\<lambda>(k, v). apply_kv k v) kvs default_settings"

text \<open>
  An assignment acts on the field of its own key and on no other.  A key that matches one name matches
  no other, so where it matches the chain of comparisons is decided, and elsewhere the field is not touched.
\<close>

lemma key_unique:
  "strcaseeq k (ascii a) \<Longrightarrow> lower a \<Longrightarrow> lower b \<Longrightarrow> strcaseeq k (ascii b) \<longleftrightarrow> a = b"
  using strcaseeq_trans strcaseeq_keys by blast

lemma key_cases:
  "(strcaseeq k (ascii n) \<Longrightarrow> x = a) \<Longrightarrow> (\<not> strcaseeq k (ascii n) \<Longrightarrow> x = b) \<Longrightarrow>
   x = (if strcaseeq k (ascii n) then a else b)"
  by simp

lemma apply_kv_display:
  "cfg_touch (apply_kv k v s) =
     (if strcaseeq k (ascii ''touch'') then parse_bool (Some v) (cfg_touch s)
      else cfg_touch s)"
  "cfg_hud (apply_kv k v s) =
     (if strcaseeq k (ascii ''hud'') then parse_bool (Some v) (cfg_hud s)
      else cfg_hud s)"
  "cfg_force_street_name (apply_kv k v s) =
     (if strcaseeq k (ascii ''force_street_name'') then parse_bool (Some v) (cfg_force_street_name s)
      else cfg_force_street_name s)"
  "cfg_hud_fold_latin (apply_kv k v s) =
     (if strcaseeq k (ascii ''hud_fold_latin'') then parse_bool (Some v) (cfg_hud_fold_latin s)
      else cfg_hud_fold_latin s)"
  by (rule key_cases, simp add: apply_kv_def key_unique, simp add: apply_kv_def Let_def)+

lemma apply_kv_phone:
  "cfg_use_protocol_v1_6 (apply_kv k v s) =
     (if strcaseeq k (ascii ''use_protocol_v1_6'') then parse_bool (Some v) (cfg_use_protocol_v1_6 s)
      else cfg_use_protocol_v1_6 s)"
  "cfg_aa_audio_low_latency (apply_kv k v s) =
     (if strcaseeq k (ascii ''aa_audio_low_latency'') then parse_bool (Some v) (cfg_aa_audio_low_latency s)
      else cfg_aa_audio_low_latency s)"
  "cfg_mute_pauses_phone (apply_kv k v s) =
     (if strcaseeq k (ascii ''mute_pauses_phone'') then parse_bool (Some v) (cfg_mute_pauses_phone s)
      else cfg_mute_pauses_phone s)"
  "cfg_block_headunit_media_play (apply_kv k v s) =
     (if strcaseeq k (ascii ''block_headunit_media_play'') then parse_bool (Some v) (cfg_block_headunit_media_play s)
      else cfg_block_headunit_media_play s)"
  by (rule key_cases, simp add: apply_kv_def key_unique, simp add: apply_kv_def Let_def)+

lemma apply_kv_carplay:
  "cfg_carplay_vn_normalize (apply_kv k v s) =
     (if strcaseeq k (ascii ''carplay_vn_normalize'') then parse_bool (Some v) (cfg_carplay_vn_normalize s)
      else cfg_carplay_vn_normalize s)"
  "cfg_carplay_speed_limit (apply_kv k v s) =
     (if strcaseeq k (ascii ''carplay_speed_limit'') then parse_bool (Some v) (cfg_carplay_speed_limit s)
      else cfg_carplay_speed_limit s)"
  "cfg_carplay_udpd_launch (apply_kv k v s) =
     (if strcaseeq k (ascii ''carplay_udpd_launch'') then parse_bool (Some v) (cfg_carplay_udpd_launch s)
      else cfg_carplay_udpd_launch s)"
  by (rule key_cases, simp add: apply_kv_def key_unique, simp add: apply_kv_def Let_def)+

lemma apply_kv_carplay_diag:
  "cfg_carplay_nav_diag (apply_kv k v s) =
     (if strcaseeq k (ascii ''carplay_nav_diag'') then parse_bool (Some v) (cfg_carplay_nav_diag s)
      else cfg_carplay_nav_diag s)"
  "cfg_carplay_msgtype_diag (apply_kv k v s) =
     (if strcaseeq k (ascii ''carplay_msgtype_diag'') then parse_bool (Some v) (cfg_carplay_msgtype_diag s)
      else cfg_carplay_msgtype_diag s)"
  "cfg_carplay_hud_debug (apply_kv k v s) =
     (if strcaseeq k (ascii ''carplay_hud_debug'') then parse_bool (Some v) (cfg_carplay_hud_debug s)
      else cfg_carplay_hud_debug s)"
  by (rule key_cases, simp add: apply_kv_def key_unique, simp add: apply_kv_def Let_def)+

lemmas apply_kv_field = apply_kv_display apply_kv_phone apply_kv_carplay apply_kv_carplay_diag

text \<open>\<open>apply_kv\<close> over a list acts on a field as the fold of that field's own assignments.\<close>

lemma bool_setting_simps [simp]:
  "bool_setting name [] d = d"
  "bool_setting name ((k, v) # kvs) d =
     bool_setting name kvs (if strcaseeq k (ascii name) then parse_bool (Some v) d else d)"
  by (simp_all add: bool_setting_def)

lemma fold_field:
  assumes "\<And>k v s. sel (apply_kv k v s) =
      (if strcaseeq k (ascii name) then parse_bool (Some v) (sel s) else sel s)"
  shows "sel (fold (\<lambda>(k, v). apply_kv k v) kvs s) = bool_setting name kvs (sel s)"
proof (induction kvs arbitrary: s)
  case (Cons kv kvs)
  obtain k v where kv: "kv = (k, v)" by (cases kv)
  show ?case
    unfolding kv fold_simps prod.case Cons.IH bool_setting_simps assms by (rule refl)
qed simp

lemma loaded_settings:
  assumes "find_sibling_file fname filename PATH_MAX = Some path" "fs path = Some bytes"
  shows "load_config fname fs filename default_settings =
    fold (\<lambda>(k, v). apply_kv k v) (List.map_filter parse_line (fgets_all bytes))
      (default_settings\<lparr>cfg_loaded := True\<rparr>)"
proof -
  have "fold (\<lambda>line ud. case parse_line line of None \<Rightarrow> ud | Some (k, v) \<Rightarrow> apply_kv k v ud) ls s =
      fold (\<lambda>(k, v). apply_kv k v) (List.map_filter parse_line ls) s" for ls s
    by (induction ls arbitrary: s) (auto simp: List.map_filter_def split: option.splits)
  then show ?thesis
    using assms by (simp add: load_config_def parse_file_def default_settings_def Let_def)
qed

text \<open>
  C21.  The configuration a library runs with is determined key by key: when the file is found,
  every boolean setting is its compiled-in default overridden by the valid assignments to that
  key, the last one winning, whatever other lines the file has; when the file is missing or the
  object's directory is unknown, every setting keeps its default; and a second load changes
  nothing.
\<close>

theorem settings_determined:
  assumes "find_sibling_file fname filename PATH_MAX = Some path" "fs path = Some bytes"
    and kvs: "kvs = List.map_filter parse_line (fgets_all bytes)"
    and s: "s = load_config fname fs filename default_settings"
  shows "cfg_touch s = bool_setting ''touch'' kvs True \<and>
    cfg_hud s = bool_setting ''hud'' kvs True \<and>
    cfg_force_street_name s = bool_setting ''force_street_name'' kvs False \<and>
    cfg_hud_fold_latin s = bool_setting ''hud_fold_latin'' kvs True \<and>
    cfg_use_protocol_v1_6 s = bool_setting ''use_protocol_v1_6'' kvs False \<and>
    cfg_aa_audio_low_latency s = bool_setting ''aa_audio_low_latency'' kvs False \<and>
    cfg_mute_pauses_phone s = bool_setting ''mute_pauses_phone'' kvs True \<and>
    cfg_block_headunit_media_play s = bool_setting ''block_headunit_media_play'' kvs False \<and>
    cfg_carplay_vn_normalize s = bool_setting ''carplay_vn_normalize'' kvs True \<and>
    cfg_carplay_speed_limit s = bool_setting ''carplay_speed_limit'' kvs False \<and>
    cfg_carplay_udpd_launch s = bool_setting ''carplay_udpd_launch'' kvs True \<and>
    cfg_carplay_nav_diag s = bool_setting ''carplay_nav_diag'' kvs False \<and>
    cfg_carplay_msgtype_diag s = bool_setting ''carplay_msgtype_diag'' kvs False \<and>
    cfg_carplay_hud_debug s = bool_setting ''carplay_hud_debug'' kvs False \<and>
    load_config fname' fs' filename' s = s"
proof -
  note ld = loaded_settings [where fs = fs, OF assms(1,2), folded kvs s]
  have "cfg_loaded (apply_kv k v x) = cfg_loaded x" for k v x
    by (simp add: apply_kv_def Let_def)
  then have "cfg_loaded (fold (\<lambda>(k, v). apply_kv k v) kvs x) = cfg_loaded x" for x
    by (induction kvs arbitrary: x) auto
  then have "load_config fname' fs' filename' s = s" by (simp add: load_config_def ld)
  then show ?thesis
    unfolding ld by (simp add: fold_field [OF apply_kv_field(1)]
      fold_field [OF apply_kv_field(2)]
      fold_field [OF apply_kv_field(3)]
      fold_field [OF apply_kv_field(4)]
      fold_field [OF apply_kv_field(5)]
      fold_field [OF apply_kv_field(6)]
      fold_field [OF apply_kv_field(7)]
      fold_field [OF apply_kv_field(8)]
      fold_field [OF apply_kv_field(9)]
      fold_field [OF apply_kv_field(10)]
      fold_field [OF apply_kv_field(11)]
      fold_field [OF apply_kv_field(12)]
      fold_field [OF apply_kv_field(13)]
      fold_field [OF apply_kv_field(14)] default_settings_def)
qed

theorem settings_determined_witness:
  "\<not> cfg_hud (load_config (Some (ascii ''/d/l.so'')) (\<lambda>p. if p = ascii ''/d/libpatch.conf''
      then Some (ascii ''HUD=off'') else None) kConfigFile default_settings)"
proof -
  have p: "find_sibling_file (Some (ascii ''/d/l.so'')) kConfigFile PATH_MAX = Some (ascii ''/d/libpatch.conf'')"
    by (simp add: find_sibling_file_def dir_length_def ascii_def kConfigFile_def PATH_MAX_def)
  have l: "fgets_all (ascii ''HUD=off'') = [ascii ''HUD=off'']"
    by (simp add: fgets_all.simps fgets_chunk_def ascii_def)
  have k: "parse_line (ascii ''HUD=off'') = Some (ascii ''HUD'', ascii ''off'')"
    by (simp add: parse_line_def cstr_def ascii_def is_eol_def is_blank_def rstrip_def)
  let ?fs = "\<lambda>p. if p = ascii ''/d/libpatch.conf'' then Some (ascii ''HUD=off'') else None"
  have "cfg_hud (load_config (Some (ascii ''/d/l.so'')) ?fs kConfigFile default_settings) =
      bool_setting ''hud'' (List.map_filter parse_line (fgets_all (ascii ''HUD=off''))) True"
    using settings_determined [OF p, where fs = ?fs, OF _ refl refl, of "ascii ''HUD=off''"]
    by (simp only: simp_thms if_True)
  moreover have "List.map_filter parse_line (fgets_all (ascii ''HUD=off'')) =
      [(ascii ''HUD'', ascii ''off'')]"
    by (simp only: l List.map_filter_def) (simp add: k)
  ultimately show ?thesis by (simp add: parse_bool_def key_words)
qed

lemma takeWhile_not_newline: "10 \<notin> set xs \<Longrightarrow> takeWhile (\<lambda>c. c \<noteq> 10) xs = xs"
  by (auto simp: takeWhile_eq_all_conv)

text \<open>
  The path of the configuration file always fits the caller's buffer with its terminator,
  and names the file in the directory of the shared object that asked.
\<close>

theorem sibling_path_fits:
  assumes "find_sibling_file (Some (dir @ 47 # base)) filename out_sz = Some path"
    and "dir \<noteq> []" "47 \<notin> set base"
  shows "path = dir @ 47 # filename \<and> length path + 1 \<le> out_sz"
proof -
  have "takeWhile (\<lambda>c. c \<noteq> 47) (rev base @ 47 # rev dir) = rev base"
    using assms(3) by (auto simp: takeWhile_append takeWhile_eq_all_conv)
  then have "dir_length (dir @ 47 # base) = length dir" by (simp add: dir_length_def)
  then show ?thesis using assms(1,2) by (auto simp: find_sibling_file_def Let_def split: if_splits)
qed

theorem sibling_path_fits_witness:
  "find_sibling_file (Some (ascii ''/d/l.so'')) kConfigFile 4096 = Some (ascii ''/d'' @ 47 # kConfigFile) \<and>
   length (ascii ''/d'' @ 47 # kConfigFile) + 1 \<le> 4096"
proof -
  have "find_sibling_file (Some (ascii ''/d'' @ 47 # ascii ''l.so'')) kConfigFile 4096 =
      Some (ascii ''/d'' @ 47 # kConfigFile)"
    by (simp add: find_sibling_file_def dir_length_def ascii_def kConfigFile_def)
  from sibling_path_fits [OF this] this show ?thesis by (simp add: ascii_def kConfigFile_def)
qed

text \<open>
  A comment line is not always ignored: the line buffer holds 255 characters, so the rest
  of a longer comment is parsed as a line of its own and can change a setting.
\<close>

theorem long_comment_is_parsed:
  "List.map_filter parse_line (fgets_all (35 # replicate 254 45 @ ascii ''hud=off'')) =
     [(ascii ''hud'', ascii ''off'')]"
proof -
  let ?c = "35 # replicate 254 45 :: u8 list"
  have "10 \<notin> set (?c @ ascii ''hud=off'')" by (auto simp: ascii_def)
  note tw = takeWhile_not_newline [OF this]
  have "fgets_chunk (?c @ ascii ''hud=off'') = take 255 (?c @ ascii ''hud=off'')"
    unfolding fgets_chunk_def Let_def tw by (simp only: less_irrefl if_False)
  also have "\<dots> = ?c" by simp
  finally have c: "fgets_chunk (35 # replicate 254 45 @ ascii ''hud=off'') = ?c" by simp
  have "fgets_all (35 # replicate 254 45 @ ascii ''hud=off'') = ?c # fgets_all (ascii ''hud=off'')"
    by (subst fgets_all.simps) (simp add: c)
  moreover have "parse_line ?c = None"
  proof -
    have "cstr ?c = ?c" by (rule cstr_id) simp
    moreover have "rstrip is_eol ?c = ?c" by (rule rstrip_no) (simp add: is_eol_def)
    ultimately show ?thesis unfolding parse_line_def by (simp add: is_blank_def)
  qed
  moreover have "fgets_all (ascii ''hud=off'') = [ascii ''hud=off'']"
    by (simp add: fgets_all.simps fgets_chunk_def ascii_def)
  moreover have "parse_line (ascii ''hud=off'') = Some (ascii ''hud'', ascii ''off'')"
    by (simp add: parse_line_def cstr_def ascii_def is_eol_def is_blank_def rstrip_def)
  ultimately show ?thesis by (simp add: List.map_filter_def)
qed

end
