(* ===== verification/Translit.thy ===== *)
theory Translit
  imports Prelude
begin

text \<open>
  \<open>common/translit.h\<close>: the in-place folding of street names to letters the HUD font can draw.
  \<open>fold_str\<close> is the routine as written, with a read and a write cursor in one buffer whose
  accesses are checked (\<open>None\<close> is an access outside the array); \<open>folded\<close> is its specification
  on the string.  The lemmas show that the in-place pass computes the specification, that it
  never lengthens the string, and that folding is idempotent.
\<close>

section \<open>The table\<close>

definition kBase :: "u32 list" where
  "kBase =
    [0x41, 0x61, 0x42, 0x62, 0x42, 0x62, 0x42, 0x62,
     0x43, 0x63, 0x44, 0x64, 0x44, 0x64, 0x44, 0x64,
     0x44, 0x64, 0x44, 0x64, 0x45, 0x65, 0x45, 0x65,
     0x45, 0x65, 0x45, 0x65, 0x45, 0x65, 0x46, 0x66,
     0x47, 0x67, 0x48, 0x68, 0x48, 0x68, 0x48, 0x68,
     0x48, 0x68, 0x48, 0x68, 0x49, 0x69, 0x49, 0x69,
     0x4B, 0x6B, 0x4B, 0x6B, 0x4B, 0x6B, 0x4C, 0x6C,
     0x4C, 0x6C, 0x4C, 0x6C, 0x4C, 0x6C, 0x4D, 0x6D,
     0x4D, 0x6D, 0x4D, 0x6D, 0x4E, 0x6E, 0x4E, 0x6E,
     0x4E, 0x6E, 0x4E, 0x6E, 0x4F, 0x6F, 0x4F, 0x6F,
     0x4F, 0x6F, 0x4F, 0x6F, 0x50, 0x70, 0x50, 0x70,
     0x52, 0x72, 0x52, 0x72, 0x52, 0x72, 0x52, 0x72,
     0x53, 0x73, 0x53, 0x73, 0x53, 0x73, 0x53, 0x73,
     0x53, 0x73, 0x54, 0x74, 0x54, 0x74, 0x54, 0x74,
     0x54, 0x74, 0x55, 0x75, 0x55, 0x75, 0x55, 0x75,
     0x55, 0x75, 0x55, 0x75, 0x56, 0x76, 0x56, 0x76,
     0x57, 0x77, 0x57, 0x77, 0x57, 0x77, 0x57, 0x77,
     0x57, 0x77, 0x58, 0x78, 0x58, 0x78, 0x59, 0x79,
     0x5A, 0x7A, 0x5A, 0x7A, 0x5A, 0x7A, 0x68, 0x74,
     0x77, 0x79, 0x61, 0x73, 0x73, 0x73, 0x53, 0x64,
     0x41, 0x61, 0x41, 0x61, 0xC2, 0xE2, 0xC2, 0xE2,
     0xC2, 0xE2, 0xC2, 0xE2, 0xC2, 0xE2, 0x102, 0x103,
     0x102, 0x103, 0x102, 0x103, 0x102, 0x103, 0x102, 0x103,
     0x45, 0x65, 0x45, 0x65, 0x45, 0x65, 0xCA, 0xEA,
     0xCA, 0xEA, 0xCA, 0xEA, 0xCA, 0xEA, 0xCA, 0xEA,
     0x49, 0x69, 0x49, 0x69, 0x4F, 0x6F, 0x4F, 0x6F,
     0xD4, 0xF4, 0xD4, 0xF4, 0xD4, 0xF4, 0xD4, 0xF4,
     0xD4, 0xF4, 0x1A0, 0x1A1, 0x1A0, 0x1A1, 0x1A0, 0x1A1,
     0x1A0, 0x1A1, 0x1A0, 0x1A1, 0x55, 0x75, 0x55, 0x75,
     0x1AF, 0x1B0, 0x1AF, 0x1B0, 0x1AF, 0x1B0, 0x1AF, 0x1B0,
     0x1AF, 0x1B0, 0x59, 0x79, 0x59, 0x79, 0x59, 0x79,
     0x59, 0x79, 0x4C, 0x6C, 0x56, 0x76, 0x59, 0x79]"

definition fold_base :: "u32 \<Rightarrow> u32" where
  "fold_base code_point =
     (if code_point < 0x1E00 \<or> code_point > 0x1EFF then 0
      else kBase ! unat (code_point - 0x1E00))"

definition encode_utf8 :: "u32 \<Rightarrow> u8 list" where
  "encode_utf8 code_point =
     (if code_point < 0x80 then [ucast code_point]
      else [ucast (0xC0 OR drop_bit 6 code_point), ucast (0x80 OR (code_point AND 0x3F))])"

section \<open>The in-place pass\<close>

definition is_cont :: "u8 \<Rightarrow> bool" where
  "is_cont b \<longleftrightarrow> b AND 0xC0 = 0x80"

text \<open>The short-circuit tests of the continuation bytes at the given positions.\<close>

fun conts_at :: "u8 list \<Rightarrow> nat list \<Rightarrow> bool option" where
  "conts_at buf [] = Some True"
| "conts_at buf (i # is) =
     (case load buf i of
        None \<Rightarrow> None
      | Some b \<Rightarrow> if is_cont b then conts_at buf is else Some False)"

text \<open>The tier of the sequence at \<open>r\<close>: its length, 1 also for malformed bytes.\<close>

definition classify :: "u8 list \<Rightarrow> nat \<Rightarrow> u8 \<Rightarrow> nat option" where
  "classify buf r lead =
     (if lead < 0x80 then Some 1
      else
        (case (if lead AND 0xE0 = 0xC0 then conts_at buf [r + 1] else Some False) of
           None \<Rightarrow> None
         | Some True \<Rightarrow> Some 2
         | Some False \<Rightarrow>
        (case (if lead AND 0xF0 = 0xE0 then conts_at buf [r + 1, r + 2] else Some False) of
           None \<Rightarrow> None
         | Some True \<Rightarrow> Some 3
         | Some False \<Rightarrow>
        (case (if lead AND 0xF8 = 0xF0 then conts_at buf [r + 1, r + 2, r + 3] else Some False) of
           None \<Rightarrow> None
         | Some True \<Rightarrow> Some 4
         | Some False \<Rightarrow> Some 1))))"

definition code_point3 :: "u8 \<Rightarrow> u8 \<Rightarrow> u8 \<Rightarrow> u32" where
  "code_point3 a b c =
     push_bit 12 (ucast a AND 0x0F) OR push_bit 6 (ucast b AND 0x3F) OR (ucast c AND 0x3F)"

text \<open>Writes through the write cursor, one byte after another.\<close>

fun store_bytes :: "u8 list \<Rightarrow> nat \<Rightarrow> u8 list \<Rightarrow> u8 list option" where
  "store_bytes buf w [] = Some buf"
| "store_bytes buf w (b # bs) =
     (if w < length buf then store_bytes (buf[w := b]) (w + 1) bs else None)"

text \<open>\<open>*write_ptr++ = read_ptr[i]\<close> for \<open>i\<close> from 0 to \<open>n - 1\<close>.\<close>

fun copy_forward :: "u8 list \<Rightarrow> nat \<Rightarrow> nat \<Rightarrow> nat \<Rightarrow> u8 list option" where
  "copy_forward buf r w 0 = Some buf"
| "copy_forward buf r w (Suc n) =
     (case load buf r of
        None \<Rightarrow> None
      | Some b \<Rightarrow> if w < length buf then copy_forward (buf[w := b]) (r + 1) (w + 1) n else None)"

lemma length_store_bytes: "store_bytes buf w bs = Some buf' \<Longrightarrow> length buf' = length buf"
  by (induction bs arbitrary: buf w) (auto split: if_splits)

lemma length_copy_forward: "copy_forward buf r w n = Some buf' \<Longrightarrow> length buf' = length buf"
  by (induction n arbitrary: buf r w) (auto split: if_splits option.splits)

text \<open>What is written for the sequence at \<open>r\<close>: \<open>Some bs\<close> replaces it, \<open>None\<close> keeps it.\<close>

definition replacement :: "u8 \<Rightarrow> u8 list \<Rightarrow> nat \<Rightarrow> nat \<Rightarrow> u8 list option" where
  "replacement unrenderable buf r n =
     (if n = 3 then
        (let base_point = fold_base (code_point3 (buf ! r) (buf ! (r + 1)) (buf ! (r + 2))) in
         if base_point \<noteq> 0 then Some (encode_utf8 base_point)
         else if unrenderable \<noteq> 0 then Some [unrenderable] else None)
      else if n = 4 then (if unrenderable \<noteq> 0 then Some [unrenderable] else None)
      else None)"

lemma classify_pos: "classify buf r lead = Some n \<Longrightarrow> n \<in> {1, 2, 3, 4}"
  by (auto simp: classify_def split: if_splits option.splits bool.splits)

lemma fold_loop_decreases:
  assumes "load buf r = Some lead" "classify buf r lead = Some n" "length buf' = length buf"
  shows "length buf' - (r + n) < length buf - r"
  using assms classify_pos [OF assms(2)] by (auto simp: load_def split: if_splits)

function fold_loop :: "u8 \<Rightarrow> u8 list \<Rightarrow> nat \<Rightarrow> nat \<Rightarrow> bool \<Rightarrow> u8 list option" where
  "fold_loop unrenderable buf r w saw_long =
     (case load buf r of
        None \<Rightarrow> None
      | Some lead \<Rightarrow>
          if lead = 0 then store_bytes buf w [0]
          else
            (case classify buf r lead of
               None \<Rightarrow> None
             | Some seq_len \<Rightarrow>
                 (let saw = (saw_long \<or> seq_len \<ge> 3) in
                  case replacement unrenderable buf r seq_len of
                    Some bs \<Rightarrow>
                      (case store_bytes buf w bs of
                         None \<Rightarrow> None
                       | Some buf' \<Rightarrow>
                           fold_loop unrenderable buf' (r + seq_len) (w + length bs) saw)
                  | None \<Rightarrow>
                      if saw then
                        (case copy_forward buf r w seq_len of
                           None \<Rightarrow> None
                         | Some buf' \<Rightarrow>
                             fold_loop unrenderable buf' (r + seq_len) (w + seq_len) saw)
                      else fold_loop unrenderable buf (r + seq_len) (w + seq_len) saw)))"
  by pat_completeness auto

termination
  by (relation "measure (\<lambda>(u, buf, r, w, saw). length buf - r)")
    (simp_all, (rule fold_loop_decreases; (assumption | erule length_store_bytes
        length_copy_forward | rule refl))+)

declare fold_loop.simps [simp del]

definition fold_str :: "u8 list option \<Rightarrow> u8 \<Rightarrow> u8 list option option" where
  "fold_str str unrenderable =
     (case str of None \<Rightarrow> Some None
      | Some buf \<Rightarrow> map_option Some (fold_loop unrenderable buf 0 0 False))"

section \<open>Specification on strings\<close>

definition lead_conts :: "nat \<Rightarrow> u8 list \<Rightarrow> bool" where
  "lead_conts k xs \<longleftrightarrow> k \<le> length xs \<and> list_all is_cont (take k xs)"

fun seq_len_of :: "u8 list \<Rightarrow> nat" where
  "seq_len_of [] = 0"
| "seq_len_of (x # xs) =
     (if x < 0x80 then 1
      else if x AND 0xE0 = 0xC0 \<and> lead_conts 1 xs then 2
      else if x AND 0xF0 = 0xE0 \<and> lead_conts 2 xs then 3
      else if x AND 0xF8 = 0xF0 \<and> lead_conts 3 xs then 4
      else 1)"

definition token_out :: "u8 \<Rightarrow> u8 list \<Rightarrow> u8 list" where
  "token_out u t =
     (if length t = 3 then
        (let b = fold_base (code_point3 (t ! 0) (t ! 1) (t ! 2)) in
         if b \<noteq> 0 then encode_utf8 b else if u \<noteq> 0 then [u] else t)
      else if length t = 4 then (if u \<noteq> 0 then [u] else t)
      else t)"

lemma seq_len_pos: "s \<noteq> [] \<Longrightarrow> 0 < seq_len_of s"
  by (cases s) auto

lemma seq_len_le: "seq_len_of s \<le> length s"
  by (cases s) (auto simp: lead_conts_def)

lemma seq_len_le4: "seq_len_of s \<le> 4"
  by (cases s) auto

function folded :: "u8 \<Rightarrow> u8 list \<Rightarrow> u8 list" where
  "folded u s =
     (if s = [] then []
      else token_out u (take (seq_len_of s) s) @ folded u (drop (seq_len_of s) s))"
  by pat_completeness auto
termination
  by (relation "measure (\<lambda>(u, s). length s)") (auto simp: seq_len_pos)

declare folded.simps [simp del]

section \<open>The in-place pass computes the specification\<close>

lemma length_encode_utf8: "length (encode_utf8 b) < 3" "encode_utf8 b \<noteq> []"
  by (simp_all add: encode_utf8_def)

lemma conts_at_interval:
  "conts_at (front @ xs @ 0 # rest) [length front ..< length front + k] = Some (lead_conts k xs)"
proof (induction k arbitrary: front xs)
  case 0
  then show ?case by (simp add: lead_conts_def)
next
  case (Suc k)
  show ?case
  proof (cases xs)
    case Nil
    have "[length front ..< length front + Suc k] = length front # [Suc (length front) ..< length front + Suc k]"
      by (rule upt_conv_Cons) simp
    with Nil show ?thesis by (simp add: lead_conts_def is_cont_def)
  next
    case (Cons x xs')
    have u: "[length front ..< length front + Suc k] = length front # [Suc (length front) ..< length front + Suc k]"
      by (rule upt_conv_Cons) simp
    from Suc.IH [of "front @ [x]" xs'] Cons show ?thesis
      unfolding u by (simp add: lead_conts_def)
  qed
qed

lemma classify_spec:
  assumes "s = x # xs" "buf = front @ s @ 0 # rest"
  shows "classify buf (length front) x = Some (seq_len_of s)"
proof -
  have "conts_at buf [Suc (length front) ..< Suc (length front) + k] = Some (lead_conts k xs)" for k
    using conts_at_interval [of "front @ [x]" xs rest k] assms by simp
  from this [of 1] this [of 2] this [of 3]
  have "conts_at buf [length front + 1] = Some (lead_conts 1 xs)"
    "conts_at buf [length front + 1, length front + 2] = Some (lead_conts 2 xs)"
    "conts_at buf [length front + 1, length front + 2, length front + 3] = Some (lead_conts 3 xs)"
    by (simp_all add: upt_rec numeral_eq_Suc del: conts_at.simps)
  then show ?thesis
    unfolding classify_def assms(1) by (simp del: conts_at.simps split: bool.splits)
qed

lemma replacement_spec:
  assumes "buf = front @ s @ 0 # rest" "s \<noteq> []" "n = seq_len_of s"
  shows "(case replacement u buf (length front) n of Some bs \<Rightarrow> bs | None \<Rightarrow> take n s) =
    token_out u (take n s)"
    and "replacement u buf (length front) n = Some bs \<Longrightarrow> 0 < length bs \<and> length bs < n"
    and "replacement u buf (length front) n \<noteq> None \<Longrightarrow> 3 \<le> n"
proof -
  have len: "length (take n s) = n" using assms(3) seq_len_le [of s] by simp
  have nth: "buf ! (length front + i) = take n s ! i" if "i < n" for i
    using that assms len seq_len_le [of s] by (simp add: nth_append)
  have r3: "n = 3 \<Longrightarrow> code_point3 (buf ! length front) (buf ! (length front + 1)) (buf ! (length front + 2)) =
      code_point3 (take n s ! 0) (take n s ! 1) (take n s ! 2)"
    using nth [of 0] nth [of 1] nth [of 2] by simp
  show "(case replacement u buf (length front) n of Some bs \<Rightarrow> bs | None \<Rightarrow> take n s) =
      token_out u (take n s)"
    using r3 len by (simp add: replacement_def token_out_def Let_def)
  show "replacement u buf (length front) n = Some bs \<Longrightarrow> 0 < length bs \<and> length bs < n"
    using length_encode_utf8 by (auto simp: replacement_def Let_def split: if_splits)
  show "replacement u buf (length front) n \<noteq> None \<Longrightarrow> 3 \<le> n"
    by (auto simp: replacement_def Let_def split: if_splits)
qed

lemma store_bytes_at:
  "length bs \<le> length t \<Longrightarrow> store_bytes (pre @ t) (length pre) bs = Some (pre @ bs @ drop (length bs) t)"
proof (induction bs arbitrary: pre t)
  case (Cons b bs)
  then obtain y t' where t: "t = y # t'" by (cases t) auto
  with Cons.IH [of t' "pre @ [b]"] Cons.prems show ?case by simp
qed simp

lemma copy_forward_at:
  "copy_forward (pre @ gap @ tok @ rest) (length pre + length gap) (length pre) (length tok) =
    Some (pre @ tok @ drop (length tok) (gap @ tok) @ rest)"
proof (induction tok arbitrary: pre gap)
  case (Cons x tok)
  obtain y gap' where g: "gap @ [x] = y # gap'" by (cases "gap @ [x]") auto
  then have gl: "length gap = length gap'" by (metis length_append_singleton length_Cons Suc_inject)
  have b: "pre @ gap @ (x # tok) @ rest = pre @ y # gap' @ tok @ rest"
    using arg_cong [OF g, of "\<lambda>l. pre @ l @ tok @ rest"] by simp
  have "drop (length (x # tok)) (gap @ x # tok) = drop (length tok) (gap' @ tok)"
    using arg_cong [OF g, of "\<lambda>l. drop (Suc (length tok)) (l @ tok)"] by simp
  moreover have "load (pre @ gap @ (x # tok) @ rest) (length pre + length gap) = Some x"
    by (simp add: load_def nth_append)
  ultimately show ?case
    using Cons.IH [of "pre @ [x]" gap'] unfolding b gl by (simp add: b gl)
qed simp

text \<open>
  One pass of the loop at a sequence: the buffer is what was written (\<open>pre\<close>), the gap that shorter
  replacements left, the rest \<open>s\<close> of the string and its terminator.
\<close>

lemma loop_reads:
  assumes "s \<noteq> []" and "0 \<notin> set s" and "buf = pre @ gap @ s @ 0 # rest" and "r = length pre + length gap"
  shows "load buf r = Some (hd s)" and "hd s \<noteq> 0" and "classify buf r (hd s) = Some (seq_len_of s)"
    and "length (take (seq_len_of s) s) = seq_len_of s"
proof -
  obtain x xs where s: "s = x # xs" using assms(1) by (cases s) auto
  show "load buf r = Some (hd s)" "hd s \<noteq> 0" using assms s by (auto simp: load_def nth_append)
  show "classify buf r (hd s) = Some (seq_len_of s)"
    using classify_spec [of s x xs buf "pre @ gap" rest] assms s by simp
  show "length (take (seq_len_of s) s) = seq_len_of s" using seq_len_le [of s] assms(1) by simp
qed

lemma pass_replaces:
  assumes s: "s \<noteq> []" "0 \<notin> set s" "n = seq_len_of s" "buf = pre @ gap @ s @ 0 # rest"
    and rep: "replacement u buf (length pre + length gap) n = Some bs"
  shows "token_out u (take n s) = bs"
    and "fold_loop u buf (length pre + length gap) (length pre) saw =
      fold_loop u ((pre @ bs) @ drop (length bs) (gap @ take n s) @ drop n s @ 0 # rest)
        (length pre + length gap + n) (length (pre @ bs)) True"
    and "length (pre @ bs) + length (drop (length bs) (gap @ take n s)) = length pre + length gap + n"
proof -
  note rd = loop_reads [OF s(1,2,4) refl]
  have out: "token_out u (take n s) = bs" and bl: "length bs < n" and n3: "3 \<le> n"
    using replacement_spec [of buf "pre @ gap" s rest n u] s rep by auto
  let ?t = "gap @ take n s @ drop n s @ 0 # rest"
  have "store_bytes (pre @ ?t) (length pre) bs = Some (pre @ bs @ drop (length bs) ?t)"
    using bl rd(4) s(3) by (intro store_bytes_at) simp
  moreover have "drop (length bs) ?t = drop (length bs) (gap @ take n s) @ drop n s @ 0 # rest"
    using bl rd(4) s(3) drop_append [of "length bs" "gap @ take n s" "drop n s @ 0 # rest"] by simp
  moreover have "buf = pre @ ?t" using s(4) by simp
  ultimately have "store_bytes buf (length pre) bs =
      Some ((pre @ bs) @ drop (length bs) (gap @ take n s) @ drop n s @ 0 # rest)"
    by (simp only: append_assoc)
  then show "fold_loop u buf (length pre + length gap) (length pre) saw =
      fold_loop u ((pre @ bs) @ drop (length bs) (gap @ take n s) @ drop n s @ 0 # rest)
        (length pre + length gap + n) (length (pre @ bs)) True"
    using rd s(3) rep n3 by (subst fold_loop.simps) (simp add: Let_def)
  show "token_out u (take n s) = bs" by (rule out)
  show "length (pre @ bs) + length (drop (length bs) (gap @ take n s)) = length pre + length gap + n"
    using bl rd(4) s(3) by simp
qed

lemma pass_moves:
  assumes s: "s \<noteq> []" "0 \<notin> set s" "n = seq_len_of s" "buf = pre @ gap @ s @ 0 # rest"
    and rep: "replacement u buf (length pre + length gap) n = None" and saw: "saw \<or> 3 \<le> n"
  shows "fold_loop u buf (length pre + length gap) (length pre) saw =
      fold_loop u ((pre @ take n s) @ drop n (gap @ take n s) @ drop n s @ 0 # rest)
        (length pre + length gap + n) (length (pre @ take n s)) True"
    and "length (pre @ take n s) + length (drop n (gap @ take n s)) = length pre + length gap + n"
proof -
  note rd = loop_reads [OF s(1,2,4) refl]
  have "buf = pre @ gap @ take n s @ drop n s @ 0 # rest" using s(4) by simp
  then have "copy_forward buf (length pre + length gap) (length pre) n =
      Some ((pre @ take n s) @ drop n (gap @ take n s) @ drop n s @ 0 # rest)"
    using copy_forward_at [of pre gap "take n s" "drop n s @ 0 # rest"] rd(4) s(3)
    by (simp only: append_assoc)
  moreover have "length (pre @ take n s) = length pre + n" using rd(4) s(3) by simp
  ultimately show "fold_loop u buf (length pre + length gap) (length pre) saw =
      fold_loop u ((pre @ take n s) @ drop n (gap @ take n s) @ drop n s @ 0 # rest)
        (length pre + length gap + n) (length (pre @ take n s)) True"
    using rd(1-3) s(3) rep saw by (subst fold_loop.simps) (simp add: Let_def del: length_append)
  show "length (pre @ take n s) + length (drop n (gap @ take n s)) = length pre + length gap + n"
    using rd(4) s(3) by simp
qed

lemma pass_keeps:
  assumes s: "s \<noteq> []" "0 \<notin> set s" "n = seq_len_of s" "buf = pre @ s @ 0 # rest"
    and rep: "replacement u buf (length pre) n = None" and saw: "\<not> saw" "\<not> 3 \<le> n"
  shows "fold_loop u buf (length pre) (length pre) saw =
      fold_loop u ((pre @ take n s) @ drop n s @ 0 # rest) (length (pre @ take n s))
        (length (pre @ take n s)) False"
proof -
  note rd = loop_reads [of s buf pre "[]" rest "length pre", OF s(1,2)]
  have "buf = (pre @ take n s) @ drop n s @ 0 # rest" using s(4) by simp
  moreover have "length (pre @ take n s) = length pre + n" using rd(4) s(3,4) by simp
  moreover have "fold_loop u buf (length pre) (length pre) saw =
      fold_loop u buf (length pre + n) (length pre + n) False"
    using rd(1-3) s(3,4) rep saw by (subst fold_loop.simps) (simp add: Let_def)
  ultimately show ?thesis by simp
qed

lemma fold_pass:
  assumes ne: "s \<noteq> []" and nz: "0 \<notin> set s" and gap: "\<not> saw \<longrightarrow> gap = []"
    and n_def: "n = seq_len_of s" and buf_def: "buf = pre @ gap @ s @ 0 # rest"
  shows "\<exists>gap' saw'. (\<not> saw' \<longrightarrow> gap' = []) \<and>
    length (pre @ token_out u (take n s)) + length gap' = length pre + length gap + n \<and>
    fold_loop u buf (length pre + length gap) (length pre) saw =
      fold_loop u ((pre @ token_out u (take n s)) @ gap' @ drop n s @ 0 # rest)
        (length (pre @ token_out u (take n s)) + length gap') (length (pre @ token_out u (take n s))) saw'"
proof (cases "replacement u buf (length pre + length gap) n")
  case (Some bs)
  note p = pass_replaces [OF ne nz n_def buf_def Some]
  show ?thesis
    by (rule exI [of _ "drop (length bs) (gap @ take n s)"], rule exI [of _ True],
        intro conjI, simp, unfold p(1), rule p(3), unfold p(3), rule p(2))
next
  case None
  have len: "n \<le> length s" using seq_len_le [of s] ne by (simp add: n_def)
  have out: "token_out u (take n s) = take n s"
    using replacement_spec [of buf "pre @ gap" s rest n u] ne None n_def buf_def by simp
  show ?thesis
  proof (cases "saw \<or> 3 \<le> n")
    case True
    note p = pass_moves [OF ne nz n_def buf_def None True]
    show ?thesis unfolding out
      by (rule exI [of _ "drop n (gap @ take n s)"], rule exI [of _ True],
          intro conjI, simp, rule p(2), unfold p(2), rule p(1))
  next
    case False
    then have "gap = []" using gap by simp
    moreover have "fold_loop u buf (length pre) (length pre) saw =
        fold_loop u ((pre @ take n s) @ drop n s @ 0 # rest) (length (pre @ take n s))
          (length (pre @ take n s)) False"
      by (rule pass_keeps [OF ne nz n_def]) (use calculation None False buf_def in simp_all)
    ultimately show ?thesis unfolding out using len
      by (intro exI [of _ "[]"] exI [of _ False]) simp
  qed
qed

lemma fold_loop_spec:
  assumes "0 \<notin> set s" "\<not> saw \<longrightarrow> gap = []"
  shows "\<exists>t. fold_loop u (pre @ gap @ s @ 0 # rest) (length pre + length gap) (length pre) saw =
      Some (pre @ folded u s @ 0 # t) \<and>
      length (pre @ folded u s @ 0 # t) = length (pre @ gap @ s @ 0 # rest)"
  using assms
proof (induction u s arbitrary: pre gap saw rule: folded.induct)
  case (1 u s)
  show ?case
  proof (cases "s = []")
    case True
    have "load (pre @ gap @ 0 # rest) (length pre + length gap) = Some 0" by (simp add: load_def nth_append)
    moreover have "store_bytes (pre @ gap @ 0 # rest) (length pre) [0] = Some (pre @ [0] @ drop 1 (gap @ 0 # rest))"
      using store_bytes_at [of "[0]" "gap @ 0 # rest" pre] by simp
    ultimately show ?thesis
      using True by (subst fold_loop.simps) (simp add: folded.simps)
  next
    case ne: False
    let ?n = "seq_len_of s"
    let ?pre = "pre @ token_out u (take ?n s)"
    have nz: "0 \<notin> set (drop ?n s)" using "1.prems"(1) by (meson in_set_dropD)
    have fd: "folded u s = token_out u (take ?n s) @ folded u (drop ?n s)"
      using ne by (subst folded.simps) simp
    have len: "?n \<le> length s" using seq_len_le [of s] ne by simp
    obtain gap' saw' where p: "\<not> saw' \<longrightarrow> gap' = []"
      "length ?pre + length gap' = length pre + length gap + ?n"
      "fold_loop u (pre @ gap @ s @ 0 # rest) (length pre + length gap) (length pre) saw =
        fold_loop u (?pre @ gap' @ drop ?n s @ 0 # rest) (length ?pre + length gap') (length ?pre) saw'"
      using fold_pass [OF ne "1.prems" refl refl, where u = u and pre = pre and rest = rest] by blast
    obtain t where "fold_loop u (?pre @ gap' @ drop ?n s @ 0 # rest) (length ?pre + length gap') (length ?pre) saw' =
        Some (?pre @ folded u (drop ?n s) @ 0 # t)"
      "length (?pre @ folded u (drop ?n s) @ 0 # t) = length (?pre @ gap' @ drop ?n s @ 0 # rest)"
      using "1.IH" [OF ne nz p(1), of ?pre] by blast
    then show ?thesis unfolding p(3) fd using p(2) len by auto
  qed
qed

section \<open>The table and the sequences of the result\<close>

lemma kBase_range: "length kBase = 256" "\<forall>b \<in> set kBase. 0 < b \<and> b < 0x800"
  by (simp_all add: kBase_def)

lemma fold_base_range:
  "fold_base cp < 0x800" "fold_base cp \<noteq> 0 \<longleftrightarrow> 0x1E00 \<le> cp \<and> cp \<le> 0x1EFF"
proof -
  have "kBase ! unat (cp - 0x1E00) \<in> set kBase" if "0x1E00 \<le> cp" "cp \<le> 0x1EFF"
  proof (rule nth_mem)
    have "unat (cp - 0x1E00) = unat cp - unat (0x1E00 :: u32)" using that(1) by (rule unat_sub)
    then show "unat (cp - 0x1E00) < length kBase"
      using that by (simp add: kBase_range word_le_nat_alt)
  qed
  then show "fold_base cp < 0x800" "fold_base cp \<noteq> 0 \<longleftrightarrow> 0x1E00 \<le> cp \<and> cp \<le> 0x1EFF"
    using kBase_range(2) by (auto simp: fold_base_def not_less)
qed

lemma and_mask_sub: "(x::u8) AND 0xC0 = (x AND 0xE0) AND 0xC0" "x AND 0xE0 = (x AND 0xF0) AND 0xE0"
  "x AND 0xF0 = (x AND 0xF8) AND 0xF0"
  by (simp_all add: and.assoc)

lemma u8_small: "(x::u8) < 0x80 \<longleftrightarrow> take_bit 7 x = x"
  by (simp add: word_less_nat_alt word_unat_eq_iff unsigned_take_bit_eq take_bit_nat_eq_self_iff)

lemma is_cont_lead:
  assumes "is_cont x"
  shows "\<not> x < 0x80" "x AND 0xE0 \<noteq> 0xC0" "x AND 0xF0 \<noteq> 0xE0" "x AND 0xF8 \<noteq> 0xF0"
proof -
  have c: "x AND 0xC0 = 0x80" using assms by (simp add: is_cont_def)
  have "x AND 0x80 = (x AND 0xC0) AND 0x80" by (simp add: and.assoc)
  with c have "bit x 7" using and_exp_eq_0_iff_not_bit [of x 7] by simp
  then show "\<not> x < 0x80"
    using u8_small [of x] by (metis bit_take_bit_iff less_irrefl)
  show "x AND 0xE0 \<noteq> 0xC0" "x AND 0xF0 \<noteq> 0xE0" "x AND 0xF8 \<noteq> 0xF0"
    using c and_mask_sub [of x] by auto
qed

lemma ascii_not_cont: "x < 0x80 \<Longrightarrow> \<not> is_cont x"
  using is_cont_lead(1) by blast

lemma byte_cases:
  "n < 8 \<Longrightarrow> n = 0 \<or> n = 1 \<or> n = 2 \<or> n = 3 \<or> n = 4 \<or> n = 5 \<or> n = 6 \<or> n = (7::nat)"
  by auto

text \<open>The two bytes of an encoded code point below U+0800.\<close>

lemma encode_two_bytes:
  assumes "\<not> cp < 0x80" "cp < 0x800"
  shows "encode_utf8 cp = [ucast (0xC0 OR drop_bit 6 cp), ucast (0x80 OR (cp AND 0x3F))]"
    and "(ucast (0xC0 OR drop_bit 6 cp) :: u8) AND 0xE0 = 0xC0"
    and "is_cont (ucast (0x80 OR (cp AND 0x3F)))"
proof -
  show "encode_utf8 cp = [ucast (0xC0 OR drop_bit 6 cp), ucast (0x80 OR (cp AND 0x3F))]"
    using assms by (simp add: encode_utf8_def)
  have cp: "take_bit 11 cp = cp"
    using assms(2) by (simp add: word_less_nat_alt word_unat_eq_iff unsigned_take_bit_eq take_bit_nat_eq_self_iff)
  then have hi: "\<not> bit cp n" if "11 \<le> n" for n using that by (metis bit_take_bit_iff not_le)
  show "(ucast (0xC0 OR drop_bit 6 cp) :: u8) AND 0xE0 = 0xC0"
  proof (rule bit_word_eqI)
    fix n
    assume "n < LENGTH(8)"
    then show "bit ((ucast (0xC0 OR drop_bit 6 cp) :: u8) AND 0xE0) n = bit (0xC0 :: u8) n"
      using byte_cases [of n]
      by (auto simp: bit_and_iff bit_or_iff bit_unsigned_iff bit_drop_bit_eq hi)
  qed
  show "is_cont (ucast (0x80 OR (cp AND 0x3F)))"
    unfolding is_cont_def
  proof (rule bit_word_eqI)
    fix n
    assume "n < LENGTH(8)"
    then show "bit ((ucast (0x80 OR (cp AND 0x3F)) :: u8) AND 0xC0) n = bit (0x80 :: u8) n"
      using byte_cases [of n] by (auto simp: bit_and_iff bit_or_iff bit_unsigned_iff)
  qed
qed

lemma lead_of_two: "(a::u8) AND 0xE0 = 0xC0 \<Longrightarrow> \<not> a < 0x80 \<and> \<not> is_cont a"
proof (intro conjI notI)
  assume a: "a AND 0xE0 = 0xC0"
  then have "a AND 0xC0 = 0xC0" using and_mask_sub(1) [of a] by simp
  then show "is_cont a \<Longrightarrow> False" by (simp add: is_cont_def)
  assume "a < 0x80"
  then have "\<not> bit a 7" using u8_small [of a] by (metis bit_take_bit_iff less_irrefl)
  then have "a AND 0x80 = 0" using and_exp_eq_0_iff_not_bit [of a 7] by simp
  moreover have "a AND 0x80 = (a AND 0xE0) AND 0x80" by (simp add: and.assoc)
  ultimately show False using a by simp
qed

lemma encode_one_byte: "cp < 0x80 \<Longrightarrow> encode_utf8 cp = [ucast cp] \<and> (ucast cp :: u8) < 0x80"
proof
  assume cp: "cp < 0x80"
  then show "encode_utf8 cp = [ucast cp]" by (simp add: encode_utf8_def)
  have "unat cp < 128" using cp by (simp add: word_less_nat_alt)
  then show "(ucast cp :: u8) < 0x80"
    by (simp add: word_less_nat_alt unsigned_ucast_eq take_bit_nat_eq_self)
qed

text \<open>Everything the pass writes starts with a byte that is not a continuation, and is a sequence.\<close>

lemma token_out_cases [consumes 1, case_names keep one two]:
  assumes "u < 0x80"
  obtains "token_out u t = t"
  | b where "token_out u t = [b]" "b < 0x80"
  | a b where "token_out u t = [a, b]" "a AND 0xE0 = 0xC0" "is_cont b"
proof -
  let ?cp = "fold_base (code_point3 (t ! 0) (t ! 1) (t ! 2))"
  have "token_out u t = t \<or> token_out u t = [u] \<or> token_out u t = encode_utf8 ?cp"
    by (simp add: token_out_def Let_def)
  then consider "token_out u t = t" | "token_out u t = [u]" | "token_out u t = encode_utf8 ?cp"
    by blast
  then show thesis
  proof cases
    case 1
    then show thesis by (rule that(1))
  next
    case 2
    with assms show thesis by (intro that(2))
  next
    case 3
    then show thesis
      using encode_one_byte [of ?cp] encode_two_bytes [of ?cp] fold_base_range(1)
      by (cases "?cp < 0x80") (auto intro: that)
  qed
qed

lemma lead_conts_0 [simp]: "lead_conts 0 xs"
  by (simp add: lead_conts_def)

lemma lead_conts_Cons [simp]: "lead_conts (Suc k) (x # xs) \<longleftrightarrow> is_cont x \<and> lead_conts k xs"
  by (auto simp: lead_conts_def)

lemma lead_conts_Nil [simp]: "\<not> lead_conts (Suc k) []"
  by (simp add: lead_conts_def)

lemma lead_conts_append:
  "(\<And>k. lead_conts k b = lead_conts k b') \<Longrightarrow> lead_conts k (a @ b) = lead_conts k (a @ b')"
proof (induction a arbitrary: k)
  case (Cons x a)
  then show ?case by (cases k) simp_all
qed simp

lemma folded_Nil [simp]: "folded u [] = []"
  by (simp add: folded.simps)

lemma folded_step: "s \<noteq> [] \<Longrightarrow> folded u s = token_out u (take (seq_len_of s) s) @ folded u (drop (seq_len_of s) s)"
  by (subst folded.simps) simp

lemma seq_len_cont: "is_cont x \<Longrightarrow> seq_len_of (x # xs) = 1"
  using is_cont_lead [of x] by simp

lemma lead_conts_folded:
  assumes "u < 0x80"
  shows "lead_conts k (folded u s) = lead_conts k s"
proof (induction "length s" arbitrary: s k rule: less_induct)
  case less
  show ?case
  proof (cases s)
    case (Cons x xs)
    show ?thesis
    proof (cases "is_cont x")
      case True
      then have "folded u s = x # folded u xs"
        using folded_step [of s u] Cons seq_len_cont [of x xs] by (simp add: token_out_def)
      then show ?thesis using less.hyps [of xs] Cons by (cases k) simp_all
    next
      case False
      have "\<exists>y ys. folded u s = y # ys \<and> \<not> is_cont y"
      proof -
        have f: "folded u s = token_out u (take (seq_len_of s) s) @ folded u (drop (seq_len_of s) s)"
          using folded_step [of s u] Cons by simp
        have hd: "\<exists>ys. take (seq_len_of s) s = x # ys"
          using Cons seq_len_pos [of s] by (cases "seq_len_of s") auto
        from assms show ?thesis
        proof (cases rule: token_out_cases [where t = "take (seq_len_of s) s"])
          case keep
          then show ?thesis using f hd False by auto
        next
          case (one b)
          then show ?thesis using f ascii_not_cont by auto
        next
          case (two a b)
          then show ?thesis using f lead_of_two by auto
        qed
      qed
      then show ?thesis using Cons False by (cases k) auto
    qed
  qed simp
qed

text \<open>The sequences of a string and what the pass makes of each.\<close>

function tokens :: "u8 list \<Rightarrow> u8 list list" where
  "tokens s = (if s = [] then [] else take (seq_len_of s) s # tokens (drop (seq_len_of s) s))"
  by pat_completeness auto
termination
  by (relation "measure length") (auto simp: seq_len_pos)

declare tokens.simps [simp del]

lemma tokens_Nil [simp]: "tokens [] = []"
  by (simp add: tokens.simps)

lemma tokens_step: "s \<noteq> [] \<Longrightarrow> tokens s = take (seq_len_of s) s # tokens (drop (seq_len_of s) s)"
  by (subst tokens.simps) simp

lemma folded_tokens: "folded u s = concat (map (token_out u) (tokens s))"
proof (induction u s rule: folded.induct)
  case (1 u s)
  then show ?case by (cases "s = []") (simp_all add: folded_step tokens_step)
qed

lemma seq_len_lead_conts:
  "(\<And>k. lead_conts k xs = lead_conts k ys) \<Longrightarrow> seq_len_of (x # xs) = seq_len_of (x # ys)"
  by simp

lemma seq_len_folded:
  assumes "u < 0x80" "s \<noteq> []"
  defines "out \<equiv> token_out u (take (seq_len_of s) s)" and "more \<equiv> folded u (drop (seq_len_of s) s)"
  shows "seq_len_of (out @ more) = length out"
  using assms(1)
proof (cases rule: token_out_cases [where t = "take (seq_len_of s) s"])
  case keep
  obtain x xs where s: "s = x # xs" using assms(2) by (cases s) auto
  let ?n = "seq_len_of s"
  obtain m where m: "?n = Suc m" using seq_len_pos [OF assms(2)] by (cases ?n) auto
  have out: "out = x # take m xs" using keep s m by (simp add: out_def)
  have more: "more = folded u (drop m xs)" using s m by (simp add: more_def)
  have "lead_conts k (take m xs @ more) = lead_conts k (take m xs @ drop m xs)" for k
    unfolding more by (rule lead_conts_append) (rule lead_conts_folded [OF assms(1)])
  then have "seq_len_of (x # (take m xs @ more)) = seq_len_of (x # (take m xs @ drop m xs))"
    by (rule seq_len_lead_conts)
  then have "seq_len_of (out @ more) = ?n" using s out by simp
  moreover have "length out = ?n" using out m s seq_len_le [of s] by simp
  ultimately show ?thesis by simp
next
  case (one b)
  then show ?thesis by (simp add: out_def)
next
  case (two a b)
  then show ?thesis using lead_of_two [of a] by (simp add: out_def lead_conts_def)
qed

lemma tokens_folded:
  assumes "u < 0x80"
  shows "tokens (folded u s) = map (token_out u) (tokens s)"
proof (induction "length s" arbitrary: s rule: less_induct)
  case less
  show ?case
  proof (cases "s = []")
    case False
    let ?out = "token_out u (take (seq_len_of s) s)"
    let ?s' = "drop (seq_len_of s) s"
    have f: "folded u s = ?out @ folded u ?s'" using False by (rule folded_step)
    have n: "seq_len_of (folded u s) = length ?out"
      unfolding f using seq_len_folded [OF assms False] .
    have "length ?s' < length s" using seq_len_pos [OF False] False by simp
    note ih = less.hyps [OF this]
    have "?out \<noteq> []"
      using assms
    proof (cases rule: token_out_cases [where t = "take (seq_len_of s) s"])
      case keep
      then show ?thesis using False seq_len_pos [OF False] by simp
    qed simp_all
    then have "tokens (folded u s) = ?out # tokens (folded u ?s')"
      using n f by (simp add: tokens_step)
    then show ?thesis using ih tokens_step [OF False] by simp
  qed simp
qed

lemma token_out_short: "length t < 3 \<Longrightarrow> token_out u t = t"
  by (simp add: token_out_def)

lemma token_out_idem:
  assumes "u < 0x80"
  shows "token_out u (token_out u t) = token_out u t"
  using assms by (cases rule: token_out_cases [where t = t]) (simp_all add: token_out_short)

lemma length_token_out: "length (token_out u t) \<le> length t"
  using length_encode_utf8(1) [of "fold_base (code_point3 (t ! 0) (t ! 1) (t ! 2))"]
  by (auto simp: token_out_def Let_def)

lemma length_folded: "length (folded u s) \<le> length s"
proof (induction u s rule: folded.induct)
  case (1 u s)
  show ?case
  proof (cases "s = []")
    case False
    have "length (take (seq_len_of s) s) = seq_len_of s" using seq_len_le [of s] by simp
    then show ?thesis
      using 1 False length_token_out [of u "take (seq_len_of s) s"] seq_len_le [of s]
      by (simp add: folded_step)
  qed simp
qed

lemma tokens_length: "t \<in> set (tokens s) \<Longrightarrow> length t \<le> 4"
proof (induction s rule: tokens.induct)
  case (1 s)
  then show ?case using seq_len_le4 [of s] by (cases "s = []") (auto simp: tokens_step)
qed

text \<open>Folding keeps a terminated buffer terminated at its end: no NUL is written before it.\<close>

lemma encode_no_nul:
  assumes "b \<noteq> 0" and "b < 0x800"
  shows "0 \<notin> set (encode_utf8 b)"
proof (cases "b < 0x80")
  case True
  then have "unat b < 128" by (simp add: word_less_nat_alt)
  then have "unat (ucast b :: u8) = unat b"
    by (simp add: unsigned_ucast_eq take_bit_nat_eq_self)
  then have "(ucast b :: u8) \<noteq> 0" using assms(1) by (metis unat_0 unat_eq_zero)
  then show ?thesis using True by (simp add: encode_utf8_def)
next
  case False
  note two = encode_two_bytes [OF False assms(2)]
  have "(ucast (0xC0 OR drop_bit 6 b) :: u8) \<noteq> 0" using two(2) by auto
  moreover have "(ucast (0x80 OR (b AND 0x3F)) :: u8) \<noteq> 0"
    using two(3) by (auto simp: is_cont_def)
  ultimately show ?thesis unfolding two(1) by simp
qed

lemma token_out_no_nul: "0 \<notin> set t \<Longrightarrow> 0 \<notin> set (token_out u t)"
  using encode_no_nul [OF _ fold_base_range(1)] by (simp add: token_out_def Let_def)

lemma folded_no_nul: "0 \<notin> set s \<Longrightarrow> 0 \<notin> set (folded u s)"
proof (induction u s rule: folded.induct)
  case (1 u s)
  show ?case
  proof (cases "s = []")
    case False
    have "0 \<notin> set (take (seq_len_of s) s)" "0 \<notin> set (drop (seq_len_of s) s)"
      using 1(2) by (meson in_set_takeD, meson in_set_dropD)
    then show ?thesis using 1(1) False token_out_no_nul by (simp add: folded_step)
  qed simp
qed

lemma cstr_split: "0 \<in> set buf \<Longrightarrow> \<exists>rest. buf = cstr buf @ 0 # rest"
proof -
  assume "0 \<in> set buf"
  then have "dropWhile (\<lambda>b. b \<noteq> 0) buf \<noteq> []" by (simp add: dropWhile_eq_Nil_conv)
  moreover have "dropWhile (\<lambda>b. b \<noteq> 0) buf ! 0 = 0"
    using hd_dropWhile [of "\<lambda>b. b \<noteq> 0" buf] calculation by (simp add: hd_conv_nth)
  ultimately have "\<exists>rest. dropWhile (\<lambda>b. b \<noteq> 0) buf = 0 # rest"
    by (cases "dropWhile (\<lambda>b. b \<noteq> 0) buf") simp_all
  then show ?thesis by (metis cstr_def takeWhile_dropWhile_id)
qed

lemma fold_str_terminated:
  assumes "0 \<in> set buf"
  obtains b where "fold_str (Some buf) u = Some (Some b)" and "length b = length buf"
    and "cstr b = folded u (cstr buf)" and "0 \<in> set b"
proof -
  obtain rest where rest: "buf = cstr buf @ 0 # rest" using cstr_split [OF assms] by blast
  obtain t where t: "fold_loop u (cstr buf @ 0 # rest) 0 0 False = Some (folded u (cstr buf) @ 0 # t)"
    "length (folded u (cstr buf) @ 0 # t) = length (cstr buf @ 0 # rest)"
    using fold_loop_spec [of "cstr buf" False "[]" u "[]" rest] by auto
  let ?b = "folded u (cstr buf) @ 0 # t"
  have "fold_str (Some buf) u = Some (Some ?b)" using t(1) rest by (simp add: fold_str_def)
  moreover have "length ?b = length buf" using t(2) rest by simp
  ultimately show thesis using folded_no_nul [of "cstr buf" u] by (intro that [of ?b]) simp_all
qed

text \<open>
  C22.  Folding in place is correct: for every NUL-terminated buffer, the pass with its two
  cursors never accesses the array out of bounds, terminates, leaves the specified folding of
  the string before the first NUL and never lengthens it, so no unread byte is overwritten.
\<close>

theorem fold_in_place:
  assumes "0 \<notin> set s"
  shows "\<exists>buf'. fold_str (Some (s @ 0 # rest)) u = Some (Some buf') \<and>
    length buf' = length (s @ 0 # rest) \<and> take (length (folded u s) + 1) buf' = folded u s @ [0] \<and>
    length (folded u s) \<le> length s"
proof -
  obtain t where "fold_loop u (s @ 0 # rest) 0 0 False = Some (folded u s @ 0 # t)"
    "length (folded u s @ 0 # t) = length (s @ 0 # rest)"
    using fold_loop_spec [OF assms, of False "[]" u "[]" rest] by auto
  then show ?thesis using length_folded [of u s] by (simp add: fold_str_def)
qed

text \<open>
  The folding does what the display needs: folding again changes nothing; and when a
  replacement byte is given, no sequence longer than two bytes is left, so every well-formed
  character of the result is below U+0800, the part of Unicode the font draws.
\<close>

theorem fold_renderable:
  assumes "u < 0x80"
  shows "folded u (folded u s) = folded u s \<and>
    (u \<noteq> 0 \<longrightarrow> (\<forall>t \<in> set (tokens (folded u s)). length t \<le> 2))"
proof
  have "map (token_out u) (tokens (folded u s)) = map (token_out u) (tokens s)"
    unfolding tokens_folded [OF assms] using token_out_idem [OF assms] by simp
  then show "folded u (folded u s) = folded u s"
    by (metis folded_tokens)
  have "length (token_out u t) \<le> 2" if "u \<noteq> 0" "length t \<le> 4" for t
    using that length_encode_utf8(1) [of "fold_base (code_point3 (t ! 0) (t ! 1) (t ! 2))"]
    by (auto simp: token_out_def Let_def)
  then show "u \<noteq> 0 \<longrightarrow> (\<forall>t \<in> set (tokens (folded u s)). length t \<le> 2)"
    unfolding tokens_folded [OF assms] using tokens_length by auto
qed

text \<open>A Vietnamese letter, U+1EC5, folds to U+00EA; a CJK character becomes a question mark.\<close>

definition sample_name :: "u8 list" where
  "sample_name = [78, 0xE1, 0xBB, 0x85, 110, 0xE4, 0xBA, 0xAC]"

lemma sample_folded: "folded 63 sample_name = [78, 0xC3, 0xAA, 110, 63]"
  by (simp add: sample_name_def folded.simps lead_conts_def is_cont_def token_out_def
      code_point3_def fold_base_def kBase_def encode_utf8_def)

theorem fold_in_place_witness:
  "\<exists>buf'. fold_str (Some (sample_name @ 0 # [1])) 63 = Some (Some buf') \<and>
     take (length [78, 0xC3, 0xAA, 110, 63::u8] + 1) buf' = [78, 0xC3, 0xAA, 110, 63] @ [0]"
proof -
  have "0 \<notin> set sample_name" by (simp add: sample_name_def)
  from fold_in_place [OF this, of "[1]" 63] show ?thesis unfolding sample_folded by blast
qed

theorem fold_renderable_witness:
  "folded 63 [78, 0xC3, 0xAA, 110, 63] = [78, 0xC3, 0xAA, 110, 63]"
  using fold_renderable [of 63 sample_name] sample_folded by simp

end
