(* ===== verification/Preload.thy ===== *)
theory Preload
  imports Config
begin

text \<open>
  \<open>common/preload.h\<close>, the process gates of \<open>common/preload_guard.h\<close> and the library constructors
  (\<open>*/main.cpp\<close>): which process a shim acts in, and how it finds the function it interposes.
  The dynamic linker is the record \<open>linker\<close>; addresses and handles are words, 0 is null.
  \<open>/proc/self/cmdline\<close> is the bytes the process was started with, \<open>None\<close> when it cannot be read.
\<close>

section \<open>resolve_real_symbol\<close>

record linker =
  dlsym_next :: "u8 list \<Rightarrow> u32"
  dlopen_noload :: "u8 list \<Rightarrow> u32"
  dlsym_in :: "u32 \<Rightarrow> u8 list \<Rightarrow> u32"

text \<open>\<open>handle_cache\<close> is \<open>None\<close> for a null pointer, else the cached handle; both come back.\<close>

definition resolve_real_symbol ::
  "linker \<Rightarrow> u8 list \<Rightarrow> u8 list option \<Rightarrow> u8 list option \<Rightarrow> u32 \<Rightarrow> u32 option \<Rightarrow> u32 \<times> u32 option" where
  "resolve_real_symbol ld name soname abspath own_shim handle_cache =
     (let p = dlsym_next ld name in
      if p \<noteq> 0 \<and> p \<noteq> own_shim then (p, handle_cache)
      else
        (let cache =
           (if handle_cache = Some 0 then
              (let h = (case soname of Some so \<Rightarrow> dlopen_noload ld so | None \<Rightarrow> 0);
                   h = (if h = 0 then (case abspath of Some a \<Rightarrow> dlopen_noload ld a | None \<Rightarrow> 0) else h)
               in Some h)
            else handle_cache)
         in case cache of
              None \<Rightarrow> (0, cache)
            | Some h \<Rightarrow>
                if h = 0 then (0, cache)
                else
                  (let p = dlsym_in ld h name in
                   if p \<noteq> 0 \<and> p \<noteq> own_shim then (p, cache) else (0, cache))))"

section \<open>Process gates\<close>

definition preload_read_cmdline :: "u8 list option \<Rightarrow> nat \<Rightarrow> u8 list \<times> nat" where
  "preload_read_cmdline proc outsz =
     (if outsz = 0 then ([], 0)
      else
        (case proc of
           None \<Rightarrow> ([], 0)
         | Some raw \<Rightarrow>
             (let out = map (\<lambda>c. if c = 0 then 32 else c) (take (outsz - 1) raw); n = length out in
              if n = 0 then ([], 0)
              else (if last out = 32 then butlast out else out, n))))"

text \<open>The basename, as \<open>strrchr\<close> finds it: what follows the last slash.\<close>

definition basename :: "u8 list \<Rightarrow> u8 list" where
  "basename path = rev (takeWhile (\<lambda>c. c \<noteq> 47) (rev path))"

text \<open>The scan of \<open>preload_is_launcher_process\<close>: the index behind the last slash before \<open>len\<close>.\<close>

definition base_index :: "u8 list \<Rightarrow> nat \<Rightarrow> nat" where
  "base_index cmdline len = foldl (\<lambda>base i. if cmdline ! i = 47 then i + 1 else base) 0 [0..<len]"

definition preload_is_launcher_process :: "u8 list \<Rightarrow> bool" where
  "preload_is_launcher_process cmdline =
     (if cmdline = [] then False
      else
        let len = length (takeWhile (\<lambda>c. c \<noteq> 32) cmdline); base = base_index cmdline len;
            blen = len - base; kTarget = ascii ''sm_svclauncher''
        in blen = length kTarget \<and> take (length kTarget) (drop base cmdline) = kTarget)"

definition preload_in_aap_service :: "u8 list option \<Rightarrow> bool" where
  "preload_in_aap_service proc =
     (case preload_read_cmdline proc 256 of
        (cl, n) \<Rightarrow> n > 0 \<and> basename (takeWhile (\<lambda>c. c \<noteq> 32) cl) = ascii ''aap_service'')"

text \<open>\<open>read_cmdline\<close> of \<open>blmjcicarplay/main.cpp\<close> does not trim the final space.\<close>

definition cp_read_cmdline :: "u8 list option \<Rightarrow> nat \<Rightarrow> u8 list \<times> nat" where
  "cp_read_cmdline proc outsz =
     (if outsz = 0 then ([], 0)
      else
        (case proc of
           None \<Rightarrow> ([], 0)
         | Some raw \<Rightarrow>
             (let out = map (\<lambda>c. if c = 0 then 32 else c) (take (outsz - 1) raw)
              in (out, length out))))"

fun strstr :: "u8 list \<Rightarrow> u8 list \<Rightarrow> bool" where
  "strstr [] needle = (needle = [])"
| "strstr (c # cs) needle = (take (length needle) (c # cs) = needle \<or> strstr cs needle)"

definition in_carplay_launcher :: "u8 list option \<Rightarrow> bool" where
  "in_carplay_launcher proc =
     (case cp_read_cmdline proc 512 of
        (cl, _) \<Rightarrow> strstr cl (ascii ''jciCARPLAY'') \<or> strstr cl (ascii ''blmjcicarplay.so''))"

section \<open>Library constructors\<close>

text \<open>What a constructor does, in order; the configuration is loaded into the settings.\<close>

datatype startup_action =
    InstallFatalHandler | LoadConfig | EnableShim | InitAudio | InitNavi

definition svcjcinavi_on_load :: "u8 list option \<Rightarrow> startup_action list" where
  "svcjcinavi_on_load proc =
     (if \<not> preload_is_launcher_process (fst (preload_read_cmdline proc 256)) then []
      else [InstallFatalHandler])"

definition blmjciaapa_on_load ::
  "u8 list option \<Rightarrow> u8 list option \<Rightarrow> (u8 list \<Rightarrow> u8 list option) \<Rightarrow> Settings \<Rightarrow>
   startup_action list \<times> Settings" where
  "blmjciaapa_on_load proc fname fs s =
     (if \<not> preload_is_launcher_process (fst (preload_read_cmdline proc 256)) then ([], s)
      else ([InstallFatalHandler, LoadConfig], load_config fname fs kConfigFile s))"

definition aap_service_patch_init ::
  "u8 list option \<Rightarrow> u8 list option \<Rightarrow> (u8 list \<Rightarrow> u8 list option) \<Rightarrow> Settings \<Rightarrow>
   startup_action list \<times> Settings" where
  "aap_service_patch_init proc fname fs s =
     (if \<not> preload_in_aap_service proc then ([], s)
      else
        (let s = load_config fname fs kConfigFile s in
         ([LoadConfig, InstallFatalHandler] @
          (if cfg_aa_audio_low_latency s then [InitAudio] else []) @
          (if cfg_use_protocol_v1_6 s then [InitNavi] else []), s)))"

definition blmjcicarplay_on_load ::
  "u8 list option \<Rightarrow> u8 list option \<Rightarrow> (u8 list \<Rightarrow> u8 list option) \<Rightarrow> Settings \<Rightarrow>
   startup_action list \<times> Settings" where
  "blmjcicarplay_on_load proc fname fs s =
     (if \<not> in_carplay_launcher proc then ([], s)
      else ([EnableShim, InstallFatalHandler, LoadConfig], load_config fname fs kCarplayConfigFile s))"

section \<open>Properties\<close>

text \<open>
  A shim never calls itself: whatever the dynamic linker answers, the resolved address is
  not the shim's own, it is an answer of the linker for that name, and a handle that is already
  cached is neither reopened nor replaced.
\<close>

theorem resolve_no_recursion:
  assumes "resolve_real_symbol ld name soname abspath own cache = (p, cache')" "own \<noteq> 0"
  shows "p \<noteq> own \<and> (p \<noteq> 0 \<longrightarrow> p = dlsym_next ld name \<or> (\<exists>h. h \<noteq> 0 \<and> cache' = Some h \<and> p = dlsym_in ld h name)) \<and>
    (cache \<noteq> Some 0 \<longrightarrow> cache' = cache)"
  using assms
  by (auto simp: resolve_real_symbol_def Let_def split: if_splits option.splits)

theorem resolve_no_recursion_witness:
  "fst (resolve_real_symbol \<lparr>dlsym_next = \<lambda>_. 5, dlopen_noload = \<lambda>_. 9, dlsym_in = \<lambda>_ _. 6\<rparr>
     [120] (Some [108]) None 5 (Some 0)) \<noteq> 5"
proof -
  let ?ld = "\<lparr>dlsym_next = \<lambda>_. 5, dlopen_noload = \<lambda>_. 9, dlsym_in = \<lambda>_ _. 6\<rparr>"
  obtain p c where r: "resolve_real_symbol ?ld [120] (Some [108]) None 5 (Some 0) = (p, c)"
    by (cases "resolve_real_symbol ?ld [120] (Some [108]) None 5 (Some 0)")
  from resolve_no_recursion [OF r] show ?thesis by (simp add: r)
qed

lemma argv0_of_cmdline:
  assumes "a0 \<noteq> []" "0 \<notin> set a0" "32 \<notin> set a0" "length a0 \<le> 255"
  shows "takeWhile (\<lambda>c. c \<noteq> 32) (fst (preload_read_cmdline (Some (a0 @ 0 # args)) 256)) = a0"
    and "0 < snd (preload_read_cmdline (Some (a0 @ 0 # args)) 256)"
    and "fst (preload_read_cmdline (Some (a0 @ 0 # args)) 256) \<noteq> []"
proof -
  let ?f = "\<lambda>c. if c = 0 then 32 else (c::u8)"
  let ?out = "map ?f (take 255 (a0 @ 0 # args))"
  have id: "map ?f a0 = a0" using assms(2) by (induction a0) auto
  obtain tail where out: "?out = a0 @ tail" and tail: "tail = [] \<or> hd tail = 32"
  proof (cases "length a0 = 255")
    case True
    then have "?out = a0 @ []" using id by simp
    then show thesis by (rule that) simp
  next
    case False
    then obtain k where k: "255 - length a0 = Suc k" using assms(4) by (cases "255 - length a0") auto
    then have "?out = a0 @ 32 # map ?f (take k args)" using assms(4) id by simp
    then show thesis by (rule that) simp
  qed
  have all: "\<forall>c \<in> set a0. c \<noteq> 32" using assms(3) by auto
  have tw: "takeWhile (\<lambda>c. c \<noteq> 32) (a0 @ t) = a0" if "t = [] \<or> hd t = 32" for t
    using that all by (cases t) (auto simp: takeWhile_append2 takeWhile_eq_all_conv)
  have bl: "butlast (a0 @ tail) = a0 @ butlast tail" if "last (a0 @ tail) = 32"
    using that all assms(1) by (cases "tail = []") (auto simp: butlast_append)
  have hdb: "butlast tail = [] \<or> hd (butlast tail) = 32"
    using tail by (cases tail; cases "tl tail") auto
  have ne: "?out \<noteq> []" using out assms(1) by simp
  have fst_eq: "fst (preload_read_cmdline (Some (a0 @ 0 # args)) 256) =
      (if last (a0 @ tail) = 32 then a0 @ butlast tail else a0 @ tail)"
    using ne out bl by (simp add: preload_read_cmdline_def Let_def del: map_append map_map)
  show "takeWhile (\<lambda>c. c \<noteq> 32) (fst (preload_read_cmdline (Some (a0 @ 0 # args)) 256)) = a0"
    unfolding fst_eq using tw tail hdb by simp
  show "fst (preload_read_cmdline (Some (a0 @ 0 # args)) 256) \<noteq> []"
    unfolding fst_eq using assms(1) by simp
  show "0 < snd (preload_read_cmdline (Some (a0 @ 0 # args)) 256)"
    using ne by (auto simp: preload_read_cmdline_def Let_def)
qed

text \<open>The scan and \<open>strrchr\<close> find the same name.\<close>

lemma base_index_spec:
  "len \<le> length c \<Longrightarrow> base_index c len \<le> len \<and> drop (base_index c len) (take len c) = basename (take len c)"
proof (induction len)
  case (Suc n)
  let ?b = "base_index c n"
  have b: "base_index c (Suc n) = (if c ! n = 47 then n + 1 else ?b)" by (simp add: base_index_def)
  have t: "take (Suc n) c = take n c @ [c ! n]" using Suc.prems by (simp add: take_Suc_conv_app_nth)
  show ?case
  proof (cases "c ! n = 47")
    case True
    then show ?thesis using b t Suc.prems by (simp add: basename_def)
  next
    case False
    then have "basename (take (Suc n) c) = basename (take n c) @ [c ! n]" unfolding t by (simp add: basename_def)
    moreover have "drop ?b (take (Suc n) c) = drop ?b (take n c) @ [c ! n]"
      unfolding t using Suc by simp
    ultimately show ?thesis using b False Suc by simp
  qed
qed (simp add: base_index_def basename_def)

lemma launcher_scan:
  "preload_is_launcher_process c \<longleftrightarrow>
     c \<noteq> [] \<and> basename (takeWhile (\<lambda>b. b \<noteq> 32) c) = ascii ''sm_svclauncher''"
proof -
  define a where "a = takeWhile (\<lambda>b. b \<noteq> 32) c"
  define len where "len = length a"
  define base where "base = base_index c len"
  let ?k = "ascii ''sm_svclauncher''"
  have a: "take len c = a" unfolding len_def a_def by (metis takeWhile_eq_take)
  have len: "len \<le> length c" by (simp add: len_def a_def length_takeWhile_le)
  have b: "base \<le> len" "drop base a = basename a"
    using base_index_spec [OF len] by (simp_all add: base_def a)
  have "len - base = length (basename a)" using b(2) by (metis length_drop len_def)
  moreover have "take (len - base) (drop base c) = basename a"
    using a b(2) by (metis drop_take)
  ultimately have "len - base = length ?k \<and> take (length ?k) (drop base c) = ?k \<longleftrightarrow> basename a = ?k" by metis
  then show ?thesis
    unfolding preload_is_launcher_process_def Let_def a_def [symmetric] len_def [symmetric] base_def [symmetric]
    by simp
qed

lemma gates_exact:
  assumes "a0 \<noteq> []" "0 \<notin> set a0" "32 \<notin> set a0" "length a0 \<le> 255"
  shows "preload_is_launcher_process (fst (preload_read_cmdline (Some (a0 @ 0 # args)) 256)) \<longleftrightarrow>
      basename a0 = ascii ''sm_svclauncher''"
    and "preload_in_aap_service (Some (a0 @ 0 # args)) \<longleftrightarrow> basename a0 = ascii ''aap_service''"
  using argv0_of_cmdline [OF assms, of args]
  by (simp_all add: launcher_scan preload_in_aap_service_def case_prod_beta)

lemma strstr_iff: "strstr hay needle \<longleftrightarrow> (\<exists>pre post. hay = pre @ needle @ post)"
proof (induction hay)
  case (Cons c cs)
  have "take (length needle) (c # cs) = needle \<longleftrightarrow> (\<exists>post. c # cs = needle @ post)"
    by (metis append_eq_conv_conj)
  moreover have "(\<exists>pre post. c # cs = pre @ needle @ post) \<longleftrightarrow>
      (\<exists>post. c # cs = needle @ post) \<or> (\<exists>pre post. cs = pre @ needle @ post)"
    by (auto simp: Cons_eq_append_conv)
  ultimately show ?case using Cons.IH by simp
qed simp

text \<open>The command line as the CarPlay gate reads it, and a tag somewhere in it.\<close>

definition carplay_line :: "u8 list \<Rightarrow> u8 list" where
  "carplay_line raw = map (\<lambda>c. if c = 0 then 32 else c) (take 511 raw)"

definition names_carplay :: "u8 list \<Rightarrow> bool" where
  "names_carplay raw \<longleftrightarrow>
     (\<exists>tag \<in> {ascii ''jciCARPLAY'', ascii ''blmjcicarplay.so''}.
        \<exists>pre post. carplay_line raw = pre @ tag @ post)"

lemma carplay_gate: "in_carplay_launcher (Some raw) \<longleftrightarrow> names_carplay raw"
  by (simp add: in_carplay_launcher_def cp_read_cmdline_def strstr_iff names_carplay_def
      carplay_line_def Let_def)

text \<open>
  C24.  The gates of the four libraries are exact.  For a process started with a program name of
  1 to 255 bytes without space, and any arguments: the constructors of \<open>svcjcinavi\<close>, \<open>blmjciaapa\<close>
  and \<open>aap_service\<close> act iff the base name of the program name is the one their library belongs
  to; the constructor of \<open>blmjcicarplay\<close> does not look at the base name, it acts iff one of its two
  tags occurs anywhere in the first 511 bytes of the command line, arguments included.  Where a
  constructor does not act it patches nothing, installs no handler and leaves the settings alone,
  and none acts when the command line cannot be read.
\<close>

theorem shims_gated:
  assumes "a0 \<noteq> []" "0 \<notin> set a0" "32 \<notin> set a0" "length a0 \<le> 255"
    and proc: "proc = Some (a0 @ 0 # args)"
  shows "(svcjcinavi_on_load proc \<noteq> [] \<longleftrightarrow> basename a0 = ascii ''sm_svclauncher'') \<and>
    (fst (blmjciaapa_on_load proc fname fs s) \<noteq> [] \<longleftrightarrow> basename a0 = ascii ''sm_svclauncher'') \<and>
    (fst (aap_service_patch_init proc fname fs s) \<noteq> [] \<longleftrightarrow> basename a0 = ascii ''aap_service'') \<and>
    (fst (blmjcicarplay_on_load proc fname fs s) \<noteq> [] \<longleftrightarrow> names_carplay (a0 @ 0 # args)) \<and>
    (basename a0 \<noteq> ascii ''sm_svclauncher'' \<longrightarrow> snd (blmjciaapa_on_load proc fname fs s) = s) \<and>
    (basename a0 \<noteq> ascii ''aap_service'' \<longrightarrow> snd (aap_service_patch_init proc fname fs s) = s) \<and>
    (\<not> names_carplay (a0 @ 0 # args) \<longrightarrow> snd (blmjcicarplay_on_load proc fname fs s) = s) \<and>
    svcjcinavi_on_load None = [] \<and> blmjciaapa_on_load None fname fs s = ([], s) \<and>
    aap_service_patch_init None fname fs s = ([], s) \<and> blmjcicarplay_on_load None fname fs s = ([], s)"
proof -
  have "preload_read_cmdline None 256 = ([], 0)" "\<not> preload_is_launcher_process []"
    by (simp_all add: preload_read_cmdline_def preload_is_launcher_process_def)
  moreover have "\<not> preload_in_aap_service None"
    by (simp add: preload_in_aap_service_def preload_read_cmdline_def)
  moreover have "\<not> in_carplay_launcher None"
    by (simp add: in_carplay_launcher_def cp_read_cmdline_def ascii_def)
  ultimately show ?thesis
    using gates_exact [OF assms(1-4), of args, folded proc] carplay_gate [of "a0 @ 0 # args", folded proc]
    by (simp add: svcjcinavi_on_load_def blmjciaapa_on_load_def aap_service_patch_init_def
        blmjcicarplay_on_load_def Let_def)
qed

text \<open>The launcher, a helper with a longer name, and a foreign program that names the service tag.\<close>

theorem shims_gated_witness:
  "svcjcinavi_on_load (Some (ascii ''/jci/sm/sm_svclauncher'' @ 0 # ascii ''-l'')) \<noteq> [] \<and>
   fst (aap_service_patch_init (Some (ascii ''/tmp/aap_service_helper'' @ 0 # [])) None (\<lambda>_. None)
     default_settings) = [] \<and>
   fst (blmjcicarplay_on_load (Some (ascii ''killall'' @ 0 # ascii ''jciCARPLAY'')) None (\<lambda>_. None)
     default_settings) \<noteq> []"
proof -
  have "carplay_line (ascii ''killall'' @ 0 # ascii ''jciCARPLAY'') =
      ascii ''killall '' @ ascii ''jciCARPLAY'' @ []"
    by (simp add: carplay_line_def ascii_def)
  then have "names_carplay (ascii ''killall'' @ 0 # ascii ''jciCARPLAY'')"
    unfolding names_carplay_def by blast
  then show ?thesis
    using shims_gated [OF _ _ _ _ refl, of "ascii ''/jci/sm/sm_svclauncher''" "ascii ''-l''"]
      shims_gated [OF _ _ _ _ refl, of "ascii ''/tmp/aap_service_helper''" "[]" None "\<lambda>_. None" default_settings]
      shims_gated [OF _ _ _ _ refl, of "ascii ''killall''" "ascii ''jciCARPLAY''" None "\<lambda>_. None" default_settings]
    by (simp add: ascii_def basename_def)
qed

end
