(* ===== verification/Vbs_Hud.thy ===== *)
theory Vbs_Hud
  imports Prelude
begin

text \<open>
  \<open>common/oem/vbs_navi_hud.h\<close>: the wire structs of the head-up display service and the reserved
  speed value that marks a frame as Android Auto's.  A string pointer is the string it points
  to, \<open>None\<close> when null.
\<close>

record VbsNaviHudDisplay =
  nextManeuverInfo :: u32
  distanceValue :: u16
  distanceUnit :: u8
  displaySpeedLimit :: u16
  displaySpeedUnit :: u8
  text_ID3 :: u8

record VbsNaviHudMsg2 =
  guidancePointName :: "u8 list option"
  syncBit :: u8

definition kAapSpeedSentinel :: u16 where "kAapSpeedSentinel = 0xFFFF"
end
