(* ===== verification/Merge.thy ===== *)
theory Merge
  imports Preload Vbs_Hud
begin

text \<open>
  \<open>svcjcinavi/merge.cpp\<close>: the two interposed
  HUD setters that splice Android Auto's maneuver and the OEM's speed into one stream.

  The state is the file's static variables.  A hook takes the frame the OEM passes (\<open>None\<close> for
  a null pointer) and the time, and returns the new state, whether the real setter was called
  and with which frame, and the value returned; \<open>real\<close> is the return value of the real setter.
  \<open>street_buf\<close> is the content of the OEM's \<open>current_StreetName\<close> at the time of the call.
\<close>

section \<open>State\<close>

definition kAapTimeoutSec :: int where "kAapTimeoutSec = 5 * 60"

datatype StreetAction = STREET_PASSTHROUGH | STREET_CAPTURE | STREET_REPLACE

record merge_state =
  mg_gate_done :: bool
  mg_enabled :: bool
  mg_vbs_handle :: u32
  mg_real_set :: u32
  mg_real_msg2 :: u32
  mg_cur_street :: bool
  mg_have_aap :: bool
  mg_aap_man :: u32
  mg_aap_dist :: u16
  mg_aap_dunit :: u8
  mg_aap_last :: int
  mg_street_action :: StreetAction
  mg_aap_street :: "u8 list"
  mg_oem_speed :: u16
  mg_oem_sunit :: u8

definition merge_init :: merge_state where
  "merge_init =
     \<lparr>mg_gate_done = False, mg_enabled = False, mg_vbs_handle = 0, mg_real_set = 0, mg_real_msg2 = 0,
      mg_cur_street = False, mg_have_aap = False, mg_aap_man = 0, mg_aap_dist = 0, mg_aap_dunit = 0,
      mg_aap_last = 0, mg_street_action = STREET_PASSTHROUGH, mg_aap_street = replicate 128 0,
      mg_oem_speed = 0, mg_oem_sunit = 0\<rparr>"

section \<open>The gate\<close>

definition kSvcjcinaviSo :: "u8 list" where "kSvcjcinaviSo = ascii ''/jci/navi/svcjcinavi.so''"
definition kVbsClientSoname :: "u8 list" where
  "kVbsClientSoname = ascii ''libjcivbsnaviclient.so''"
definition kVbsClientAbspath :: "u8 list" where
  "kVbsClientAbspath = ascii ''/jci/lib/libjcivbsnaviclient.so''"
definition kAnchorSym :: "u8 list" where "kAnchorSym = ascii ''GetServiceInterfaces''"

text \<open>
  \<open>force\<close> is \<open>force_street_name()\<close> after the configuration was loaded; \<open>own_set\<close> and \<open>own_msg2\<close>
  are the addresses of the two exported shims.
\<close>

definition merge_ensure_gate ::
  "linker \<Rightarrow> bool \<Rightarrow> u32 \<Rightarrow> u32 \<Rightarrow> merge_state \<Rightarrow> merge_state" where
  "merge_ensure_gate ld force own_set own_msg2 s =
     (if mg_gate_done s then s
      else
        (let s = s\<lparr>mg_gate_done := True\<rparr>;
             h = dlopen_noload ld kSvcjcinaviSo;
             s = s\<lparr>mg_enabled := (h \<noteq> 0)\<rparr>;
             s = (if h \<noteq> 0 \<and> force \<and> dlsym_in ld h kAnchorSym \<noteq> 0 then s\<lparr>mg_cur_street := True\<rparr> else s)
         in case resolve_real_symbol ld (ascii ''VBS_NAVI_SetHUDDisplayMsgReq'') (Some kVbsClientSoname)
                   (Some kVbsClientAbspath) own_set (Some (mg_vbs_handle s)) of
              (p, c) \<Rightarrow>
                (let s = s\<lparr>mg_real_set := p, mg_vbs_handle := (case c of Some h \<Rightarrow> h | None \<Rightarrow> 0)\<rparr>
                 in case resolve_real_symbol ld (ascii ''VBS_NAVI_TMC_SetHUD_Display_Msg2'')
                           (Some kVbsClientSoname) (Some kVbsClientAbspath) own_msg2
                           (Some (mg_vbs_handle s)) of
                      (p2, c2) \<Rightarrow>
                        s\<lparr>mg_real_msg2 := p2,
                          mg_vbs_handle := (case c2 of Some h \<Rightarrow> h | None \<Rightarrow> 0)\<rparr>)))"

definition aap_active :: "int \<Rightarrow> merge_state \<Rightarrow> bool" where
  "aap_active now s \<longleftrightarrow> mg_have_aap s \<and> to_i32 (now - mg_aap_last s) \<le> kAapTimeoutSec"

section \<open>The interposed setters\<close>

text \<open>What a hook did: the frame it passed to the real setter (\<open>None\<close> when there is none).\<close>

record 'a hook_result =
  hr_called :: "'a option option"
  hr_ret :: int

definition splice_display :: "int \<Rightarrow> VbsNaviHudDisplay \<Rightarrow> merge_state \<Rightarrow> merge_state \<times> VbsNaviHudDisplay" where
  "splice_display now d s =
     (if displaySpeedLimit d = kAapSpeedSentinel then
        (let s = (if nextManeuverInfo d = 0 then
                    s\<lparr>mg_have_aap := False, mg_street_action := STREET_PASSTHROUGH\<rparr>
                  else
                    s\<lparr>mg_aap_man := nextManeuverInfo d, mg_aap_dist := distanceValue d,
                      mg_aap_dunit := distanceUnit d, mg_have_aap := True, mg_aap_last := now,
                      mg_street_action := STREET_CAPTURE\<rparr>)
         in (s, d\<lparr>displaySpeedLimit := mg_oem_speed s, displaySpeedUnit := mg_oem_sunit s\<rparr>))
      else
        (let s = s\<lparr>mg_oem_speed := displaySpeedLimit d, mg_oem_sunit := displaySpeedUnit d\<rparr> in
         if aap_active now s then
           (s\<lparr>mg_street_action := STREET_REPLACE\<rparr>,
            d\<lparr>nextManeuverInfo := mg_aap_man s, distanceValue := mg_aap_dist s,
              distanceUnit := mg_aap_dunit s\<rparr>)
         else (s\<lparr>mg_street_action := STREET_PASSTHROUGH\<rparr>, d)))"

definition SetHUDDisplayMsgReq ::
  "(merge_state \<Rightarrow> merge_state) \<Rightarrow> int \<Rightarrow> int \<Rightarrow> VbsNaviHudDisplay option \<Rightarrow> merge_state \<Rightarrow>
   merge_state \<times> VbsNaviHudDisplay hook_result" where
  "SetHUDDisplayMsgReq gate real now disp s =
     (let s = gate s in
      if \<not> mg_enabled s \<or> mg_real_set s = 0 \<or> disp = None then
        (s\<lparr>mg_street_action := STREET_PASSTHROUGH\<rparr>,
         if mg_real_set s \<noteq> 0 then \<lparr>hr_called = Some disp, hr_ret = real\<rparr>
         else \<lparr>hr_called = None, hr_ret = 0\<rparr>)
      else
        (case splice_display now (the disp) s of
           (s, d) \<Rightarrow> (s, \<lparr>hr_called = Some (Some d), hr_ret = real\<rparr>)))"

definition splice_street :: "u8 list \<Rightarrow> VbsNaviHudMsg2 \<Rightarrow> merge_state \<Rightarrow> merge_state \<times> VbsNaviHudMsg2" where
  "splice_street street_buf m s =
     (if mg_street_action s = STREET_CAPTURE then
        (let src = (if mg_cur_street s then Some street_buf else guidancePointName m);
             s = s\<lparr>mg_aap_street :=
               (case src of Some b \<Rightarrow> strncpy_z 128 b | None \<Rightarrow> (mg_aap_street s)[0 := 0])\<rparr>
         in (s, m\<lparr>guidancePointName := Some (cstr (mg_aap_street s))\<rparr>))
      else if mg_street_action s = STREET_REPLACE then
        (s, m\<lparr>guidancePointName := Some (cstr (mg_aap_street s))\<rparr>)
      else (s, m))"

definition TMC_SetHUD_Display_Msg2 ::
  "(merge_state \<Rightarrow> merge_state) \<Rightarrow> int \<Rightarrow> u8 list \<Rightarrow> VbsNaviHudMsg2 option \<Rightarrow> merge_state \<Rightarrow>
   merge_state \<times> VbsNaviHudMsg2 hook_result" where
  "TMC_SetHUD_Display_Msg2 gate real street_buf msg2 s =
     (let s = gate s in
      if \<not> mg_enabled s \<or> mg_real_msg2 s = 0 \<or> msg2 = None then
        (s, if mg_real_msg2 s \<noteq> 0 then \<lparr>hr_called = Some msg2, hr_ret = real\<rparr>
            else \<lparr>hr_called = None, hr_ret = 0\<rparr>)
      else
        (case splice_street street_buf (the msg2) s of
           (s, m) \<Rightarrow> (s, \<lparr>hr_called = Some (Some m), hr_ret = real\<rparr>)))"

section \<open>A session: maneuver frames, each followed by its street strip\<close>

text \<open>
  The OEM's sender thread emits a generation: a maneuver frame at time \<open>now\<close> and its strip,
  while \<open>current_StreetName\<close> holds \<open>buf\<close>.
\<close>

record generation =
  g_now :: int
  g_disp :: VbsNaviHudDisplay
  g_msg2 :: VbsNaviHudMsg2
  g_buf :: "u8 list"

definition run_generation ::
  "generation \<Rightarrow> merge_state \<Rightarrow> merge_state \<times> VbsNaviHudDisplay \<times> VbsNaviHudMsg2" where
  "run_generation g s =
     (case splice_display (g_now g) (g_disp g) s of
        (s1, d) \<Rightarrow> (case splice_street (g_buf g) (g_msg2 g) s1 of (s2, m) \<Rightarrow> (s2, d, m)))"

fun run_generations :: "generation list \<Rightarrow> merge_state \<Rightarrow> merge_state" where
  "run_generations [] s = s"
| "run_generations (g # gs) s = run_generations gs (fst (run_generation g s))"

lemma run_generations_append:
  "run_generations (gs @ hs) s = run_generations hs (run_generations gs s)"
  by (induction gs arbitrary: s) simp_all

section \<open>Specification on the history of frames\<close>

definition is_aap :: "generation \<Rightarrow> bool" where
  "is_aap g \<longleftrightarrow> displaySpeedLimit (g_disp g) = kAapSpeedSentinel"

text \<open>The speed of the last OEM frame, 0 before any.\<close>

definition hist_speed :: "generation list \<Rightarrow> u16 \<times> u8" where
  "hist_speed gs =
     (let oem = filter (\<lambda>g. \<not> is_aap g) gs in
      if oem = [] then (0, 0)
      else (displaySpeedLimit (g_disp (last oem)), displaySpeedUnit (g_disp (last oem))))"

text \<open>The last Android Auto frame, when it carried a maneuver.\<close>

definition hist_owner :: "generation list \<Rightarrow> generation option" where
  "hist_owner gs =
     (let aap = filter is_aap gs in
      if aap = [] \<or> nextManeuverInfo (g_disp (last aap)) = 0 then None else Some (last aap))"

lemma hist_speed_snoc [simp]:
  "hist_speed (gs @ [g]) =
     (if is_aap g then hist_speed gs
      else (displaySpeedLimit (g_disp g), displaySpeedUnit (g_disp g)))"
  by (simp add: hist_speed_def Let_def)

lemma hist_owner_snoc [simp]:
  "hist_owner (gs @ [g]) =
     (if is_aap g then (if nextManeuverInfo (g_disp g) = 0 then None else Some g) else hist_owner gs)"
  by (simp add: hist_owner_def Let_def)

text \<open>The state after a history, abstracted: last OEM speed, owner, and the captured street.\<close>

definition street_source :: "bool \<Rightarrow> generation \<Rightarrow> u8 list option" where
  "street_source cur g = (if cur then Some (g_buf g) else guidancePointName (g_msg2 g))"

definition shown_street :: "u8 list option \<Rightarrow> u8 list" where
  "shown_street src = (case src of Some b \<Rightarrow> take 127 (cstr b) | None \<Rightarrow> [])"

definition merge_abs :: "bool \<Rightarrow> generation list \<Rightarrow> merge_state \<Rightarrow> bool" where
  "merge_abs cur gs s \<longleftrightarrow>
     mg_cur_street s = cur \<and> length (mg_aap_street s) = 128 \<and>
     (mg_oem_speed s, mg_oem_sunit s) = hist_speed gs \<and>
     (case hist_owner gs of
        None \<Rightarrow> \<not> mg_have_aap s
      | Some a \<Rightarrow> mg_have_aap s \<and> mg_aap_man s = nextManeuverInfo (g_disp a) \<and>
          mg_aap_dist s = distanceValue (g_disp a) \<and> mg_aap_dunit s = distanceUnit (g_disp a) \<and>
          mg_aap_last s = g_now a \<and> cstr (mg_aap_street s) = shown_street (street_source cur a))"

lemma cstr_clear: "length b = 128 \<Longrightarrow> cstr (b[0 := 0]) = []"
  by (cases b) (auto simp: cstr_def)

lemma merge_abs_step:
  assumes "merge_abs cur gs s"
  shows "merge_abs cur (gs @ [g]) (fst (run_generation g s))"
proof (cases "is_aap g")
  case True
  then show ?thesis
    using assms
    by (auto simp: merge_abs_def run_generation_def splice_display_def splice_street_def is_aap_def
        street_source_def shown_street_def cstr_clear Let_def split: option.splits)
next
  case False
  then show ?thesis
    using assms
    by (auto simp: merge_abs_def run_generation_def splice_display_def splice_street_def is_aap_def
        aap_active_def Let_def split: option.splits)
qed

definition merge_ready :: "bool \<Rightarrow> merge_state" where
  "merge_ready cur = merge_init\<lparr>mg_gate_done := True, mg_enabled := True, mg_cur_street := cur\<rparr>"

lemma merge_abs_run: "merge_abs cur gs (run_generations gs (merge_ready cur))"
proof (induction gs rule: rev_induct)
  case Nil
  then show ?case
    by (simp add: merge_abs_def merge_ready_def merge_init_def hist_speed_def hist_owner_def)
next
  case (snoc g gs)
  then show ?case using merge_abs_step [OF snoc] by (simp add: run_generations_append)
qed

lemma hist_speed_not_sentinel: "fst (hist_speed gs) \<noteq> kAapSpeedSentinel"
proof (cases "filter (\<lambda>g. \<not> is_aap g) gs = []")
  case False
  then have "last (filter (\<lambda>g. \<not> is_aap g) gs) \<in> set (filter (\<lambda>g. \<not> is_aap g) gs)"
    by (rule last_in_set)
  then have "\<not> is_aap (last (filter (\<lambda>g. \<not> is_aap g) gs))" by simp
  with False show ?thesis by (simp add: hist_speed_def Let_def is_aap_def)
qed (simp add: hist_speed_def kAapSpeedSentinel_def)

text \<open>The output of one generation, in the four cases the hooks distinguish.\<close>

lemma generation_out:
  "is_aap g \<Longrightarrow> nextManeuverInfo (g_disp g) = 0 \<Longrightarrow> snd (run_generation g s) =
     ((g_disp g)\<lparr>displaySpeedLimit := mg_oem_speed s, displaySpeedUnit := mg_oem_sunit s\<rparr>, g_msg2 g)"
  "is_aap g \<Longrightarrow> nextManeuverInfo (g_disp g) \<noteq> 0 \<Longrightarrow> length (mg_aap_street s) = 128 \<Longrightarrow>
     snd (run_generation g s) =
     ((g_disp g)\<lparr>displaySpeedLimit := mg_oem_speed s, displaySpeedUnit := mg_oem_sunit s\<rparr>,
      (g_msg2 g)\<lparr>guidancePointName := Some (shown_street (street_source (mg_cur_street s) g))\<rparr>)"
  "\<not> is_aap g \<Longrightarrow> aap_active (g_now g) s \<Longrightarrow> snd (run_generation g s) =
     ((g_disp g)\<lparr>nextManeuverInfo := mg_aap_man s, distanceValue := mg_aap_dist s,
        distanceUnit := mg_aap_dunit s\<rparr>,
      (g_msg2 g)\<lparr>guidancePointName := Some (cstr (mg_aap_street s))\<rparr>)"
  "\<not> is_aap g \<Longrightarrow> \<not> aap_active (g_now g) s \<Longrightarrow> snd (run_generation g s) = (g_disp g, g_msg2 g)"
     apply (simp add: run_generation_def splice_display_def splice_street_def is_aap_def Let_def)
    apply (cases "mg_cur_street s"; cases "guidancePointName (g_msg2 g)";
      simp add: run_generation_def splice_display_def splice_street_def is_aap_def Let_def
        street_source_def shown_street_def cstr_clear)
   apply (simp add: run_generation_def splice_display_def splice_street_def is_aap_def aap_active_def Let_def)
  apply (cases "mg_have_aap s"; simp add: run_generation_def splice_display_def splice_street_def
      is_aap_def aap_active_def Let_def)
  done

text \<open>
  C6.  What the merge shows is determined by the history of frames: after any sequence of
  generations, the next one reaches the display with the speed of the last OEM frame (never
  the sentinel), its own sync bits, and, for an OEM frame within five minutes of the last
  Android Auto maneuver, that maneuver and its street; Android Auto's own maneuver passes with
  its street un-blanked; every other frame and strip passes untouched.
\<close>

theorem merge_shows:
  assumes "run_generation g (run_generations gs (merge_ready cur)) = (s', d, m)"
  shows "(displaySpeedLimit d, displaySpeedUnit d) = hist_speed (gs @ [g]) \<and>
    displaySpeedLimit d \<noteq> kAapSpeedSentinel \<and>
    text_ID3 d = text_ID3 (g_disp g) \<and> syncBit m = syncBit (g_msg2 g) \<and>
    (let (src, street) =
       (if is_aap g then
          (g, if nextManeuverInfo (g_disp g) = 0 then guidancePointName (g_msg2 g)
              else Some (shown_street (street_source cur g)))
        else
          (case hist_owner gs of
             Some a \<Rightarrow>
               if to_i32 (g_now g - g_now a) \<le> 300 then (a, Some (shown_street (street_source cur a)))
               else (g, guidancePointName (g_msg2 g))
           | None \<Rightarrow> (g, guidancePointName (g_msg2 g))))
     in nextManeuverInfo d = nextManeuverInfo (g_disp src) \<and>
        distanceValue d = distanceValue (g_disp src) \<and>
        distanceUnit d = distanceUnit (g_disp src) \<and> guidancePointName m = street)"
proof -
  define s where "s = run_generations gs (merge_ready cur)"
  note abs = merge_abs_run [of cur gs, folded s_def]
  have out: "snd (run_generation g s) = (d, m)" using assms by (simp add: s_def)
  have sp: "(mg_oem_speed s, mg_oem_sunit s) = hist_speed gs" and len: "length (mg_aap_street s) = 128"
    and cur: "mg_cur_street s = cur"
    using abs by (simp_all add: merge_abs_def)
  have ns: "fst (hist_speed (gs @ [g])) \<noteq> kAapSpeedSentinel" by (rule hist_speed_not_sentinel)
  consider (blank) "is_aap g" "nextManeuverInfo (g_disp g) = 0"
    | (real) "is_aap g" "nextManeuverInfo (g_disp g) \<noteq> 0"
    | (active) "\<not> is_aap g" "aap_active (g_now g) s" | (idle) "\<not> is_aap g" "\<not> aap_active (g_now g) s"
    by blast
  then show ?thesis
  proof cases
    case blank
    then show ?thesis using generation_out(1) [OF blank, of s] out sp ns by (auto simp: prod_eq_iff)
  next
    case real
    then show ?thesis using generation_out(2) [OF real len] out sp ns cur by (auto simp: prod_eq_iff)
  next
    case active
    then obtain a where a: "hist_owner gs = Some a" "to_i32 (g_now g - g_now a) \<le> 300"
      "mg_aap_man s = nextManeuverInfo (g_disp a)" "mg_aap_dist s = distanceValue (g_disp a)"
      "mg_aap_dunit s = distanceUnit (g_disp a)"
      "cstr (mg_aap_street s) = shown_street (street_source cur a)"
      using abs by (auto simp: merge_abs_def aap_active_def kAapTimeoutSec_def split: option.splits)
    then show ?thesis using generation_out(3) [OF active] out ns active by auto
  next
    case idle
    then have "\<not> (\<exists>a. hist_owner gs = Some a \<and> to_i32 (g_now g - g_now a) \<le> 300)"
      using abs by (auto simp: merge_abs_def aap_active_def kAapTimeoutSec_def split: option.splits)
    then show ?thesis
      using generation_out(4) [OF idle] out ns idle by (cases "hist_owner gs") auto
  qed
qed

definition sample_aap :: generation where
  "sample_aap =
     \<lparr>g_now = 10, g_disp = \<lparr>nextManeuverInfo = 2, distanceValue = 150, distanceUnit = 1,
        displaySpeedLimit = 0xFFFF, displaySpeedUnit = 0, text_ID3 = 4\<rparr>,
      g_msg2 = \<lparr>guidancePointName = Some [32], syncBit = 4\<rparr>, g_buf = [65, 49, 0]\<rparr>"

definition sample_oem :: generation where
  "sample_oem =
     \<lparr>g_now = 11, g_disp = \<lparr>nextManeuverInfo = 0, distanceValue = 0, distanceUnit = 0,
        displaySpeedLimit = 50, displaySpeedUnit = 1, text_ID3 = 5\<rparr>,
      g_msg2 = \<lparr>guidancePointName = Some [32], syncBit = 5\<rparr>, g_buf = [66, 0]\<rparr>"

theorem merge_shows_witness:
  "\<exists>s' d m. run_generation sample_oem (run_generations [sample_aap] (merge_ready True)) = (s', d, m) \<and>
     nextManeuverInfo d = 2 \<and> displaySpeedLimit d = 50 \<and> guidancePointName m = Some [65, 49]"
proof -
  obtain s' d m where r:
    "run_generation sample_oem (run_generations [sample_aap] (merge_ready True)) = (s', d, m)"
    by (metis prod_cases3)
  have ow: "hist_owner [sample_aap] = Some sample_aap" "\<not> is_aap sample_oem" "is_aap sample_aap"
    by (simp_all add: hist_owner_def is_aap_def sample_aap_def sample_oem_def kAapSpeedSentinel_def)
  have sp: "hist_speed ([sample_aap] @ [sample_oem]) = (50, 1)"
    unfolding hist_speed_snoc using ow(2) by (simp add: sample_oem_def)
  have t: "to_i32 (g_now sample_oem - g_now sample_aap) = 1"
    by (simp add: sample_oem_def sample_aap_def i32_rangeI)
  have "shown_street (street_source True sample_aap) = [65, 49]"
    by (simp add: shown_street_def street_source_def sample_aap_def cstr_def)
  with merge_shows [OF r] ow t sp have
    "nextManeuverInfo d = nextManeuverInfo (g_disp sample_aap) \<and> displaySpeedLimit d = 50 \<and>
     guidancePointName m = Some [65, 49]" by auto
  with r show ?thesis by (simp add: sample_aap_def)
qed

text \<open>
  C33.  The merge is flicker-free: once Android Auto has shown a maneuver, every later OEM frame
  within five minutes repeats exactly that maneuver and street, whatever OEM frames came in
  between, so the display never blanks the arrow while both streams alternate.
\<close>

theorem merge_flicker_free:
  assumes "is_aap a" "nextManeuverInfo (g_disp a) \<noteq> 0" "\<forall>h \<in> set oem. \<not> is_aap h" "\<not> is_aap g"
    and "to_i32 (g_now g - g_now a) \<le> 300"
    and "run_generation a (run_generations gs (merge_ready cur)) = (s1, d1, m1)"
    and "run_generation g (run_generations (gs @ a # oem) (merge_ready cur)) = (s2, d2, m2)"
  shows "nextManeuverInfo d2 = nextManeuverInfo d1 \<and> distanceValue d2 = distanceValue d1 \<and>
    distanceUnit d2 = distanceUnit d1 \<and> guidancePointName m2 = guidancePointName m1"
proof -
  have "filter is_aap oem = []" using assms(3) by simp
  then have "hist_owner (gs @ a # oem) = Some a"
    using assms(1,2) by (simp add: hist_owner_def Let_def)
  then show ?thesis
    using merge_shows [OF assms(6)] merge_shows [OF assms(7)] assms(1,2,4,5) by auto
qed

theorem merge_flicker_free_witness:
  "nextManeuverInfo (fst (snd (run_generation sample_oem
     (run_generations ([] @ sample_aap # [sample_oem]) (merge_ready False))))) = 2"
proof -
  obtain s1 d1 m1 where r1: "run_generation sample_aap (run_generations [] (merge_ready False)) = (s1, d1, m1)"
    by (metis prod_cases3)
  obtain s2 d2 m2 where r2: "run_generation sample_oem
      (run_generations ([] @ sample_aap # [sample_oem]) (merge_ready False)) = (s2, d2, m2)"
    by (metis prod_cases3)
  have h: "is_aap sample_aap" "nextManeuverInfo (g_disp sample_aap) \<noteq> 0" "\<not> is_aap sample_oem"
    "to_i32 (g_now sample_oem - g_now sample_aap) \<le> 300"
    by (simp_all add: is_aap_def sample_aap_def sample_oem_def kAapSpeedSentinel_def i32_rangeI)
  have "nextManeuverInfo d1 = 2"
    using r1 by (auto simp: run_generation_def splice_display_def sample_aap_def kAapSpeedSentinel_def
        Let_def split: prod.splits)
  with merge_flicker_free [OF h(1,2) _ h(3,4) r1 r2] h(3) r2 show ?thesis by simp
qed

text \<open>
  Outside the navigation service the shims are transparent: when \<open>svcjcinavi.so\<close> is not
  mapped, or the frame is null, the frame reaches the real setter unchanged (and is dropped
  only when no real setter could be resolved); and the setter called is never the shim itself.
\<close>

theorem merge_transparent:
  assumes "s = merge_ensure_gate ld force own1 own2 merge_init" "own1 \<noteq> 0" "own2 \<noteq> 0"
    and "dlopen_noload ld kSvcjcinaviSo = 0 \<or> disp = None \<and> msg2 = None"
  shows "snd (SetHUDDisplayMsgReq (merge_ensure_gate ld force own1 own2) real now disp merge_init) =
      (if mg_real_set s = 0 then \<lparr>hr_called = None, hr_ret = 0\<rparr> else \<lparr>hr_called = Some disp, hr_ret = real\<rparr>) \<and>
    snd (TMC_SetHUD_Display_Msg2 (merge_ensure_gate ld force own1 own2) real buf msg2 merge_init) =
      (if mg_real_msg2 s = 0 then \<lparr>hr_called = None, hr_ret = 0\<rparr> else \<lparr>hr_called = Some msg2, hr_ret = real\<rparr>) \<and>
    mg_real_set s \<noteq> own1 \<and> mg_real_msg2 s \<noteq> own2"
proof -
  obtain p c where r1: "resolve_real_symbol ld (ascii ''VBS_NAVI_SetHUDDisplayMsgReq'')
      (Some kVbsClientSoname) (Some kVbsClientAbspath) own1 (Some 0) = (p, c)" by fastforce
  obtain p2 c2 where r2: "resolve_real_symbol ld (ascii ''VBS_NAVI_TMC_SetHUD_Display_Msg2'')
      (Some kVbsClientSoname) (Some kVbsClientAbspath) own2
      (Some (case c of Some h \<Rightarrow> h | None \<Rightarrow> 0)) = (p2, c2)" by fastforce
  have own: "\<And>n so ab own c p c'. resolve_real_symbol ld n so ab own c = (p, c') \<Longrightarrow> own \<noteq> 0 \<Longrightarrow> p \<noteq> own"
    by (auto simp: resolve_real_symbol_def Let_def split: if_splits option.splits)
  have "mg_real_set s = p" "mg_real_msg2 s = p2"
    "mg_enabled s \<longleftrightarrow> dlopen_noload ld kSvcjcinaviSo \<noteq> 0"
    unfolding assms(1) using r1 r2
    by (simp_all add: merge_ensure_gate_def merge_init_def Let_def)
  then show ?thesis
    using own [OF r1 assms(2)] own [OF r2 assms(3)] assms(4)
    by (auto simp: SetHUDDisplayMsgReq_def TMC_SetHUD_Display_Msg2_def Let_def assms(1) [symmetric])
qed

theorem merge_transparent_witness:
  "snd (SetHUDDisplayMsgReq (merge_ensure_gate \<lparr>dlsym_next = \<lambda>_. 7, dlopen_noload = \<lambda>_. 0,
     dlsym_in = \<lambda>_ _. 0\<rparr> False 5 6) 1 0 None merge_init) = \<lparr>hr_called = Some None, hr_ret = 1\<rparr>"
proof -
  let ?ld = "\<lparr>dlsym_next = \<lambda>_. 7, dlopen_noload = \<lambda>_. 0, dlsym_in = \<lambda>_ _. 0\<rparr>"
  have "mg_real_set (merge_ensure_gate ?ld False 5 6 merge_init) = 7"
    by (simp add: merge_ensure_gate_def merge_init_def resolve_real_symbol_def)
  with merge_transparent [OF refl, of 5 6 ?ld None None False 1 0 "[]"] show ?thesis by simp
qed

end
