(* ===== verification/Hud_Tx.thy ===== *)
theory Hud_Tx
  imports Vbs_Hud
begin

text \<open>
  The part the two HUD transports have in common (\<open>hud/vbs_tx.cpp\<close> and \<open>hud/svcnavi_tx.cpp\<close>
  repeat it line by line): the latest-wins snapshot the callback thread writes, the start and
  stop of the sender thread, and the sender's loop.  The output stage is the parameter of the
  step relation \<open>tx_step\<close>; \<open>Vbs_Tx\<close> and \<open>Svcnavi_Tx\<close> supply the two of the code and interpret
  the locale \<open>hud_backend\<close> on them.

  The sender's wait on its condition variable is not here: \<open>tx_step\<close> lets the sender rest
  anywhere and so covers a sleeping one, and a safety property of its reachable states holds with
  the wait.  \<open>Cv_Wait\<close> adds the wait and its notifications, refines \<open>tx_step\<close>, and says when a stop
  ends.

  A write between \<open>seqlock_begin\<close> and \<open>seqlock_end\<close> is one step here, and so is the copy the
  sender takes: \<open>Seqlock\<close> proves that an accepted copy is a committed snapshot.
  \<open>tx_commits\<close>, \<open>sd_seen\<close> and \<open>sd_shown\<close> are history variables: the number of writes so far,
  the number at the sender's last copy, and that copy.
\<close>

section \<open>Snapshot and producers\<close>

record NaviSnapshot =
  sn_road :: "u8 list"
  sn_icon :: u32
  sn_dist :: int
  sn_unit :: u8
  sn_lanes :: "u8 list"

definition blank_snapshot :: NaviSnapshot where
  "blank_snapshot =
     \<lparr>sn_road = replicate 64 0, sn_icon = 0, sn_dist = 0, sn_unit = 0, sn_lanes = replicate 8 0\<rparr>"

text \<open>What a well-formed snapshot is: arrays of their declared sizes, a terminated road name.\<close>

definition snapshot_ok :: "NaviSnapshot \<Rightarrow> bool" where
  "snapshot_ok n \<longleftrightarrow>
     length (sn_road n) = 64 \<and> 0 \<in> set (sn_road n) \<and> length (sn_lanes n) = 8"

record tx =
  tx_snap :: NaviSnapshot
  tx_seq :: u32
  tx_active :: bool
  tx_stop :: bool
  tx_up :: bool
  tx_dropped :: u32
  tx_commits :: nat

definition tx_write :: "(NaviSnapshot \<Rightarrow> NaviSnapshot) \<Rightarrow> 'a tx_scheme \<Rightarrow> 'a tx_scheme"
  where "tx_write f s =
     s\<lparr>tx_seq := tx_seq s + 1 + 1, tx_snap := f (tx_snap s), tx_commits := tx_commits s + 1\<rparr>"

definition note_inactive_drop :: "'a tx_scheme \<Rightarrow> 'a tx_scheme" where
  "note_inactive_drop s = s\<lparr>tx_dropped := tx_dropped s + 1\<rparr>"

definition tx_status :: "u32 \<Rightarrow> 'a tx_scheme \<Rightarrow> 'a tx_scheme" where
  "tx_status status s =
     (if \<not> tx_active s then note_inactive_drop s
      else if status \<noteq> 1 then tx_write (\<lambda>_. blank_snapshot) s
      else s)"

definition tx_next_turn :: "u8 list option \<Rightarrow> u32 \<Rightarrow> 'a tx_scheme \<Rightarrow> 'a tx_scheme" where
  "tx_next_turn road_name dir_icon s =
     (if \<not> tx_active s then note_inactive_drop s
      else tx_write
        (\<lambda>n. n\<lparr>sn_road := (case road_name of Some r \<Rightarrow> strncpy_z 64 r | None \<Rightarrow> (sn_road n)[0 := 0]),
              sn_icon := dir_icon\<rparr>) s)"

definition tx_distance :: "int \<Rightarrow> u8 \<Rightarrow> 'a tx_scheme \<Rightarrow> 'a tx_scheme" where
  "tx_distance dist_dec dist_unit s =
     (if \<not> tx_active s then note_inactive_drop s
      else tx_write (\<lambda>n. n\<lparr>sn_dist := dist_dec, sn_unit := dist_unit\<rparr>) s)"

definition tx_lanes :: "u8 list option \<Rightarrow> 'a tx_scheme \<Rightarrow> 'a tx_scheme" where
  "tx_lanes ls s =
     (if \<not> tx_active s then note_inactive_drop s
      else tx_write
        (\<lambda>n. n\<lparr>sn_lanes := (case ls of Some l \<Rightarrow> take 8 l | None \<Rightarrow> replicate 8 0)\<rparr>) s)"

section \<open>Start, stop and the sender thread\<close>

datatype sender_pc = SenderGone | SenderSetup | SenderLoop

record 'l sender = tx +
  sd_pc :: sender_pc
  sd_last :: u32
  sd_local :: 'l
  sd_seen :: nat
  sd_shown :: NaviSnapshot

definition tx_start :: "bool \<Rightarrow> 'l sender \<Rightarrow> 'l sender" where
  "tx_start thread_ok s =
     (if tx_up s then s
      else let s = s\<lparr>tx_stop := False, tx_active := False\<rparr> in
        if \<not> thread_ok then s else s\<lparr>tx_up := True, sd_pc := SenderSetup\<rparr>)"

definition tx_stop_request :: "'l sender \<Rightarrow> 'l sender" where
  "tx_stop_request s = (if \<not> tx_up s then s else s\<lparr>tx_stop := True\<rparr>)"

definition tx_stop_join :: "'l sender \<Rightarrow> 'l sender" where
  "tx_stop_join s = s\<lparr>tx_up := False, tx_active := False\<rparr>"

text \<open>
  \<open>sender_main\<close> up to its loop: \<open>opened\<close> is the result of \<open>sender_setup\<close> and the state it leaves,
  \<open>close\<close> is \<open>sender_teardown\<close>.
\<close>

definition sender_begin :: "('l \<Rightarrow> bool \<times> 'l) \<Rightarrow> ('l \<Rightarrow> 'l) \<Rightarrow> 'l sender \<Rightarrow> 'l sender" where
  "sender_begin connect close s =
     (let (ok, l) = connect (sd_local s) in
      if ok then
        s\<lparr>tx_active := True, sd_local := l, sd_pc := SenderLoop, sd_last := 0, sd_seen := 0,
          sd_shown := blank_snapshot\<rparr>
      else s\<lparr>sd_local := close l, sd_pc := SenderGone\<rparr>)"

definition sender_pass :: "(NaviSnapshot \<Rightarrow> 'l \<Rightarrow> 'l) \<Rightarrow> 'l sender \<Rightarrow> 'l sender" where
  "sender_pass send s =
     (if tx_seq s \<noteq> sd_last s then
        s\<lparr>sd_local := send (tx_snap s) (sd_local s), sd_last := tx_seq s,
          sd_seen := tx_commits s, sd_shown := tx_snap s\<rparr>
      else s)"

definition sender_finish :: "('l \<Rightarrow> 'l) \<Rightarrow> 'l sender \<Rightarrow> 'l sender" where
  "sender_finish close s =
     s\<lparr>tx_active := False, sd_local := close (sd_local s), sd_pc := SenderGone\<rparr>"

text \<open>
  A whole stop that ends, with what the sender still does before the join returns: \<open>connect e b1\<close>
  are the outcomes of a setup that was still running.
\<close>

definition tx_stop_wait ::
  "('e \<Rightarrow> bool \<Rightarrow> bool \<Rightarrow> 'l \<Rightarrow> bool \<times> 'l) \<Rightarrow> ('l \<Rightarrow> 'l) \<Rightarrow> 'e \<Rightarrow> bool \<Rightarrow> 'l sender \<Rightarrow> 'l sender" where
  "tx_stop_wait connect close e b1 s =
     (if \<not> tx_up s then s
      else
        let s = tx_stop_request s;
            s = (case sd_pc s of
                   SenderSetup \<Rightarrow> sender_begin (connect e b1 True) close s
                 | SenderLoop \<Rightarrow> sender_finish close s
                 | SenderGone \<Rightarrow> s) in
        tx_stop_join s)"

text \<open>
  All interleavings of the callback thread, the lifecycle thread and the sender.  \<open>connect e b1
  b2\<close> is \<open>sender_setup\<close> with the results \<open>e\<close> of the library calls and the values \<open>b1\<close>, \<open>b2\<close> of
  the two reads of \<open>g_stop\<close>; the flag only goes up while the sender runs, so \<open>b1\<close> implies its
  later value.  The flag is tested at the head of the loop only, so a pass may still follow it.  \<open>ev\<close> are the callbacks the connection's own worker thread makes.
\<close>

inductive tx_step ::
  "('e \<Rightarrow> bool \<Rightarrow> bool \<Rightarrow> 'l \<Rightarrow> bool \<times> 'l) \<Rightarrow> (NaviSnapshot \<Rightarrow> 'l \<Rightarrow> 'l) \<Rightarrow> ('l \<Rightarrow> 'l)
    \<Rightarrow> ('l \<Rightarrow> 'l \<Rightarrow> bool) \<Rightarrow> 'l sender \<Rightarrow> 'l sender \<Rightarrow> bool"
  for connect send close ev where
  start: "tx_step connect send close ev s (tx_start ok s)"
| stop_request: "tx_step connect send close ev s (tx_stop_request s)"
| stop_join: "tx_up s \<Longrightarrow> tx_stop s \<Longrightarrow> sd_pc s = SenderGone \<Longrightarrow>
    tx_step connect send close ev s (tx_stop_join s)"
| main_begin: "sd_pc s = SenderSetup \<Longrightarrow> (b1 \<longrightarrow> tx_stop s) \<Longrightarrow>
    tx_step connect send close ev s (sender_begin (connect e b1 (tx_stop s)) close s)"
| main_pass: "sd_pc s = SenderLoop \<Longrightarrow>
    tx_step connect send close ev s (sender_pass send s)"
| main_finish: "sd_pc s = SenderLoop \<Longrightarrow> tx_stop s \<Longrightarrow>
    tx_step connect send close ev s (sender_finish close s)"
| event: "ev (sd_local s) l \<Longrightarrow> tx_step connect send close ev s (s\<lparr>sd_local := l\<rparr>)"
| status: "tx_step connect send close ev s (tx_status v s)"
| next_turn: "tx_step connect send close ev s (tx_next_turn road icon s)"
| distance: "tx_step connect send close ev s (tx_distance d u s)"
| set_lanes: "(\<forall>l. ls = Some l \<longrightarrow> 8 \<le> length l) \<Longrightarrow>
    tx_step connect send close ev s (tx_lanes ls s)"

definition sender_init :: "'l \<Rightarrow> 'l sender" where
  "sender_init l =
     \<lparr>tx_snap = blank_snapshot, tx_seq = 0, tx_active = False, tx_stop = False, tx_up = False,
      tx_dropped = 0, tx_commits = 0, sd_pc = SenderGone, sd_last = 0, sd_local = l, sd_seen = 0,
      sd_shown = blank_snapshot\<rparr>"

section \<open>Invariant\<close>

lemma blank_snapshot_ok [simp]: "snapshot_ok blank_snapshot"
  by (simp add: snapshot_ok_def blank_snapshot_def)

lemma strncpy_z_terminated: "0 < cap \<Longrightarrow> 0 \<in> set (strncpy_z cap s)"
  using length_cstr_le [of s] by (auto simp: strncpy_z_def Let_def)

definition tx_ok :: "'a tx_scheme \<Rightarrow> bool" where
  "tx_ok s \<longleftrightarrow>
     snapshot_ok (tx_snap s) \<and> tx_seq s = of_nat (2 * tx_commits s) \<and>
     (tx_commits s = 0 \<longrightarrow> tx_snap s = blank_snapshot)"

lemma tx_ok_write: "tx_ok s \<Longrightarrow> snapshot_ok (f (tx_snap s)) \<Longrightarrow> tx_ok (tx_write f s)"
  by (simp add: tx_ok_def tx_write_def add.assoc)

lemma tx_ok_producers [intro]:
  assumes "tx_ok s"
  shows "tx_ok (tx_status v s)" and "tx_ok (tx_next_turn road icon s)"
    and "tx_ok (tx_distance d u s)"
    and "(\<forall>l. ls = Some l \<longrightarrow> 8 \<le> length l) \<Longrightarrow> tx_ok (tx_lanes ls s)"
proof -
  have drop: "tx_ok (note_inactive_drop s)"
    using assms by (simp add: tx_ok_def note_inactive_drop_def)
  have snap: "snapshot_ok (tx_snap s)" using assms by (simp add: tx_ok_def)
  show "tx_ok (tx_status v s)"
    using assms drop by (simp add: tx_status_def tx_ok_write)
  show "tx_ok (tx_next_turn road icon s)"
    unfolding tx_next_turn_def using assms drop snap
    by (auto intro!: tx_ok_write strncpy_z_terminated set_update_memI
        simp: snapshot_ok_def split: option.splits)
  show "tx_ok (tx_distance d u s)"
    using assms drop snap by (simp add: tx_distance_def tx_ok_write snapshot_ok_def)
  show "tx_ok (tx_lanes ls s)" if "\<forall>l. ls = Some l \<longrightarrow> 8 \<le> length l"
    unfolding tx_lanes_def using assms drop snap that
    by (auto intro!: tx_ok_write simp: snapshot_ok_def split: option.splits)
qed

text \<open>
  The producers as one relation on the sender's state: they touch the snapshot, its sequence
  number and the drop counter, nothing else.
\<close>

definition same_thread :: "'l sender \<Rightarrow> 'l sender \<Rightarrow> bool" where
  "same_thread s t \<longleftrightarrow>
     tx_active t = tx_active s \<and> tx_stop t = tx_stop s \<and> tx_up t = tx_up s \<and>
     sd_pc t = sd_pc s \<and> sd_last t = sd_last s \<and> sd_local t = sd_local s \<and>
     sd_seen t = sd_seen s \<and> sd_shown t = sd_shown s \<and> tx_commits s \<le> tx_commits t \<and>
     (tx_commits t = tx_commits s \<longrightarrow> tx_snap t = tx_snap s)"

lemma same_thread_producers [intro, simp]:
  "same_thread s (tx_status v s)" "same_thread s (tx_next_turn road icon s)"
  "same_thread s (tx_distance d u s)" "same_thread s (tx_lanes ls s)"
  by (simp_all add: same_thread_def tx_status_def tx_next_turn_def tx_distance_def tx_lanes_def
      tx_write_def note_inactive_drop_def)

definition sender_ok :: "('l \<Rightarrow> bool) \<Rightarrow> (NaviSnapshot \<Rightarrow> 'l \<Rightarrow> bool) \<Rightarrow> 'l sender \<Rightarrow> bool" where
  "sender_ok idle shown s \<longleftrightarrow>
     tx_ok s \<and> tx_active s = (sd_pc s = SenderLoop) \<and> (sd_pc s \<noteq> SenderGone \<longrightarrow> tx_up s) \<and>
     (if sd_pc s = SenderLoop then
        shown (sd_shown s) (sd_local s) \<and> snapshot_ok (sd_shown s) \<and>
        sd_last s = of_nat (2 * sd_seen s) \<and> sd_seen s \<le> tx_commits s \<and>
        (sd_seen s = tx_commits s \<longrightarrow> sd_shown s = tx_snap s)
      else idle (sd_local s))"

lemma sender_ok_same_thread:
  "same_thread s t \<Longrightarrow> tx_ok t \<Longrightarrow> sender_ok idle shown s \<Longrightarrow> sender_ok idle shown t"
  unfolding sender_ok_def same_thread_def by (cases "sd_pc s = SenderLoop") auto

text \<open>
  What an output stage promises: \<open>connect\<close> leaves a blank display behind an open connection or
  nothing, \<open>send\<close> brings the display from one snapshot to the next, \<open>close\<close> gives the
  connection back.
\<close>

locale hud_backend =
  fixes connect :: "'e \<Rightarrow> bool \<Rightarrow> bool \<Rightarrow> 'l \<Rightarrow> bool \<times> 'l"
    and send :: "NaviSnapshot \<Rightarrow> 'l \<Rightarrow> 'l"
    and close :: "'l \<Rightarrow> 'l"
    and ev :: "'l \<Rightarrow> 'l \<Rightarrow> bool"
    and idle :: "'l \<Rightarrow> bool"
    and shown :: "NaviSnapshot \<Rightarrow> 'l \<Rightarrow> bool"
    and l0 :: "'l"
  assumes idle_init: "idle l0"
    and connect_opens: "idle l \<Longrightarrow> connect e b1 b2 l = (True, l') \<Longrightarrow> shown blank_snapshot l'"
    and connect_fails: "idle l \<Longrightarrow> connect e b1 b2 l = (False, l') \<Longrightarrow> idle (close l')"
    and stop_aborts: "\<not> fst (connect e b1 True l)"
    and send_shows: "shown p l \<Longrightarrow> snapshot_ok p \<Longrightarrow> snapshot_ok n \<Longrightarrow> shown n (send n l)"
    and close_idle: "shown p l \<Longrightarrow> idle (close l)"
    and ev_shown: "ev l l' \<Longrightarrow> shown p l \<Longrightarrow> shown p l'"
    and ev_idle: "ev l l' \<Longrightarrow> idle l \<Longrightarrow> idle l'"
begin

lemma init_ok: "sender_ok idle shown (sender_init l0)"
  by (simp add: sender_ok_def sender_init_def tx_ok_def idle_init)

lemma start_ok: "sender_ok idle shown s \<Longrightarrow> sender_ok idle shown (tx_start ok s)"
  by (cases "sd_pc s"; cases "tx_up s") (simp_all add: sender_ok_def tx_start_def Let_def tx_ok_def)

lemma stop_request_ok: "sender_ok idle shown s \<Longrightarrow> sender_ok idle shown (tx_stop_request s)"
  by (cases "tx_up s") (simp_all add: sender_ok_def tx_stop_request_def tx_ok_def)

lemma stop_join_ok:
  "sender_ok idle shown s \<Longrightarrow> sd_pc s = SenderGone \<Longrightarrow> sender_ok idle shown (tx_stop_join s)"
  by (simp add: sender_ok_def tx_stop_join_def tx_ok_def)

lemma begin_ok:
  assumes "sender_ok idle shown s" and "sd_pc s = SenderSetup"
  shows "sender_ok idle shown (sender_begin (connect e b1 b2) close s)"
proof -
  obtain ok l where l: "connect e b1 b2 (sd_local s) = (ok, l)" by fastforce
  have "idle (sd_local s)" using assms by (simp add: sender_ok_def)
  with l assms show ?thesis
    by (cases ok)
      (auto simp: sender_ok_def sender_begin_def tx_ok_def dest: connect_opens connect_fails)
qed

lemma pass_ok:
  assumes "sender_ok idle shown s" and "sd_pc s = SenderLoop"
  shows "sender_ok idle shown (sender_pass send s)"
  using assms by (auto simp: sender_ok_def sender_pass_def tx_ok_def intro: send_shows)

lemma finish_ok:
  "sender_ok idle shown s \<Longrightarrow> sd_pc s = SenderLoop \<Longrightarrow> sender_ok idle shown (sender_finish close s)"
  by (auto simp: sender_ok_def sender_finish_def tx_ok_def dest: close_idle)

lemma event_ok:
  "ev (sd_local s) l \<Longrightarrow> sender_ok idle shown s \<Longrightarrow> sender_ok idle shown (s\<lparr>sd_local := l\<rparr>)"
  by (auto simp: sender_ok_def tx_ok_def intro: ev_shown ev_idle split: if_splits)

lemma step_ok:
  "tx_step connect send close ev s t \<Longrightarrow> sender_ok idle shown s \<Longrightarrow> sender_ok idle shown t"
proof (induction rule: tx_step.induct)
  case (status s v)
  then show ?case by (intro sender_ok_same_thread [OF _ tx_ok_producers(1)]) (auto simp: sender_ok_def)
next
  case (next_turn s road icon)
  then show ?case by (intro sender_ok_same_thread [OF _ tx_ok_producers(2)]) (auto simp: sender_ok_def)
next
  case (distance s d u)
  then show ?case by (intro sender_ok_same_thread [OF _ tx_ok_producers(3)]) (auto simp: sender_ok_def)
next
  case (set_lanes ls s)
  then show ?case by (intro sender_ok_same_thread [OF _ tx_ok_producers(4)]) (auto simp: sender_ok_def)
qed (auto intro: start_ok stop_request_ok stop_join_ok begin_ok pass_ok finish_ok event_ok)

lemma reachable_ok:
  "(tx_step connect send close ev)\<^sup>*\<^sup>* (sender_init l0) s \<Longrightarrow> sender_ok idle shown s"
  by (induction rule: rtranclp_induct) (auto simp: init_ok intro: step_ok)

text \<open>A pass of the loop leaves the current snapshot on the display.\<close>

lemma pass_shows_latest:
  assumes "(tx_step connect send close ev)\<^sup>*\<^sup>* (sender_init l0) s"
    and "sd_pc s = SenderLoop" and "tx_commits s - sd_seen s < 2 ^ 31"
  shows "shown (tx_snap s) (sd_local (sender_pass send s))"
proof (cases "tx_seq s = sd_last s")
  case True
  have ok: "sender_ok idle shown s" using reachable_ok [OF assms(1)] .
  then have *: "sd_seen s \<le> tx_commits s" "sd_last s = of_nat (2 * sd_seen s)"
    "tx_seq s = of_nat (2 * tx_commits s)"
    using assms(2) by (simp_all add: sender_ok_def tx_ok_def)
  have "2 * sd_seen s = 2 * tx_commits s"
    by (rule u32_counter_eq) (use * True assms(3) in simp_all)
  with * ok assms(2) True show ?thesis
    by (auto simp: sender_ok_def sender_pass_def)
next
  case False
  then show ?thesis
    using reachable_ok [OF assms(1)] assms(2)
    by (auto simp: sender_ok_def sender_pass_def tx_ok_def intro: send_shows)
qed

text \<open>The stop that ends is a run of the steps.\<close>

lemma stop_wait_reachable:
  assumes "(tx_step connect send close ev)\<^sup>*\<^sup>* (sender_init l0) s"
  shows "(tx_step connect send close ev)\<^sup>*\<^sup>* s (tx_stop_wait connect close e b1 s) \<and>
    sd_pc (tx_stop_wait connect close e b1 s) = SenderGone \<and>
    \<not> tx_up (tx_stop_wait connect close e b1 s) \<and> \<not> tx_active (tx_stop_wait connect close e b1 s)"
proof (cases "tx_up s")
  case False
  then show ?thesis using reachable_ok [OF assms]
    by (auto simp: tx_stop_wait_def sender_ok_def)
next
  case True
  define s1 where "s1 = tx_stop_request s"
  define s2 where "s2 = (case sd_pc s1 of
      SenderSetup \<Rightarrow> sender_begin (connect e b1 True) close s1
    | SenderLoop \<Rightarrow> sender_finish close s1 | SenderGone \<Rightarrow> s1)"
  have s1: "tx_stop s1" "tx_up s1" using True by (simp_all add: s1_def tx_stop_request_def)
  have a: "tx_step connect send close ev s s1" unfolding s1_def by (rule tx_step.stop_request)
  have b: "(tx_step connect send close ev)\<^sup>*\<^sup>* s1 s2"
  proof (cases "sd_pc s1")
    case SenderSetup
    then show ?thesis
      using tx_step.main_begin [of s1 b1 connect send close ev e] s1 by (auto simp: s2_def)
  next
    case SenderLoop
    then show ?thesis
      using tx_step.main_finish [of s1 connect send close ev] s1 by (simp add: s2_def r_into_rtranclp)
  qed (simp add: s2_def)
  have s2: "sd_pc s2 = SenderGone \<and> tx_stop s2 \<and> tx_up s2"
    using s1 stop_aborts [of e b1 "sd_local s1"]
    by (cases "sd_pc s1"; cases "connect e b1 True (sd_local s1)")
      (simp_all add: s2_def sender_finish_def sender_begin_def)
  have c: "tx_step connect send close ev s2 (tx_stop_join s2)"
    using s2 by (intro tx_step.stop_join) simp_all
  have "tx_stop_wait connect close e b1 s = tx_stop_join s2"
    using True unfolding tx_stop_wait_def s2_def s1_def Let_def by simp
  then show ?thesis
    using converse_rtranclp_into_rtranclp [OF a rtranclp.rtrancl_into_rtrancl [OF b c]] s2
    by (simp add: tx_stop_join_def)
qed

lemma pass_leaves_producers [simp]: "tx_snap (sender_pass send s) = tx_snap s"
  by (simp add: sender_pass_def)

lemma gone_is_idle:
  assumes "(tx_step connect send close ev)\<^sup>*\<^sup>* (sender_init l0) s" and "sd_pc s \<noteq> SenderLoop"
  shows "idle (sd_local s)" and "\<not> tx_active s"
  using reachable_ok [OF assms(1)] assms(2) by (simp_all add: sender_ok_def)

end

end
