(* ===== verification/Cv_Wait.thy ===== *)
theory Cv_Wait
  imports Hud_Tx
begin

text \<open>
  The wait at the end of the sender's loop (\<open>hud/vbs_tx.cpp\<close> and \<open>hud/svcnavi_tx.cpp\<close>,
  \<open>sender_main\<close>) and the notifications of the producers and of the stop, one atomic action at a
  time.  The two loads of the wait's predicate, the step that puts the thread to sleep, the store
  of \<open>g_stop\<close> and the \<open>notify_all\<close> after it are separate steps, because the notifiers do not take
  \<open>g_cv_mu\<close>.  The machine runs the operations of \<open>Hud_Tx\<close> and refines \<open>tx_step\<close>, so what is
  proved of the reachable states there holds of it.
\<close>

text \<open>
  Where the sender is in its loop: before the test of \<open>g_stop\<close>, before the pass, before it has the
  mutex (first time or after a wake-up), before the loads of \<open>g_stop\<close> and \<open>g_seq\<close> in the predicate,
  past a predicate that was false, and on the condition variable.
\<close>

datatype wait_pc = AtTest | AtPass | AtLock | AtPredStop | AtPredSeq | AtBlock | Asleep

datatype stop_pc = NoStop | StopStored | StopJoin

datatype actor = BySender | ByCallback | ByLifecycle | ByWorker | BySpurious

record 'l waiting =
  wt_tx :: "'l sender"
  wt_at :: wait_pc
  wt_mu :: bool
  wt_pub :: bool
  wt_stop :: stop_pc

definition wt_init :: "'l \<Rightarrow> 'l waiting" where
  "wt_init l = \<lparr>wt_tx = sender_init l, wt_at = AtTest, wt_mu = False, wt_pub = False, wt_stop = NoStop\<rparr>"

text \<open>A notification reaches the thread only when it is on the condition variable.\<close>

definition cv_notify :: "'l waiting \<Rightarrow> 'l waiting" where
  "cv_notify s = s\<lparr>wt_at := (if wt_at s = Asleep then AtLock else wt_at s)\<rparr>"

text \<open>One action of the loop; \<open>None\<close> when the thread is blocked.\<close>

definition sender_loop_step ::
  "(NaviSnapshot \<Rightarrow> 'l \<Rightarrow> 'l) \<Rightarrow> ('l \<Rightarrow> 'l) \<Rightarrow> 'l waiting \<Rightarrow> 'l waiting option" where
  "sender_loop_step send close s =
     (let x = wt_tx s in
      case wt_at s of
        AtTest \<Rightarrow>
          Some (if tx_stop x then s\<lparr>wt_tx := sender_finish close x\<rparr> else s\<lparr>wt_at := AtPass\<rparr>)
      | AtPass \<Rightarrow> Some (s\<lparr>wt_tx := sender_pass send x, wt_at := AtLock\<rparr>)
      | AtLock \<Rightarrow> if wt_mu s then None else Some (s\<lparr>wt_mu := True, wt_at := AtPredStop\<rparr>)
      | AtPredStop \<Rightarrow>
          Some (if tx_stop x then s\<lparr>wt_mu := False, wt_at := AtTest\<rparr> else s\<lparr>wt_at := AtPredSeq\<rparr>)
      | AtPredSeq \<Rightarrow>
          Some (if tx_seq x \<noteq> sd_last x then s\<lparr>wt_mu := False, wt_at := AtTest\<rparr>
                else s\<lparr>wt_at := AtBlock\<rparr>)
      | AtBlock \<Rightarrow> Some (s\<lparr>wt_mu := False, wt_at := Asleep\<rparr>)
      | Asleep \<Rightarrow> None)"

text \<open>The stop call in three steps: the store, the wake-up, the join.\<close>

definition wt_stop_store :: "'l waiting \<Rightarrow> 'l waiting" where
  "wt_stop_store s = s\<lparr>wt_tx := tx_stop_request (wt_tx s), wt_stop := StopStored\<rparr>"

definition wt_stop_notify :: "'l waiting \<Rightarrow> 'l waiting" where
  "wt_stop_notify s = (cv_notify s)\<lparr>wt_stop := StopJoin\<rparr>"

definition wt_stop_join :: "'l waiting \<Rightarrow> 'l waiting" where
  "wt_stop_join s = s\<lparr>wt_tx := tx_stop_join (wt_tx s), wt_stop := NoStop\<rparr>"

text \<open>
  A callback that is not dropped ends with one \<open>notify_one\<close>: that of \<open>seqlock_end\<close> after a write,
  that of the status callback when it writes nothing.
\<close>

inductive producer_step :: "'l sender \<Rightarrow> 'l sender \<Rightarrow> bool" where
  status: "producer_step s (tx_status v s)"
| next_turn: "producer_step s (tx_next_turn road icon s)"
| distance: "producer_step s (tx_distance d u s)"
| set_lanes: "(\<forall>l. ls = Some l \<longrightarrow> 8 \<le> length l) \<Longrightarrow> producer_step s (tx_lanes ls s)"

definition wt_publish :: "'l sender \<Rightarrow> 'l waiting \<Rightarrow> 'l waiting" where
  "wt_publish x s = s\<lparr>wt_tx := x, wt_pub := tx_active (wt_tx s)\<rparr>"

definition wt_publish_notify :: "'l waiting \<Rightarrow> 'l waiting" where
  "wt_publish_notify s = (cv_notify s)\<lparr>wt_pub := False\<rparr>"

inductive wt_step ::
  "('e \<Rightarrow> bool \<Rightarrow> bool \<Rightarrow> 'l \<Rightarrow> bool \<times> 'l) \<Rightarrow> (NaviSnapshot \<Rightarrow> 'l \<Rightarrow> 'l) \<Rightarrow> ('l \<Rightarrow> 'l)
    \<Rightarrow> ('l \<Rightarrow> 'l \<Rightarrow> bool) \<Rightarrow> actor \<Rightarrow> 'l waiting \<Rightarrow> 'l waiting \<Rightarrow> bool"
  for connect send close ev where
  start: "wt_stop s = NoStop \<Longrightarrow>
    wt_step connect send close ev ByLifecycle s (s\<lparr>wt_tx := tx_start ok (wt_tx s)\<rparr>)"
| stop_store: "wt_stop s = NoStop \<Longrightarrow> tx_up (wt_tx s) \<Longrightarrow>
    wt_step connect send close ev ByLifecycle s (wt_stop_store s)"
| stop_notify: "wt_stop s = StopStored \<Longrightarrow>
    wt_step connect send close ev ByLifecycle s (wt_stop_notify s)"
| stop_join: "wt_stop s = StopJoin \<Longrightarrow> sd_pc (wt_tx s) = SenderGone \<Longrightarrow>
    wt_step connect send close ev ByLifecycle s (wt_stop_join s)"
| main_begin: "sd_pc (wt_tx s) = SenderSetup \<Longrightarrow> (b1 \<longrightarrow> tx_stop (wt_tx s)) \<Longrightarrow>
    wt_step connect send close ev BySender s
      (s\<lparr>wt_tx := sender_begin (connect e b1 (tx_stop (wt_tx s))) close (wt_tx s)\<rparr>)"
| main_loop: "sd_pc (wt_tx s) = SenderLoop \<Longrightarrow> sender_loop_step send close s = Some t \<Longrightarrow>
    wt_step connect send close ev BySender s t"
| spurious: "wt_at s = Asleep \<Longrightarrow> wt_step connect send close ev BySpurious s (s\<lparr>wt_at := AtLock\<rparr>)"
| publish: "\<not> wt_pub s \<Longrightarrow> producer_step (wt_tx s) x \<Longrightarrow>
    wt_step connect send close ev ByCallback s (wt_publish x s)"
| publish_notify: "wt_pub s \<Longrightarrow> wt_step connect send close ev ByCallback s (wt_publish_notify s)"
| event: "ev (sd_local (wt_tx s)) l \<Longrightarrow>
    wt_step connect send close ev ByWorker s (s\<lparr>wt_tx := (wt_tx s)\<lparr>sd_local := l\<rparr>\<rparr>)"

text \<open>A run, with who made each step.\<close>

inductive wt_run ::
  "('e \<Rightarrow> bool \<Rightarrow> bool \<Rightarrow> 'l \<Rightarrow> bool \<times> 'l) \<Rightarrow> (NaviSnapshot \<Rightarrow> 'l \<Rightarrow> 'l) \<Rightarrow> ('l \<Rightarrow> 'l)
    \<Rightarrow> ('l \<Rightarrow> 'l \<Rightarrow> bool) \<Rightarrow> actor list \<Rightarrow> 'l waiting \<Rightarrow> 'l waiting \<Rightarrow> bool"
  for connect send close ev where
  nil: "wt_run connect send close ev [] s s"
| cons: "wt_step connect send close ev a s t \<Longrightarrow> wt_run connect send close ev as t u \<Longrightarrow>
    wt_run connect send close ev (a # as) s u"

lemma wt_run_append:
  "wt_run connect send close ev as s t \<Longrightarrow> wt_run connect send close ev bs t u \<Longrightarrow>
   wt_run connect send close ev (as @ bs) s u"
  by (induction rule: wt_run.induct) (auto intro: wt_run.cons)

section \<open>Refinement of the sender without the wait\<close>

definition wt_ok :: "'l waiting \<Rightarrow> bool" where
  "wt_ok s \<longleftrightarrow>
     (wt_at s \<noteq> AtTest \<longrightarrow> sd_pc (wt_tx s) = SenderLoop) \<and>
     (wt_mu s \<longleftrightarrow> wt_at s \<in> {AtPredStop, AtPredSeq, AtBlock}) \<and>
     (sd_pc (wt_tx s) \<noteq> SenderGone \<longrightarrow> tx_up (wt_tx s)) \<and>
     (if wt_stop s = NoStop then tx_up (wt_tx s) \<longrightarrow> \<not> tx_stop (wt_tx s)
      else tx_up (wt_tx s) \<and> tx_stop (wt_tx s))"

lemma producer_same_thread: "producer_step s t \<Longrightarrow> same_thread s t"
  by (induction rule: producer_step.induct) auto

lemma producer_tx_step: "producer_step s t \<Longrightarrow> tx_step connect send close ev s t"
  by (induction rule: producer_step.induct) (auto intro: tx_step.intros)

lemma wt_ok_init: "wt_ok (wt_init l)"
  by (simp add: wt_ok_def wt_init_def sender_init_def)

lemma pass_same [simp]:
  "tx_stop (sender_pass send x) = tx_stop x" "tx_up (sender_pass send x) = tx_up x"
  "sd_pc (sender_pass send x) = sd_pc x"
  by (simp_all add: sender_pass_def)

lemma finish_same [simp]:
  "tx_stop (sender_finish close x) = tx_stop x" "tx_up (sender_finish close x) = tx_up x"
  "sd_pc (sender_finish close x) = SenderGone"
  by (simp_all add: sender_finish_def)

lemma begin_same [simp]:
  "tx_stop (sender_begin c close x) = tx_stop x" "tx_up (sender_begin c close x) = tx_up x"
  "sd_pc (sender_begin c close x) = (if fst (c (sd_local x)) then SenderLoop else SenderGone)"
  by (simp_all add: sender_begin_def split: prod.splits)

lemma wt_start_same:
  "wt_ok s \<Longrightarrow> wt_stop s = NoStop \<Longrightarrow> wt_ok (s\<lparr>wt_tx := tx_start ok (wt_tx s)\<rparr>)"
  by (cases "tx_up (wt_tx s)"; cases ok) (auto simp: wt_ok_def tx_start_def Let_def)

lemma wt_loop_step_ok:
  "wt_ok s \<Longrightarrow> sd_pc (wt_tx s) = SenderLoop \<Longrightarrow> sender_loop_step send close s = Some t \<Longrightarrow> wt_ok t"
  by (cases "wt_at s")
    (auto simp: wt_ok_def sender_loop_step_def Let_def split: if_splits)

lemma wt_publish_ok: "wt_ok s \<Longrightarrow> producer_step (wt_tx s) x \<Longrightarrow> wt_ok (wt_publish x s)"
  by (drule producer_same_thread) (simp add: wt_ok_def wt_publish_def same_thread_def)

lemma wt_notify_ok: "wt_ok s \<Longrightarrow> wt_ok (cv_notify s)"
  by (cases "wt_at s") (simp_all add: wt_ok_def cv_notify_def)

lemma wt_stop_store_ok: "wt_ok s \<Longrightarrow> tx_up (wt_tx s) \<Longrightarrow> wt_ok (wt_stop_store s)"
  by (simp add: wt_ok_def wt_stop_store_def tx_stop_request_def)

lemma wt_stop_notify_ok: "wt_ok s \<Longrightarrow> wt_stop s = StopStored \<Longrightarrow> wt_ok (wt_stop_notify s)"
  using wt_notify_ok [of s] by (simp add: wt_ok_def wt_stop_notify_def cv_notify_def)

lemma wt_stop_join_ok: "wt_ok s \<Longrightarrow> sd_pc (wt_tx s) = SenderGone \<Longrightarrow> wt_ok (wt_stop_join s)"
  by (cases "wt_at s") (simp_all add: wt_ok_def wt_stop_join_def tx_stop_join_def)

lemma wt_begin_ok:
  "wt_ok s \<Longrightarrow> sd_pc (wt_tx s) = SenderSetup \<Longrightarrow>
   wt_ok (s\<lparr>wt_tx := sender_begin c close (wt_tx s)\<rparr>)"
  by (cases "wt_at s") (simp_all add: wt_ok_def)

lemma wt_ok_step: "wt_step connect send close ev a s t \<Longrightarrow> wt_ok s \<Longrightarrow> wt_ok t"
proof (induction rule: wt_step.induct)
  case (start s ok)
  then show ?case by (rule wt_start_same [rotated])
next
  case (main_loop s t)
  then show ?case using wt_loop_step_ok by blast
next
  case (publish_notify s)
  then show ?case using wt_notify_ok [of s] by (simp add: wt_ok_def wt_publish_notify_def)
next
  case (spurious s)
  then show ?case by (simp add: wt_ok_def)
next
  case (event s l)
  then show ?case by (simp add: wt_ok_def)
qed (simp_all add: wt_publish_ok wt_stop_store_ok wt_stop_notify_ok wt_stop_join_ok wt_begin_ok)

lemma loop_step_tx:
  "sd_pc (wt_tx s) = SenderLoop \<Longrightarrow> sender_loop_step send close s = Some t \<Longrightarrow>
   (tx_step connect send close ev)\<^sup>*\<^sup>* (wt_tx s) (wt_tx t)"
  by (cases "wt_at s")
    (auto simp: sender_loop_step_def Let_def split: if_splits
      intro: r_into_rtranclp [of "tx_step connect send close ev", OF tx_step.main_finish]
        r_into_rtranclp [of "tx_step connect send close ev", OF tx_step.main_pass])

text \<open>Every step is one of \<open>tx_step\<close> or changes only the wait.\<close>

lemma wt_refines:
  "wt_step connect send close ev a s t \<Longrightarrow> wt_ok s \<Longrightarrow>
   (tx_step connect send close ev)\<^sup>*\<^sup>* (wt_tx s) (wt_tx t)"
proof (induction rule: wt_step.induct)
  case (main_loop s t)
  then show ?case using loop_step_tx by blast
next
  case (publish s x)
  then show ?case
    by (auto simp: wt_publish_def intro: r_into_rtranclp producer_tx_step)
next
  case (stop_join s)
  then show ?case
    by (auto simp: wt_stop_join_def wt_ok_def intro!: r_into_rtranclp tx_step.stop_join)
next
  case (start s ok)
  then show ?case by (simp add: r_into_rtranclp tx_step.start)
next
  case (stop_store s)
  then show ?case by (simp add: wt_stop_store_def r_into_rtranclp tx_step.stop_request)
next
  case (main_begin s b1 e)
  then show ?case by (auto intro!: r_into_rtranclp tx_step.main_begin)
next
  case (event s l)
  then show ?case by (simp add: r_into_rtranclp tx_step.event)
qed (simp_all add: wt_stop_notify_def cv_notify_def wt_publish_notify_def)

lemma wt_run_refines:
  "wt_run connect send close ev as s t \<Longrightarrow> wt_ok s \<Longrightarrow>
   wt_ok t \<and> (tx_step connect send close ev)\<^sup>*\<^sup>* (wt_tx s) (wt_tx t)"
proof (induction rule: wt_run.induct)
  case (cons a s t as u)
  then show ?case
    using wt_ok_step [OF cons.hyps(1)] wt_refines [OF cons.hyps(1)] by (auto intro: rtranclp_trans)
qed simp

lemma wt_reachable:
  assumes "wt_run connect send close ev as (wt_init l) s"
  shows "wt_ok s" and "(tx_step connect send close ev)\<^sup>*\<^sup>* (sender_init l) (wt_tx s)"
  using wt_run_refines [OF assms wt_ok_init] by (simp_all add: wt_init_def)

section \<open>A stop against the wait\<close>

text \<open>
  The places from which the loop tests \<open>g_stop\<close> again before it can sleep, and how many actions it
  then still makes.
\<close>

definition will_see_stop :: "'l waiting \<Rightarrow> bool" where
  "will_see_stop s \<longleftrightarrow> wt_at s \<notin> {AtPredSeq, AtBlock, Asleep}"

definition stop_rank :: "'l waiting \<Rightarrow> nat" where
  "stop_rank s =
     (case sd_pc (wt_tx s) of
        SenderGone \<Rightarrow> 0
      | SenderSetup \<Rightarrow> 1
      | SenderLoop \<Rightarrow>
          (case wt_at s of AtTest \<Rightarrow> 1 | AtPredStop \<Rightarrow> 2 | AtLock \<Rightarrow> 3 | _ \<Rightarrow> 4))"

lemma stop_rank_le: "stop_rank s \<le> 4"
  by (simp add: stop_rank_def split: sender_pc.split wait_pc.split)

lemma stop_rank_cong:
  "sd_pc (wt_tx t) = sd_pc (wt_tx s) \<Longrightarrow> wt_at t = wt_at s \<Longrightarrow> stop_rank t = stop_rank s"
  unfolding stop_rank_def by (simp only:)

lemma loop_step_stopping:
  assumes "sender_loop_step send close s = Some t" and "sd_pc (wt_tx s) = SenderLoop"
    and "tx_stop (wt_tx s)" and "will_see_stop s"
  shows "will_see_stop t \<and> wt_stop t = wt_stop s \<and> stop_rank t < stop_rank s"
  using assms
  by (cases "wt_at s")
    (auto simp: sender_loop_step_def will_see_stop_def stop_rank_def split: if_splits)

lemma loop_step_enabled:
  "wt_ok s \<Longrightarrow> will_see_stop s \<Longrightarrow> \<exists>t. sender_loop_step send close s = Some t"
  by (cases "wt_at s") (simp_all add: wt_ok_def sender_loop_step_def will_see_stop_def Let_def)

lemma notify_will_see:
  "wt_at s \<notin> {AtPredSeq, AtBlock} \<Longrightarrow> will_see_stop (wt_stop_notify s)"
  by (simp add: will_see_stop_def wt_stop_notify_def cv_notify_def)

lemma same_thread_rank:
  "same_thread (wt_tx s) x \<Longrightarrow> stop_rank (wt_publish x s) = stop_rank s"
  by (rule stop_rank_cong) (simp_all add: wt_publish_def same_thread_def)

context hud_backend
begin

lemma stopping_step:
  assumes "wt_step connect send close ev a s t" and "a \<noteq> ByLifecycle"
    and "wt_ok s" and "wt_stop s = StopJoin" and "will_see_stop s"
  shows "wt_stop t = StopJoin \<and> will_see_stop t \<and>
    (if a = BySender then stop_rank t < stop_rank s else stop_rank t = stop_rank s)"
  using assms(1)
proof cases
  case (main_begin b1 e)
  have "\<not> fst (connect e b1 (tx_stop (wt_tx s)) (sd_local (wt_tx s)))"
    using assms(3,4) stop_aborts by (simp add: wt_ok_def)
  then show ?thesis using assms(4,5) main_begin by (simp add: stop_rank_def will_see_stop_def)
next
  case main_loop
  then show ?thesis using loop_step_stopping assms(3-5) by (fastforce simp: wt_ok_def)
next
  case spurious
  then show ?thesis using assms(5) by (simp add: will_see_stop_def)
next
  case (publish x)
  then show ?thesis
    using same_thread_rank [OF producer_same_thread [OF publish(4)]] assms(4,5)
    by (simp add: will_see_stop_def wt_publish_def)
next
  case publish_notify
  then have "wt_at t = wt_at s" "wt_tx t = wt_tx s" "wt_stop t = wt_stop s"
    using assms(5) by (simp_all add: will_see_stop_def wt_publish_notify_def cv_notify_def)
  then show ?thesis using assms(4,5) publish_notify(1) stop_rank_cong [of t s]
    by (simp add: will_see_stop_def)
next
  case (event l)
  then show ?thesis using assms(4,5) stop_rank_cong [of t s] by (simp add: will_see_stop_def)
qed (use assms(2) in simp_all)

lemma stopping_run:
  assumes "wt_run connect send close ev as s t" and "ByLifecycle \<notin> set as"
    and "wt_ok s" and "wt_stop s = StopJoin" and "will_see_stop s"
  shows "wt_stop t = StopJoin \<and> will_see_stop t \<and> count_list as BySender + stop_rank t \<le> stop_rank s"
  using assms
proof (induction rule: wt_run.induct)
  case (cons a s t as u)
  have t: "wt_stop t = StopJoin" "will_see_stop t"
    "if a = BySender then stop_rank t < stop_rank s else stop_rank t = stop_rank s"
    using stopping_step [OF cons.hyps(1)] cons.prems by auto
  moreover have "wt_ok t" using wt_ok_step [OF cons.hyps(1)] cons.prems by simp
  ultimately show ?case using cons.IH cons.prems(1) by (auto split: if_splits)
qed simp

text \<open>The join, once the thread is gone: a session over, with the connection given back.\<close>

lemma stop_joined:
  assumes "wt_run connect send close ev as (wt_init l0) t"
    and "wt_stop t = StopJoin" and "sd_pc (wt_tx t) = SenderGone"
  shows "wt_step connect send close ev ByLifecycle t (wt_stop_join t) \<and>
    \<not> tx_up (wt_tx (wt_stop_join t)) \<and> \<not> tx_active (wt_tx (wt_stop_join t)) \<and>
    idle (sd_local (wt_tx (wt_stop_join t))) \<and>
    sd_pc (tx_start True (wt_tx (wt_stop_join t))) = SenderSetup"
  using gone_is_idle [OF wt_reachable(2) [OF assms(1)]] assms(3) wt_step.stop_join [OF assms(2,3)]
  by (simp add: wt_stop_join_def tx_stop_join_def tx_start_def Let_def)

text \<open>
  A stop whose notification does not fall into the window between the load of \<open>g_stop\<close> in the
  predicate and the sleep: the sender makes at most four more actions, and until it is gone one of
  them is enabled.
\<close>

lemma stop_terminates:
  assumes "wt_run connect send close ev as0 (wt_init l0) s" and "wt_stop s = StopStored"
    and "wt_at s \<notin> {AtPredSeq, AtBlock}"
    and "wt_run connect send close ev as (wt_stop_notify s) t" and "ByLifecycle \<notin> set as"
  shows "count_list as BySender \<le> 4 \<and>
    (if sd_pc (wt_tx t) = SenderGone then
       wt_step connect send close ev ByLifecycle t (wt_stop_join t) \<and>
       \<not> tx_up (wt_tx (wt_stop_join t)) \<and> \<not> tx_active (wt_tx (wt_stop_join t)) \<and>
       idle (sd_local (wt_tx (wt_stop_join t))) \<and>
       sd_pc (tx_start True (wt_tx (wt_stop_join t))) = SenderSetup
     else \<exists>u. wt_step connect send close ev BySender t u)"
proof -
  have notify: "wt_step connect send close ev ByLifecycle s (wt_stop_notify s)"
    by (rule wt_step.stop_notify) (rule assms(2))
  note s0 = wt_reachable(1) [OF assms(1)]
  note t0 = wt_run_append [OF assms(1) wt_run.cons [OF notify assms(4)]]
  have "wt_stop (wt_stop_notify s) = StopJoin" by (simp add: wt_stop_notify_def)
  then have t: "wt_stop t = StopJoin" "will_see_stop t" "count_list as BySender \<le> 4"
    using stopping_run [OF assms(4,5) wt_ok_step [OF notify s0]] notify_will_see [OF assms(3)]
      stop_rank_le [of "wt_stop_notify s"] by auto
  have "\<exists>u. wt_step connect send close ev BySender t u" if "sd_pc (wt_tx t) \<noteq> SenderGone"
  proof (cases "sd_pc (wt_tx t)")
    case SenderSetup
    then show ?thesis using wt_step.main_begin [of t False connect send close ev] by blast
  next
    case SenderLoop
    then show ?thesis
      using loop_step_enabled [OF wt_reachable(1) [OF t0] t(2)] wt_step.main_loop by metis
  qed (use that in simp)
  then show ?thesis using t(3) stop_joined [OF t0 t(1)] by simp
qed

end

text \<open>
  A stop whose notification falls into the window: the sender has read \<open>g_stop\<close> before the store and
  has nothing new to show.  Nothing the sender, the stopping thread and the connection's worker do
  wakes it.
\<close>

definition in_window :: "'l waiting \<Rightarrow> bool" where
  "in_window s \<longleftrightarrow> wt_at s = AtBlock \<or> wt_at s = AtPredSeq \<and> tx_seq (wt_tx s) = sd_last (wt_tx s)"

lemma in_window_notify: "in_window s \<Longrightarrow> in_window (wt_stop_notify s)"
  by (auto simp: in_window_def wt_stop_notify_def cv_notify_def)

context hud_backend
begin

lemma lost_step:
  assumes "wt_step connect send close ev a s t" and "a \<in> {BySender, ByWorker, ByLifecycle}"
    and "wt_stop s = StopJoin" and "in_window s \<or> wt_at s = Asleep" and "sd_pc (wt_tx s) = SenderLoop"
  shows "wt_stop t = StopJoin \<and> (in_window t \<or> wt_at t = Asleep) \<and> sd_pc (wt_tx t) = SenderLoop"
  using assms(1)
  by cases (use assms(2-) in \<open>auto simp: in_window_def sender_loop_step_def Let_def\<close>)

lemma lost_run:
  assumes "wt_run connect send close ev as s t" and "set as \<subseteq> {BySender, ByWorker, ByLifecycle}"
    and "wt_stop s = StopJoin" and "in_window s \<or> wt_at s = Asleep" and "sd_pc (wt_tx s) = SenderLoop"
  shows "wt_stop t = StopJoin \<and> (in_window t \<or> wt_at t = Asleep) \<and> sd_pc (wt_tx t) = SenderLoop"
  using assms
proof (induction rule: wt_run.induct)
  case (cons a s t as u)
  have "a \<in> {BySender, ByWorker, ByLifecycle}" using cons.prems(1) by simp
  from lost_step [OF cons.hyps(1) this cons.prems(2-)] show ?case
    using cons.IH cons.prems(1) by simp
qed simp

lemma stop_lost:
  assumes "wt_run connect send close ev as0 (wt_init l0) s" and "in_window s"
    and "wt_run connect send close ev as (wt_stop_notify s) t"
    and "set as \<subseteq> {BySender, ByWorker, ByLifecycle}"
  shows "wt_stop t = StopJoin \<and> sd_pc (wt_tx t) = SenderLoop"
proof -
  have "sd_pc (wt_tx s) = SenderLoop"
    using wt_reachable(1) [OF assms(1)] assms(2) by (auto simp: wt_ok_def in_window_def)
  then show ?thesis
    using lost_run [OF assms(3,4)] in_window_notify [OF assms(2)]
    by (simp add: wt_stop_notify_def cv_notify_def)
qed

end

end
