(* ===== verification/Vbs_Tx.thy ===== *)
theory Vbs_Tx
  imports Cv_Wait Hud_Lane
begin

text \<open>
  The HUD transport that calls the head-up display service directly (\<open>hud/vbs_tx.cpp\<close>): the
  connection the sender thread owns, the difference of two snapshots as the calls \<open>send_one\<close>
  makes, and the clear frame of the teardown.  \<open>vl_calls\<close> records every call the thread makes;
  \<open>session_view\<close> folds those of the last session into what they add up to on the display.
  \<open>vl_missed\<close> is a history variable: a snapshot was consumed while the display was taken for
  absent.
\<close>

datatype vbs_call =
    ConnCreate
  | ConnConnect bool
  | ConnFree
  | WorkerStart
  | WorkerStop
  | ConnDisconnect
  | GetHUDStatus
  | SetHUDDisplayMsg VbsNaviHudDisplay
  | SetHUDDisplayMsg2 VbsNaviHudMsg2
  | SetRecommLane "u8 list"

definition kVbsLaneHidden :: u8 where "kVbsLaneHidden = 0xFF"

record vbs_local =
  vl_conn :: bool
  vl_prev :: NaviSnapshot
  vl_sync :: u8
  vl_absent :: bool
  vl_calls :: "vbs_call list"
  vl_missed :: bool

definition hud_status_cb :: "u8 \<Rightarrow> vbs_local \<Rightarrow> vbs_local" where
  "hud_status_cb status l = l\<lparr>vl_absent := (status = 0)\<rparr>"

definition strncmp_differs :: "nat \<Rightarrow> u8 list \<Rightarrow> u8 list \<Rightarrow> bool" where
  "strncmp_differs n a b \<longleftrightarrow> take n (cstr a) \<noteq> take n (cstr b)"

definition vbs_lane_wire :: "u8 list \<Rightarrow> u8 list" where
  "vbs_lane_wire ls =
     map (\<lambda>code. if code = OEM_LANE_NONE then kVbsLaneHidden
                 else oem_lane_glyph code OEM_LANE_TABLE_A) ls"

definition vbs_send_one ::
  "bool \<Rightarrow> NaviSnapshot \<Rightarrow> NaviSnapshot \<Rightarrow> u8 \<Rightarrow> vbs_call list \<times> u8" where
  "vbs_send_one hud_absent cur prev sync_bit =
     (if hud_absent then ([], sync_bit)
      else
        let event_changed =
              strncmp_differs 64 (sn_road cur) (sn_road prev) \<or> sn_icon cur \<noteq> sn_icon prev;
            distance_changed =
              event_changed \<or> sn_dist cur \<noteq> sn_dist prev \<or> sn_unit cur \<noteq> sn_unit prev;
            lanes_changed = sn_lanes cur \<noteq> sn_lanes prev in
        if \<not> event_changed \<and> \<not> distance_changed \<and> \<not> lanes_changed then ([], sync_bit)
        else
          let send_msg2 = event_changed \<or> lanes_changed;
              send_disp = distance_changed \<or> send_msg2;
              cur_lanes_visible = list_ex (\<lambda>c. c \<noteq> OEM_LANE_NONE) (sn_lanes cur);
              send_lanes = lanes_changed \<or> (send_msg2 \<and> cur_lanes_visible);
              sync_bit = (if send_msg2 then sync_bit mod 7 + 1 else sync_bit) in
          ((if send_disp then
              [SetHUDDisplayMsg
                 \<lparr>nextManeuverInfo = sn_icon cur, distanceValue = of_int (sn_dist cur),
                  distanceUnit = sn_unit cur, displaySpeedLimit = 0, displaySpeedUnit = 0,
                  text_ID3 = sync_bit\<rparr>]
            else []) @
           (if send_msg2 then
              [SetHUDDisplayMsg2 \<lparr>guidancePointName = Some (cstr (sn_road cur)), syncBit = sync_bit\<rparr>]
            else []) @
           (if send_lanes then [SetRecommLane (vbs_lane_wire (sn_lanes cur))] else []),
           sync_bit))"

text \<open>Results of the two library calls that can fail.\<close>

record vbs_env =
  ve_created :: bool
  ve_connected :: bool

definition vbs_call :: "vbs_call list \<Rightarrow> vbs_local \<Rightarrow> vbs_local" where
  "vbs_call cs l = l\<lparr>vl_calls := vl_calls l @ cs\<rparr>"

definition vbs_sender_setup :: "vbs_env \<Rightarrow> bool \<Rightarrow> bool \<Rightarrow> vbs_local \<Rightarrow> bool \<times> vbs_local" where
  "vbs_sender_setup e stop1 stop2 l =
     (if stop1 then (False, l)
      else if \<not> ve_created e then (False, l\<lparr>vl_conn := False\<rparr>)
      else
        let l = vbs_call [ConnCreate, ConnConnect (ve_connected e)] (l\<lparr>vl_conn := True\<rparr>) in
        if \<not> ve_connected e then (False, vbs_call [ConnFree] (l\<lparr>vl_conn := False\<rparr>))
        else
          let l = vbs_call [WorkerStart] l in
          if stop2 then (False, l) else (True, vbs_call [GetHUDStatus] l))"

definition vbs_connect :: "vbs_env \<Rightarrow> bool \<Rightarrow> bool \<Rightarrow> vbs_local \<Rightarrow> bool \<times> vbs_local" where
  "vbs_connect e stop1 stop2 l =
     (let (ok, l) = vbs_sender_setup e stop1 stop2 l in
      (ok, l\<lparr>vl_prev := blank_snapshot, vl_sync := 0, vl_missed := False\<rparr>))"

definition vbs_sender_teardown :: "vbs_local \<Rightarrow> vbs_local" where
  "vbs_sender_teardown l =
     (if \<not> vl_conn l then l
      else
        (vbs_call
           ((if \<not> vl_absent l then
               [SetHUDDisplayMsg
                  \<lparr>nextManeuverInfo = 0, distanceValue = 0, distanceUnit = 0,
                   displaySpeedLimit = 0, displaySpeedUnit = 0, text_ID3 = 0\<rparr>,
                SetRecommLane (replicate 8 kVbsLaneHidden)]
             else []) @ [WorkerStop, ConnDisconnect, ConnFree]) l)\<lparr>vl_conn := False\<rparr>)"

definition vbs_send :: "NaviSnapshot \<Rightarrow> vbs_local \<Rightarrow> vbs_local" where
  "vbs_send cur l =
     (let (cs, sync) = vbs_send_one (vl_absent l) cur (vl_prev l) (vl_sync l) in
      (vbs_call cs l)\<lparr>vl_sync := sync, vl_prev := cur, vl_missed := vl_missed l \<or> vl_absent l\<rparr>)"

definition vbs_event :: "vbs_local \<Rightarrow> vbs_local \<Rightarrow> bool" where
  "vbs_event l l' \<longleftrightarrow> l' = hud_status_cb 0 l \<or> l' = hud_status_cb 1 l"

definition vbs_local_init :: vbs_local where
  "vbs_local_init =
     \<lparr>vl_conn = False, vl_prev = blank_snapshot, vl_sync = 0, vl_absent = False, vl_calls = [],
      vl_missed = False\<rparr>"

type_synonym vbs = "vbs_local sender"

definition vbs_tx_start :: "bool \<Rightarrow> vbs \<Rightarrow> vbs" where "vbs_tx_start = tx_start"

definition vbs_tx_stop :: "vbs_env \<Rightarrow> bool \<Rightarrow> vbs \<Rightarrow> vbs" where
  "vbs_tx_stop = tx_stop_wait vbs_connect vbs_sender_teardown"

definition vbs_tx_status :: "u32 \<Rightarrow> vbs \<Rightarrow> vbs" where "vbs_tx_status = tx_status"

definition vbs_tx_next_turn :: "u8 list option \<Rightarrow> u32 \<Rightarrow> vbs \<Rightarrow> vbs" where
  "vbs_tx_next_turn = tx_next_turn"

definition vbs_tx_distance :: "int \<Rightarrow> u8 \<Rightarrow> vbs \<Rightarrow> vbs" where "vbs_tx_distance = tx_distance"

definition vbs_tx_lanes :: "u8 list option \<Rightarrow> vbs \<Rightarrow> vbs" where "vbs_tx_lanes = tx_lanes"

definition vbs_step :: "vbs \<Rightarrow> vbs \<Rightarrow> bool" where
  "vbs_step = tx_step vbs_connect vbs_send vbs_sender_teardown vbs_event"

definition vbs_init :: vbs where "vbs_init = sender_init vbs_local_init"

section \<open>What the calls add up to\<close>

record hud_view =
  hv_icon :: u32
  hv_dist :: u16
  hv_unit :: u8
  hv_disp_sync :: u8
  hv_road :: "u8 list"
  hv_sync :: u8
  hv_lanes :: "u8 list"

definition blank_view :: hud_view where
  "blank_view =
     \<lparr>hv_icon = 0, hv_dist = 0, hv_unit = 0, hv_disp_sync = 0, hv_road = [], hv_sync = 0,
      hv_lanes = replicate 8 kVbsLaneHidden\<rparr>"

fun hud_apply :: "vbs_call \<Rightarrow> hud_view \<Rightarrow> hud_view" where
  "hud_apply ConnCreate v = blank_view"
| "hud_apply (SetHUDDisplayMsg d) v =
     v\<lparr>hv_icon := nextManeuverInfo d, hv_dist := distanceValue d, hv_unit := distanceUnit d,
       hv_disp_sync := text_ID3 d\<rparr>"
| "hud_apply (SetHUDDisplayMsg2 m) v =
     v\<lparr>hv_road := (case guidancePointName m of Some r \<Rightarrow> r | None \<Rightarrow> []), hv_sync := syncBit m\<rparr>"
| "hud_apply (SetRecommLane ls) v = v\<lparr>hv_lanes := ls\<rparr>"
| "hud_apply _ v = v"

definition session_view :: "vbs_call list \<Rightarrow> hud_view" where
  "session_view cs = fold hud_apply cs blank_view"

definition view_of :: "NaviSnapshot \<Rightarrow> u8 \<Rightarrow> hud_view" where
  "view_of n sync =
     \<lparr>hv_icon = sn_icon n, hv_dist = of_int (sn_dist n), hv_unit = sn_unit n,
      hv_disp_sync = sync, hv_road = cstr (sn_road n), hv_sync = sync,
      hv_lanes = vbs_lane_wire (sn_lanes n)\<rparr>"

text \<open>A distance of 6553.6 or more is shown modulo 65536 tenths: the cast does not clamp.\<close>

lemma vbs_long_distance_wraps:
  "view_of (n\<lparr>sn_dist := d + 65536\<rparr>) s = view_of (n\<lparr>sn_dist := d\<rparr>) s"
proof -
  have "(of_int 65536 :: u16) = 0" by (simp only: word_of_int_eq_0_iff) simp
  then show ?thesis by (simp add: view_of_def)
qed

lemma session_view_append: "session_view (cs @ ds) = fold hud_apply ds (session_view cs)"
  by (simp add: session_view_def)

lemma road_differs_iff:
  "snapshot_ok a \<Longrightarrow> snapshot_ok b \<Longrightarrow>
   strncmp_differs 64 (sn_road a) (sn_road b) \<longleftrightarrow> cstr (sn_road a) \<noteq> cstr (sn_road b)"
  using length_cstr_le [of "sn_road a"] length_cstr_le [of "sn_road b"]
  by (simp add: strncmp_differs_def snapshot_ok_def)

lemma sync_next: "(s :: u8) mod 7 + 1 \<le> 7 \<and> 1 \<le> s mod 7 + 1 \<and> (s \<le> 7 \<longrightarrow> s mod 7 + 1 \<noteq> s)"
proof -
  have "s mod 7 < 7" by (simp add: word_mod_less_divisor)
  then have "unat (s mod 7) < 7" by (simp add: word_less_nat_alt)
  moreover have "unat (s mod 7) = unat s mod 7" by (simp add: unat_mod)
  ultimately have "unat (s mod 7 + 1) = unat s mod 7 + 1"
    by (subst unat_add_lem [THEN iffD1]) simp_all
  then show ?thesis
    by (simp add: word_le_nat_alt word_unat_eq_iff) presburger
qed

lemma send_one_view:
  assumes "snapshot_ok prev" and "snapshot_ok cur" and "vbs_send_one False cur prev s = (cs, s')"
  shows "fold hud_apply cs (view_of prev s) = view_of cur s'"
proof -
  note road = road_differs_iff [OF assms(2,1)]
  show ?thesis
    using assms(3) unfolding vbs_send_one_def Let_def road
    by (auto simp: view_of_def split: if_splits)
qed

lemma send_one_sync:
  assumes "vbs_send_one a cur prev s = (cs, s')" and "s \<le> 7"
  shows "s' \<le> 7"
  using assms sync_next [of s] by (auto simp: vbs_send_one_def Let_def split: if_splits)

text \<open>Connections created and not freed yet.\<close>

definition conns_open :: "vbs_call list \<Rightarrow> int" where
  "conns_open cs = int (count_list cs ConnCreate) - int (count_list cs ConnFree)"

lemma conns_open_simps [simp]:
  "conns_open [] = 0" "conns_open (cs @ ds) = conns_open cs + conns_open ds"
  by (simp_all add: conns_open_def)

lemma conns_open_Cons [simp]:
  "conns_open (c # cs) = conns_open cs +
     (if c = ConnCreate then 1 else if c = ConnFree then - 1 else 0)"
  by (simp add: conns_open_def)

lemma send_one_conns:
  "vbs_send_one a cur prev s = (cs, s') \<Longrightarrow> conns_open cs = 0"
  by (auto simp: vbs_send_one_def Let_def split: if_splits)

definition vbs_shown :: "NaviSnapshot \<Rightarrow> vbs_local \<Rightarrow> bool" where
  "vbs_shown n l \<longleftrightarrow>
     vl_conn l \<and> conns_open (vl_calls l) = 1 \<and> vl_prev l = n \<and> vl_sync l \<le> 7 \<and>
     (\<not> vl_missed l \<longrightarrow> session_view (vl_calls l) = view_of n (vl_sync l))"

text \<open>Between sessions: no connection is held, and every one opened was freed.\<close>

definition vbs_idle :: "vbs_local \<Rightarrow> bool" where
  "vbs_idle l \<longleftrightarrow> \<not> vl_conn l \<and> conns_open (vl_calls l) = 0"

lemma view_of_blank: "view_of blank_snapshot 0 = blank_view"
  by (simp add: view_of_def blank_snapshot_def blank_view_def vbs_lane_wire_def lane_codes
      cstr_def map_replicate_const)

interpretation vbs: hud_backend vbs_connect vbs_send vbs_sender_teardown vbs_event vbs_idle
  vbs_shown vbs_local_init
proof
  show "vbs_idle vbs_local_init" by (simp add: vbs_idle_def vbs_local_init_def)
next
  fix l l' and e :: vbs_env and b1 b2
  assume "vbs_idle l" and "vbs_connect e b1 b2 l = (True, l')"
  then show "vbs_shown blank_snapshot l'"
    by (auto simp: vbs_connect_def vbs_sender_setup_def vbs_call_def Let_def vbs_shown_def
        session_view_append view_of_blank vbs_idle_def split: if_splits)
next
  fix l l' and e :: vbs_env and b1 b2
  assume "vbs_idle l" and "vbs_connect e b1 b2 l = (False, l')"
  then show "vbs_idle (vbs_sender_teardown l')"
    by (auto simp: vbs_connect_def vbs_sender_setup_def vbs_call_def Let_def vbs_idle_def
        vbs_sender_teardown_def split: if_splits)
next
  fix l and e :: vbs_env and b1
  show "\<not> fst (vbs_connect e b1 True l)"
    by (simp add: vbs_connect_def vbs_sender_setup_def Let_def split: prod.splits)
next
  fix p n l
  assume l: "vbs_shown p l" and ok: "snapshot_ok p" "snapshot_ok n"
  obtain cs s where so: "vbs_send_one (vl_absent l) n (vl_prev l) (vl_sync l) = (cs, s)"
    by fastforce
  have "s \<le> 7" using send_one_sync [OF so] l by (simp add: vbs_shown_def)
  moreover have "fold hud_apply cs (view_of p (vl_sync l)) = view_of n s" if "\<not> vl_absent l"
    using send_one_view [OF ok] so that l by (simp add: vbs_shown_def)
  ultimately show "vbs_shown n (vbs_send n l)"
    using l so by (simp add: vbs_send_def vbs_shown_def vbs_call_def session_view_append
        send_one_conns [OF so])
next
  fix p l assume "vbs_shown p l"
  then show "vbs_idle (vbs_sender_teardown l)"
    by (simp add: vbs_sender_teardown_def vbs_idle_def vbs_shown_def vbs_call_def)
next
  fix p l l' assume "vbs_event l l'" and "vbs_shown p l"
  then show "vbs_shown p l'" by (auto simp: vbs_event_def vbs_shown_def hud_status_cb_def)
next
  fix l l' assume "vbs_event l l'" and "vbs_idle l"
  then show "vbs_idle l'" by (auto simp: vbs_event_def vbs_idle_def hud_status_cb_def)
qed

text \<open>
  C7.  The direct HUD transport shows the latest snapshot: in every state the threads can reach,
  when the sender makes a pass (fewer than 2^31 writes after its last copy) and the display was
  not taken for absent in this session, the calls of the session add up to exactly the current
  snapshot - icon, distance, unit, street and lanes, street and maneuver in the same sync
  generation - although unchanged parts are never sent again.
\<close>

theorem vbs_tracks_latest:
  assumes "vbs_step\<^sup>*\<^sup>* vbs_init s" and "sd_pc s = SenderLoop"
    and "tx_commits s - sd_seen s < 2 ^ 31"
    and "\<not> vl_missed (sd_local (sender_pass vbs_send s))"
  shows "session_view (vl_calls (sd_local (sender_pass vbs_send s))) =
           view_of (tx_snap s) (vl_sync (sd_local (sender_pass vbs_send s)))"
  using vbs.pass_shows_latest [of s] assms
  by (simp add: vbs_step_def vbs_init_def vbs_shown_def)

text \<open>A first session: start, connect, one maneuver, one pass.\<close>

definition vbs_live :: vbs where
  "vbs_live =
     sender_begin (vbs_connect \<lparr>ve_created = True, ve_connected = True\<rparr> False False)
       vbs_sender_teardown (vbs_tx_start True vbs_init)"

definition vbs_turn :: vbs where
  "vbs_turn = vbs_tx_next_turn (Some [77, 105]) 5 vbs_live"

lemma vbs_live_facts:
  "sd_pc vbs_live = SenderLoop" "tx_stop vbs_live = False" "tx_active vbs_live"
  "tx_commits vbs_live = 0" "tx_seq vbs_live = 0" "sd_last vbs_live = 0" "sd_seen vbs_live = 0"
  "vl_absent (sd_local vbs_live) = False" "vl_missed (sd_local vbs_live) = False"
  "tx_snap vbs_live = blank_snapshot" "tx_up vbs_live"
  by (simp_all add: vbs_live_def sender_begin_def vbs_connect_def vbs_sender_setup_def
      vbs_call_def Let_def vbs_tx_start_def tx_start_def vbs_init_def sender_init_def
      vbs_local_init_def)

lemma vbs_turn_facts:
  "sd_pc vbs_turn = SenderLoop" "tx_stop vbs_turn = False"
  "tx_commits vbs_turn = 1" "tx_seq vbs_turn = 2" "sd_last vbs_turn = 0" "sd_seen vbs_turn = 0"
  "sd_local vbs_turn = sd_local vbs_live" "sn_icon (tx_snap vbs_turn) = 5" "tx_up vbs_turn"
  by (simp_all add: vbs_turn_def vbs_tx_next_turn_def tx_next_turn_def tx_write_def vbs_live_facts)

lemma vbs_turn_reachable: "vbs_step\<^sup>*\<^sup>* vbs_init vbs_turn"
proof -
  have "vbs_step vbs_init (vbs_tx_start True vbs_init)"
    unfolding vbs_step_def vbs_tx_start_def by (rule tx_step.start)
  moreover have "vbs_step (vbs_tx_start True vbs_init) vbs_live"
    unfolding vbs_step_def vbs_live_def
    using tx_step.main_begin [of "vbs_tx_start True vbs_init" False]
    by (simp add: vbs_tx_start_def tx_start_def vbs_init_def sender_init_def Let_def)
  moreover have "vbs_step vbs_live vbs_turn"
    unfolding vbs_step_def vbs_turn_def vbs_tx_next_turn_def by (rule tx_step.next_turn)
  ultimately show ?thesis
    by (metis rtranclp.rtrancl_into_rtrancl rtranclp.rtrancl_refl)
qed

theorem vbs_tracks_latest_witness:
  "hv_icon (session_view (vl_calls (sd_local (sender_pass vbs_send vbs_turn)))) = 5"
proof -
  have "\<not> vl_missed (sd_local (sender_pass vbs_send vbs_turn))"
    by (simp add: sender_pass_def vbs_send_def vbs_turn_facts vbs_live_facts vbs_call_def
        split: prod.splits)
  with vbs_tracks_latest [of vbs_turn, OF vbs_turn_reachable] show ?thesis
    by (simp add: vbs_turn_facts view_of_def)
qed

section \<open>Sync generations\<close>

text \<open>The generation number every frame of a call list carries.\<close>

fun frame_sync :: "vbs_call \<Rightarrow> u8 option" where
  "frame_sync (SetHUDDisplayMsg d) = Some (text_ID3 d)"
| "frame_sync (SetHUDDisplayMsg2 m) = Some (syncBit m)"
| "frame_sync _ = None"

definition same_instance :: "NaviSnapshot \<Rightarrow> NaviSnapshot \<Rightarrow> bool" where
  "same_instance a b \<longleftrightarrow>
     take 64 (cstr (sn_road a)) = take 64 (cstr (sn_road b)) \<and> sn_icon a = sn_icon b \<and>
     sn_lanes a = sn_lanes b"

text \<open>
  Sync generations of the direct transport: a new generation (1 to 7, never the previous
  one) starts exactly when the street, the icon or the lanes changed; the street frame is sent
  exactly then; a change of distance or unit alone re-sends only the maneuver frame in the
  running generation; every maneuver and street frame carries the generation; and nothing is
  sent when nothing changed.
\<close>

theorem vbs_generations:
  assumes "vbs_send_one False cur prev s = (cs, s')"
  shows "(if same_instance cur prev then s' = s else s' = s mod 7 + 1 \<and> 1 \<le> s' \<and> s' \<le> 7) \<and>
    (s \<le> 7 \<and> \<not> same_instance cur prev \<longrightarrow> s' \<noteq> s) \<and>
    (\<forall>c \<in> set cs. \<forall>k. frame_sync c = Some k \<longrightarrow> k = s') \<and>
    ((\<exists>m. SetHUDDisplayMsg2 m \<in> set cs) \<longleftrightarrow> \<not> same_instance cur prev) \<and>
    (cs = [] \<longleftrightarrow>
       same_instance cur prev \<and> sn_dist cur = sn_dist prev \<and> sn_unit cur = sn_unit prev)"
  using assms sync_next [of s]
  by (auto simp: vbs_send_one_def Let_def same_instance_def strncmp_differs_def
      split: if_splits)

theorem vbs_generations_witness:
  "snd (vbs_send_one False (blank_snapshot\<lparr>sn_icon := 5\<rparr>) blank_snapshot 7) = 1"
  using vbs_generations [of "blank_snapshot\<lparr>sn_icon := 5\<rparr>" blank_snapshot 7
      "fst (vbs_send_one False (blank_snapshot\<lparr>sn_icon := 5\<rparr>) blank_snapshot 7)"
      "snd (vbs_send_one False (blank_snapshot\<lparr>sn_icon := 5\<rparr>) blank_snapshot 7)"]
  by (simp add: same_instance_def blank_snapshot_def)

section \<open>A new session\<close>

lemma vbs_pass_absent [simp]:
  "vl_missed (sd_local (sender_pass vbs_send s)) \<longleftrightarrow>
     vl_missed (sd_local s) \<or> (tx_seq s \<noteq> sd_last s \<and> vl_absent (sd_local s))"
  by (simp add: sender_pass_def vbs_send_def vbs_call_def split: prod.splits)

text \<open>The session that starts after the previous one was joined: thread, connection, loop.\<close>

definition vbs_new_session :: "vbs \<Rightarrow> vbs" where
  "vbs_new_session s =
     sender_begin (vbs_connect \<lparr>ve_created = True, ve_connected = True\<rparr> False False)
       vbs_sender_teardown (vbs_tx_start True s)"

lemma vbs_new_session_facts:
  assumes "\<not> tx_up s"
  shows "sd_pc (vbs_new_session s) = SenderLoop"
    and "tx_snap (vbs_new_session s) = tx_snap s"
    and "tx_commits (vbs_new_session s) = tx_commits s"
    and "sd_seen (vbs_new_session s) = 0"
    and "vl_missed (sd_local (vbs_new_session s)) = False"
    and "vl_absent (sd_local (vbs_new_session s)) = vl_absent (sd_local s)"
  using assms
  by (simp_all add: vbs_new_session_def sender_begin_def vbs_connect_def vbs_sender_setup_def
      vbs_call_def Let_def vbs_tx_start_def tx_start_def)

lemma vbs_new_session_reachable:
  assumes "vbs_step\<^sup>*\<^sup>* vbs_init s" and "\<not> tx_up s"
  shows "vbs_step\<^sup>*\<^sup>* vbs_init (vbs_new_session s)"
proof -
  have "vbs_step s (vbs_tx_start True s)"
    unfolding vbs_step_def vbs_tx_start_def by (rule tx_step.start)
  moreover have "vbs_step (vbs_tx_start True s) (vbs_new_session s)"
    unfolding vbs_step_def vbs_new_session_def
    using tx_step.main_begin [of "vbs_tx_start True s" False] assms(2)
    by (simp add: vbs_tx_start_def tx_start_def Let_def)
  ultimately show ?thesis using assms(1)
    by (metis rtranclp.rtrancl_into_rtrancl)
qed

text \<open>
  Neither start nor stop resets the snapshot: a session started after an earlier one ended
  shows, on its first pass and before any event of the new phone, whatever the earlier session
  left in the snapshot.
\<close>

theorem vbs_stale_snapshot:
  assumes "vbs_step\<^sup>*\<^sup>* vbs_init s" and "\<not> tx_up s" and "\<not> vl_absent (sd_local s)"
    and "tx_commits s < 2 ^ 31"
  shows "session_view (vl_calls (sd_local (sender_pass vbs_send (vbs_new_session s)))) =
    view_of (tx_snap s) (vl_sync (sd_local (sender_pass vbs_send (vbs_new_session s))))"
  using vbs.pass_shows_latest [of "vbs_new_session s"] vbs_new_session_reachable [OF assms(1,2)]
    vbs_new_session_facts [OF assms(2)] assms(3,4)
  by (simp add: vbs_step_def vbs_init_def vbs_shown_def)

text \<open>One maneuver, then stop and join before a second session.\<close>

definition vbs_ended :: vbs where
  "vbs_ended = tx_stop_join (sender_finish vbs_sender_teardown (tx_stop_request vbs_turn))"

lemma vbs_ended_reachable: "vbs_step\<^sup>*\<^sup>* vbs_init vbs_ended"
proof -
  have "vbs_step vbs_turn (tx_stop_request vbs_turn)"
    unfolding vbs_step_def by (rule tx_step.stop_request)
  moreover have "vbs_step (tx_stop_request vbs_turn)
      (sender_finish vbs_sender_teardown (tx_stop_request vbs_turn))"
    unfolding vbs_step_def
    by (rule tx_step.main_finish) (simp_all add: tx_stop_request_def vbs_turn_facts)
  moreover have "vbs_step (sender_finish vbs_sender_teardown (tx_stop_request vbs_turn)) vbs_ended"
    unfolding vbs_step_def vbs_ended_def
    by (rule tx_step.stop_join)
      (simp_all add: sender_finish_def tx_stop_request_def vbs_turn_facts)
  ultimately show ?thesis using vbs_turn_reachable
    by (metis rtranclp.rtrancl_into_rtrancl)
qed

theorem vbs_stale_snapshot_witness:
  "hv_icon (session_view (vl_calls (sd_local (sender_pass vbs_send (vbs_new_session vbs_ended))))) = 5"
proof -
  have f: "\<not> tx_up vbs_ended" "\<not> vl_absent (sd_local vbs_ended)" "tx_commits vbs_ended = 1"
    "tx_snap vbs_ended = tx_snap vbs_turn"
    by (simp_all add: vbs_ended_def tx_stop_join_def sender_finish_def tx_stop_request_def
        vbs_turn_facts vbs_sender_teardown_def vbs_call_def vbs_live_facts)
  from vbs_stale_snapshot [OF vbs_ended_reachable f(1,2)] f show ?thesis
    by (simp add: view_of_def vbs_turn_facts)
qed

section \<open>The end of a session\<close>

text \<open>
  When the direct transport winds down, from any reachable state, the callback thread is
  told to stop writing, every connection the process ever created is freed again, and - unless
  the display is absent - the last frames leave no maneuver, no distance and no lanes on it.
\<close>

theorem vbs_session_end:
  assumes "vbs_step\<^sup>*\<^sup>* vbs_init s" and "sd_pc s = SenderLoop" and "tx_stop s"
  shows "let t = sender_finish vbs_sender_teardown s; v = session_view (vl_calls (sd_local t)) in
    \<not> tx_active t \<and> sd_pc t = SenderGone \<and> \<not> vl_conn (sd_local t) \<and>
    conns_open (vl_calls (sd_local t)) = 0 \<and>
    (\<not> vl_absent (sd_local s) \<longrightarrow>
       hv_icon v = 0 \<and> hv_dist v = 0 \<and> hv_lanes v = replicate 8 0xFF)"
proof -
  have "sender_ok vbs_idle vbs_shown s"
    using vbs.reachable_ok assms(1) by (simp add: vbs_step_def vbs_init_def)
  then have "vl_conn (sd_local s)" "conns_open (vl_calls (sd_local s)) = 1"
    using assms(2) by (simp_all add: sender_ok_def vbs_shown_def)
  then show ?thesis
    by (simp add: sender_finish_def vbs_sender_teardown_def vbs_call_def session_view_append
        kVbsLaneHidden_def)
qed

theorem vbs_session_end_witness:
  "conns_open (vl_calls (sd_local (sender_finish vbs_sender_teardown (tx_stop_request vbs_turn)))) = 0"
proof -
  have "vbs_step vbs_turn (tx_stop_request vbs_turn)"
    unfolding vbs_step_def by (rule tx_step.stop_request)
  then have "vbs_step\<^sup>*\<^sup>* vbs_init (tx_stop_request vbs_turn)"
    using vbs_turn_reachable by (metis rtranclp.rtrancl_into_rtrancl)
  then show ?thesis
    using vbs_session_end [of "tx_stop_request vbs_turn"]
    by (simp add: tx_stop_request_def vbs_turn_facts Let_def)
qed

end
