(* ===== verification/Svcnavi_Tx.thy ===== *)
theory Svcnavi_Tx
  imports Cv_Wait
begin

text \<open>
  The HUD transport that impersonates the navigation engine (\<open>hud/svcnavi_tx.cpp\<close>): every fresh
  snapshot becomes one \<open>GuidanceChangedForHUD\<close> signal, marked by the reserved speed limit, and
  the teardown emits a blank one.  \<open>sv_env\<close> gives the results of libdbus for each emission in
  turn (\<open>sv_n\<close> counts them); \<open>sv_calls\<close> records what reached the bus and \<open>sv_lost\<close>, a history
  variable, whether an emission of this session failed.
\<close>

record guidance =
  gd_dir :: int
  gd_dist :: int
  gd_unit :: int
  gd_street :: "u8 list"
  gd_speed :: int
  gd_speed_unit :: int
  gd_lanes :: "int list"

datatype svc_call =
    OpenPrivate
  | BusRegister bool
  | CloseUnref
  | Guidance guidance

record signal_env =
  se_msg :: bool
  se_append :: "nat \<Rightarrow> bool"
  se_sent :: bool

definition emit_guidance ::
  "signal_env \<Rightarrow> u32 \<Rightarrow> int \<Rightarrow> int \<Rightarrow> u8 list option \<Rightarrow> u8 list option \<Rightarrow> guidance option" where
  "emit_guidance e dir_icon maneuver_dist dist_unit street ls =
     (if \<not> se_msg e then None
      else if \<not> list_all (se_append e) [0..<14] then None
      else if \<not> se_sent e then None
      else Some
        \<lparr>gd_dir = sint dir_icon, gd_dist = maneuver_dist, gd_unit = dist_unit,
         gd_street = (case street of Some s \<Rightarrow> cstr s | None \<Rightarrow> []),
         gd_speed = uint kAapSpeedSentinel, gd_speed_unit = 0,
         gd_lanes = map (\<lambda>i. case ls of Some l \<Rightarrow> uint (l ! i) | None \<Rightarrow> 0) [0..<8]\<rparr>)"

record svc_local =
  sv_conn :: bool
  sv_env :: "nat \<Rightarrow> signal_env"
  sv_n :: nat
  sv_calls :: "svc_call list"
  sv_lost :: bool

definition svc_emit :: "(signal_env \<Rightarrow> guidance option) \<Rightarrow> svc_local \<Rightarrow> svc_local" where
  "svc_emit f l =
     (case f (sv_env l (sv_n l)) of
        Some g \<Rightarrow> l\<lparr>sv_n := sv_n l + 1, sv_calls := sv_calls l @ [Guidance g]\<rparr>
      | None \<Rightarrow> l\<lparr>sv_n := sv_n l + 1, sv_lost := True\<rparr>)"

definition svc_send_one :: "NaviSnapshot \<Rightarrow> svc_local \<Rightarrow> svc_local" where
  "svc_send_one cur =
     svc_emit (\<lambda>e. emit_guidance e (sn_icon cur) (sn_dist cur) (uint (sn_unit cur))
       (Some (sn_road cur)) (Some (sn_lanes cur)))"

text \<open>Results of the two library calls that can fail while connecting.\<close>

record svc_env =
  sc_opened :: bool
  sc_registered :: bool

definition svc_sender_setup :: "svc_env \<Rightarrow> bool \<Rightarrow> bool \<Rightarrow> svc_local \<Rightarrow> bool \<times> svc_local" where
  "svc_sender_setup e stop1 stop2 l =
     (if stop1 then (False, l)
      else if \<not> sc_opened e then (False, l\<lparr>sv_conn := False\<rparr>)
      else
        let l = l\<lparr>sv_conn := True, sv_calls := sv_calls l @ [OpenPrivate, BusRegister (sc_registered e)],
                  sv_lost := False\<rparr> in
        if \<not> sc_registered e then
          (False, l\<lparr>sv_conn := False, sv_calls := sv_calls l @ [CloseUnref]\<rparr>)
        else (\<not> stop2, l))"

definition svc_sender_teardown :: "svc_local \<Rightarrow> svc_local" where
  "svc_sender_teardown l =
     (if \<not> sv_conn l then l
      else
        let l = svc_emit (\<lambda>e. emit_guidance e 0 0 0 (Some []) None) l in
        l\<lparr>sv_conn := False, sv_calls := sv_calls l @ [CloseUnref]\<rparr>)"

definition svc_local_init :: "(nat \<Rightarrow> signal_env) \<Rightarrow> svc_local" where
  "svc_local_init env =
     \<lparr>sv_conn = False, sv_env = env, sv_n = 0, sv_calls = [], sv_lost = False\<rparr>"

type_synonym svc = "svc_local sender"

definition svcnavi_tx_start :: "bool \<Rightarrow> svc \<Rightarrow> svc" where "svcnavi_tx_start = tx_start"

definition svcnavi_tx_stop :: "svc_env \<Rightarrow> bool \<Rightarrow> svc \<Rightarrow> svc" where
  "svcnavi_tx_stop = tx_stop_wait svc_sender_setup svc_sender_teardown"

definition svcnavi_tx_status :: "u32 \<Rightarrow> svc \<Rightarrow> svc" where "svcnavi_tx_status = tx_status"

definition svcnavi_tx_next_turn :: "u8 list option \<Rightarrow> u32 \<Rightarrow> svc \<Rightarrow> svc" where
  "svcnavi_tx_next_turn = tx_next_turn"

definition svcnavi_tx_distance :: "int \<Rightarrow> u8 \<Rightarrow> svc \<Rightarrow> svc" where
  "svcnavi_tx_distance = tx_distance"

definition svcnavi_tx_lanes :: "u8 list option \<Rightarrow> svc \<Rightarrow> svc" where
  "svcnavi_tx_lanes = tx_lanes"

definition svc_step :: "svc \<Rightarrow> svc \<Rightarrow> bool" where
  "svc_step = tx_step svc_sender_setup svc_send_one svc_sender_teardown (\<lambda>_ _. False)"

definition svc_init :: "(nat \<Rightarrow> signal_env) \<Rightarrow> svc" where
  "svc_init env = sender_init (svc_local_init env)"

section \<open>What reached the navigation service\<close>

definition signal_of :: "NaviSnapshot \<Rightarrow> guidance" where
  "signal_of n =
     \<lparr>gd_dir = sint (sn_icon n), gd_dist = sn_dist n, gd_unit = uint (sn_unit n),
      gd_street = cstr (sn_road n), gd_speed = 65535, gd_speed_unit = 0,
      gd_lanes = map uint (sn_lanes n)\<rparr>"

fun svc_apply :: "svc_call \<Rightarrow> guidance \<Rightarrow> guidance" where
  "svc_apply OpenPrivate g = signal_of blank_snapshot"
| "svc_apply (Guidance g) _ = g"
| "svc_apply _ g = g"

text \<open>The guidance in force: the last signal of the session, blank before the first.\<close>

definition session_guidance :: "svc_call list \<Rightarrow> guidance" where
  "session_guidance cs = fold svc_apply cs (signal_of blank_snapshot)"

definition svc_conns :: "svc_call list \<Rightarrow> int" where
  "svc_conns cs = int (count_list cs OpenPrivate) - int (count_list cs CloseUnref)"

definition svc_idle :: "svc_local \<Rightarrow> bool" where
  "svc_idle l \<longleftrightarrow> \<not> sv_conn l \<and> svc_conns (sv_calls l) = 0"

definition svc_shown :: "NaviSnapshot \<Rightarrow> svc_local \<Rightarrow> bool" where
  "svc_shown n l \<longleftrightarrow>
     sv_conn l \<and> svc_conns (sv_calls l) = 1 \<and>
     (\<not> sv_lost l \<longrightarrow> session_guidance (sv_calls l) = signal_of n)"

lemma session_guidance_append [simp]:
  "session_guidance (cs @ ds) = fold svc_apply ds (session_guidance cs)"
  by (simp add: session_guidance_def)

lemma svc_conns_append [simp]: "svc_conns (cs @ ds) = svc_conns cs + svc_conns ds"
  by (simp add: svc_conns_def)

lemma svc_conns_simps [simp]:
  "svc_conns [] = 0"
  "svc_conns (c # cs) =
     svc_conns cs + (if c = OpenPrivate then 1 else if c = CloseUnref then - 1 else 0)"
  by (simp_all add: svc_conns_def)

lemma emit_guidance_snapshot:
  assumes "snapshot_ok n"
    and "emit_guidance e (sn_icon n) (sn_dist n) (uint (sn_unit n)) (Some (sn_road n))
           (Some (sn_lanes n)) = Some g"
  shows "g = signal_of n"
proof -
  have "map (\<lambda>i. uint (sn_lanes n ! i)) [0..<8] = map uint (map ((!) (sn_lanes n)) [0..<8])"
    by simp
  also have "map ((!) (sn_lanes n)) [0..<8] = sn_lanes n"
    using assms(1) map_nth [of "sn_lanes n"] by (simp add: snapshot_ok_def)
  finally show ?thesis
    using assms(2)
    by (simp add: emit_guidance_def signal_of_def kAapSpeedSentinel_def split: if_splits)
qed

lemma emit_guidance_blank:
  "emit_guidance e 0 0 0 (Some []) None = Some g \<Longrightarrow> g = signal_of blank_snapshot"
  by (simp add: emit_guidance_def signal_of_def blank_snapshot_def kAapSpeedSentinel_def
      cstr_def map_replicate_const split: if_splits)

interpretation svc: hud_backend svc_sender_setup svc_send_one svc_sender_teardown "\<lambda>_ _. False"
  svc_idle svc_shown "svc_local_init env" for env
proof
  show "svc_idle (svc_local_init env)" by (simp add: svc_idle_def svc_local_init_def)
next
  fix l l' and e :: svc_env and b1 b2
  assume "svc_idle l" and "svc_sender_setup e b1 b2 l = (True, l')"
  then show "svc_shown blank_snapshot l'"
    by (auto simp: svc_sender_setup_def Let_def svc_shown_def svc_idle_def split: if_splits)
next
  fix l l' and e :: svc_env and b1 b2
  assume "svc_idle l" and "svc_sender_setup e b1 b2 l = (False, l')"
  then show "svc_idle (svc_sender_teardown l')"
    by (auto simp: svc_sender_setup_def Let_def svc_idle_def svc_sender_teardown_def svc_emit_def
        split: if_splits option.splits)
next
  fix l and e :: svc_env and b1
  show "\<not> fst (svc_sender_setup e b1 True l)"
    by (simp add: svc_sender_setup_def Let_def)
next
  fix p n l
  assume "svc_shown p l" and "snapshot_ok n"
  then show "svc_shown n (svc_send_one n l)"
    by (auto simp: svc_send_one_def svc_emit_def svc_shown_def dest: emit_guidance_snapshot
        split: option.splits)
next
  fix p l assume "svc_shown p l"
  then show "svc_idle (svc_sender_teardown l)"
    by (auto simp: svc_sender_teardown_def svc_idle_def svc_shown_def svc_emit_def Let_def
        split: option.splits)
qed simp_all

text \<open>A run of the bus: every emission succeeds.\<close>

definition svc_all_ok :: "nat \<Rightarrow> signal_env" where
  "svc_all_ok = (\<lambda>_. \<lparr>se_msg = True, se_append = \<lambda>_. True, se_sent = True\<rparr>)"

text \<open>
  C8.  The navigation-service transport shows the latest snapshot: from every state the threads
  can reach, when the sender makes a pass (fewer than 2^31 writes after its last copy) and no
  emission of the session failed, the guidance in force is exactly the current snapshot, marked
  with the reserved speed limit; and a fresh snapshot always costs exactly one signal, also when
  its content did not change.
\<close>

theorem svc_tracks_latest:
  assumes "svc_step\<^sup>*\<^sup>* (svc_init env) s" and "sd_pc s = SenderLoop"
    and "tx_commits s - sd_seen s < 2 ^ 31"
    and "\<not> sv_lost (sd_local (sender_pass svc_send_one s))"
  shows "session_guidance (sv_calls (sd_local (sender_pass svc_send_one s))) = signal_of (tx_snap s) \<and>
    (tx_seq s \<noteq> sd_last s \<longrightarrow>
       sv_calls (sd_local (sender_pass svc_send_one s)) =
         sv_calls (sd_local s) @ [Guidance (signal_of (tx_snap s))])"
proof -
  have ok: "sender_ok svc_idle svc_shown s"
    using svc.reachable_ok assms(1) by (simp add: svc_step_def svc_init_def)
  have "svc_shown (tx_snap s) (sd_local (sender_pass svc_send_one s))"
    using svc.pass_shows_latest assms(1-3) by (simp add: svc_step_def svc_init_def)
  moreover have "snapshot_ok (tx_snap s)" using ok by (simp add: sender_ok_def tx_ok_def)
  ultimately show ?thesis
    using assms(4)
    by (cases "tx_seq s = sd_last s")
      (auto simp: svc_shown_def sender_pass_def svc_send_one_def svc_emit_def
        dest: emit_guidance_snapshot split: option.splits)
qed

definition svc_live :: svc where
  "svc_live =
     sender_begin (svc_sender_setup \<lparr>sc_opened = True, sc_registered = True\<rparr> False False)
       svc_sender_teardown (svcnavi_tx_start True (svc_init svc_all_ok))"

definition svc_turn :: svc where
  "svc_turn = svcnavi_tx_next_turn (Some [77, 105]) 5 svc_live"

lemma svc_live_facts:
  "sd_pc svc_live = SenderLoop" "tx_active svc_live" "tx_commits svc_live = 0"
  "tx_seq svc_live = 0" "sd_last svc_live = 0" "sd_seen svc_live = 0"
  "sv_env (sd_local svc_live) = svc_all_ok" "sv_lost (sd_local svc_live) = False"
  "tx_snap svc_live = blank_snapshot" "tx_stop svc_live = False" "tx_up svc_live"
  by (simp_all add: svc_live_def sender_begin_def svc_sender_setup_def Let_def
      svcnavi_tx_start_def tx_start_def svc_init_def sender_init_def svc_local_init_def)

lemma svc_turn_facts:
  "sd_pc svc_turn = SenderLoop" "tx_commits svc_turn = 1" "tx_seq svc_turn = 2"
  "sd_last svc_turn = 0" "sd_seen svc_turn = 0" "sd_local svc_turn = sd_local svc_live"
  "sn_icon (tx_snap svc_turn) = 5" "tx_stop svc_turn = False" "tx_up svc_turn"
  by (simp_all add: svc_turn_def svcnavi_tx_next_turn_def tx_next_turn_def tx_write_def
      svc_live_facts)

lemma svc_turn_reachable: "svc_step\<^sup>*\<^sup>* (svc_init svc_all_ok) svc_turn"
proof -
  let ?s1 = "svcnavi_tx_start True (svc_init svc_all_ok)"
  have "svc_step (svc_init svc_all_ok) ?s1"
    unfolding svc_step_def svcnavi_tx_start_def by (rule tx_step.start)
  moreover have "svc_step ?s1 svc_live"
    unfolding svc_step_def svc_live_def
    using tx_step.main_begin [of ?s1 False]
    by (simp add: svcnavi_tx_start_def tx_start_def svc_init_def sender_init_def Let_def)
  moreover have "svc_step svc_live svc_turn"
    unfolding svc_step_def svc_turn_def svcnavi_tx_next_turn_def by (rule tx_step.next_turn)
  ultimately show ?thesis
    by (metis rtranclp.rtrancl_into_rtrancl rtranclp.rtrancl_refl)
qed

theorem svc_tracks_latest_witness:
  "gd_dir (session_guidance (sv_calls (sd_local (sender_pass svc_send_one svc_turn)))) = 5"
proof -
  have "\<not> sv_lost (sd_local (sender_pass svc_send_one svc_turn))"
    by (simp add: sender_pass_def svc_turn_facts svc_send_one_def svc_emit_def svc_live_facts
        svc_all_ok_def emit_guidance_def list_all_iff)
  with svc_tracks_latest [OF svc_turn_reachable] show ?thesis
    by (simp add: svc_turn_facts signal_of_def)
qed

text \<open>
  When the navigation-service transport winds down, from any reachable state, every
  connection it ever opened is closed again, and the last signal it sends is the blank one
  unless libdbus failed to send it.
\<close>

theorem svc_session_end:
  assumes "svc_step\<^sup>*\<^sup>* (svc_init env) s" and "sd_pc s = SenderLoop" and "tx_stop s"
  shows "let t = sender_finish svc_sender_teardown s in
    \<not> tx_active t \<and> \<not> sv_conn (sd_local t) \<and> svc_conns (sv_calls (sd_local t)) = 0 \<and>
    (\<not> sv_lost (sd_local t) \<longrightarrow>
       session_guidance (sv_calls (sd_local t)) = signal_of blank_snapshot)"
proof -
  have "sender_ok svc_idle svc_shown s"
    using svc.reachable_ok assms(1) by (simp add: svc_step_def svc_init_def)
  then have "sv_conn (sd_local s)" "svc_conns (sv_calls (sd_local s)) = 1"
    using assms(2) by (simp_all add: sender_ok_def svc_shown_def)
  then show ?thesis
    by (auto simp: sender_finish_def svc_sender_teardown_def svc_emit_def Let_def
        dest: emit_guidance_blank split: option.splits)
qed

theorem svc_session_end_witness:
  "svc_conns (sv_calls (sd_local (sender_finish svc_sender_teardown (tx_stop_request svc_turn)))) = 0"
proof -
  have "svc_step svc_turn (tx_stop_request svc_turn)"
    unfolding svc_step_def by (rule tx_step.stop_request)
  then have "svc_step\<^sup>*\<^sup>* (svc_init svc_all_ok) (tx_stop_request svc_turn)"
    using svc_turn_reachable by (metis rtranclp.rtrancl_into_rtrancl)
  then show ?thesis
    using svc_session_end [of svc_all_ok "tx_stop_request svc_turn"]
    by (simp add: tx_stop_request_def svc_turn_facts Let_def)
qed

end
