(* ===== verification/Tx_Stop.thy ===== *)
theory Tx_Stop
  imports Cv_Wait Vbs_Tx Svcnavi_Tx
begin

text \<open>
  The stop of the two HUD transports against the sender's wait: \<open>Cv_Wait\<close> with the output stages
  of \<open>Vbs_Tx\<close> and \<open>Svcnavi_Tx\<close>.  A stop ends, unless its \<open>notify_all\<close> comes after the wait has
  read \<open>g_stop\<close> and before the thread sleeps; then the thread sleeps through it.
\<close>

definition vbs_wt_step :: "actor \<Rightarrow> vbs_local waiting \<Rightarrow> vbs_local waiting \<Rightarrow> bool" where
  "vbs_wt_step = wt_step vbs_connect vbs_send vbs_sender_teardown vbs_event"

definition vbs_wt_run :: "actor list \<Rightarrow> vbs_local waiting \<Rightarrow> vbs_local waiting \<Rightarrow> bool" where
  "vbs_wt_run = wt_run vbs_connect vbs_send vbs_sender_teardown vbs_event"

definition vbs_wt_init :: "vbs_local waiting" where "vbs_wt_init = wt_init vbs_local_init"

definition svc_wt_step :: "actor \<Rightarrow> svc_local waiting \<Rightarrow> svc_local waiting \<Rightarrow> bool" where
  "svc_wt_step = wt_step svc_sender_setup svc_send_one svc_sender_teardown (\<lambda>_ _. False)"

definition svc_wt_run :: "actor list \<Rightarrow> svc_local waiting \<Rightarrow> svc_local waiting \<Rightarrow> bool" where
  "svc_wt_run = wt_run svc_sender_setup svc_send_one svc_sender_teardown (\<lambda>_ _. False)"

lemmas vbs_wt_defs = vbs_wt_step_def vbs_wt_run_def vbs_wt_init_def

lemma vbs_wt_safe: "vbs_wt_run as vbs_wt_init s \<Longrightarrow> vbs_step\<^sup>*\<^sup>* vbs_init (wt_tx s)"
  using wt_reachable(2) [of vbs_connect vbs_send vbs_sender_teardown vbs_event as vbs_local_init s]
  by (simp add: vbs_wt_defs vbs_step_def vbs_init_def)

section \<open>Runs that put the sender to sleep\<close>

text \<open>A live session with nothing to show, up to the two loads of the wait's predicate.\<close>

definition vbs_wt_live :: "wait_pc \<Rightarrow> bool \<Rightarrow> vbs_local waiting" where
  "vbs_wt_live pc mu =
     \<lparr>wt_tx = vbs_live, wt_at = pc, wt_mu = mu, wt_pub = False, wt_stop = NoStop\<rparr>"

lemma vbs_live_pass: "sender_pass vbs_send vbs_live = vbs_live"
  by (simp add: sender_pass_def vbs_live_facts)

lemma vbs_wt_one: "vbs_wt_step a s t \<Longrightarrow> vbs_wt_run as r s \<Longrightarrow> vbs_wt_run (as @ [a]) r t"
  unfolding vbs_wt_defs by (erule wt_run_append) (blast intro: wt_run.intros)

lemma vbs_wt_loop:
  "sd_pc (wt_tx s) = SenderLoop \<Longrightarrow>
   sender_loop_step vbs_send vbs_sender_teardown s = Some t \<Longrightarrow> vbs_wt_step BySender s t"
  unfolding vbs_wt_defs by (rule wt_step.main_loop)

lemma vbs_wt_live_block:
  "\<exists>as. vbs_wt_run as vbs_wt_init (vbs_wt_live AtBlock True)"
proof -
  let ?a = "vbs_wt_init\<lparr>wt_tx := vbs_tx_start True vbs_init\<rparr>"
  have "vbs_wt_run [] vbs_wt_init vbs_wt_init" unfolding vbs_wt_defs by (rule wt_run.nil)
  moreover have "vbs_wt_step ByLifecycle vbs_wt_init ?a"
    using wt_step.start [of vbs_wt_init vbs_connect vbs_send vbs_sender_teardown vbs_event True]
    by (simp add: vbs_wt_defs wt_init_def vbs_tx_start_def vbs_init_def)
  moreover have "vbs_wt_step BySender ?a (vbs_wt_live AtTest False)"
    using wt_step.main_begin [of ?a False vbs_connect vbs_send vbs_sender_teardown vbs_event
        "\<lparr>ve_created = True, ve_connected = True\<rparr>"]
    by (simp add: vbs_wt_defs wt_init_def vbs_wt_live_def vbs_live_def vbs_tx_start_def tx_start_def
        vbs_init_def sender_init_def Let_def)
  moreover have "vbs_wt_step BySender (vbs_wt_live AtTest False) (vbs_wt_live AtPass False)"
    "vbs_wt_step BySender (vbs_wt_live AtPass False) (vbs_wt_live AtLock False)"
    "vbs_wt_step BySender (vbs_wt_live AtLock False) (vbs_wt_live AtPredStop True)"
    "vbs_wt_step BySender (vbs_wt_live AtPredStop True) (vbs_wt_live AtPredSeq True)"
    "vbs_wt_step BySender (vbs_wt_live AtPredSeq True) (vbs_wt_live AtBlock True)"
    by (rule vbs_wt_loop;
        simp add: vbs_wt_live_def sender_loop_step_def vbs_live_facts vbs_live_pass)+
  ultimately show ?thesis using vbs_wt_one by meson
qed

text \<open>The stop stored while the sender sleeps, and just before it does.\<close>

lemma vbs_wt_live_store:
  "vbs_wt_step ByLifecycle (vbs_wt_live pc mu) (wt_stop_store (vbs_wt_live pc mu))"
  unfolding vbs_wt_step_def
  by (rule wt_step.stop_store) (simp_all add: vbs_wt_live_def vbs_live_facts)

lemma vbs_wt_asleep_stored:
  "\<exists>as. vbs_wt_run as vbs_wt_init (wt_stop_store (vbs_wt_live Asleep False))"
proof -
  have "vbs_wt_step BySender (vbs_wt_live AtBlock True) (vbs_wt_live Asleep False)"
    by (rule vbs_wt_loop) (simp_all add: vbs_wt_live_def sender_loop_step_def vbs_live_facts)
  with vbs_wt_live_block vbs_wt_live_store vbs_wt_one show ?thesis by meson
qed

lemma vbs_wt_block_stored:
  "\<exists>as. vbs_wt_run as vbs_wt_init (wt_stop_store (vbs_wt_live AtBlock True))"
  using vbs_wt_live_block vbs_wt_live_store vbs_wt_one by meson

section \<open>Properties\<close>

text \<open>
  C36.  The stop of the direct transport against the sender's wait, in every reachable state in
  which \<open>g_stop\<close> is stored and \<open>notify_all\<close> comes next.  When the wait has not read \<open>g_stop\<close> yet,
  or sleeps already, every run that follows, whatever the callback thread and the connection do,
  holds at most four more actions of the sender, the sender is never blocked, and once it is gone
  the join leaves no open connection and a transport that can be started again.  When the
  notification falls into the window of the wait - it has read \<open>g_stop\<close> and does not sleep yet, and
  there is nothing new to show - the wake-up is lost: without a later callback or a spurious
  wake-up the thread never ends and the join never returns.
\<close>

theorem vbs_stop_completes:
  assumes "vbs_wt_run as0 vbs_wt_init s" and "wt_stop s = StopStored"
  shows "(wt_at s \<notin> {AtPredSeq, AtBlock} \<longrightarrow>
      (\<forall>as t. vbs_wt_run as (wt_stop_notify s) t \<and> ByLifecycle \<notin> set as \<longrightarrow>
         count_list as BySender \<le> 4 \<and>
         (if sd_pc (wt_tx t) = SenderGone then
            vbs_wt_step ByLifecycle t (wt_stop_join t) \<and>
            \<not> tx_up (wt_tx (wt_stop_join t)) \<and> \<not> tx_active (wt_tx (wt_stop_join t)) \<and>
            conns_open (vl_calls (sd_local (wt_tx (wt_stop_join t)))) = 0 \<and>
            sd_pc (vbs_tx_start True (wt_tx (wt_stop_join t))) = SenderSetup
          else \<exists>u. vbs_wt_step BySender t u))) \<and>
    (in_window s \<longrightarrow>
      (\<forall>as t. vbs_wt_run as (wt_stop_notify s) t \<and> set as \<subseteq> {BySender, ByWorker, ByLifecycle} \<longrightarrow>
         sd_pc (wt_tx t) = SenderLoop \<and> wt_stop t = StopJoin))"
proof -
  note r = assms(1) [unfolded vbs_wt_defs]
  have "count_list as BySender \<le> 4 \<and>
      (if sd_pc (wt_tx t) = SenderGone then
         vbs_wt_step ByLifecycle t (wt_stop_join t) \<and>
         \<not> tx_up (wt_tx (wt_stop_join t)) \<and> \<not> tx_active (wt_tx (wt_stop_join t)) \<and>
         conns_open (vl_calls (sd_local (wt_tx (wt_stop_join t)))) = 0 \<and>
         sd_pc (vbs_tx_start True (wt_tx (wt_stop_join t))) = SenderSetup
       else \<exists>u. vbs_wt_step BySender t u)"
    if at: "wt_at s \<notin> {AtPredSeq, AtBlock}"
      and t: "vbs_wt_run as (wt_stop_notify s) t" "ByLifecycle \<notin> set as" for as t
    using vbs.stop_terminates [OF r assms(2) at t(1) [unfolded vbs_wt_defs] t(2)]
    by (cases "sd_pc (wt_tx t) = SenderGone") (simp_all add: vbs_wt_defs vbs_idle_def vbs_tx_start_def)
  moreover have "sd_pc (wt_tx t) = SenderLoop \<and> wt_stop t = StopJoin"
    if "in_window s" and "vbs_wt_run as (wt_stop_notify s) t"
      "set as \<subseteq> {BySender, ByWorker, ByLifecycle}" for as t
    using vbs.stop_lost [OF r that(1) that(2) [unfolded vbs_wt_defs] that(3)] by simp
  ultimately show ?thesis by blast
qed

text \<open>The sender sleeps when the stop comes: three actions later it is gone and can be joined.\<close>

theorem vbs_stop_completes_witness:
  "\<exists>t. vbs_wt_run [BySender, BySender, BySender]
       (wt_stop_notify (wt_stop_store (vbs_wt_live Asleep False))) t \<and>
     sd_pc (wt_tx t) = SenderGone \<and> vbs_wt_step ByLifecycle t (wt_stop_join t) \<and>
     conns_open (vl_calls (sd_local (wt_tx (wt_stop_join t)))) = 0"
proof -
  let ?s = "wt_stop_store (vbs_wt_live Asleep False)"
  let ?x = "tx_stop_request vbs_live"
  let ?w = "\<lambda>pc mu. \<lparr>wt_tx = ?x, wt_at = pc, wt_mu = mu, wt_pub = False, wt_stop = StopJoin\<rparr>"
  let ?t = "(?w AtTest False)\<lparr>wt_tx := sender_finish vbs_sender_teardown ?x\<rparr>"
  have x: "sd_pc ?x = SenderLoop" "tx_stop ?x" by (simp_all add: tx_stop_request_def vbs_live_facts)
  have s: "wt_stop_notify ?s = ?w AtLock False"
    by (simp add: wt_stop_notify_def wt_stop_store_def vbs_wt_live_def cv_notify_def)
  have step: "vbs_wt_step BySender (?w AtLock False) (?w AtPredStop True)"
    "vbs_wt_step BySender (?w AtPredStop True) (?w AtTest False)"
    "vbs_wt_step BySender (?w AtTest False) ?t"
    by (rule vbs_wt_loop; simp add: sender_loop_step_def x)+
  have run: "vbs_wt_run [BySender, BySender, BySender] (wt_stop_notify ?s) ?t"
    unfolding s using step unfolding vbs_wt_defs by (blast intro: wt_run.intros)
  obtain as0 where "vbs_wt_run as0 vbs_wt_init ?s" using vbs_wt_asleep_stored by blast
  then have "vbs_wt_step ByLifecycle ?t (wt_stop_join ?t) \<and>
      conns_open (vl_calls (sd_local (wt_tx (wt_stop_join ?t)))) = 0"
    using vbs_stop_completes [of as0 ?s, THEN conjunct1, rule_format, OF _ _ _ conjI [OF run]]
    by (simp add: wt_stop_store_def vbs_wt_live_def)
  moreover have "sd_pc (wt_tx ?t) = SenderGone" by simp
  ultimately show ?thesis using run by blast
qed

text \<open>
  The lost wake-up happens: from the start of a session a run leads to a stop that waits for a
  sender nothing but a callback or a spurious wake-up can end.
\<close>

theorem vbs_stop_can_hang:
  "\<exists>as s. vbs_wt_run as vbs_wt_init s \<and> wt_stop s = StopJoin \<and>
     (\<forall>bs t. vbs_wt_run bs s t \<and> set bs \<subseteq> {BySender, ByWorker, ByLifecycle} \<longrightarrow>
        sd_pc (wt_tx t) = SenderLoop \<and> wt_stop t = StopJoin)"
proof -
  let ?s = "wt_stop_store (vbs_wt_live AtBlock True)"
  obtain as0 where r: "vbs_wt_run as0 vbs_wt_init ?s" using vbs_wt_block_stored by blast
  have s: "wt_stop ?s = StopStored" "in_window ?s"
    by (simp_all add: wt_stop_store_def vbs_wt_live_def in_window_def)
  have "vbs_wt_step ByLifecycle ?s (wt_stop_notify ?s)"
    unfolding vbs_wt_defs by (rule wt_step.stop_notify) (rule s(1))
  then have "vbs_wt_run (as0 @ [ByLifecycle]) vbs_wt_init (wt_stop_notify ?s)"
    using r by (rule vbs_wt_one)
  moreover have "wt_stop (wt_stop_notify ?s) = StopJoin" by (simp add: wt_stop_notify_def)
  ultimately show ?thesis
    using vbs.stop_lost [OF r [unfolded vbs_wt_defs] s(2)] unfolding vbs_wt_defs by blast
qed

text \<open>The same of the navigation-service transport, which repeats the code.\<close>

theorem svc_stop_completes:
  assumes "svc_wt_run as0 (wt_init (svc_local_init env)) s" and "wt_stop s = StopStored"
    and "wt_at s \<notin> {AtPredSeq, AtBlock}"
    and "svc_wt_run as (wt_stop_notify s) t" and "ByLifecycle \<notin> set as"
  shows "count_list as BySender \<le> 4 \<and>
    (if sd_pc (wt_tx t) = SenderGone then
       svc_wt_step ByLifecycle t (wt_stop_join t) \<and> \<not> tx_up (wt_tx (wt_stop_join t)) \<and>
       \<not> sv_conn (sd_local (wt_tx (wt_stop_join t)))
     else \<exists>u. svc_wt_step BySender t u)"
proof -
  have i: "svc_idle l \<Longrightarrow> \<not> sv_conn l" for l by (simp add: svc_idle_def)
  show ?thesis
    using svc.stop_terminates [OF assms [unfolded svc_wt_run_def]] i
    by (auto simp: svc_wt_step_def split: if_splits)
qed

end
