(* ===== verification/Seqlock.thy ===== *)
theory Seqlock
  imports Prelude
begin

text \<open>
  The seqlock of the HUD transports (\<open>hud/vbs_tx.cpp\<close>, \<open>hud/svcnavi_tx.cpp\<close>): one producer frames
  its writes to the shared snapshot between two increments of \<open>g_seq\<close>; the sender copies the
  snapshot byte by byte and accepts the copy when \<open>g_seq\<close> was even and did not change.

  The interleaving of the two threads is the step relation \<open>sl_step\<close> over sequentially
  consistent memory.  \<open>sl_count\<close> and \<open>sl_hist\<close> are history variables: the number of increments so
  far and the snapshot committed at each.  \<open>n\<close> is the size of the snapshot in bytes.
\<close>

datatype reader_pc =
    RIdle
  | RCopy u32 nat nat "nat \<Rightarrow> u8"
  | RDone "nat \<Rightarrow> u8"

record seqlock =
  sl_seq :: u32
  sl_mem :: "nat \<Rightarrow> u8"
  sl_writing :: bool
  sl_reader :: reader_pc
  sl_count :: nat
  sl_hist :: "nat \<Rightarrow> nat \<Rightarrow> u8"

definition sl_init :: seqlock where
  "sl_init =
     \<lparr>sl_seq = 0, sl_mem = \<lambda>_. 0, sl_writing = False, sl_reader = RIdle, sl_count = 0,
      sl_hist = \<lambda>_ _. 0\<rparr>"

definition seqlock_begin :: "seqlock \<Rightarrow> seqlock" where
  "seqlock_begin s = s\<lparr>sl_seq := sl_seq s + 1, sl_count := sl_count s + 1, sl_writing := True\<rparr>"

definition seqlock_end :: "seqlock \<Rightarrow> seqlock" where
  "seqlock_end s =
     s\<lparr>sl_seq := sl_seq s + 1, sl_count := sl_count s + 1, sl_writing := False,
       sl_hist := (sl_hist s)(sl_count s + 1 := sl_mem s)\<rparr>"

inductive sl_step :: "nat \<Rightarrow> seqlock \<Rightarrow> seqlock \<Rightarrow> bool" for n where
  begin_write: "\<not> sl_writing s \<Longrightarrow> sl_step n s (seqlock_begin s)"
| store: "sl_writing s \<Longrightarrow> sl_step n s (s\<lparr>sl_mem := (sl_mem s)(i := b)\<rparr>)"
| end_write: "sl_writing s \<Longrightarrow> sl_step n s (seqlock_end s)"
| read_start: "sl_reader s = RIdle \<Longrightarrow> \<not> bit (sl_seq s) 0 \<Longrightarrow>
    sl_step n s (s\<lparr>sl_reader := RCopy (sl_seq s) (sl_count s) 0 (\<lambda>_. 0)\<rparr>)"
| read_spin: "sl_reader s = RIdle \<Longrightarrow> bit (sl_seq s) 0 \<Longrightarrow> sl_step n s s"
| read_copy: "sl_reader s = RCopy s1 c i m \<Longrightarrow> i < n \<Longrightarrow>
    sl_step n s (s\<lparr>sl_reader := RCopy s1 c (i + 1) (m(i := sl_mem s i))\<rparr>)"
| read_accept: "sl_reader s = RCopy s1 c n m \<Longrightarrow> sl_seq s = s1 \<Longrightarrow>
    sl_step n s (s\<lparr>sl_reader := RDone m\<rparr>)"
| read_retry: "sl_reader s = RCopy s1 c n m \<Longrightarrow> sl_seq s \<noteq> s1 \<Longrightarrow>
    sl_step n s (s\<lparr>sl_reader := RIdle\<rparr>)"
| read_next: "sl_reader s = RDone m \<Longrightarrow> sl_step n s (s\<lparr>sl_reader := RIdle\<rparr>)"

inductive_cases sl_acceptE: "sl_step n s (s\<lparr>sl_reader := RDone m\<rparr>)"

definition sl_inv :: "nat \<Rightarrow> seqlock \<Rightarrow> bool" where
  "sl_inv n s \<longleftrightarrow>
     sl_seq s = of_nat (sl_count s) \<and> (sl_writing s \<longleftrightarrow> odd (sl_count s)) \<and>
     (\<not> sl_writing s \<longrightarrow> sl_mem s = sl_hist s (sl_count s)) \<and>
     (case sl_reader s of
        RCopy s1 c i m \<Rightarrow>
          s1 = of_nat c \<and> even c \<and> c \<le> sl_count s \<and> i \<le> n \<and>
          (sl_count s = c \<longrightarrow> (\<forall>j < i. m j = sl_hist s c j))
      | _ \<Rightarrow> True)"

lemma bit0_of_nat: "bit (of_nat k :: u32) 0 \<longleftrightarrow> odd k"
  by (subst bit_of_nat_iff) (simp add: bit_0)

lemma sl_inv_init: "sl_inv n sl_init"
  by (simp add: sl_inv_def sl_init_def)

lemma sl_inv_step: "sl_step n s s' \<Longrightarrow> sl_inv n s \<Longrightarrow> sl_inv n s'"
proof (induction rule: sl_step.induct)
  case (begin_write s)
  then show ?case
    by (auto simp: sl_inv_def seqlock_begin_def split: reader_pc.splits)
next
  case (end_write s)
  then show ?case
    by (auto simp: sl_inv_def seqlock_end_def split: reader_pc.splits)
next
  case (store s i b)
  then show ?case by (auto simp: sl_inv_def split: reader_pc.splits)
next
  case (read_start s)
  then show ?case by (simp add: sl_inv_def bit0_of_nat)
next
  case (read_copy s s1 c i m)
  then show ?case by (auto simp: sl_inv_def less_Suc_eq)
qed (auto simp: sl_inv_def split: reader_pc.splits)

lemma sl_inv_reachable: "(sl_step n)\<^sup>*\<^sup>* sl_init s \<Longrightarrow> sl_inv n s"
  by (induction rule: rtranclp_induct) (auto simp: sl_inv_init intro: sl_inv_step)

text \<open>
  C10.  A snapshot the sender accepts is never torn: in every interleaving of one producer and
  the sender, when the sender is about to accept its copy and fewer than 2^32 increments went
  by since it started copying, no write is in progress and the copy is exactly the snapshot the
  producer committed last.
\<close>

theorem seqlock_untorn:
  assumes "(sl_step n)\<^sup>*\<^sup>* sl_init s" and "sl_reader s = RCopy s1 c n m" and "sl_seq s = s1"
    and "sl_count s - c < 2 ^ 32"
  shows "\<not> sl_writing s \<and> (\<forall>j < n. m j = sl_mem s j) \<and> sl_mem s = sl_hist s (sl_count s)"
proof -
  have inv: "sl_inv n s" using sl_inv_reachable [OF assms(1)] .
  then have c: "s1 = of_nat c" "even c" "c \<le> sl_count s" "sl_seq s = of_nat (sl_count s)"
    using assms(2) by (simp_all add: sl_inv_def)
  have "c = sl_count s"
    using c assms(3,4) by (intro u32_counter_eq) simp_all
  then show ?thesis using inv assms(2) c(2) by (auto simp: sl_inv_def)
qed

text \<open>The producer commits one byte while the sender waits; the sender then copies it.\<close>

theorem seqlock_untorn_witness:
  "\<exists>s m. (sl_step 1)\<^sup>*\<^sup>* sl_init s \<and> sl_reader s = RCopy 2 2 1 m \<and> m 0 = sl_mem s 0"
proof -
  define s1 where "s1 = seqlock_begin sl_init"
  define s2 where "s2 = s1\<lparr>sl_mem := (sl_mem s1)(0 := 7)\<rparr>"
  define s3 where "s3 = seqlock_end s2"
  define s4 where "s4 = s3\<lparr>sl_reader := RCopy (sl_seq s3) (sl_count s3) 0 (\<lambda>_. 0)\<rparr>"
  define m where "m = ((\<lambda>_. 0) :: nat \<Rightarrow> u8)(0 := sl_mem s4 0)"
  define s5 where "s5 = s4\<lparr>sl_reader := RCopy (sl_seq s3) (sl_count s3) (0 + 1) m\<rparr>"
  note d = s1_def s2_def s3_def s4_def s5_def seqlock_begin_def seqlock_end_def sl_init_def
  have "sl_step 1 sl_init s1" unfolding s1_def by (rule begin_write) (simp add: sl_init_def)
  moreover have "sl_step 1 s1 s2" unfolding s2_def by (rule store) (simp add: d)
  moreover have "sl_step 1 s2 s3" unfolding s3_def by (rule end_write) (simp add: d)
  moreover have "sl_step 1 s3 s4" unfolding s4_def by (rule read_start) (simp_all add: d)
  moreover have "sl_step 1 s4 s5" unfolding s5_def m_def by (rule read_copy) (simp_all add: d)
  ultimately have r: "(sl_step 1)\<^sup>*\<^sup>* sl_init s5"
    by (metis rtranclp.rtrancl_into_rtrancl rtranclp.rtrancl_refl)
  have f: "sl_reader s5 = RCopy 2 2 1 m" "sl_seq s5 = 2" "sl_count s5 = 2"
    by (simp_all add: d)
  from seqlock_untorn [OF r f(1,2)] f r show ?thesis by auto
qed

end
