(* ===== verification/Hud_Core.thy ===== *)
theory Hud_Core
  imports Vbs_Tx Svcnavi_Tx Nav16_Relay Nav16_Glyph Hud_Nav Translit Config
begin

text \<open>
  The core of the HUD path (\<open>hud/hud.cpp\<close>): the transport bound from the configuration, the
  GAL 1.5 callback, the accumulator and the change gate of the GAL 1.6 path, and the session
  bracket.  The state \<open>hud\<close> holds both transports (\<open>Vbs_Tx\<close>, \<open>Svcnavi_Tx\<close>) and the statics of
  the file; an access outside an array is \<open>None\<close>.  Log lines are left out, except that the copy
  \<open>dump_next_turn\<close> makes for its line is a memory access and is kept.
\<close>

section \<open>State and transport dispatch\<close>

record AaNav16HudState =
  na_glyph :: u32
  na_dist :: int
  na_unit :: u8
  na_n_lanes :: u8
  na_road :: "u8 list"
  na_lanes :: "AaLane list"

definition zero_hud_state :: AaNav16HudState where
  "zero_hud_state =
     \<lparr>na_glyph = 0, na_dist = 0, na_unit = 0, na_n_lanes = 0, na_road = replicate 64 0,
      na_lanes = replicate 8 zero_lane\<rparr>"

record hud =
  hd_tx :: HudTransport
  hd_vbs :: vbs
  hd_svc :: svc
  hd_acc :: AaNav16HudState
  hd_last :: AaNav16HudState
  hd_have_last :: bool

definition g_tx_status :: "u32 \<Rightarrow> hud \<Rightarrow> hud" where
  "g_tx_status status h =
     (case hd_tx h of
        HUD_TRANSPORT_VBS \<Rightarrow> h\<lparr>hd_vbs := vbs_tx_status status (hd_vbs h)\<rparr>
      | HUD_TRANSPORT_SVCNAVI \<Rightarrow> h\<lparr>hd_svc := svcnavi_tx_status status (hd_svc h)\<rparr>)"

definition g_tx_next_turn :: "u8 list option \<Rightarrow> u32 \<Rightarrow> hud \<Rightarrow> hud" where
  "g_tx_next_turn r icon h =
     (case hd_tx h of
        HUD_TRANSPORT_VBS \<Rightarrow> h\<lparr>hd_vbs := vbs_tx_next_turn r icon (hd_vbs h)\<rparr>
      | HUD_TRANSPORT_SVCNAVI \<Rightarrow> h\<lparr>hd_svc := svcnavi_tx_next_turn r icon (hd_svc h)\<rparr>)"

definition g_tx_distance :: "int \<Rightarrow> u8 \<Rightarrow> hud \<Rightarrow> hud" where
  "g_tx_distance d u h =
     (case hd_tx h of
        HUD_TRANSPORT_VBS \<Rightarrow> h\<lparr>hd_vbs := vbs_tx_distance d u (hd_vbs h)\<rparr>
      | HUD_TRANSPORT_SVCNAVI \<Rightarrow> h\<lparr>hd_svc := svcnavi_tx_distance d u (hd_svc h)\<rparr>)"

definition g_tx_lanes :: "u8 list \<Rightarrow> hud \<Rightarrow> hud" where
  "g_tx_lanes codes h =
     (case hd_tx h of
        HUD_TRANSPORT_VBS \<Rightarrow> h\<lparr>hd_vbs := vbs_tx_lanes (Some codes) (hd_vbs h)\<rparr>
      | HUD_TRANSPORT_SVCNAVI \<Rightarrow> h\<lparr>hd_svc := svcnavi_tx_lanes (Some codes) (hd_svc h)\<rparr>)"

definition hud_tx_start :: "Settings \<Rightarrow> bool \<Rightarrow> hud \<Rightarrow> hud" where
  "hud_tx_start cfg thread_ok h =
     (if cfg_hud_transport cfg = HUD_TRANSPORT_VBS then
        h\<lparr>hd_tx := HUD_TRANSPORT_VBS, hd_vbs := vbs_tx_start thread_ok (hd_vbs h)\<rparr>
      else h\<lparr>hd_tx := HUD_TRANSPORT_SVCNAVI, hd_svc := svcnavi_tx_start thread_ok (hd_svc h)\<rparr>)"

text \<open>\<open>ve\<close>, \<open>se\<close> and \<open>b1\<close>: the outcomes of a set-up still running when the stop arrives.\<close>

definition hud_tx_stop :: "vbs_env \<Rightarrow> svc_env \<Rightarrow> bool \<Rightarrow> hud \<Rightarrow> hud" where
  "hud_tx_stop ve se b1 h =
     (case hd_tx h of
        HUD_TRANSPORT_VBS \<Rightarrow> h\<lparr>hd_vbs := vbs_tx_stop ve b1 (hd_vbs h)\<rparr>
      | HUD_TRANSPORT_SVCNAVI \<Rightarrow> h\<lparr>hd_svc := svcnavi_tx_stop se b1 (hd_svc h)\<rparr>)"

definition nav16_encode_lane_codes :: "AaLane list option \<Rightarrow> int \<Rightarrow> u8 list" where
  "nav16_encode_lane_codes ls n =
     map (\<lambda>i. case ls of
            Some l \<Rightarrow> if int i < n then oem_lane_code_for_aa (present_mask (l ! i)) (highlight_mask (l ! i))
                      else OEM_LANE_NONE
          | None \<Rightarrow> OEM_LANE_NONE) [0..<8]"

section \<open>The GAL 1.5 callback\<close>

definition hud_tx_next_turn ::
  "Settings \<Rightarrow> u8 list option \<Rightarrow> u32 \<Rightarrow> u32 \<Rightarrow> int \<Rightarrow> hud \<Rightarrow> hud option" where
  "hud_tx_next_turn cfg r side event angle h =
     (let icon = compute_turn_icon event side angle in
      case r of
        Some b \<Rightarrow>
          if cfg_hud_fold_latin cfg then
            (case fold_str (Some (strncpy_z 256 b)) 0 of
               Some buf \<Rightarrow> Some (g_tx_next_turn buf icon h)
             | None \<Rightarrow> None)
          else Some (g_tx_next_turn r icon h)
      | None \<Rightarrow> Some (g_tx_next_turn None icon h))"

definition hud_tx_distance :: "int \<Rightarrow> u32 \<Rightarrow> hud \<Rightarrow> hud" where
  "hud_tx_distance disp_dist disp_unit =
     g_tx_distance (cdiv disp_dist 100) (map_distance_unit disp_unit)"

definition kTagStatus :: u32 where "kTagStatus = 0x500"
definition kTagNextTurn :: u32 where "kTagNextTurn = 0x501"
definition kTagDistance :: u32 where "kTagDistance = 0x502"

definition decode_turn_event :: "u32 \<Rightarrow> u32" where
  "decode_turn_event compacted =
     (if compacted = 15 then 16
      else if compacted = 16 then 17
      else if compacted = 17 then 19
      else compacted)"

text \<open>
  The 36-byte headers as their nine words; a pointer is the address word, and \<open>mem\<close> gives the
  bytes of the object at an address.
\<close>

record NextTurnHdr =
  nt_road_name :: u32
  nt_road_name_len :: u32
  nt_turn_side :: u32
  nt_turn_event :: u32
  nt_image :: u32
  nt_image_len :: u32
  nt_turn_angle :: int
  nt_turn_number :: int

definition next_turn_hdr :: "u32 list \<Rightarrow> NextTurnHdr" where
  "next_turn_hdr ws =
     \<lparr>nt_road_name = ws ! 1, nt_road_name_len = ws ! 2, nt_turn_side = ws ! 3,
      nt_turn_event = ws ! 4, nt_image = ws ! 5, nt_image_len = ws ! 6,
      nt_turn_angle = sint (ws ! 7), nt_turn_number = sint (ws ! 8)\<rparr>"

record DistanceHdr =
  dh_distance :: int
  dh_time_until :: int
  dh_display_distance :: int
  dh_display_distance_unit :: u32

definition distance_hdr :: "u32 list \<Rightarrow> DistanceHdr" where
  "distance_hdr ws =
     \<lparr>dh_distance = sint (ws ! 1), dh_time_until = sint (ws ! 2),
      dh_display_distance = sint (ws ! 3), dh_display_distance_unit = ws ! 4\<rparr>"

text \<open>The bounded copy of the road name for the log line: at most 255 bytes and a terminator.\<close>

definition dump_next_turn :: "(u32 \<Rightarrow> u8 list option) \<Rightarrow> NextTurnHdr \<Rightarrow> u8 list option" where
  "dump_next_turn mem t =
     (if nt_road_name t \<noteq> 0 \<and> nt_road_name_len t \<noteq> 0 then
        let n = (if unat (nt_road_name_len t) > 255 then 255 else unat (nt_road_name_len t)) in
        (case mem (nt_road_name t) of
           Some b \<Rightarrow> if n \<le> length b then Some (take n b @ [0]) else None
         | None \<Rightarrow> None)
      else Some [0])"

text \<open>A string argument: null, or the bytes of a terminated object.\<close>

definition deref_string :: "(u32 \<Rightarrow> u8 list option) \<Rightarrow> u32 \<Rightarrow> u8 list option option" where
  "deref_string mem a =
     (if a = 0 then Some None
      else (case mem a of Some b \<Rightarrow> if 0 \<in> set b then Some (Some b) else None | None \<Rightarrow> None))"

definition our_nav_cb ::
  "Settings \<Rightarrow> bool \<Rightarrow> (u32 \<Rightarrow> u8 list option) \<Rightarrow> u32 list option \<Rightarrow> hud \<Rightarrow> hud option" where
  "our_nav_cb cfg seen mem hdr36 h =
     (case hdr36 of
        None \<Rightarrow> Some h
      | Some ws \<Rightarrow>
          if seen then Some h
          else if length ws \<noteq> 9 then None
          else if ws ! 0 = kTagStatus then Some (g_tx_status (ws ! 1) h)
          else if ws ! 0 = kTagNextTurn then
            (let t = next_turn_hdr ws; turn_event = decode_turn_event (nt_turn_event t) in
             case dump_next_turn mem t of
               None \<Rightarrow> None
             | Some _ \<Rightarrow>
                 (case deref_string mem (nt_road_name t) of
                    None \<Rightarrow> None
                  | Some r \<Rightarrow> hud_tx_next_turn cfg r (nt_turn_side t) turn_event (nt_turn_angle t) h))
          else if ws ! 0 = kTagDistance then
            (let d = distance_hdr ws in
             Some (hud_tx_distance (dh_display_distance d) (dh_display_distance_unit d) h))
          else Some h)"

section \<open>The GAL 1.6 path\<close>

definition NAV_UNAVAILABLE :: int where "NAV_UNAVAILABLE = 0"
definition NAV_INACTIVE :: int where "NAV_INACTIVE = 2"

definition quantize_dist_x10 :: "int \<Rightarrow> u8 \<Rightarrow> int" where
  "quantize_dist_x10 v mazda_unit =
     (if v < 0 then 0
      else if mazda_unit = 2 \<or> mazda_unit = 3 then v
      else if v \<ge> 5000 then to_i32 (cdiv (to_i32 (v + 250)) 500 * 500)
      else if v \<ge> 1000 then to_i32 (cdiv (to_i32 (v + 50)) 100 * 100)
      else if v \<ge> 200 then to_i32 (cdiv (to_i32 (v + 25)) 50 * 50)
      else v)"

definition hud_feed_nav16_reset :: "hud \<Rightarrow> hud" where
  "hud_feed_nav16_reset h = h\<lparr>hd_acc := zero_hud_state, hd_have_last := False\<rparr>"

definition nav16_emit_if_changed :: "hud \<Rightarrow> hud" where
  "nav16_emit_if_changed h =
     (let acc = hd_acc h in
      if hd_have_last h \<and> acc = hd_last h then h
      else
        let lane_codes = nav16_encode_lane_codes (Some (na_lanes acc)) (uint (na_n_lanes acc));
            h = g_tx_next_turn (Some (na_road acc)) (na_glyph acc) h;
            h = g_tx_distance (na_dist acc) (na_unit acc) h;
            h = g_tx_lanes lane_codes h in
        h\<lparr>hd_last := acc, hd_have_last := True\<rparr>)"

definition nav16_on_guidance :: "Settings \<Rightarrow> AaGuidance \<Rightarrow> hud \<Rightarrow> hud option" where
  "nav16_on_guidance cfg g h =
     (let acc = hd_acc h;
          glyph = ucast (hud_nav16_glyph (Some g)) :: u32;
          glyph = (if glyph > 60 then 0 else glyph);
          copied = strncpy_z 64 (road g) in
      case (if cfg_hud_fold_latin cfg then fold_str (Some copied) 0 else Some (Some copied)) of
        Some (Some r) \<Rightarrow>
          (let acc = (if glyph \<noteq> na_glyph acc \<or> cstr r \<noteq> cstr (na_road acc)
                      then acc\<lparr>na_dist := 0, na_unit := 0\<rparr> else acc);
               nl = (if n_lanes g < 0 then 0 else n_lanes g);
               nl = (if nl > HUD_NAV16_MAX_LANES then HUD_NAV16_MAX_LANES else nl);
               acc = acc\<lparr>na_glyph := glyph, na_road := strncpy_z 64 r, na_n_lanes := word_of_int nl,
                         na_lanes := map (\<lambda>i. if int i < nl
                           then \<lparr>present_mask = present_mask (lanes g ! i),
                                 highlight_mask = highlight_mask (lanes g ! i)\<rparr>
                           else \<lparr>present_mask = 0, highlight_mask = 0\<rparr>) [0..<8]\<rparr> in
           Some (nav16_emit_if_changed (h\<lparr>hd_acc := acc\<rparr>)))
      | _ \<Rightarrow> None)"

definition nav16_on_position :: "AaPosition \<Rightarrow> hud \<Rightarrow> hud" where
  "nav16_on_position p h =
     (if \<not> have_step p then h
      else
        let unit = aa_to_mazda_unit (step_units p);
            unit = (if unit > 5 then 0 else unit);
            acc = (hd_acc h)\<lparr>na_unit := unit,
                    na_dist := quantize_dist_x10 (parse_dist_x10 (Some (step_display p))) unit\<rparr> in
        nav16_emit_if_changed (h\<lparr>hd_acc := acc\<rparr>))"

definition nav16_on_status :: "AaStatus \<Rightarrow> hud \<Rightarrow> hud" where
  "nav16_on_status s h =
     (if cluster_stop s then hud_feed_nav16_reset (g_tx_status 2 h)
      else if nav_status s = NAV_INACTIVE \<or> nav_status s = NAV_UNAVAILABLE then
        hud_feed_nav16_reset (g_tx_status 2 h)
      else h)"

section \<open>The session bracket\<close>

definition kCbListNavSlot :: nat where "kCbListNavSlot = 10"

definition hud_pre_aap_create_session :: "'p \<Rightarrow> 'p list option \<Rightarrow> 'p list option option" where
  "hud_pre_aap_create_session our_cb cb_list =
     (case cb_list of
        None \<Rightarrow> Some None
      | Some slots \<Rightarrow>
          if kCbListNavSlot < length slots then Some (Some (slots[kCbListNavSlot := our_cb])) else None)"

definition nav16_callbacks :: "Settings \<Rightarrow> hud option nav16_sink" where
  "nav16_callbacks cfg =
     \<lparr>on_guidance = Some (\<lambda>g st. Option.bind st (nav16_on_guidance cfg g)),
      on_position = Some (\<lambda>p. map_option (nav16_on_position p)),
      on_status = Some (\<lambda>s. map_option (nav16_on_status s))\<rparr>"

definition hud_post_aap_create_session ::
  "Settings \<Rightarrow> bool \<Rightarrow> int \<Rightarrow> bool \<Rightarrow> int \<Rightarrow> (hud option) rx \<times> hud option \<Rightarrow> (hud option) rx \<times> hud option"
where
  "hud_post_aap_create_session cfg thread_ok efd spawned sock s =
     (let st = map_option (hud_tx_start cfg thread_ok) (snd s) in
      if cfg_use_protocol_v1_6 cfg then
        hud_nav16_rx_start (map_option hud_feed_nav16_reset) (nav16_callbacks cfg) efd spawned sock (fst s) st
      else (fst s, st))"

definition hud_pre_aap_destroy_session ::
  "Settings \<Rightarrow> vbs_env \<Rightarrow> svc_env \<Rightarrow> bool \<Rightarrow> (hud option) rx \<times> hud option \<Rightarrow> (hud option) rx \<times> hud option"
where
  "hud_pre_aap_destroy_session cfg ve se b1 s =
     (let rx = (if cfg_use_protocol_v1_6 cfg then hud_nav16_rx_stop (fst s) else fst s) in
      (rx, map_option (hud_tx_stop ve se b1) (snd s)))"

end
