(* ===== verification/Hud_Display.thy ===== *)
theory Hud_Display
  imports Hud_Core
begin

text \<open>
  What the HUD core puts on the display: the snapshot of the bound transport follows the
  accumulator of the GAL 1.6 path through every sequence of sink callbacks, up to the calls of
  the direct transport; the GAL 1.5 callback; the distance steps.
\<close>

section \<open>The snapshot of the bound transport\<close>

definition hud_snap :: "hud \<Rightarrow> NaviSnapshot" where
  "hud_snap h =
     (case hd_tx h of HUD_TRANSPORT_VBS \<Rightarrow> tx_snap (hd_vbs h)
      | HUD_TRANSPORT_SVCNAVI \<Rightarrow> tx_snap (hd_svc h))"

definition hud_live :: "hud \<Rightarrow> bool" where
  "hud_live h \<longleftrightarrow>
     (case hd_tx h of HUD_TRANSPORT_VBS \<Rightarrow> tx_active (hd_vbs h)
      | HUD_TRANSPORT_SVCNAVI \<Rightarrow> tx_active (hd_svc h))"

lemmas g_tx_defs = g_tx_status_def g_tx_next_turn_def g_tx_distance_def g_tx_lanes_def
lemmas backend_defs = vbs_tx_status_def vbs_tx_next_turn_def vbs_tx_distance_def
  vbs_tx_lanes_def svcnavi_tx_status_def svcnavi_tx_next_turn_def svcnavi_tx_distance_def
  svcnavi_tx_lanes_def
lemmas producer_defs = tx_status_def tx_next_turn_def tx_distance_def tx_lanes_def tx_write_def
  note_inactive_drop_def

text \<open>The producers of the bound transport leave the rest of the state alone.\<close>

definition same_core :: "hud \<Rightarrow> hud \<Rightarrow> bool" where
  "same_core h h' \<longleftrightarrow>
     hd_tx h' = hd_tx h \<and> hd_acc h' = hd_acc h \<and> hd_last h' = hd_last h \<and>
     hd_have_last h' = hd_have_last h \<and> hud_live h' = hud_live h \<and>
     (\<not> hud_live h \<longrightarrow> hud_snap h' = hud_snap h) \<and>
     (vbs_step\<^sup>*\<^sup>* vbs_init (hd_vbs h) \<longrightarrow> vbs_step\<^sup>*\<^sup>* vbs_init (hd_vbs h'))"

lemma vbs_producers_reachable:
  assumes "vbs_step\<^sup>*\<^sup>* vbs_init s"
  shows "vbs_step\<^sup>*\<^sup>* vbs_init (vbs_tx_status v s)" "vbs_step\<^sup>*\<^sup>* vbs_init (vbs_tx_next_turn r icon s)"
    "vbs_step\<^sup>*\<^sup>* vbs_init (vbs_tx_distance d u s)"
    "8 \<le> length ls \<Longrightarrow> vbs_step\<^sup>*\<^sup>* vbs_init (vbs_tx_lanes (Some ls) s)"
  using assms
  by (auto simp: vbs_step_def backend_defs intro: rtranclp.rtrancl_into_rtrancl
      tx_step.status tx_step.next_turn tx_step.distance tx_step.set_lanes)

lemma same_core_producers:
  "same_core h (g_tx_status v h)" "same_core h (g_tx_next_turn r icon h)"
  "same_core h (g_tx_distance d u h)" "8 \<le> length ls \<Longrightarrow> same_core h (g_tx_lanes ls h)"
  using vbs_producers_reachable
  by (cases "hd_tx h"; simp add: same_core_def hud_live_def hud_snap_def g_tx_defs backend_defs
      producer_defs; fail)+

lemma same_core_trans: "same_core a b \<Longrightarrow> same_core b c \<Longrightarrow> same_core a c"
  by (simp add: same_core_def)

lemma snap_producers:
  assumes "hud_live h"
  shows "hud_snap (g_tx_status v h) = (if v = 1 then hud_snap h else blank_snapshot)"
    and "hud_snap (g_tx_next_turn (Some r) icon h) =
      (hud_snap h)\<lparr>sn_road := strncpy_z 64 r, sn_icon := icon\<rparr>"
    and "hud_snap (g_tx_distance d u h) = (hud_snap h)\<lparr>sn_dist := d, sn_unit := u\<rparr>"
    and "hud_snap (g_tx_lanes ls h) = (hud_snap h)\<lparr>sn_lanes := take 8 ls\<rparr>"
  using assms
  by (cases "hd_tx h"; simp add: hud_snap_def hud_live_def g_tx_defs backend_defs producer_defs)+

lemma live_producers:
  "hud_live (g_tx_status v h) = hud_live h" "hud_live (g_tx_next_turn r icon h) = hud_live h"
  "hud_live (g_tx_distance d u h) = hud_live h" "hud_live (g_tx_lanes ls h) = hud_live h"
  by (cases "hd_tx h"; simp add: hud_live_def g_tx_defs backend_defs producer_defs)+

lemma length_encode_lane_codes [simp]: "length (nav16_encode_lane_codes ls n) = 8"
  by (simp add: nav16_encode_lane_codes_def)

section \<open>The snapshot follows the accumulator\<close>

text \<open>What the transport's snapshot should hold for an accumulated guidance.\<close>

definition snapshot_of :: "AaNav16HudState \<Rightarrow> NaviSnapshot" where
  "snapshot_of a =
     \<lparr>sn_road = strncpy_z 64 (na_road a), sn_icon = na_glyph a, sn_dist = na_dist a,
      sn_unit = na_unit a,
      sn_lanes = nav16_encode_lane_codes (Some (na_lanes a)) (uint (na_n_lanes a))\<rparr>"

definition gate_inv :: "hud \<Rightarrow> bool" where
  "gate_inv h \<longleftrightarrow> hud_live h \<and>
     (hd_have_last h \<longrightarrow> hud_snap h = snapshot_of (hd_last h) \<and> hd_last h = hd_acc h)"

lemma gate_fields [simp]:
  "hud_live (h\<lparr>hd_last := a, hd_have_last := b\<rparr>) = hud_live h"
  "hud_snap (h\<lparr>hd_last := a, hd_have_last := b\<rparr>) = hud_snap h"
  "hud_live (h\<lparr>hd_acc := a\<rparr>) = hud_live h" "hud_snap (h\<lparr>hd_acc := a\<rparr>) = hud_snap h"
  "hud_live (h\<lparr>hd_acc := a, hd_have_last := b\<rparr>) = hud_live h"
  "hud_snap (h\<lparr>hd_acc := a, hd_have_last := b\<rparr>) = hud_snap h"
  by (simp_all add: hud_live_def hud_snap_def split: HudTransport.splits)

text \<open>The three calls of one emission.\<close>

definition emit_calls :: "AaNav16HudState \<Rightarrow> hud \<Rightarrow> hud" where
  "emit_calls acc h =
     g_tx_lanes (nav16_encode_lane_codes (Some (na_lanes acc)) (uint (na_n_lanes acc)))
       (g_tx_distance (na_dist acc) (na_unit acc)
         (g_tx_next_turn (Some (na_road acc)) (na_glyph acc) h))"

lemma emit_eq:
  "nav16_emit_if_changed h =
     (if hd_have_last h \<and> hd_acc h = hd_last h then h
      else (emit_calls (hd_acc h) h)\<lparr>hd_last := hd_acc h, hd_have_last := True\<rparr>)"
  by (simp add: nav16_emit_if_changed_def emit_calls_def Let_def)

lemma emit_calls_same: "same_core h (emit_calls acc h)"
  unfolding emit_calls_def
  by (rule same_core_trans [OF same_core_trans [OF same_core_producers(2) same_core_producers(3)]
        same_core_producers(4)]) simp

lemma emit_calls_snap: "hud_live h \<Longrightarrow> hud_snap (emit_calls acc h) = snapshot_of acc"
  by (simp add: emit_calls_def snap_producers live_producers snapshot_of_def)

lemma emit_same:
  "hd_tx (nav16_emit_if_changed h) = hd_tx h \<and> hd_acc (nav16_emit_if_changed h) = hd_acc h \<and>
   hud_live (nav16_emit_if_changed h) = hud_live h \<and>
   hd_have_last (nav16_emit_if_changed h) \<and> hd_last (nav16_emit_if_changed h) = hd_acc h \<and>
   (\<not> hud_live h \<longrightarrow> hud_snap (nav16_emit_if_changed h) = hud_snap h) \<and>
   (vbs_step\<^sup>*\<^sup>* vbs_init (hd_vbs h) \<longrightarrow> vbs_step\<^sup>*\<^sup>* vbs_init (hd_vbs (nav16_emit_if_changed h)))"
  using emit_calls_same [of h "hd_acc h"] by (simp add: emit_eq same_core_def)

lemma emit_snap:
  assumes "hud_live h" and "hd_have_last h \<Longrightarrow> hud_snap h = snapshot_of (hd_last h)"
  shows "hud_snap (nav16_emit_if_changed h) = snapshot_of (hd_acc h)"
  using assms by (simp add: emit_eq emit_calls_snap)

lemma emit_gate:
  assumes "gate_inv h" and "h' = h\<lparr>hd_acc := a\<rparr>"
  shows "gate_inv (nav16_emit_if_changed h')"
  using assms emit_same [of h'] emit_snap [of h'] by (simp add: gate_inv_def)

section \<open>Callbacks of the sink\<close>

datatype sink_event = Guidance_ev AaGuidance | Position_ev AaPosition | Status_ev AaStatus

fun hud_event :: "Settings \<Rightarrow> sink_event \<Rightarrow> hud \<Rightarrow> hud option" where
  "hud_event cfg (Guidance_ev g) h = nav16_on_guidance cfg g h"
| "hud_event cfg (Position_ev p) h = Some (nav16_on_position p h)"
| "hud_event cfg (Status_ev s) h = Some (nav16_on_status s h)"

fun hud_events :: "Settings \<Rightarrow> sink_event list \<Rightarrow> hud \<Rightarrow> hud option" where
  "hud_events cfg [] h = Some h"
| "hud_events cfg (e # es) h = Option.bind (hud_event cfg e h) (hud_events cfg es)"

text \<open>The accumulator after a guidance, as a function of the message.\<close>

definition ingest_road :: "Settings \<Rightarrow> u8 list \<Rightarrow> u8 list" where
  "ingest_road cfg r =
     (if cfg_hud_fold_latin cfg then folded 0 (take 63 (cstr r)) else take 63 (cstr r))"

definition ingest_glyph :: "AaGuidance \<Rightarrow> u32" where
  "ingest_glyph g =
     (let glyph = ucast (hud_nav16_glyph (Some g)) :: u32 in if glyph > 60 then 0 else glyph)"

definition ingest_lanes :: "AaGuidance \<Rightarrow> int" where
  "ingest_lanes g = (let n = (if n_lanes g < 0 then 0 else n_lanes g) in if n > 8 then 8 else n)"

definition ingest :: "Settings \<Rightarrow> AaGuidance \<Rightarrow> AaNav16HudState \<Rightarrow> AaNav16HudState" where
  "ingest cfg g a =
     (let same = (ingest_glyph g = na_glyph a \<and> ingest_road cfg (road g) = cstr (na_road a)) in
      \<lparr>na_glyph = ingest_glyph g, na_dist = (if same then na_dist a else 0),
       na_unit = (if same then na_unit a else 0), na_n_lanes = word_of_int (ingest_lanes g),
       na_road = strncpy_z 64 (ingest_road cfg (road g)),
       na_lanes = map (\<lambda>i. if int i < ingest_lanes g
         then \<lparr>present_mask = present_mask (lanes g ! i), highlight_mask = highlight_mask (lanes g ! i)\<rparr>
         else \<lparr>present_mask = 0, highlight_mask = 0\<rparr>) [0..<8]\<rparr>)"

lemma strncpy_z_cong: "cstr a = cstr b \<Longrightarrow> strncpy_z n a = strncpy_z n b"
  by (simp add: strncpy_z_def)

lemma cstr_ingest_road: "cstr (ingest_road cfg r) = ingest_road cfg r"
  by (simp add: ingest_road_def cstr_id folded_no_nul take_no_nul)

lemma length_ingest_road: "length (ingest_road cfg r) \<le> 63"
  using length_folded [of 0 "take 63 (cstr r)"] by (simp add: ingest_road_def)

lemma on_guidance_ingest:
  "nav16_on_guidance cfg g h = Some (nav16_emit_if_changed (h\<lparr>hd_acc := ingest cfg g (hd_acc h)\<rparr>))"
proof -
  let ?copied = "strncpy_z 64 (road g)"
  obtain r where r: "(if cfg_hud_fold_latin cfg then fold_str (Some ?copied) 0 else Some (Some ?copied)) =
      Some (Some r)" and cr: "cstr r = ingest_road cfg (road g)"
  proof (cases "cfg_hud_fold_latin cfg")
    case True
    obtain b where "fold_str (Some ?copied) 0 = Some (Some b)" "cstr b = folded 0 (cstr ?copied)"
      by (rule fold_str_terminated [where buf = ?copied and u = 0]) (auto simp: strncpy_z_terminated)
    then show thesis using True by (intro that [of b]) (simp_all add: ingest_road_def)
  next
    case False
    then show thesis by (intro that [of ?copied]) (simp_all add: ingest_road_def)
  qed
  have z: "strncpy_z 64 r = strncpy_z 64 (ingest_road cfg (road g))"
    by (rule strncpy_z_cong) (simp add: cr cstr_ingest_road)
  show ?thesis
    unfolding nav16_on_guidance_def r Let_def option.case
    by (cases "hd_acc h") (simp add: ingest_def Let_def ingest_glyph_def ingest_lanes_def HUD_NAV16_MAX_LANES_def
        cr z)
qed

lemma on_status_reset:
  "nav16_on_status s h =
     (if cluster_stop s \<or> nav_status s = NAV_INACTIVE \<or> nav_status s = NAV_UNAVAILABLE
      then hud_feed_nav16_reset (g_tx_status 2 h) else h)"
  by (simp add: nav16_on_status_def)

text \<open>Every callback either does nothing, emits a new accumulator, or blanks and resets.\<close>

lemma event_cases [consumes 1, case_names keep emit clear]:
  assumes "hud_event cfg e h = Some h'"
  obtains "h' = h"
  | a where "h' = nav16_emit_if_changed (h\<lparr>hd_acc := a\<rparr>)"
  | "h' = hud_feed_nav16_reset (g_tx_status 2 h)"
proof (cases e)
  case (Guidance_ev g)
  then have "h' = nav16_emit_if_changed (h\<lparr>hd_acc := ingest cfg g (hd_acc h)\<rparr>)"
    using assms by (simp add: on_guidance_ingest)
  then show thesis by (rule that(2))
next
  case (Position_ev p)
  then have "h' = nav16_on_position p h" using assms by simp
  then show thesis
    unfolding nav16_on_position_def Let_def
    using that(1,2) by (cases "have_step p") auto
next
  case (Status_ev s)
  then have "h' = nav16_on_status s h" using assms by simp
  then show thesis unfolding on_status_reset using that(1,3) by (auto split: if_splits)
qed

lemma event_gate:
  assumes "hud_event cfg e h = Some h'" and "gate_inv h"
  shows "gate_inv h'"
  using assms(1)
proof (cases rule: event_cases)
  case (emit a)
  then show ?thesis using emit_gate [OF assms(2) refl] by simp
qed (use assms(2) in \<open>simp_all add: gate_inv_def hud_feed_nav16_reset_def live_producers\<close>)

lemma event_keeps:
  assumes "hud_event cfg e h = Some h'"
  shows "hd_tx h' = hd_tx h \<and> hud_live h' = hud_live h \<and>
    (vbs_step\<^sup>*\<^sup>* vbs_init (hd_vbs h) \<longrightarrow> vbs_step\<^sup>*\<^sup>* vbs_init (hd_vbs h'))"
  using assms
proof (cases rule: event_cases)
  case (emit a)
  then show ?thesis using emit_same [of "h\<lparr>hd_acc := a\<rparr>"] by simp
next
  case clear
  then show ?thesis
    using same_core_producers(1) [of h 2] by (simp add: hud_feed_nav16_reset_def same_core_def)
qed simp

lemma event_total: "\<exists>h'. hud_event cfg e h = Some h'"
  by (cases e) (simp_all add: on_guidance_ingest)

lemma events_total: "\<exists>h'. hud_events cfg es h = Some h'"
proof (induction es arbitrary: h)
  case (Cons e es)
  obtain h1 where "hud_event cfg e h = Some h1" using event_total by blast
  then show ?case using Cons by simp
qed simp

lemma events_gate:
  "gate_inv h \<Longrightarrow> hud_events cfg es h = Some h' \<Longrightarrow> gate_inv h'"
  by (induction es arbitrary: h) (auto simp: bind_eq_Some_conv intro: event_gate)

lemma events_keep:
  "hud_events cfg es h = Some h' \<Longrightarrow>
   hd_tx h' = hd_tx h \<and> hud_live h' = hud_live h \<and>
   (vbs_step\<^sup>*\<^sup>* vbs_init (hd_vbs h) \<longrightarrow> vbs_step\<^sup>*\<^sup>* vbs_init (hd_vbs h'))"
proof (induction es arbitrary: h)
  case (Cons e es)
  then obtain h1 where h1: "hud_event cfg e h = Some h1" "hud_events cfg es h1 = Some h'"
    by (auto simp: bind_eq_Some_conv)
  then show ?case using Cons.IH [OF h1(2)] event_keeps [OF h1(1)] by simp
qed simp

text \<open>
  The GAL 1.6 path never fails and the display never lags behind it: from a live transport
  after a reset, every sequence of guidance, position and status callbacks returns, and whenever
  the change gate holds a frame, the transport's snapshot is exactly the accumulated guidance -
  icon, street, distance, unit and the codes of the accumulated lanes - whatever frames the gate
  suppressed on the way.
\<close>

theorem nav16_snapshot_follows:
  assumes "hud_live h" and "\<not> hd_have_last h"
  shows "\<exists>h'. hud_events cfg es h = Some h' \<and> hud_live h' \<and>
    (hd_have_last h' \<longrightarrow> hud_snap h' = snapshot_of (hd_acc h'))"
proof -
  obtain h' where h': "hud_events cfg es h = Some h'" using events_total by blast
  have "gate_inv h'" by (rule events_gate [OF _ h']) (use assms in \<open>simp add: gate_inv_def\<close>)
  then show ?thesis using h' by (auto simp: gate_inv_def)
qed

text \<open>A live HUD on the direct transport, and one on the other transport that is not live.\<close>

definition hud_ready :: hud where
  "hud_ready =
     \<lparr>hd_tx = HUD_TRANSPORT_VBS, hd_vbs = vbs_live, hd_svc = svc_init svc_all_ok,
      hd_acc = zero_hud_state, hd_last = zero_hud_state, hd_have_last = False\<rparr>"

lemma hud_ready_live: "hud_live hud_ready" "\<not> hd_have_last hud_ready" "hd_tx hud_ready = HUD_TRANSPORT_VBS"
  by (simp_all add: hud_live_def hud_ready_def vbs_live_facts)

definition sample_guidance :: AaGuidance where
  "sample_guidance = zero_guidance\<lparr>maneuver_type := 4, road := strncpy_z 64 [77, 105]\<rparr>"

theorem nav16_snapshot_follows_witness:
  "\<exists>h'. hud_events default_settings [Guidance_ev sample_guidance] hud_ready = Some h' \<and>
     hud_snap h' = snapshot_of (hd_acc h')"
proof -
  obtain h' where h': "hud_events default_settings [Guidance_ev sample_guidance] hud_ready = Some h'"
    "hd_have_last h' \<longrightarrow> hud_snap h' = snapshot_of (hd_acc h')"
    using nav16_snapshot_follows [OF hud_ready_live(1,2)] by blast
  moreover have "hd_have_last h'"
    using h'(1) emit_same by (auto simp: on_guidance_ingest)
  ultimately show ?thesis by blast
qed

text \<open>The snapshot that belongs to a guidance just taken in.\<close>

lemma ingest_snapshot:
  "sn_icon (snapshot_of (ingest cfg g a)) = ingest_glyph g"
  "cstr (sn_road (snapshot_of (ingest cfg g a))) = ingest_road cfg (road g)"
  "sn_lanes (snapshot_of (ingest cfg g a)) =
     map (\<lambda>i. if int i < ingest_lanes g
       then oem_lane_code_for_aa (present_mask (lanes g ! i)) (highlight_mask (lanes g ! i))
       else OEM_LANE_NONE) [0..<8]"
proof -
  have "0 \<le> ingest_lanes g" "ingest_lanes g \<le> 8" by (simp_all add: ingest_lanes_def Let_def)
  then have u: "uint (word_of_int (ingest_lanes g) :: u8) = ingest_lanes g"
    by (simp add: unsigned_of_int take_bit_int_eq_self)
  have r: "cstr (strncpy_z 64 (ingest_road cfg (road g))) = ingest_road cfg (road g)"
    using length_ingest_road [of cfg "road g"] by (simp add: cstr_ingest_road)
  show "sn_icon (snapshot_of (ingest cfg g a)) = ingest_glyph g"
    by (simp add: snapshot_of_def ingest_def Let_def)
  show "cstr (sn_road (snapshot_of (ingest cfg g a))) = ingest_road cfg (road g)"
    using length_ingest_road [of cfg "road g"] by (simp add: snapshot_of_def ingest_def Let_def r)
  show "sn_lanes (snapshot_of (ingest cfg g a)) =
     map (\<lambda>i. if int i < ingest_lanes g
       then oem_lane_code_for_aa (present_mask (lanes g ! i)) (highlight_mask (lanes g ! i))
       else OEM_LANE_NONE) [0..<8]"
    by (simp add: snapshot_of_def ingest_def Let_def u nav16_encode_lane_codes_def)
qed

text \<open>The next pass of the sender shows what the change gate holds.\<close>

lemma pass_shows_acc:
  assumes "gate_inv h" and "hd_have_last h" and "hd_tx h = HUD_TRANSPORT_VBS"
    and "vbs_step\<^sup>*\<^sup>* vbs_init (hd_vbs h)"
    and "tx_commits (hd_vbs h) - sd_seen (hd_vbs h) < 2 ^ 31"
    and "\<not> vl_missed (sd_local (sender_pass vbs_send (hd_vbs h)))"
  shows "session_view (vl_calls (sd_local (sender_pass vbs_send (hd_vbs h)))) =
    view_of (snapshot_of (hd_acc h)) (vl_sync (sd_local (sender_pass vbs_send (hd_vbs h))))"
proof -
  have snap: "tx_snap (hd_vbs h) = snapshot_of (hd_acc h)" and "hud_live h"
    using assms(1-3) by (auto simp: gate_inv_def hud_snap_def)
  then have "tx_active (hd_vbs h)" using assms(3) by (simp add: hud_live_def)
  then have "sd_pc (hd_vbs h) = SenderLoop"
    using vbs.gone_is_idle(2) [of "hd_vbs h"] assms(4) by (auto simp: vbs_step_def vbs_init_def)
  then show ?thesis
    using vbs.pass_shows_latest [of "hd_vbs h"] assms(4-6) snap
    by (simp add: vbs_step_def vbs_init_def vbs_shown_def Let_def)
qed

text \<open>
  C5.  End to end on the direct transport: whatever the GAL 1.6 callbacks delivered since the
  last reset, the next pass of the sender leaves exactly the accumulated guidance on the
  display, in one sync generation.
\<close>

theorem nav16_reaches_display:
  assumes "vbs_step\<^sup>*\<^sup>* vbs_init (hd_vbs h)" and "hd_tx h = HUD_TRANSPORT_VBS"
    and "hud_live h" and "\<not> hd_have_last h"
    and "hud_events cfg es h = Some h'" and "hd_have_last h'"
    and "tx_commits (hd_vbs h') - sd_seen (hd_vbs h') < 2 ^ 31"
    and "\<not> vl_missed (sd_local (sender_pass vbs_send (hd_vbs h')))"
  shows "let l = sd_local (sender_pass vbs_send (hd_vbs h')) in
    session_view (vl_calls l) = view_of (snapshot_of (hd_acc h')) (vl_sync l)"
proof -
  have "hd_tx h' = HUD_TRANSPORT_VBS" "vbs_step\<^sup>*\<^sup>* vbs_init (hd_vbs h')"
    using events_keep [OF assms(5)] assms(1,2) by simp_all
  moreover have "gate_inv h'"
    by (rule events_gate [OF _ assms(5)]) (use assms(3,4) in \<open>simp add: gate_inv_def\<close>)
  ultimately show ?thesis using pass_shows_acc assms(6-8) by (simp add: Let_def)
qed

lemma vbs_live_reachable: "vbs_step\<^sup>*\<^sup>* vbs_init vbs_live"
proof -
  have "vbs_step vbs_init (vbs_tx_start True vbs_init)"
    unfolding vbs_step_def vbs_tx_start_def by (rule tx_step.start)
  moreover have "vbs_step (vbs_tx_start True vbs_init) vbs_live"
    unfolding vbs_step_def vbs_live_def
    using tx_step.main_begin [of "vbs_tx_start True vbs_init" False]
    by (simp add: vbs_tx_start_def tx_start_def vbs_init_def sender_init_def Let_def)
  ultimately show ?thesis
    by (metis rtranclp.rtrancl_into_rtrancl rtranclp.rtrancl_refl)
qed

definition hud_shown :: hud where
  "hud_shown = nav16_emit_if_changed
     (hud_ready\<lparr>hd_acc := ingest default_settings sample_guidance zero_hud_state\<rparr>)"

lemma hud_shown_facts:
  "hud_events default_settings [Guidance_ev sample_guidance] hud_ready = Some hud_shown"
  "tx_commits (hd_vbs hud_shown) = 3" "sd_seen (hd_vbs hud_shown) = 0"
  "sd_local (hd_vbs hud_shown) = sd_local vbs_live"
  "na_glyph (hd_acc hud_shown) = ingest_glyph sample_guidance" "hd_have_last hud_shown"
  by (simp_all add: hud_shown_def on_guidance_ingest hud_ready_def emit_eq emit_calls_def
      g_tx_defs backend_defs producer_defs vbs_live_facts ingest_def Let_def)

theorem nav16_reaches_display_witness:
  "hv_icon (session_view (vl_calls (sd_local (sender_pass vbs_send (hd_vbs hud_shown))))) =
     ingest_glyph sample_guidance"
proof -
  have r: "vbs_step\<^sup>*\<^sup>* vbs_init (hd_vbs hud_ready)"
    using vbs_live_reachable by (simp add: hud_ready_def)
  have "\<not> vl_missed (sd_local (sender_pass vbs_send (hd_vbs hud_shown)))"
    by (simp add: hud_shown_facts vbs_live_facts)
  from nav16_reaches_display [OF r hud_ready_live(3,1,2) hud_shown_facts(1) hud_shown_facts(6) _ this]
  show ?thesis by (simp add: hud_shown_facts view_of_def snapshot_of_def Let_def)
qed

section \<open>No arrow with the distance of another step\<close>

text \<open>
  A guidance with another icon or another street invalidates the held distance: the new
  arrow is shown without a distance until the next position message, never with the previous
  step's; and the snapshot holds the message's icon, folded street and lanes.
\<close>

theorem nav16_new_step:
  assumes "hud_live h" and "hd_have_last h \<longrightarrow> hud_snap h = snapshot_of (hd_last h)"
    and "nav16_on_guidance cfg g h = Some h'"
  shows "sn_icon (hud_snap h') = ingest_glyph g \<and>
    cstr (sn_road (hud_snap h')) = ingest_road cfg (road g) \<and>
    (ingest_glyph g \<noteq> na_glyph (hd_acc h) \<or> ingest_road cfg (road g) \<noteq> cstr (na_road (hd_acc h)) \<longrightarrow>
       sn_dist (hud_snap h') = 0 \<and> sn_unit (hud_snap h') = 0) \<and>
    (\<forall>i < 8. sn_lanes (hud_snap h') ! i =
       (if int i < ingest_lanes g
        then oem_lane_code_for_aa (present_mask (lanes g ! i)) (highlight_mask (lanes g ! i))
        else OEM_LANE_NONE))"
proof -
  let ?h = "h\<lparr>hd_acc := ingest cfg g (hd_acc h)\<rparr>"
  have h': "h' = nav16_emit_if_changed ?h" using assms(3) by (simp add: on_guidance_ingest)
  have snap: "hud_snap h' = snapshot_of (ingest cfg g (hd_acc h))"
    unfolding h' using emit_snap [of ?h] assms(1,2) by simp
  show ?thesis
    unfolding snap by (simp add: ingest_snapshot) (simp add: snapshot_of_def ingest_def Let_def)
qed

theorem nav16_new_step_witness:
  "sn_dist (hud_snap hud_shown) = 0 \<and> sn_icon (hud_snap hud_shown) = ingest_glyph sample_guidance"
proof -
  have "nav16_on_guidance default_settings sample_guidance hud_ready = Some hud_shown"
    by (simp add: hud_shown_def on_guidance_ingest hud_ready_def)
  moreover have "ingest_glyph sample_guidance \<noteq> 0"
    by (simp add: ingest_glyph_def sample_guidance_def zero_guidance_def hud_nav16_glyph_def
        kManeuverGlyph_def icon_codes)
  ultimately show ?thesis
    using nav16_new_step [of hud_ready default_settings sample_guidance hud_shown] hud_ready_live
    by (simp add: hud_ready_def zero_hud_state_def)
qed

section \<open>The change gate and a transport that is not live\<close>

lemma ingest_idem: "ingest cfg g (ingest cfg g a) = ingest cfg g a"
proof -
  have "cstr (strncpy_z 64 (ingest_road cfg (road g))) = ingest_road cfg (road g)"
    using length_ingest_road [of cfg "road g"] by (simp add: cstr_ingest_road)
  then show ?thesis by (simp add: ingest_def Let_def)
qed

text \<open>
  The change gate counts a frame as shown even when the transport dropped it: a guidance
  that arrives before the sender thread is live changes no snapshot, and the same guidance
  repeated once the transport is live is suppressed, so the display stays as it was until the
  guidance changes.
\<close>

theorem gate_swallows_first_frame:
  assumes "\<not> hud_live h" and "nav16_on_guidance cfg g h = Some h1"
    and "hd_acc h2 = hd_acc h1" and "hd_last h2 = hd_last h1" and "hd_have_last h2 = hd_have_last h1"
  shows "hud_snap h1 = hud_snap h \<and> nav16_on_guidance cfg g h2 = Some h2"
proof -
  let ?h = "h\<lparr>hd_acc := ingest cfg g (hd_acc h)\<rparr>"
  have h1: "h1 = nav16_emit_if_changed ?h" using assms(2) by (simp add: on_guidance_ingest)
  then have f: "hd_have_last h1" "hd_last h1 = ingest cfg g (hd_acc h)"
    "hd_acc h1 = ingest cfg g (hd_acc h)" "hud_snap h1 = hud_snap h"
    using emit_same [of ?h] assms(1) by simp_all
  have "h2\<lparr>hd_acc := hd_acc h2\<rparr> = h2" by simp
  then have "nav16_emit_if_changed (h2\<lparr>hd_acc := ingest cfg g (hd_acc h2)\<rparr>) = h2"
    using f assms(3-5) by (simp add: ingest_idem emit_eq)
  then show ?thesis using f(4) by (simp add: on_guidance_ingest)
qed

text \<open>The sender becomes live between two copies of the same guidance.\<close>

definition hud_early :: hud where
  "hud_early = hud_ready\<lparr>hd_vbs := vbs_init\<rparr>"

theorem gate_swallows_first_frame_witness:
  "\<exists>h1. nav16_on_guidance default_settings sample_guidance hud_early = Some h1 \<and>
     hud_live (h1\<lparr>hd_vbs := vbs_live\<rparr>) \<and>
     nav16_on_guidance default_settings sample_guidance (h1\<lparr>hd_vbs := vbs_live\<rparr>) =
       Some (h1\<lparr>hd_vbs := vbs_live\<rparr>)"
proof -
  have d: "\<not> hud_live hud_early"
    by (simp add: hud_live_def hud_early_def hud_ready_def vbs_init_def sender_init_def)
  obtain h1 where h1: "nav16_on_guidance default_settings sample_guidance hud_early = Some h1"
    by (simp add: on_guidance_ingest)
  then have "hd_tx h1 = HUD_TRANSPORT_VBS"
    using emit_same by (auto simp: on_guidance_ingest hud_early_def hud_ready_def)
  then have "hud_live (h1\<lparr>hd_vbs := vbs_live\<rparr>)"
    by (simp add: hud_live_def vbs_live_facts)
  then show ?thesis using gate_swallows_first_frame [OF d h1] h1 by (intro exI conjI) auto
qed

section \<open>Distance steps\<close>

text \<open>Rounding to the nearest multiple of \<open>2 * k\<close>, and the four bands of the code.\<close>

definition round_to :: "int \<Rightarrow> int \<Rightarrow> int" where
  "round_to k v = (v + k) div (2 * k) * (2 * k)"

definition band_round :: "int \<Rightarrow> int" where
  "band_round v =
     (if v \<ge> 5000 then round_to 250 v
      else if v \<ge> 1000 then round_to 50 v
      else if v \<ge> 200 then round_to 25 v else v)"

lemma round_to_error: "0 < k \<Longrightarrow> \<bar>round_to k v - v\<bar> \<le> k"
  using pos_mod_bound [of "2 * k" "v + k"] pos_mod_sign [of "2 * k" "v + k"]
    minus_mod_eq_div_mult [of "v + k" "2 * k"]
  unfolding round_to_def by linarith

lemma round_to_mono: "0 < k \<Longrightarrow> v \<le> w \<Longrightarrow> round_to k v \<le> round_to k w"
  unfolding round_to_def by (simp add: zdiv_mono1)

lemma round_to_multiple: "0 < k \<Longrightarrow> 2 * k dvd v \<Longrightarrow> round_to k v = v"
  by (auto elim!: dvdE simp: round_to_def div_add1_eq)

lemma round_to_dvd: "2 * k dvd round_to k v"
  by (simp add: round_to_def)

lemma round_to_knots:
  "round_to 25 200 = 200" "round_to 25 1000 = 1000" "round_to 50 1000 = 1000"
  "round_to 50 5000 = 5000" "round_to 250 5000 = 5000"
  by (simp_all add: round_to_def)

lemma round_to_bands:
  "200 \<le> v \<Longrightarrow> 200 \<le> round_to 25 v" "v \<le> 1000 \<Longrightarrow> round_to 25 v \<le> 1000"
  "1000 \<le> v \<Longrightarrow> 1000 \<le> round_to 50 v" "v \<le> 5000 \<Longrightarrow> round_to 50 v \<le> 5000"
  "5000 \<le> v \<Longrightarrow> 5000 \<le> round_to 250 v"
  using round_to_mono [of 25 200 v] round_to_mono [of 25 v 1000] round_to_mono [of 50 1000 v]
    round_to_mono [of 50 v 5000] round_to_mono [of 250 5000 v] round_to_knots
  by simp_all

lemma band_round_error:
  "\<bar>band_round v - v\<bar> \<le> (if v < 200 then 0 else if v < 1000 then 25 else if v < 5000 then 50 else 250)"
  using round_to_error [of 25 v] round_to_error [of 50 v] round_to_error [of 250 v]
  by (simp add: band_round_def)

lemma band_round_mono: "v \<le> w \<Longrightarrow> band_round v \<le> band_round w"
  using round_to_bands [of v] round_to_bands [of w] round_to_mono [of 25 v w]
    round_to_mono [of 50 v w] round_to_mono [of 250 v w]
  by (cases "v < 200"; cases "v < 1000"; cases "v < 5000"; cases "w < 200"; cases "w < 1000";
      cases "w < 5000") (simp_all add: band_round_def)

lemma band_round_idem: "band_round (band_round v) = band_round v"
  using round_to_bands [of v] round_to_multiple [of 25 "round_to 25 v"]
    round_to_multiple [of 50 "round_to 50 v"] round_to_multiple [of 250 "round_to 250 v"]
    round_to_dvd [of 25 v] round_to_dvd [of 50 v] round_to_dvd [of 250 v] round_to_knots
  by (auto simp: band_round_def)

lemma quantize_bands:
  assumes "0 \<le> v" and "v \<le> 2147483397"
  shows "quantize_dist_x10 v u = (if u = 2 \<or> u = 3 then v else band_round v)"
proof -
  have "(v + 250) div 500 * 500 \<le> 2147483647" using assms by linarith
  moreover have "0 \<le> (v + 250) div 500 * 500" "0 \<le> (v + 50) div 100 * 100" "0 \<le> (v + 25) div 50 * 50"
    using assms by simp_all
  ultimately show ?thesis
    using assms
    by (auto simp: quantize_dist_x10_def band_round_def round_to_def cdiv_nonneg i32_rangeI)
qed

text \<open>
  Distance steps: on the values whose rounding does not overflow 32 bits, the shown
  distance never moves against the real one, is off by at most half a step (2.5 units below
  100, 5 below 500, 25 above), does not change when quantized again, and kilometres and miles
  are untouched.
\<close>

theorem quantize_steps:
  assumes "0 \<le> v" and "v \<le> w" and "w \<le> 2147483000"
  shows "quantize_dist_x10 v u \<le> quantize_dist_x10 w u \<and>
    \<bar>quantize_dist_x10 v u - v\<bar> \<le>
      (if v < 200 then 0 else if v < 1000 then 25 else if v < 5000 then 50 else 250) \<and>
    quantize_dist_x10 (quantize_dist_x10 v u) u = quantize_dist_x10 v u \<and>
    (u = 2 \<or> u = 3 \<longrightarrow> quantize_dist_x10 v u = v)"
proof -
  have "0 \<le> band_round v"
    using band_round_mono [OF assms(1)] by (simp add: band_round_def)
  moreover have "band_round v \<le> 2147483250"
    using band_round_error [of v] assms(2,3) by (simp split: if_splits)
  ultimately show ?thesis
    using assms band_round_mono [of v w] band_round_error [of v]
    by (simp add: quantize_bands band_round_idem)
qed

theorem quantize_steps_witness: "quantize_dist_x10 1234 1 \<le> quantize_dist_x10 6000 1"
  using quantize_steps [of 1234 6000 1] by simp

section \<open>The GAL 1.5 callback\<close>

text \<open>
  A GAL 1.5 turn event: with a terminated road name whose length field does not exceed the
  object, the callback makes no access outside an array, and on a live transport the snapshot
  gets the icon of the event with the producer's numbering undone, and the road name - folded
  when folding is on - cut to 63 bytes; distance and lanes stay.
\<close>

theorem nav_cb_next_turn:
  assumes "hud_live h" and "length ws = 9" and "ws ! 0 = kTagNextTurn" and "ws ! 1 \<noteq> 0"
    and "mem (ws ! 1) = Some b" and "0 \<in> set b" and "unat (ws ! 2) \<le> length b"
  shows "\<exists>h'. our_nav_cb cfg False mem (Some ws) h = Some h' \<and>
    sn_icon (hud_snap h') =
      compute_turn_icon (decode_turn_event (ws ! 4)) (ws ! 3) (sint (ws ! 7)) \<and>
    cstr (sn_road (hud_snap h')) =
      take 63 (if cfg_hud_fold_latin cfg then folded 0 (take 255 (cstr b)) else cstr b) \<and>
    sn_dist (hud_snap h') = sn_dist (hud_snap h) \<and> sn_lanes (hud_snap h') = sn_lanes (hud_snap h)"
proof -
  let ?t = "next_turn_hdr ws" and ?ev = "decode_turn_event (ws ! 4)"
  have "\<exists>d. dump_next_turn mem ?t = Some d"
    using assms(4,5,7) by (simp add: dump_next_turn_def next_turn_hdr_def Let_def)
  then obtain d where d: "dump_next_turn mem ?t = Some d" by blast
  have r: "deref_string mem (nt_road_name ?t) = Some (Some b)"
    using assms(4-6) by (simp add: deref_string_def next_turn_hdr_def)
  have cb: "our_nav_cb cfg False mem (Some ws) h =
      hud_tx_next_turn cfg (Some b) (ws ! 3) ?ev (sint (ws ! 7)) h"
    using assms(2,3) d r
    by (simp add: our_nav_cb_def kTagStatus_def kTagNextTurn_def Let_def)
      (simp add: next_turn_hdr_def)
  obtain f where f: "fold_str (Some (strncpy_z 256 b)) 0 = Some (Some f)"
    "cstr f = folded 0 (cstr (strncpy_z 256 b))"
    by (rule fold_str_terminated [where buf = "strncpy_z 256 b" and u = 0])
      (simp_all add: strncpy_z_terminated)
  show ?thesis
    unfolding cb hud_tx_next_turn_def Let_def using f assms(1)
    by (simp add: snap_producers)
qed

theorem nav_cb_next_turn_witness:
  "\<exists>h'. our_nav_cb default_settings False (\<lambda>_. Some [77, 105, 0])
          (Some [0x501, 100, 2, 1, 4, 0, 0, 0, 0]) hud_ready = Some h' \<and>
     sn_icon (hud_snap h') = compute_turn_icon (decode_turn_event 4) 1 0"
  using nav_cb_next_turn [OF hud_ready_live(1), of "[0x501, 100, 2, 1, 4, 0, 0, 0, 0]"
      "\<lambda>_. Some [77, 105, 0]" "[77, 105, 0]" default_settings]
  by (auto simp: kTagNextTurn_def)

text \<open>Undoing the compaction is injective on what the producer sends, and gives the events of the proto.\<close>

lemma decode_turn_event_inj: "inj_on decode_turn_event {0..17}"
  by (rule inj_onI) (auto simp: decode_turn_event_def split: if_splits)

end
