(* ===== verification/Nav_Path.thy ===== *)
theory Nav_Path
  imports Nav16_Spec Nav16_Relay Hud_Display
begin

text \<open>
  The path of a GAL 1.6 navigation frame across components: what \<open>hud.cpp\<close> registers with the
  receiver of \<open>nav16_rx.cpp\<close>, and what a datagram of any content does to the HUD core.
\<close>

section \<open>Datagrams are events of the HUD core\<close>

text \<open>The receiver on one datagram after the other, in the order \<open>recv\<close> delivers them.\<close>

fun rx_run :: "u8 list list \<Rightarrow> 'st rx \<Rightarrow> 'st \<Rightarrow> ('st rx \<times> 'st) option" where
  "rx_run [] rx st = Some (rx, st)"
| "rx_run (dg # dgs) rx st =
     (case rx_datagram dg rx st of None \<Rightarrow> None | Some (rx, st) \<Rightarrow> rx_run dgs rx st)"

lemma rx_run_append:
  "rx_run (xs @ ys) rx st = (case rx_run xs rx st of None \<Rightarrow> None | Some (rx, st) \<Rightarrow> rx_run ys rx st)"
  by (induction xs arbitrary: rx st) (simp_all split: option.splits prod.splits)

lemma hud_events_append:
  "hud_events cfg (xs @ ys) h = Option.bind (hud_events cfg xs h) (hud_events cfg ys)"
proof (induction xs arbitrary: h)
  case (Cons x xs)
  then show ?case by (cases "hud_event cfg x h") simp_all
qed simp

lemma hud_events_one: "hud_events cfg [e] h = hud_event cfg e h"
  by (cases "hud_event cfg e h") simp_all

text \<open>Any frame is some sequence of events of the HUD core.\<close>

lemma feed_is_events:
  assumes len: "len \<le> int (length buf)"
  shows "\<exists>es. hud_nav16_feed (nav16_callbacks cfg) (Some buf) len (Some h) = Some (hud_events cfg es h)"
proof (cases "len < 2")
  case True
  then show ?thesis by (intro exI [of _ "[]"]) (simp add: hud_nav16_feed_def)
next
  case False
  then have l: "2 \<le> length buf" "2 \<le> len" "len - 2 \<le> int (length buf - 2)" using len by linarith+
  then obtain m r1 g r2 p r3 n where m: "frame_msg_id buf = Some m"
    and d: "hud_nav16_decode_navstate buf 2 (len - 2) = Some (r1, g)"
      "hud_nav16_decode_position buf 2 (len - 2) = Some (r2, p)"
      "hud_nav16_read_status (Some buf) len = Some (r3, n)"
    using frame_msg_id_total decode_navstate_total decode_position_total read_status_total [OF len] by meson
  define es where "es =
    (if m = AA_NAV16_MSG_NAV_STATE then [Guidance_ev g]
     else if m = AA_NAV16_MSG_POSITION then [Position_ev p]
     else if m = AA_NAV16_MSG_STATUS then [Status_ev \<lparr>nav_status = n, cluster_stop = False\<rparr>]
     else if m = AA_NAV16_MSG_CLUSTER_STOP then [Status_ev \<lparr>nav_status = -1, cluster_stop = True\<rparr>]
     else [])"
  have "hud_nav16_feed (nav16_callbacks cfg) (Some buf) len (Some h) = Some (hud_events cfg es h)"
    unfolding feed_delivers [OF m l(2) d] es_def by (simp add: nav16_callbacks_def hud_events_one del: hud_events.simps(2))
  then show ?thesis ..
qed

lemma datagram_is_events:
  assumes "rx_sink rx = nav16_callbacks cfg"
  shows "\<exists>rx' es. rx_datagram dg rx (Some h) = Some (rx', hud_events cfg es h) \<and> rx_sink rx' = nav16_callbacks cfg"
proof -
  let ?buf = "take (8 + AA_NAV16_MAX_FRAME) dg"
  let ?len = "int (unat (hdr_len (bytes_hdr ?buf)))"
  show ?thesis
  proof (cases "length ?buf < 8 \<or> hdr_magic (bytes_hdr ?buf) \<noteq> AA_NAV16_MAGIC \<or>
      hdr_version (bytes_hdr ?buf) \<noteq> AA_NAV16_VERSION \<or> ?len < 2 \<or> ?len > int AA_NAV16_MAX_FRAME \<or>
      8 + ?len > int (length ?buf)")
    case True
    then have "rx_datagram dg rx (Some h) = Some (rx, hud_events cfg [] h)"
      by (auto simp: rx_datagram_def Let_def)
    then show ?thesis using assms by blast
  next
    case False
    then have "?len \<le> int (length (drop 8 ?buf))" by auto
    then obtain es where es: "hud_nav16_feed (nav16_callbacks cfg) (Some (drop 8 ?buf)) ?len (Some h) =
        Some (hud_events cfg es h)" using feed_is_events by blast
    have "rx_datagram dg rx (Some h) = Some (rx\<lparr>rx_seen := True\<rparr>, hud_events cfg es h)"
      using False es assms by (auto simp: rx_datagram_def Let_def)
    then show ?thesis using assms by (intro exI [of _ "rx\<lparr>rx_seen := True\<rparr>"]) auto
  qed
qed

lemma run_is_events:
  assumes "rx_sink rx = nav16_callbacks cfg"
  shows "\<exists>rx' es. rx_run dgs rx (Some h) = Some (rx', hud_events cfg es h) \<and> rx_sink rx' = nav16_callbacks cfg"
  using assms
proof (induction dgs arbitrary: rx h)
  case Nil
  then show ?case by (intro exI [of _ rx] exI [of _ "[]"]) simp
next
  case (Cons dg dgs)
  obtain rx1 es1 where d: "rx_datagram dg rx (Some h) = Some (rx1, hud_events cfg es1 h)"
    "rx_sink rx1 = nav16_callbacks cfg" using datagram_is_events [OF Cons.prems] by blast
  obtain h1 where h1: "hud_events cfg es1 h = Some h1" using events_total by blast
  obtain rx2 es2 where "rx_run dgs rx1 (Some h1) = Some (rx2, hud_events cfg es2 h1)"
    "rx_sink rx2 = nav16_callbacks cfg" using Cons.IH [OF d(2)] by blast
  then show ?case
    using d(1) h1 by (intro exI [of _ rx2] exI [of _ "es1 @ es2"]) (simp add: hud_events_append)
qed

text \<open>A well-formed guidance message is the event of its meaning.\<close>

lemma guidance_datagram:
  assumes "rx_sink rx = nav16_callbacks cfg" and "list_all state_field_ok fs"
    and "raw = msg_frame AA_NAV16_MSG_NAV_STATE (enc_message enc_state fs)" and "length raw \<le> 1024"
    and "frame_bytes oem r = (Some raw, int (length raw))"
    and "relay_frame oem env r fd = Some (fd', Some dg)"
  shows "rx_datagram dg rx (Some h) =
    Some (rx\<lparr>rx_seen := True\<rparr>, hud_events cfg [Guidance_ev (guidance_of fs)] h)"
proof -
  have n: "length raw = length (enc_message enc_state fs) + 2" using assms(3) by (simp add: msg_frame_def)
  have id: "frame_msg_id raw = Some AA_NAV16_MSG_NAV_STATE"
    unfolding assms(3) by (rule frame_msg_id_frame) (simp add: nav16_msg_ids)
  have dec: "hud_nav16_decode_navstate raw 2 (int (length raw) - 2) = Some (True, guidance_of fs)"
    using decode_encoded_state [OF assms(2), of AA_NAV16_MSG_NAV_STATE] n by (simp add: assms(3))
  have "hud_nav16_feed (nav16_callbacks cfg) (Some raw) (int (length raw)) (Some h) =
      Some (nav16_on_guidance cfg (guidance_of fs) h)"
    using feed_guidance [OF id _ _ dec, of "nav16_callbacks cfg" _ "Some h"] n by (simp add: nav16_callbacks_def)
  moreover have "rx_datagram dg rx (Some h) = map_option (\<lambda>st'. (rx\<lparr>rx_seen := True\<rparr>, st'))
      (hud_nav16_feed (rx_sink rx) (Some raw) (int (length raw)) (Some h))"
    using rx_good_datagram [OF relayed_datagram [OF assms(5) _ _ assms(6)], of rx "Some h"] n assms(4) by simp
  ultimately show ?thesis using assms(1) by (simp add: hud_events_one del: hud_events.simps(2))
qed

text \<open>
  After any datagrams, a relayed navigation state leaves its guidance in the accumulator, held by the
  change gate.
\<close>

lemma path_run:
  assumes "hud_live h" and "\<not> hd_have_last h" and "rx_sink rx = nav16_callbacks cfg"
    and "list_all state_field_ok fs"
    and "raw = msg_frame AA_NAV16_MSG_NAV_STATE (enc_message enc_state fs)" and "length raw \<le> 1024"
    and "frame_bytes oem r = (Some raw, int (length raw))"
    and "relay_frame oem env r fd = Some (fd', Some dg)"
  obtains rx' h' es a where "rx_run (dgs @ [dg]) rx (Some h) = Some (rx', Some h')" and "rx_seen rx'"
    and "hud_events cfg es h = Some h'" and "hd_acc h' = ingest cfg (guidance_of fs) a"
    and "hd_have_last h'" and "gate_inv h'"
proof -
  let ?g = "guidance_of fs"
  obtain rx1 es where run: "rx_run dgs rx (Some h) = Some (rx1, hud_events cfg es h)"
    and sink: "rx_sink rx1 = nav16_callbacks cfg"
    using run_is_events [OF assms(3)] by blast
  obtain h1 where h1: "hud_events cfg es h = Some h1" using events_total by blast
  define h' where "h' = nav16_emit_if_changed (h1\<lparr>hd_acc := ingest cfg ?g (hd_acc h1)\<rparr>)"
  have last: "hud_event cfg (Guidance_ev ?g) h1 = Some h'"
    by (simp add: h'_def on_guidance_ingest)
  then have all: "hud_events cfg (es @ [Guidance_ev ?g]) h = Some h'"
    by (simp add: hud_events_append h1)
  have "rx_run (dgs @ [dg]) rx (Some h) = Some (rx1\<lparr>rx_seen := True\<rparr>, Some h')"
    using run h1 guidance_datagram [OF sink assms(4-8), of h1] last
    by (simp add: rx_run_append hud_events_one)
  moreover have "rx_seen (rx1\<lparr>rx_seen := True\<rparr>)" by simp
  moreover have "hd_acc h' = ingest cfg ?g (hd_acc h1)" and "hd_have_last h'"
    using emit_same [of "h1\<lparr>hd_acc := ingest cfg ?g (hd_acc h1)\<rparr>"] by (simp_all add: h'_def)
  moreover have "gate_inv h'"
    by (rule events_gate [OF _ all]) (use assms(1,2) in \<open>simp add: gate_inv_def\<close>)
  ultimately show thesis using all by (intro that)
qed

section \<open>The navigation-service transport\<close>

lemma svc_producers_reachable:
  assumes "svc_step\<^sup>*\<^sup>* (svc_init env) s"
  shows "svc_step\<^sup>*\<^sup>* (svc_init env) (svcnavi_tx_status v s)"
    "svc_step\<^sup>*\<^sup>* (svc_init env) (svcnavi_tx_next_turn r icon s)"
    "svc_step\<^sup>*\<^sup>* (svc_init env) (svcnavi_tx_distance d u s)"
    "8 \<le> length ls \<Longrightarrow> svc_step\<^sup>*\<^sup>* (svc_init env) (svcnavi_tx_lanes (Some ls) s)"
  using assms
  by (auto simp: svc_step_def backend_defs intro: rtranclp.rtrancl_into_rtrancl
      tx_step.status tx_step.next_turn tx_step.distance tx_step.set_lanes)

lemma svc_core_reachable:
  assumes "svc_step\<^sup>*\<^sup>* (svc_init env) (hd_svc h)"
  shows "svc_step\<^sup>*\<^sup>* (svc_init env) (hd_svc (g_tx_status v h))"
    "svc_step\<^sup>*\<^sup>* (svc_init env) (hd_svc (nav16_emit_if_changed h))"
proof -
  have p: "svc_step\<^sup>*\<^sup>* (svc_init env) (hd_svc (g_tx_status v k))"
      "svc_step\<^sup>*\<^sup>* (svc_init env) (hd_svc (g_tx_next_turn r icon k))"
      "svc_step\<^sup>*\<^sup>* (svc_init env) (hd_svc (g_tx_distance d u k))"
      "8 \<le> length ls \<Longrightarrow> svc_step\<^sup>*\<^sup>* (svc_init env) (hd_svc (g_tx_lanes ls k))"
    if "svc_step\<^sup>*\<^sup>* (svc_init env) (hd_svc k)" for k v r icon d u ls
    using that svc_producers_reachable [OF that] by (cases "hd_tx k"; simp add: g_tx_defs)+
  show "svc_step\<^sup>*\<^sup>* (svc_init env) (hd_svc (g_tx_status v h))" by (rule p(1) [OF assms])
  show "svc_step\<^sup>*\<^sup>* (svc_init env) (hd_svc (nav16_emit_if_changed h))"
    unfolding emit_eq emit_calls_def using assms by (simp add: p)
qed

lemma svc_events_reachable:
  "hud_events cfg es h = Some h' \<Longrightarrow> svc_step\<^sup>*\<^sup>* (svc_init env) (hd_svc h) \<Longrightarrow>
   svc_step\<^sup>*\<^sup>* (svc_init env) (hd_svc h')"
proof (induction es arbitrary: h)
  case (Cons e es)
  then obtain h1 where h1: "hud_event cfg e h = Some h1" "hud_events cfg es h1 = Some h'"
    by (auto simp: bind_eq_Some_conv)
  from h1(1) have "svc_step\<^sup>*\<^sup>* (svc_init env) (hd_svc h1)"
    by (cases rule: event_cases) (use Cons.prems(2) svc_core_reachable in \<open>auto simp: hud_feed_nav16_reset_def\<close>)
  then show ?case using Cons.IH h1(2) by blast
qed simp

lemma svc_pass_shows_acc:
  assumes "gate_inv h" and "hd_have_last h" and "hd_tx h = HUD_TRANSPORT_SVCNAVI"
    and "svc_step\<^sup>*\<^sup>* (svc_init env) (hd_svc h)"
    and "tx_commits (hd_svc h) - sd_seen (hd_svc h) < 2 ^ 31"
    and "\<not> sv_lost (sd_local (sender_pass svc_send_one (hd_svc h)))"
  shows "session_guidance (sv_calls (sd_local (sender_pass svc_send_one (hd_svc h)))) =
    signal_of (snapshot_of (hd_acc h))"
proof -
  have snap: "tx_snap (hd_svc h) = snapshot_of (hd_acc h)" and "hud_live h"
    using assms(1-3) by (auto simp: gate_inv_def hud_snap_def)
  then have "tx_active (hd_svc h)" using assms(3) by (simp add: hud_live_def)
  then have "sd_pc (hd_svc h) = SenderLoop"
    using svc.gone_is_idle(2) [where s = "hd_svc h"] assms(4) by (auto simp: svc_step_def svc_init_def)
  then show ?thesis
    using svc.pass_shows_latest [where s = "hd_svc h"] assms(4-6) snap
    by (simp add: svc_step_def svc_init_def svc_shown_def)
qed

text \<open>A session: three stray bytes, then the sample message of \<open>Nav16_Spec\<close>.\<close>

definition path_rx :: "hud option rx" where
  "path_rx = \<lparr>rx_stop = False, rx_seen = False, rx_thread_up = True, rx_fd = 4, rx_stop_fd = 5,
     rx_sink = nav16_callbacks default_settings\<rparr>"

definition path_oem :: "(u8 list, u8 list) oem_iob" where
  "path_oem = \<lparr>sp_deref = Some, iob_raw = Some, iob_size = \<lambda>b. int (length b)\<rparr>"

definition path_frame :: "u8 list" where
  "path_frame = msg_frame AA_NAV16_MSG_NAV_STATE (enc_message enc_state sample_state)"

definition path_end :: hud where
  "path_end = nav16_emit_if_changed
     (hud_ready\<lparr>hd_acc := ingest default_settings (guidance_of sample_state) (hd_acc hud_ready)\<rparr>)"

lemma path_end_facts:
  "tx_commits (hd_vbs path_end) = 3" "sd_seen (hd_vbs path_end) = 0"
  "sd_local (hd_vbs path_end) = sd_local vbs_live"
  by (simp_all add: path_end_def hud_ready_def emit_eq emit_calls_def
      g_tx_defs backend_defs producer_defs vbs_live_facts ingest_def Let_def)

lemma path_frame_bytes:
  "frame_bytes path_oem (Some path_frame) = (Some path_frame, int (length path_frame))"
  "2 \<le> length path_frame" "length path_frame \<le> 1024"
  by (simp_all add: frame_bytes_def path_oem_def path_frame_def msg_frame_def sample_state_def
      enc_field_def enc_tag_def enc_varint.simps drop_bit_eq_div)

text \<open>The same message on the navigation-service transport.\<close>

definition service_ready :: hud where
  "service_ready =
     \<lparr>hd_tx = HUD_TRANSPORT_SVCNAVI, hd_vbs = vbs_init, hd_svc = svc_live,
      hd_acc = zero_hud_state, hd_last = zero_hud_state, hd_have_last = False\<rparr>"

definition service_end :: hud where
  "service_end = nav16_emit_if_changed
     (service_ready\<lparr>hd_acc := ingest default_settings (guidance_of sample_state) (hd_acc service_ready)\<rparr>)"

lemma service_ready_facts:
  "hd_tx service_ready = HUD_TRANSPORT_SVCNAVI" "hud_live service_ready" "\<not> hd_have_last service_ready"
  "svc_step\<^sup>*\<^sup>* (svc_init svc_all_ok) (hd_svc service_ready)"
proof -
  show "hd_tx service_ready = HUD_TRANSPORT_SVCNAVI" "hud_live service_ready" "\<not> hd_have_last service_ready"
    by (simp_all add: service_ready_def hud_live_def svc_live_facts)
  let ?s1 = "svcnavi_tx_start True (svc_init svc_all_ok)"
  have "svc_step (svc_init svc_all_ok) ?s1"
    unfolding svc_step_def svcnavi_tx_start_def by (rule tx_step.start)
  moreover have "svc_step ?s1 svc_live"
    unfolding svc_step_def svc_live_def
    using tx_step.main_begin [of ?s1 False]
    by (simp add: svcnavi_tx_start_def tx_start_def svc_init_def sender_init_def Let_def)
  ultimately show "svc_step\<^sup>*\<^sup>* (svc_init svc_all_ok) (hd_svc service_ready)"
    by (simp add: service_ready_def converse_rtranclp_into_rtranclp)
qed

lemma service_end_facts:
  "tx_commits (hd_svc service_end) = 3" "sd_seen (hd_svc service_end) = 0"
  "sd_local (hd_svc service_end) = sd_local svc_live"
  by (simp_all add: service_end_def service_ready_def emit_eq emit_calls_def
      g_tx_defs backend_defs producer_defs svc_live_facts ingest_def Let_def)

lemma service_end_sent: "\<not> sv_lost (sd_local (sender_pass svc_send_one (hd_svc service_end)))"
  by (simp add: sender_pass_def service_end_facts svc_send_one_def svc_emit_def svc_live_facts
      svc_all_ok_def emit_guidance_def list_all_iff)

lemma path_datagram:
  obtains dg where "relay_frame path_oem \<lparr>tx_sock = 3, tx_sent = True\<rparr> (Some path_frame) (-1) = Some (3, Some dg)"
  using path_frame_bytes(2,3)
  by (simp add: relay_frame_def path_frame_bytes(1) nav16_send_raw_def AA_NAV16_MAX_FRAME_def)

lemma path_sample_run:
  assumes "relay_frame path_oem env (Some path_frame) fd = Some (fd', Some dg)"
  shows "rx_run [[1, 2, 3], dg] path_rx (Some h) =
    Some (path_rx\<lparr>rx_seen := True\<rparr>, nav16_on_guidance default_settings (guidance_of sample_state) h)"
proof -
  have s: "rx_sink path_rx = nav16_callbacks default_settings" by (simp add: path_rx_def)
  have "rx_datagram [1, 2, 3] path_rx st = Some (path_rx, st)" for st
    by (simp add: rx_datagram_def Let_def)
  then show ?thesis
    using guidance_datagram [OF s sample_state_ok path_frame_def path_frame_bytes(3,1) assms, of h]
    by (simp add: hud_events_one del: hud_events.simps(2))
qed

end
