(* ===== verification/Dbus_Watch.thy ===== *)
theory Dbus_Watch
  imports Prelude
begin

text \<open>
  The watch table of the play/pause bridge (\<open>playpause/playpause.cpp\<close>): the four slots libdbus
  fills through the add and remove callbacks, the poll set built from them and the watch flags
  made from the poll results.  The locale \<open>bounded_set\<close> is the contract libdbus relies on: a
  set of watches of bounded size; the table is interpreted as one.
\<close>

definition kMaxDbusWatches :: nat where "kMaxDbusWatches = 4"

definition clear_dbus_watches :: "'w option list" where
  "clear_dbus_watches = replicate kMaxDbusWatches None"

definition dbus_watch_is_registered :: "'w \<Rightarrow> 'w option list \<Rightarrow> bool" where
  "dbus_watch_is_registered w items \<longleftrightarrow> list_ex (\<lambda>x. x = Some w) items"

text \<open>The two loops store into the first slot that matches.\<close>

fun put_first :: "'w option \<Rightarrow> 'w option \<Rightarrow> 'w option list \<Rightarrow> 'w option list" where
  "put_first old new [] = []"
| "put_first old new (x # xs) = (if x = old then new # xs else x # put_first old new xs)"

definition add_dbus_watch :: "'w \<Rightarrow> 'w option list \<Rightarrow> bool \<times> 'w option list" where
  "add_dbus_watch w items =
     (if dbus_watch_is_registered w items then (True, items)
      else if list_ex (\<lambda>x. x = None) items then (True, put_first None (Some w) items)
      else (False, items))"

definition remove_dbus_watch :: "'w \<Rightarrow> 'w option list \<Rightarrow> 'w option list" where
  "remove_dbus_watch w items = put_first (Some w) None items"

section \<open>A bounded set of watches\<close>

locale bounded_set =
  fixes cap :: nat
    and none :: 's
    and mem :: "'w \<Rightarrow> 's \<Rightarrow> bool"
    and ins :: "'w \<Rightarrow> 's \<Rightarrow> bool \<times> 's"
    and del :: "'w \<Rightarrow> 's \<Rightarrow> 's"
    and ok :: "'s \<Rightarrow> bool"
    and elems :: "'s \<Rightarrow> 'w set"
  assumes none_ok: "ok none" and none_elems: "elems none = {}"
    and bounded: "ok s \<Longrightarrow> finite (elems s) \<and> card (elems s) \<le> cap"
    and mem_elems: "ok s \<Longrightarrow> mem w s \<longleftrightarrow> w \<in> elems s"
    and ins_ok: "ok s \<Longrightarrow> ok (snd (ins w s))"
    and ins_accepts: "ok s \<Longrightarrow> fst (ins w s) \<longleftrightarrow> w \<in> elems s \<or> card (elems s) < cap"
    and ins_elems: "ok s \<Longrightarrow> elems (snd (ins w s)) = (if fst (ins w s) then insert w (elems s) else elems s)"
    and del_ok: "ok s \<Longrightarrow> ok (del w s)"
    and del_elems: "ok s \<Longrightarrow> elems (del w s) = elems s - {w}"
begin

text \<open>Any sequence of callbacks: \<open>Inl\<close> adds, \<open>Inr\<close> removes.\<close>

fun calls :: "('w + 'w) list \<Rightarrow> 's \<Rightarrow> 's" where
  "calls [] s = s"
| "calls (Inl w # cs) s = calls cs (snd (ins w s))"
| "calls (Inr w # cs) s = calls cs (del w s)"

lemma calls_ok: "ok s \<Longrightarrow> ok (calls cs s)"
  by (induction cs s rule: calls.induct) (simp_all add: ins_ok del_ok)

lemma calls_bounded: "finite (elems (calls cs none)) \<and> card (elems (calls cs none)) \<le> cap"
  using bounded [OF calls_ok [OF none_ok]] .

lemma del_then_ins:
  assumes "ok s" and "w \<in> elems s"
  shows "fst (ins v (del w s))"
proof -
  have "card (elems (del w s)) < cap"
    using assms bounded [OF assms(1)] card_Diff1_less [of "elems s" w] by (simp add: del_elems)
  then show ?thesis using ins_accepts [OF del_ok [OF assms(1)]] by simp
qed

end

text \<open>A table of the right size that holds no watch twice.\<close>

definition table_ok :: "'w option list \<Rightarrow> bool" where
  "table_ok items \<longleftrightarrow>
     length items = kMaxDbusWatches \<and> distinct (filter (\<lambda>x. x \<noteq> None) items)"

definition table_elems :: "'w option list \<Rightarrow> 'w set" where
  "table_elems items = {w. Some w \<in> set items}"

lemma registered_iff: "dbus_watch_is_registered w items \<longleftrightarrow> w \<in> table_elems items"
  by (auto simp: dbus_watch_is_registered_def table_elems_def list_ex_iff)

lemma length_put_first [simp]: "length (put_first a b xs) = length xs"
  by (induction xs) auto

lemma put_first_none_elems:
  "None \<in> set xs \<Longrightarrow> table_elems (put_first None (Some w) xs) = insert w (table_elems xs)"
  by (induction xs) (auto simp: table_elems_def)

lemma put_first_none_distinct:
  "distinct (filter (\<lambda>x. x \<noteq> None) xs) \<Longrightarrow> w \<notin> table_elems xs \<Longrightarrow>
   distinct (filter (\<lambda>x. x \<noteq> None) (put_first None (Some w) xs)) \<and>
   set (put_first None (Some w) xs) \<subseteq> insert (Some w) (set xs)"
  by (induction xs) (auto simp: table_elems_def)

lemma put_first_some:
  "distinct (filter (\<lambda>x. x \<noteq> None) xs) \<Longrightarrow>
   distinct (filter (\<lambda>x. x \<noteq> None) (put_first (Some w) None xs)) \<and>
   table_elems (put_first (Some w) None xs) = table_elems xs - {w} \<and>
   set (put_first (Some w) None xs) \<subseteq> insert None (set xs)"
  by (induction xs) (auto simp: table_elems_def)

lemma table_card:
  assumes "table_ok items"
  shows "finite (table_elems items) \<and>
    card (table_elems items) + length (filter (\<lambda>x. x = None) items) = kMaxDbusWatches"
proof -
  let ?s = "filter (\<lambda>x. x \<noteq> None) items"
  have e: "Some ` table_elems items = set ?s" by (auto simp: table_elems_def)
  then have "finite (table_elems items)" by (metis List.finite_set finite_imageD inj_Some)
  moreover have "card (table_elems items) = length ?s"
    using assms e by (metis table_ok_def card_image inj_Some distinct_card)
  moreover have "length ?s + length (filter (\<lambda>x. x = None) items) = length items"
    using sum_length_filter_compl [of "\<lambda>x. x \<noteq> None" items] by simp
  ultimately show ?thesis using assms by (simp add: table_ok_def)
qed

lemma table_full_iff:
  assumes "table_ok items"
  shows "card (table_elems items) < kMaxDbusWatches \<longleftrightarrow> None \<in> set items"
proof -
  have "None \<in> set items \<longleftrightarrow> length (filter (\<lambda>x. x = None) items) \<noteq> 0"
    by (auto simp: filter_empty_conv)
  then show ?thesis using table_card [OF assms] by linarith
qed

lemma add_twice:
  "add_dbus_watch w (snd (add_dbus_watch w t)) = add_dbus_watch w t"
proof (cases "dbus_watch_is_registered w t \<or> None \<notin> set t")
  case True
  then show ?thesis by (auto simp: add_dbus_watch_def list_ex_iff)
next
  case False
  then have "add_dbus_watch w t = (True, put_first None (Some w) t)"
    by (auto simp: add_dbus_watch_def list_ex_iff)
  moreover have "dbus_watch_is_registered w (put_first None (Some w) t)"
    using False put_first_none_elems [of t w] by (simp add: registered_iff)
  ultimately show ?thesis by (simp add: add_dbus_watch_def)
qed

interpretation watches: bounded_set kMaxDbusWatches clear_dbus_watches dbus_watch_is_registered
  add_dbus_watch remove_dbus_watch table_ok table_elems
proof
  show "table_ok (clear_dbus_watches :: 'a option list)"
    by (simp add: table_ok_def clear_dbus_watches_def)
  show "table_elems (clear_dbus_watches :: 'a option list) = {}"
    by (simp add: table_elems_def clear_dbus_watches_def)
next
  fix s :: "'a option list" and w
  assume ok: "table_ok s"
  note full = table_full_iff [OF ok]
  show "finite (table_elems s) \<and> card (table_elems s) \<le> kMaxDbusWatches"
    using table_card [OF ok] by simp
  show "dbus_watch_is_registered w s \<longleftrightarrow> w \<in> table_elems s" by (rule registered_iff)
  show "fst (add_dbus_watch w s) \<longleftrightarrow> w \<in> table_elems s \<or> card (table_elems s) < kMaxDbusWatches"
    using full by (auto simp: add_dbus_watch_def registered_iff list_ex_iff)
  show "table_ok (snd (add_dbus_watch w s))"
    using ok put_first_none_distinct [of s w]
    by (auto simp: add_dbus_watch_def registered_iff table_ok_def)
  show "table_elems (snd (add_dbus_watch w s)) =
      (if fst (add_dbus_watch w s) then insert w (table_elems s) else table_elems s)"
    using put_first_none_elems [of s w]
    by (auto simp: add_dbus_watch_def registered_iff list_ex_iff)
  show "table_ok (remove_dbus_watch w s)"
    using ok put_first_some [of s w] by (simp add: remove_dbus_watch_def table_ok_def)
  show "table_elems (remove_dbus_watch w s) = table_elems s - {w}"
    using ok put_first_some [of s w] by (simp add: remove_dbus_watch_def table_ok_def)
qed

text \<open>
  C39.  The four-slot watch table is a set of at most four watches, in every table that a sequence
  of add and remove callbacks leaves: a watch that is accepted is in it afterwards, with all that
  were there before, and a refused one changes nothing; a watch is refused only when four others
  are registered; removing takes out that watch alone and frees its slot for any other; the
  membership test answers for exactly the watches in the table.
\<close>

theorem watch_table_is_set:
  "let t = watches.calls cs (clear_dbus_watches :: 'w option list) in
     finite (table_elems t) \<and> card (table_elems t) \<le> kMaxDbusWatches \<and>
     (dbus_watch_is_registered w t \<longleftrightarrow> w \<in> table_elems t) \<and>
     (fst (add_dbus_watch w t) \<longleftrightarrow> w \<in> table_elems t \<or> card (table_elems t) < kMaxDbusWatches) \<and>
     table_elems (snd (add_dbus_watch w t)) =
       (if fst (add_dbus_watch w t) then insert w (table_elems t) else table_elems t) \<and>
     add_dbus_watch w (snd (add_dbus_watch w t)) = add_dbus_watch w t \<and>
     table_elems (remove_dbus_watch w t) = table_elems t - {w} \<and>
     (w \<in> table_elems t \<longrightarrow> fst (add_dbus_watch v (remove_dbus_watch w t)))"
proof -
  let ?t = "watches.calls cs (clear_dbus_watches :: 'w option list)"
  have ok: "table_ok ?t" by (rule watches.calls_ok [OF watches.none_ok])
  show ?thesis
    unfolding Let_def
    using watches.calls_bounded [of cs] watches.ins_accepts [OF ok, of w] watches.ins_elems [OF ok, of w]
      watches.mem_elems [OF ok, of w] watches.del_elems [OF ok, of w] add_twice [of w ?t]
      watches.del_then_ins [OF ok, of w v]
    by blast
qed

text \<open>Four watches fill the table; the fifth is refused until one of them is removed.\<close>

theorem watch_table_is_set_witness:
  "let t = watches.calls [Inl 1, Inl 2, Inl 3, Inl 4] (clear_dbus_watches :: nat option list) in
     table_elems t = {1, 2, 3, 4} \<and> \<not> fst (add_dbus_watch 5 t) \<and>
     fst (add_dbus_watch 5 (remove_dbus_watch 2 t)) \<and>
     table_elems (remove_dbus_watch 2 t) = {1, 3, 4}"
proof -
  let ?t = "watches.calls [Inl 1, Inl 2, Inl 3, Inl 4] (clear_dbus_watches :: nat option list)"
  have none: "clear_dbus_watches = [None, None, None, None :: nat option]"
    by (simp add: clear_dbus_watches_def kMaxDbusWatches_def numeral_eq_Suc)
  have t: "?t = [Some 1, Some 2, Some 3, Some 4]"
    unfolding none by (simp add: add_dbus_watch_def dbus_watch_is_registered_def)
  have e: "table_elems ?t = {1, 2, 3, 4}" unfolding t by (auto simp: table_elems_def)
  have five: "\<not> fst (add_dbus_watch 5 ?t)"
    using watch_table_is_set [of "[Inl 1, Inl 2, Inl 3, Inl 4]" "5 :: nat" 0]
    unfolding Let_def e by (simp add: kMaxDbusWatches_def del: watches.calls.simps)
  have "table_elems (remove_dbus_watch 2 ?t) = {1, 2, 3, 4} - {2}"
    "fst (add_dbus_watch 5 (remove_dbus_watch 2 ?t))"
    using watch_table_is_set [of "[Inl 1, Inl 2, Inl 3, Inl 4]" "2 :: nat" 5] unfolding Let_def e
    by (simp_all del: watches.calls.simps)
  moreover have "{1, 2, 3, 4} - {2} = {1, 3, 4 :: nat}" by auto
  ultimately show ?thesis unfolding Let_def using e five by metis
qed

end
