(* ===== verification/Play_Pause.thy ===== *)
theory Play_Pause
  imports Dbus_Watch Config
begin

text \<open>
  The mute to play/pause bridge (\<open>playpause/playpause.cpp\<close>): the filter on the key-input
  function of the projection library, the media keys the watcher sends through it, the latch
  \<open>g_we_paused\<close>, the watch loop and the reconnecting watcher thread.  The OEM objects and
  libdbus are inputs: a \<open>key_env\<close> gives the audio manager's answers and the key path for one
  message, a \<open>loop_input\<close> what one pass of the watch loop sees.
\<close>

section \<open>Key events and the filter\<close>

record AAP_KeyEvent =
  eType :: u32
  eKeyCode :: u32
  bDown :: u32

definition kAAPKeyEventType :: u32 where "kAAPKeyEventType = 0xe00"
definition kAAPKeyMediaPlay :: u32 where "kAAPKeyMediaPlay = 0x7e"
definition kAAPKeyMediaPause :: u32 where "kAAPKeyMediaPause = 0x7f"
definition kAapSessionNotConnected :: int where "kAapSessionNotConnected = 0x108"
definition kSavedDeviceCount :: u32 where "kSavedDeviceCount = 10"
definition kEntMuteOn :: u8 where "kEntMuteOn = 2"
definition kEntMuteOff :: u8 where "kEntMuteOff = 1"

definition should_filter_media_play :: "AAP_KeyEvent option \<Rightarrow> bool" where
  "should_filter_media_play event =
     (case event of None \<Rightarrow> False
      | Some key \<Rightarrow> eType key = kAAPKeyEventType \<and> eKeyCode key = kAAPKeyMediaPlay)"

text \<open>\<open>real\<close> is the resolved implementation, \<open>allow\<close> the thread's exemption flag.\<close>

definition aap_send_key_input ::
  "Settings \<Rightarrow> bool \<Rightarrow> (AAP_KeyEvent option \<Rightarrow> int) option \<Rightarrow> AAP_KeyEvent option \<Rightarrow> int" where
  "aap_send_key_input cfg allow real event =
     (if cfg_block_headunit_media_play cfg \<and> \<not> allow \<and> should_filter_media_play event then 0
      else (case real of None \<Rightarrow> 0x103 | Some f \<Rightarrow> f event))"

section \<open>Saved audio state\<close>

definition observe_initial_record :: "u32 \<Rightarrow> u32 \<Rightarrow> bool \<times> u32 \<times> u32" where
  "observe_initial_record seen last_audio =
     (if seen \<ge> kSavedDeviceCount then (False, seen, last_audio)
      else if last_audio = 0 then (False, seen + 1, last_audio)
      else (True, seen + 1, 0))"

text \<open>
  \<open>real\<close> returns the position after the record (\<open>None\<close> at the end) and the last-audio word it
  stored; \<open>has_out\<close> tells whether the caller passed a place for it.
\<close>

definition SerialID_BufGet ::
  "Settings \<Rightarrow> ('b \<Rightarrow> 'b option \<times> u32) option \<Rightarrow> bool \<Rightarrow> 'b \<Rightarrow> u32 \<Rightarrow> 'b option \<times> u32 \<times> u32" where
  "SerialID_BufGet cfg real has_out buf seen =
     (case real of
        None \<Rightarrow> (None, 0, seen)
      | Some f \<Rightarrow>
          (let (nxt, last_audio) = f buf in
           if nxt \<noteq> None \<and> cfg_block_headunit_media_play cfg \<and> has_out then
             (let (_, seen, last_audio) = observe_initial_record seen last_audio in
              (nxt, last_audio, seen))
           else (nxt, last_audio, seen)))"

section \<open>Media keys and the latch\<close>

record key_env =
  ke_aap :: bool
  ke_audio :: bool
  ke_focus :: bool
  ke_playing :: bool
  ke_race :: bool
  ke_send :: "(AAP_KeyEvent option \<Rightarrow> int) \<Rightarrow> AAP_KeyEvent \<Rightarrow> int"
  ke_real :: "(AAP_KeyEvent option \<Rightarrow> int) option"

text \<open>
  \<open>pp_keys\<close> records the keys the watcher tried to send and whether the hook answered 0 for both
  halves, which is what the code takes for delivered.
\<close>

record pp =
  pp_we_paused :: bool
  pp_allow :: bool
  pp_keys :: "(u32 \<times> bool) list"

definition aa_media_in_focus :: "key_env \<Rightarrow> bool" where
  "aa_media_in_focus e \<longleftrightarrow> ke_aap e \<and> ke_audio e \<and> ke_focus e"

definition aa_media_in_playing :: "key_env \<Rightarrow> bool" where
  "aa_media_in_playing e \<longleftrightarrow> ke_aap e \<and> ke_audio e \<and> ke_playing e"

definition send_media_key :: "Settings \<Rightarrow> key_env \<Rightarrow> u32 \<Rightarrow> pp \<Rightarrow> bool \<times> pp" where
  "send_media_key cfg e keycode s =
     (if \<not> ke_aap e then (False, s)
      else if \<not> ke_race e then (False, s)
      else
        let evt = \<lparr>eType = kAAPKeyEventType, eKeyCode = keycode, bDown = 0\<rparr>;
            exempt_play = (keycode = kAAPKeyMediaPlay);
            previous_exemption = pp_allow s;
            s = (if exempt_play then s\<lparr>pp_allow := True\<rparr> else s);
            race = ke_send e (aap_send_key_input cfg (pp_allow s) (ke_real e));
            rc_down = race (evt\<lparr>bDown := 1\<rparr>);
            rc_up = race (evt\<lparr>bDown := 0\<rparr>);
            s = s\<lparr>pp_allow := previous_exemption\<rparr>;
            delivered = (rc_down = 0 \<and> rc_up = 0) in
        (delivered, s\<lparr>pp_keys := pp_keys s @ [(keycode, delivered)]\<rparr>))"

definition on_mute_changed :: "Settings \<Rightarrow> key_env \<Rightarrow> bool \<Rightarrow> pp \<Rightarrow> pp" where
  "on_mute_changed cfg e muted s =
     (if muted then
        if pp_we_paused s then s
        else if \<not> aa_media_in_playing e then s
        else
          let (delivered, s) = send_media_key cfg e kAAPKeyMediaPause s in
          if delivered then s\<lparr>pp_we_paused := True\<rparr> else s
      else
        if \<not> pp_we_paused s then s
        else if \<not> aa_media_in_focus e then s\<lparr>pp_we_paused := False\<rparr>
        else
          let (delivered, s) = send_media_key cfg e kAAPKeyMediaPlay s in
          if delivered then s\<lparr>pp_we_paused := False\<rparr> else s)"

text \<open>A D-Bus message: whether it is the mute signal, its first argument's type and byte.\<close>

record dbus_msg =
  dm_is_mute :: bool
  dm_has_arg :: bool
  dm_arg_type :: int
  dm_byte :: u8

definition DBUS_TYPE_BYTE :: int where "DBUS_TYPE_BYTE = 121"

definition handle_message :: "Settings \<Rightarrow> dbus_msg \<times> key_env \<Rightarrow> pp \<Rightarrow> pp" where
  "handle_message cfg me s =
     (let (msg, e) = me in
      if \<not> dm_is_mute msg then s
      else if \<not> dm_has_arg msg then s
      else if dm_arg_type msg \<noteq> DBUS_TYPE_BYTE then s
      else if dm_byte msg = kEntMuteOn then on_mute_changed cfg e True s
      else if dm_byte msg = kEntMuteOff then on_mute_changed cfg e False s
      else s)"

definition drain_messages :: "Settings \<Rightarrow> (dbus_msg \<times> key_env) list \<Rightarrow> pp \<Rightarrow> pp" where
  "drain_messages cfg = fold (handle_message cfg)"

section \<open>The watch loop\<close>

definition DBUS_WATCH_READABLE :: u32 where [cdefs]: "DBUS_WATCH_READABLE = 1"
definition DBUS_WATCH_WRITABLE :: u32 where [cdefs]: "DBUS_WATCH_WRITABLE = 2"
definition DBUS_WATCH_ERROR :: u32 where [cdefs]: "DBUS_WATCH_ERROR = 4"
definition DBUS_WATCH_HANGUP :: u32 where [cdefs]: "DBUS_WATCH_HANGUP = 8"
definition POLLIN :: u16 where [cdefs]: "POLLIN = 1"
definition POLLOUT :: u16 where [cdefs]: "POLLOUT = 4"
definition POLLERR :: u16 where [cdefs]: "POLLERR = 8"
definition POLLHUP :: u16 where [cdefs]: "POLLHUP = 16"
definition POLLNVAL :: u16 where [cdefs]: "POLLNVAL = 32"

definition poll_events :: "u32 \<Rightarrow> u16" where
  "poll_events flags =
     (if flags AND DBUS_WATCH_READABLE \<noteq> 0 then POLLIN else 0) OR
     (if flags AND DBUS_WATCH_WRITABLE \<noteq> 0 then POLLOUT else 0)"

definition watch_flags :: "u16 \<Rightarrow> u32 \<Rightarrow> u32" where
  "watch_flags revents requested =
     (if revents AND POLLIN \<noteq> 0 \<and> requested AND DBUS_WATCH_READABLE \<noteq> 0
      then DBUS_WATCH_READABLE else 0) OR
     (if revents AND POLLOUT \<noteq> 0 \<and> requested AND DBUS_WATCH_WRITABLE \<noteq> 0
      then DBUS_WATCH_WRITABLE else 0) OR
     (if revents AND (POLLERR OR POLLNVAL) \<noteq> 0 then DBUS_WATCH_ERROR else 0) OR
     (if revents AND POLLHUP \<noteq> 0 then DBUS_WATCH_HANGUP else 0)"

text \<open>What libdbus answers about a watch, at the time of the call.\<close>

record 'w watch_view =
  wv_enabled :: "'w \<Rightarrow> bool"
  wv_fd :: "'w \<Rightarrow> int"
  wv_flags :: "'w \<Rightarrow> u32"

definition poll_set :: "'w watch_view \<Rightarrow> 'w option list \<Rightarrow> (int \<times> u16 \<times> 'w) list" where
  "poll_set v items =
     List.map_filter (\<lambda>x. case x of None \<Rightarrow> None
       | Some w \<Rightarrow> if \<not> wv_enabled v w \<or> wv_fd v w < 0 then None
                   else Some (wv_fd v w, poll_events (wv_flags v w), w)) items"

text \<open>
  One pass of the loop: \<open>li_stop\<close> the stop test at its head, \<open>li_view\<close> libdbus at that time,
  \<open>li_poll\<close> the final result of \<open>poll\<close>, \<open>li_stop_rev\<close> the events on the stop descriptor,
  \<open>li_revents\<close> those of the watches in poll order; \<open>li_handle\<close> what \<open>dbus_watch_handle\<close> returns
  and the table and view it leaves; \<open>li_msgs\<close> the messages popped and \<open>li_connected\<close> the state
  of the connection afterwards.
\<close>

record 'w loop_input =
  li_stop :: bool
  li_view :: "'w watch_view"
  li_poll :: int
  li_stop_rev :: u16
  li_revents :: "u16 list"
  li_handle :: "'w \<Rightarrow> u32 \<Rightarrow> 'w option list \<Rightarrow> bool \<times> 'w option list \<times> 'w watch_view"
  li_msgs :: "(dbus_msg \<times> key_env) list"
  li_connected :: bool

fun dispatch_watches ::
  "('w \<Rightarrow> u32 \<Rightarrow> 'w option list \<Rightarrow> bool \<times> 'w option list \<times> 'w watch_view) \<Rightarrow>
   ('w \<times> u16) list \<Rightarrow> 'w watch_view \<Rightarrow> 'w option list \<Rightarrow> (bool \<times> 'w option list \<times> ('w \<times> u32) list)"
where
  "dispatch_watches h [] v items = (True, items, [])"
| "dispatch_watches h ((w, revents) # ws) v items =
     (if revents = 0 \<or> \<not> dbus_watch_is_registered w items \<or> \<not> wv_enabled v w then
        dispatch_watches h ws v items
      else
        let flags = watch_flags revents (wv_flags v w) in
        if flags \<noteq> 0 then
          let (ok, items', v') = h w flags items in
          if \<not> ok then (False, items', [(w, flags)])
          else let (r, items'', log) = dispatch_watches h ws v' items' in
            (r, items'', (w, flags) # log)
        else dispatch_watches h ws v items)"

text \<open>One pass; the first component tells whether the loop goes on.\<close>

definition watch_pass ::
  "Settings \<Rightarrow> 'w loop_input \<Rightarrow> 'w option list \<Rightarrow> pp \<Rightarrow> bool \<times> 'w option list \<times> pp" where
  "watch_pass cfg i items s =
     (if li_stop i then (False, items, s)
      else
        let pfds = poll_set (li_view i) items in
        if pfds = [] then (False, items, s)
        else if li_poll i < 0 then (False, items, s)
        else if li_stop_rev i AND (POLLIN OR POLLERR OR POLLHUP OR POLLNVAL) \<noteq> 0 then (False, items, s)
        else
          let (ok, items, _) = dispatch_watches (li_handle i)
                (zip (map (\<lambda>(_, _, w). w) pfds) (li_revents i)) (li_view i) items in
          if \<not> ok then (False, items, s)
          else
            let s = drain_messages cfg (li_msgs i) s in
            (li_connected i, items, s))"

section \<open>The connection and the watcher thread\<close>

text \<open>
  Results of \<open>dbus_connection_open_private\<close>, \<open>dbus_bus_register\<close> and
  \<open>dbus_connection_set_watch_functions\<close>, and the watches the latter adds.
\<close>

record 'w bus_env =
  be_open :: bool
  be_registered :: bool
  be_watch_ok :: bool
  be_watches :: "'w list"

datatype watcher_pc = WGone | WConnect | WLoop | WBackoff

record 'w watcher =
  pw_pc :: watcher_pc
  pw_conn :: bool
  pw_items :: "'w option list"
  pw_stop_ready :: bool
  pw_thread_up :: bool
  pw_stop_fd :: int
  pw_pp :: pp

definition setup_connection :: "'w bus_env \<Rightarrow> 'w watcher \<Rightarrow> bool \<times> 'w watcher" where
  "setup_connection e s =
     (let s = s\<lparr>pw_items := clear_dbus_watches\<rparr> in
      if \<not> be_open e then (False, s\<lparr>pw_conn := False\<rparr>)
      else
        let s = s\<lparr>pw_conn := True\<rparr> in
        if \<not> be_registered e then (False, s\<lparr>pw_conn := False\<rparr>)
        else
          let s = s\<lparr>pw_items := fold (\<lambda>w t. snd (add_dbus_watch w t)) (be_watches e) (pw_items s)\<rparr> in
          if \<not> be_watch_ok e then (False, s\<lparr>pw_conn := False, pw_items := clear_dbus_watches\<rparr>)
          else (True, s))"

definition teardown_connection :: "'w watcher \<Rightarrow> 'w watcher" where
  "teardown_connection s =
     (if \<not> pw_conn s then s else s\<lparr>pw_conn := False, pw_items := clear_dbus_watches\<rparr>)"

text \<open>The head of the thread's loop, up to the first drain of the watch loop.\<close>

definition watcher_connect ::
  "Settings \<Rightarrow> 'w bus_env \<Rightarrow> (dbus_msg \<times> key_env) list \<Rightarrow> 'w watcher \<Rightarrow> 'w watcher" where
  "watcher_connect cfg e msgs s =
     (if pw_stop_ready s then s\<lparr>pw_pc := WGone\<rparr>
      else
        let s = s\<lparr>pw_pp := (pw_pp s)\<lparr>pp_we_paused := False\<rparr>\<rparr>;
            (ok, s) = setup_connection e s in
        if \<not> ok then (teardown_connection s)\<lparr>pw_pc := WBackoff\<rparr>
        else s\<lparr>pw_pp := drain_messages cfg msgs (pw_pp s), pw_pc := WLoop\<rparr>)"

definition watcher_pass :: "Settings \<Rightarrow> 'w loop_input \<Rightarrow> 'w watcher \<Rightarrow> 'w watcher" where
  "watcher_pass cfg i s =
     (let (go, items, p) = watch_pass cfg i (pw_items s) (pw_pp s);
          s = s\<lparr>pw_items := items, pw_pp := p\<rparr> in
      if go then s
      else
        let s = teardown_connection s in
        s\<lparr>pw_pc := (if pw_stop_ready s then WGone else WBackoff)\<rparr>)"

definition watcher_backoff :: "'w watcher \<Rightarrow> 'w watcher" where
  "watcher_backoff s = s\<lparr>pw_pc := (if pw_stop_ready s then WGone else WConnect)\<rparr>"

text \<open>\<open>efd\<close> and \<open>spawned\<close>: the results of \<open>eventfd\<close> and of the thread creation.\<close>

definition playpause_post_aap_create_session :: "int \<Rightarrow> bool \<Rightarrow> 'w watcher \<Rightarrow> 'w watcher" where
  "playpause_post_aap_create_session efd spawned s =
     (if pw_thread_up s then s
      else
        let s = s\<lparr>pw_pp := (pw_pp s)\<lparr>pp_we_paused := False\<rparr>, pw_stop_fd := efd\<rparr> in
        if efd < 0 then s
        else if \<not> spawned then s\<lparr>pw_stop_fd := -1\<rparr>
        else s\<lparr>pw_thread_up := True, pw_pc := WConnect, pw_stop_ready := False\<rparr>)"

definition playpause_stop_signal :: "'w watcher \<Rightarrow> 'w watcher" where
  "playpause_stop_signal s = (if \<not> pw_thread_up s then s else s\<lparr>pw_stop_ready := True\<rparr>)"

definition playpause_stop_join :: "'w watcher \<Rightarrow> 'w watcher" where
  "playpause_stop_join s =
     s\<lparr>pw_thread_up := False, pw_pp := (pw_pp s)\<lparr>pp_we_paused := False\<rparr>, pw_stop_fd := -1\<rparr>"

text \<open>
  The watcher against the lifecycle thread.  libdbus changes the table only through the two
  callbacks, which is the premise of \<open>pass\<close>; a stop test reads the eventfd.
\<close>

inductive pw_step :: "Settings \<Rightarrow> 'w watcher \<Rightarrow> 'w watcher \<Rightarrow> bool" for cfg where
  start: "pw_step cfg s (playpause_post_aap_create_session efd spawned s)"
| signal: "pw_step cfg s (playpause_stop_signal s)"
| join: "pw_thread_up s \<Longrightarrow> pw_stop_ready s \<Longrightarrow> pw_pc s = WGone \<Longrightarrow>
    pw_step cfg s (playpause_stop_join s)"
| connect: "pw_pc s = WConnect \<Longrightarrow> pw_step cfg s (watcher_connect cfg e msgs s)"
| pass: "pw_pc s = WLoop \<Longrightarrow> (li_stop i \<longrightarrow> pw_stop_ready s) \<Longrightarrow>
    (\<forall>w f t. \<exists>cs. fst (snd (li_handle i w f t)) = watches.calls cs t) \<Longrightarrow>
    pw_step cfg s (watcher_pass cfg i s)"
| backoff: "pw_pc s = WBackoff \<Longrightarrow> pw_step cfg s (watcher_backoff s)"

definition watcher_init :: "'w watcher" where
  "watcher_init =
     \<lparr>pw_pc = WGone, pw_conn = False, pw_items = clear_dbus_watches, pw_stop_ready = False,
      pw_thread_up = False, pw_stop_fd = -1,
      pw_pp = \<lparr>pp_we_paused = False, pp_allow = False, pp_keys = []\<rparr>\<rparr>"

section \<open>The latch\<close>

text \<open>The last key that was delivered is a PAUSE.\<close>

definition armed :: "(u32 \<times> bool) list \<Rightarrow> bool" where
  "armed ks \<longleftrightarrow> filter snd ks \<noteq> [] \<and> fst (last (filter snd ks)) = kAAPKeyMediaPause"

definition plays_ok :: "(u32 \<times> bool) list \<Rightarrow> bool" where
  "plays_ok ks \<longleftrightarrow> (\<forall>i < length ks. fst (ks ! i) = kAAPKeyMediaPlay \<longrightarrow> armed (take i ks))"

definition pp_ok :: "pp \<Rightarrow> bool" where
  "pp_ok s \<longleftrightarrow> \<not> pp_allow s \<and> (pp_we_paused s \<longrightarrow> armed (pp_keys s)) \<and> plays_ok (pp_keys s)"

lemma armed_snoc [simp]:
  "armed (ks @ [(k, d)]) \<longleftrightarrow> (if d then k = kAAPKeyMediaPause else armed ks)"
  by (simp add: armed_def)

lemma plays_ok_snoc [simp]:
  "plays_ok (ks @ [(k, d)]) \<longleftrightarrow> plays_ok ks \<and> (k = kAAPKeyMediaPlay \<longrightarrow> armed ks)"
  by (auto simp: plays_ok_def nth_append less_Suc_eq)

lemma send_media_key_effect:
  "send_media_key cfg e k s =
     (if \<not> ke_aap e \<or> \<not> ke_race e then (False, s)
      else (fst (send_media_key cfg e k s),
            s\<lparr>pp_keys := pp_keys s @ [(k, fst (send_media_key cfg e k s))]\<rparr>))"
  by (simp add: send_media_key_def Let_def)

lemma send_media_key_cases:
  obtains "send_media_key cfg e k s = (False, s)"
  | d where "send_media_key cfg e k s = (d, s\<lparr>pp_keys := pp_keys s @ [(k, d)]\<rparr>)"
  using send_media_key_effect [of cfg e k s] by (cases "\<not> ke_aap e \<or> \<not> ke_race e") auto

lemma keys_differ: "kAAPKeyMediaPlay \<noteq> kAAPKeyMediaPause" "kAAPKeyMediaPause \<noteq> kAAPKeyMediaPlay"
  by (simp_all add: kAAPKeyMediaPlay_def kAAPKeyMediaPause_def)

lemma on_mute_changed_ok: "pp_ok s \<Longrightarrow> pp_ok (on_mute_changed cfg e m s)"
  by (cases rule: send_media_key_cases [where cfg = cfg and e = e and s = s and
        k = "if m then kAAPKeyMediaPause else kAAPKeyMediaPlay"]; cases m)
    (simp_all add: on_mute_changed_def pp_ok_def keys_differ)

lemma handle_message_ok: "pp_ok s \<Longrightarrow> pp_ok (handle_message cfg me s)"
  by (simp add: handle_message_def on_mute_changed_ok split: prod.split)

lemma drain_ok: "pp_ok s \<Longrightarrow> pp_ok (drain_messages cfg ms s)"
  unfolding drain_messages_def by (induction ms arbitrary: s) (simp_all add: handle_message_ok)

lemma watch_pass_ok:
  assumes "watch_pass cfg i items s = (go, items', s')" and "pp_ok s"
  shows "pp_ok s'"
  using assms drain_ok [of s cfg "li_msgs i"]
  by (auto simp: watch_pass_def Let_def split: if_splits prod.splits)

lemma dispatch_table_ok:
  assumes "\<forall>w f t. \<exists>cs. fst (snd (h w f t)) = watches.calls cs t" and "table_ok items"
  shows "table_ok (fst (snd (dispatch_watches h ws v items)))"
  using assms(2)
proof (induction ws arbitrary: v items)
  case (Cons wr ws)
  obtain w revents where wr: "wr = (w, revents)" by fastforce
  obtain ok t v' where h: "h w (watch_flags revents (wv_flags v w)) items = (ok, t, v')"
    by (metis prod_cases3)
  then have "table_ok t" using assms(1) Cons.prems watches.calls_ok by (metis fst_conv snd_conv)
  then show ?case
    using Cons.IH [of t v'] Cons.IH [of items v] Cons.prems
    by (cases "dispatch_watches h ws v' t") (auto simp: wr h Let_def)
qed simp

lemma watch_pass_table_ok:
  assumes "\<forall>w f t. \<exists>cs. fst (snd (li_handle i w f t)) = watches.calls cs t" and "table_ok items"
    and "watch_pass cfg i items s = (go, items', s')"
  shows "table_ok items'"
proof -
  have d: "table_ok t" if "dispatch_watches (li_handle i) ws v items = (r, t, l)" for ws v r t l
    using dispatch_table_ok [OF assms(1,2), of ws v] that by simp
  show ?thesis
    using assms(2,3) d by (auto simp: watch_pass_def Let_def split: if_splits prod.splits)
qed

lemma fold_add_table_ok:
  "table_ok t \<Longrightarrow> table_ok (fold (\<lambda>w t. snd (add_dbus_watch w t)) ws t)"
  by (induction ws arbitrary: t) (simp_all add: watches.ins_ok)

definition watcher_ok :: "'w watcher \<Rightarrow> bool" where
  "watcher_ok s \<longleftrightarrow>
     pp_ok (pw_pp s) \<and> table_ok (pw_items s) \<and> (pw_conn s \<longleftrightarrow> pw_pc s = WLoop) \<and>
     (pw_pc s \<noteq> WGone \<longrightarrow> pw_thread_up s) \<and> (pw_thread_up s \<longrightarrow> 0 \<le> pw_stop_fd s)"

lemma unlatched_ok: "pp_ok p \<Longrightarrow> pp_ok (p\<lparr>pp_we_paused := False\<rparr>)"
  by (simp add: pp_ok_def)

lemma setup_connection_facts:
  assumes "setup_connection e s = (ok, s')"
  shows "table_ok (pw_items s')" and "pw_conn s' = ok" and "pw_pp s' = pw_pp s"
    and "pw_thread_up s' = pw_thread_up s" and "pw_stop_fd s' = pw_stop_fd s"
  using assms watches.none_ok fold_add_table_ok [OF watches.none_ok, of "be_watches e"]
  by (auto simp: setup_connection_def Let_def split: if_splits)

lemma connect_ok:
  assumes "watcher_ok s" and "pw_pc s = WConnect"
  shows "watcher_ok (watcher_connect cfg e msgs s)"
proof (cases "pw_stop_ready s")
  case False
  obtain ok t where t: "setup_connection e (s\<lparr>pw_pp := (pw_pp s)\<lparr>pp_we_paused := False\<rparr>\<rparr>) = (ok, t)"
    by fastforce
  then show ?thesis
    using assms False setup_connection_facts [OF t] unlatched_ok drain_ok
    by (simp add: watcher_connect_def watcher_ok_def teardown_connection_def Let_def)
qed (use assms in \<open>simp add: watcher_connect_def watcher_ok_def\<close>)

lemma pass_keeps_ok:
  assumes "watcher_ok s" and "pw_pc s = WLoop"
    and "\<forall>w f t. \<exists>cs. fst (snd (li_handle i w f t)) = watches.calls cs t"
  shows "watcher_ok (watcher_pass cfg i s)"
proof -
  obtain go items p where r: "watch_pass cfg i (pw_items s) (pw_pp s) = (go, items, p)"
    by (metis prod_cases3)
  have "table_ok items" "pp_ok p"
    using watch_pass_table_ok [OF assms(3) _ r] watch_pass_ok [OF r] assms(1)
    by (simp_all add: watcher_ok_def)
  then show ?thesis
    using assms(1,2)
    by (simp add: watcher_pass_def r Let_def watcher_ok_def teardown_connection_def watches.none_ok)
qed

lemma watcher_ok_step: "pw_step cfg s t \<Longrightarrow> watcher_ok s \<Longrightarrow> watcher_ok t"
proof (induction rule: pw_step.induct)
  case (start s efd spawned)
  then show ?case
    by (auto simp: playpause_post_aap_create_session_def watcher_ok_def Let_def unlatched_ok)
next
  case (signal s)
  then show ?case by (cases "pw_thread_up s") (simp_all add: playpause_stop_signal_def watcher_ok_def)
next
  case (join s)
  then show ?case by (simp add: playpause_stop_join_def watcher_ok_def unlatched_ok)
next
  case (connect s e msgs)
  then show ?case by (rule connect_ok [rotated])
next
  case (pass s i)
  then show ?case by (auto intro: pass_keeps_ok)
next
  case (backoff s)
  then show ?case by (simp add: watcher_backoff_def watcher_ok_def)
qed

lemma watcher_reachable_ok: "(pw_step cfg)\<^sup>*\<^sup>* watcher_init s \<Longrightarrow> watcher_ok s"
proof (induction rule: rtranclp_induct)
  case base
  then show ?case
    by (simp add: watcher_ok_def watcher_init_def pp_ok_def plays_ok_def watches.none_ok)
next
  case (step t u)
  then show ?case using watcher_ok_step by blast
qed

text \<open>
  C18.  The bridge only resumes what it paused: in every reachable state - any mute signals, any
  answers of the audio manager, rejected keys, reconnects, session starts and stops - each PLAY
  the watcher ever sent was sent when the last delivered key was its own PAUSE, the latch is up
  only in that case, and the filter exemption is never left on.
\<close>

theorem resumes_only_own_pause:
  assumes "(pw_step cfg)\<^sup>*\<^sup>* watcher_init s"
  shows "plays_ok (pp_keys (pw_pp s)) \<and> (pp_we_paused (pw_pp s) \<longrightarrow> armed (pp_keys (pw_pp s))) \<and>
    \<not> pp_allow (pw_pp s)"
  using watcher_reachable_ok [OF assms] by (simp add: watcher_ok_def pp_ok_def)

lemma length_map_filter_le: "length (List.map_filter f xs) \<le> length xs"
  by (simp add: List.map_filter_def)

text \<open>
  The watch loop's arrays are never overrun and the connection is never leaked: in every
  reachable state the poll set built from the table has at most four entries beside the stop
  descriptor, no watch is polled twice, and a connection is open exactly while the loop runs.
\<close>

theorem watch_loop_bounds:
  assumes "(pw_step cfg)\<^sup>*\<^sup>* watcher_init s"
  shows "length (poll_set v (pw_items s)) \<le> kMaxDbusWatches \<and>
    distinct (filter (\<lambda>x. x \<noteq> None) (pw_items s)) \<and> (pw_conn s \<longleftrightarrow> pw_pc s = WLoop)"
proof -
  have ok: "length (pw_items s) = kMaxDbusWatches" "distinct (filter (\<lambda>x. x \<noteq> None) (pw_items s))"
    "pw_conn s \<longleftrightarrow> pw_pc s = WLoop"
    using watcher_reachable_ok [OF assms] by (simp_all add: watcher_ok_def table_ok_def)
  have "length (poll_set v (pw_items s)) \<le> length (pw_items s)"
    unfolding poll_set_def by (rule length_map_filter_le)
  then show ?thesis using ok by simp
qed

section \<open>One mute cycle\<close>

definition mute_msg :: "u8 \<Rightarrow> dbus_msg" where
  "mute_msg b = \<lparr>dm_is_mute = True, dm_has_arg = True, dm_arg_type = DBUS_TYPE_BYTE, dm_byte = b\<rparr>"

text \<open>The library accepts both halves of a key.\<close>

definition lib_accepts :: "(AAP_KeyEvent option \<Rightarrow> int) \<Rightarrow> u32 \<Rightarrow> bool" where
  "lib_accepts f k \<longleftrightarrow>
     f (Some \<lparr>eType = 0xe00, eKeyCode = k, bDown = 1\<rparr>) = 0 \<and>
     f (Some \<lparr>eType = 0xe00, eKeyCode = k, bDown = 0\<rparr>) = 0"

lemma send_media_key_reaches:
  assumes "ke_aap e" "ke_race e" "\<forall>h ev. ke_send e h ev = h (Some ev)" "ke_real e = Some f"
  shows "send_media_key cfg e k t = (lib_accepts f k, t\<lparr>pp_keys := pp_keys t @ [(k, lib_accepts f k)]\<rparr>)"
  using assms
  by (simp add: send_media_key_def Let_def aap_send_key_input_def should_filter_media_play_def
      lib_accepts_def kAAPKeyEventType_def)

text \<open>
  C38.  Mute pauses and unmute resumes, also with \<open>block_headunit_media_play\<close> on.  Android Auto
  media plays and the key path hands its events to the hook; the library's function \<open>f\<close> is
  arbitrary.  Every key the watcher sends counts as delivered exactly when the library itself
  accepts both halves of it, so the filter never answers for the watcher's own PLAY.  A mute and
  then an unmute signal send one PAUSE and, if the library took it, one PLAY; the latch stays up
  only when the PAUSE was taken and the PLAY was not.  A PLAY from any other thread is answered 0
  whatever the library would say when the setting is on, and gets the library's answer when it is
  off.
\<close>

theorem mute_cycle:
  assumes "ke_aap e" "ke_audio e" "ke_focus e" "ke_playing e" "ke_race e"
    and "\<forall>h ev. ke_send e h ev = h (Some ev)" and "ke_real e = Some f"
    and "\<not> pp_we_paused s"
  shows "fst (send_media_key cfg e k t) = lib_accepts f k \<and>
    drain_messages cfg [(mute_msg 2, e), (mute_msg 1, e)] s =
      s\<lparr>pp_keys := pp_keys s @
          (if lib_accepts f kAAPKeyMediaPause
           then [(kAAPKeyMediaPause, True), (kAAPKeyMediaPlay, lib_accepts f kAAPKeyMediaPlay)]
           else [(kAAPKeyMediaPause, False)]),
        pp_we_paused := lib_accepts f kAAPKeyMediaPause \<and> \<not> lib_accepts f kAAPKeyMediaPlay\<rparr> \<and>
    aap_send_key_input cfg False (Some g) (Some \<lparr>eType = 0xe00, eKeyCode = 0x7e, bDown = d\<rparr>) =
      (if cfg_block_headunit_media_play cfg then 0
       else g (Some \<lparr>eType = 0xe00, eKeyCode = 0x7e, bDown = d\<rparr>))"
proof -
  note k = send_media_key_reaches [OF assms(1,5,6,7), of cfg]
  have "on_mute_changed cfg e True s =
      s\<lparr>pp_keys := pp_keys s @ [(kAAPKeyMediaPause, lib_accepts f kAAPKeyMediaPause)],
        pp_we_paused := lib_accepts f kAAPKeyMediaPause\<rparr>"
    using assms by (simp add: on_mute_changed_def aa_media_in_playing_def k)
  moreover have "on_mute_changed cfg e False t =
      t\<lparr>pp_keys := pp_keys t @ [(kAAPKeyMediaPlay, lib_accepts f kAAPKeyMediaPlay)],
        pp_we_paused := \<not> lib_accepts f kAAPKeyMediaPlay\<rparr>"
    if "pp_we_paused t" for t
    using assms that by (simp add: on_mute_changed_def aa_media_in_focus_def k)
  moreover have "on_mute_changed cfg e False t = t" if "\<not> pp_we_paused t" for t
    using that by (simp add: on_mute_changed_def)
  ultimately show ?thesis
    using k by (simp add: drain_messages_def handle_message_def mute_msg_def kEntMuteOn_def
        kEntMuteOff_def aap_send_key_input_def should_filter_media_play_def kAAPKeyEventType_def
        kAAPKeyMediaPlay_def)
qed

definition all_good :: key_env where
  "all_good =
     \<lparr>ke_aap = True, ke_audio = True, ke_focus = True, ke_playing = True, ke_race = True,
      ke_send = \<lambda>h ev. h (Some ev), ke_real = Some (\<lambda>_. 0)\<rparr>"

definition refuses_play :: "AAP_KeyEvent option \<Rightarrow> int" where
  "refuses_play ev = (case ev of None \<Rightarrow> 0 | Some k \<Rightarrow> (if eKeyCode k = 0x7e then 1 else 0))"

text \<open>One full cycle, and one in which the library refuses the PLAY, with the filter on.\<close>

theorem mute_cycle_witness:
  "let blocked = default_settings\<lparr>cfg_block_headunit_media_play := True\<rparr>;
       s = \<lparr>pp_we_paused = False, pp_allow = False, pp_keys = []\<rparr>;
       deaf = all_good\<lparr>ke_real := Some refuses_play\<rparr>
   in pp_keys (drain_messages blocked [(mute_msg 2, all_good), (mute_msg 1, all_good)] s) =
        [(0x7f, True), (0x7e, True)] \<and>
      pp_keys (drain_messages blocked [(mute_msg 2, deaf), (mute_msg 1, deaf)] s) =
        [(0x7f, True), (0x7e, False)]"
proof -
  let ?s = "\<lparr>pp_we_paused = False, pp_allow = False, pp_keys = []\<rparr>"
  let ?b = "default_settings\<lparr>cfg_block_headunit_media_play := True\<rparr>"
  show ?thesis
    using mute_cycle [of all_good "\<lambda>_. 0" ?s ?b] mute_cycle [of "all_good\<lparr>ke_real := Some refuses_play\<rparr>"
        refuses_play ?s ?b]
    by (simp add: refuses_play_def Let_def all_good_def lib_accepts_def kAAPKeyMediaPlay_def kAAPKeyMediaPause_def)
qed

text \<open>The first mute of a session, with the phone playing.\<close>

theorem resumes_only_own_pause_witness:
  "\<exists>s. (pw_step default_settings)\<^sup>*\<^sup>* (watcher_init :: nat watcher) s \<and> pp_we_paused (pw_pp s) \<and>
     armed (pp_keys (pw_pp s))"
proof -
  let ?e = "\<lparr>be_open = True, be_registered = True, be_watch_ok = True, be_watches = [7::nat]\<rparr>"
  define s1 where "s1 = playpause_post_aap_create_session 5 True (watcher_init :: nat watcher)"
  define s2 where "s2 = watcher_connect default_settings ?e [(mute_msg 2, all_good)] s1"
  have "pw_step default_settings watcher_init s1" unfolding s1_def by (rule pw_step.start)
  moreover have "pw_step default_settings s1 s2"
    unfolding s2_def
    by (rule pw_step.connect)
      (simp add: s1_def playpause_post_aap_create_session_def watcher_init_def Let_def)
  ultimately have r: "(pw_step default_settings)\<^sup>*\<^sup>* watcher_init s2"
    by (metis rtranclp.rtrancl_into_rtrancl rtranclp.rtrancl_refl)
  have "pp_we_paused (pw_pp s2)"
    by (simp add: s2_def s1_def playpause_post_aap_create_session_def watcher_init_def Let_def
        watcher_connect_def setup_connection_def drain_messages_def handle_message_def mute_msg_def
        kEntMuteOn_def on_mute_changed_def aa_media_in_playing_def all_good_def send_media_key_def
        aap_send_key_input_def default_settings_def)
  with resumes_only_own_pause [OF r] r show ?thesis by blast
qed

theorem watch_loop_bounds_witness:
  "length (poll_set v (pw_items (watcher_init :: nat watcher))) \<le> 4"
  using watch_loop_bounds [of default_settings "watcher_init :: nat watcher"]
  by (simp add: kMaxDbusWatches_def)

section \<open>Startup records\<close>

text \<open>The last-audio words as the OEM reads record after record.\<close>

fun observe_all :: "u32 list \<Rightarrow> u32 \<Rightarrow> u32 list" where
  "observe_all [] seen = []"
| "observe_all (a # as) seen =
     (let (_, seen', a') = observe_initial_record seen a in a' # observe_all as seen')"

lemma observe_all_from:
  "k \<le> 10 \<Longrightarrow> observe_all as (of_nat k) =
     replicate (min (length as) (10 - k)) 0 @ drop (10 - k) as"
proof (induction as arbitrary: k)
  case (Cons a as)
  show ?case
  proof (cases "k = 10")
    case True
    then show ?thesis using Cons.IH [of 10]
      by (simp add: observe_initial_record_def kSavedDeviceCount_def)
  next
    case False
    then have "unat (of_nat k :: u32) = k" using Cons.prems by (simp add: unat_of_nat take_bit_nat_eq_self)
    then have "\<not> of_nat k \<ge> (10 :: u32)" using False Cons.prems by (simp add: word_le_nat_alt)
    moreover have "(of_nat k + 1 :: u32) = of_nat (k + 1)" by simp
    moreover have "10 - k = Suc (10 - (k + 1))" using False Cons.prems by simp
    ultimately show ?thesis
      using Cons.IH [of "k + 1"] False Cons.prems
      by (auto simp: observe_initial_record_def kSavedDeviceCount_def Let_def simp del: of_nat_Suc of_nat_add)
  qed
qed simp

text \<open>
  With the block setting on, exactly the first ten records read at start-up lose their
  saved audio flag; every later record keeps its value.
\<close>

theorem startup_records_cleared:
  "observe_all as 0 = replicate (min (length as) 10) 0 @ drop 10 as"
  using observe_all_from [of 0 as] by simp

end
