(* ===== verification/Touch_Send.thy ===== *)
theory Touch_Send
  imports Prelude
begin

text \<open>
  Multi-touch events (\<open>touch/touch_send.cpp\<close>): the difference of two frames of the touch device
  as the DOWN, UP, MOVE, POINTER_DOWN and POINTER_UP events the phone gets.  Arrays of
  \<open>kMaxFingers\<close> entries are lists; a store past the last entry is \<open>None\<close>.  The receiver's side
  of the contract is \<open>accepts\<close>: Android's rule that each event names exactly the pointers that
  are down.
\<close>

definition kMaxFingers :: nat where "kMaxFingers = 10"

record Finger =
  fg_id :: int
  fg_x :: u32
  fg_y :: u32

record MtState =
  mt_fingers :: "Finger list"
  mt_n_active :: int

datatype AAPTouchAction = Down | Up | Move | PointerDown | PointerUp

definition action_code :: "AAPTouchAction \<Rightarrow> u32" where
  "action_code a =
     (case a of Down \<Rightarrow> 1 | Up \<Rightarrow> 2 | Move \<Rightarrow> 3 | PointerDown \<Rightarrow> 4 | PointerUp \<Rightarrow> 5)"

record AAP_TouchEvent =
  te_device_type :: u32
  te_finger_count :: u32
  te_x :: "u32 list"
  te_y :: "u32 list"
  te_pointer_id :: "u32 list"
  te_action :: u32
  te_action_index :: u32

type_synonym SnapEntry = "nat \<times> Finger"

definition kDisplayWidth :: u32 where "kDisplayWidth = 800"
definition kDisplayHeight :: u32 where "kDisplayHeight = 480"
definition kRawMax :: u32 where "kRawMax = 4099"

definition scale_x :: "u32 \<Rightarrow> u32" where
  "scale_x v = ucast ((ucast v :: u64) * ucast kDisplayWidth div ucast kRawMax)"

definition scale_y :: "u32 \<Rightarrow> u32" where
  "scale_y v = ucast ((ucast v :: u64) * ucast kDisplayHeight div ucast kRawMax)"

text \<open>
  \<open>send_event\<close> up to the OEM call: the event handed to it, \<open>None\<close> when a guard stops it.  The
  arrays of the structure are zeroed before the first \<open>n\<close> entries are set.
\<close>

record oem_touch =
  ot_aap :: bool
  ot_focus :: bool
  ot_race :: bool

definition send_event ::
  "oem_touch \<Rightarrow> SnapEntry list \<Rightarrow> AAPTouchAction \<Rightarrow> nat \<Rightarrow> AAP_TouchEvent list" where
  "send_event e entries action action_index =
     (let n = length entries in
      if n = 0 \<or> n > kMaxFingers then []
      else if \<not> ot_aap e then []
      else if \<not> ot_focus e then []
      else
        let pad = (\<lambda>xs. xs @ replicate (kMaxFingers - n) 0) in
        if \<not> ot_race e then []
        else
          [\<lparr>te_device_type = 1, te_finger_count = of_nat n,
            te_x = pad (map (\<lambda>(_, f). scale_x (fg_x f)) entries),
            te_y = pad (map (\<lambda>(_, f). scale_y (fg_y f)) entries),
            te_pointer_id = pad (map (\<lambda>(_, f). word_of_int (fg_id f)) entries),
            te_action = action_code action, te_action_index = of_nat action_index\<rparr>])"

section \<open>The frame difference\<close>

record touch_send =
  ts_prev :: MtState
  ts_prev_init :: bool

definition empty_finger :: Finger where
  "empty_finger = \<lparr>fg_id = -1, fg_x = 0, fg_y = 0\<rparr>"

definition finger_at :: "MtState \<Rightarrow> nat \<Rightarrow> Finger" where
  "finger_at m s = mt_fingers m ! s"

definition build_survivors :: "MtState \<Rightarrow> MtState \<Rightarrow> SnapEntry list" where
  "build_survivors prev cur =
     map (\<lambda>s. (s, finger_at cur s))
       (filter (\<lambda>s. fg_id (finger_at prev s) \<ge> 0 \<and>
                    fg_id (finger_at cur s) = fg_id (finger_at prev s)) [0..<kMaxFingers])"

definition insert_sorted :: "SnapEntry list \<Rightarrow> nat \<Rightarrow> Finger \<Rightarrow> (nat \<times> SnapEntry list) option" where
  "insert_sorted arr slot fg =
     (if length arr \<ge> kMaxFingers then None
      else
        let pos = length (takeWhile (\<lambda>e. \<not> fst e > slot) arr) in
        Some (pos, take pos arr @ (slot, fg) # drop pos arr))"

definition touch_send_reset :: "touch_send \<Rightarrow> touch_send" where
  "touch_send_reset t = t\<lparr>ts_prev_init := False\<rparr>"

definition is_falling :: "MtState \<Rightarrow> MtState \<Rightarrow> nat \<Rightarrow> bool" where
  "is_falling prev cur s \<longleftrightarrow>
     (let pid = fg_id (finger_at prev s); cid = fg_id (finger_at cur s) in
      (pid \<ge> 0 \<and> cid < 0) \<or> (pid \<ge> 0 \<and> cid \<ge> 0 \<and> pid \<noteq> cid))"

definition is_rising :: "MtState \<Rightarrow> MtState \<Rightarrow> nat \<Rightarrow> bool" where
  "is_rising prev cur s \<longleftrightarrow>
     (let pid = fg_id (finger_at prev s); cid = fg_id (finger_at cur s) in
      (pid < 0 \<and> cid \<ge> 0) \<or> (pid \<ge> 0 \<and> cid \<ge> 0 \<and> pid \<noteq> cid))"

definition is_moved :: "MtState \<Rightarrow> MtState \<Rightarrow> nat \<Rightarrow> bool" where
  "is_moved prev cur s \<longleftrightarrow>
     (let p = finger_at prev s; c = finger_at cur s in
      fg_id p \<ge> 0 \<and> fg_id c = fg_id p \<and> (fg_x p \<noteq> fg_x c \<or> fg_y p \<noteq> fg_y c))"

fun falling_events ::
  "oem_touch \<Rightarrow> MtState \<Rightarrow> SnapEntry list \<Rightarrow> nat list \<Rightarrow> AAP_TouchEvent list option" where
  "falling_events e prev survivors [] = Some []"
| "falling_events e prev survivors (slot # slots) =
     (case insert_sorted survivors slot (finger_at prev slot) of
        None \<Rightarrow> None
      | Some (idx, snap) \<Rightarrow>
          let n = length snap;
              act = (if n = 1 then Up else PointerUp);
              action_index = (if n = 1 then 0 else idx) in
          map_option ((@) (send_event e snap act action_index))
            (falling_events e prev survivors slots))"

fun rising_events ::
  "oem_touch \<Rightarrow> MtState \<Rightarrow> SnapEntry list \<Rightarrow> nat list \<Rightarrow> AAP_TouchEvent list option" where
  "rising_events e cur inc [] = Some []"
| "rising_events e cur inc (slot # slots) =
     (case insert_sorted inc slot (finger_at cur slot) of
        None \<Rightarrow> None
      | Some (idx, inc) \<Rightarrow>
          let inc_n = length inc;
              act = (if inc_n = 1 then Down else PointerDown);
              action_index = (if inc_n = 1 then 0 else idx) in
          map_option ((@) (send_event e inc act action_index))
            (rising_events e cur inc slots))"

definition no_fingers :: MtState where
  "no_fingers = \<lparr>mt_fingers = replicate kMaxFingers empty_finger, mt_n_active = 0\<rparr>"

definition touch_on_frame ::
  "oem_touch \<Rightarrow> MtState \<Rightarrow> touch_send \<Rightarrow> (AAP_TouchEvent list \<times> touch_send) option" where
  "touch_on_frame e cur t =
     (let prev = (if \<not> ts_prev_init t then no_fingers else ts_prev t);
          falling_slots = filter (is_falling prev cur) [0..<kMaxFingers];
          rising_slots = filter (is_rising prev cur) [0..<kMaxFingers];
          any_moved = list_ex (is_moved prev cur) [0..<kMaxFingers];
          survivors = build_survivors prev cur in
      case falling_events e prev survivors falling_slots of
        None \<Rightarrow> None
      | Some evs1 \<Rightarrow>
          (case rising_events e cur survivors rising_slots of
             None \<Rightarrow> None
           | Some evs2 \<Rightarrow>
               let evs3 =
                 (if falling_slots = [] \<and> rising_slots = [] \<and> any_moved then
                    send_event e
                      (map (\<lambda>s. (s, finger_at cur s))
                        (filter (\<lambda>s. \<not> fg_id (finger_at cur s) < 0) [0..<kMaxFingers])) Move 0
                  else []) in
               Some (evs1 @ evs2 @ evs3, \<lparr>ts_prev = cur, ts_prev_init = True\<rparr>)))"

section \<open>The receiver's contract\<close>

text \<open>The pointers an event names, in array order.\<close>

definition pointers :: "AAP_TouchEvent \<Rightarrow> u32 list" where
  "pointers ev = take (unat (te_finger_count ev)) (te_pointer_id ev)"

definition without :: "nat \<Rightarrow> 'a list \<Rightarrow> 'a list" where
  "without k xs = take k xs @ drop (Suc k) xs"

text \<open>
  The pointers down after an event, given those down before; \<open>None\<close> when the event does not
  continue the gesture.
\<close>

definition accepts :: "AAP_TouchEvent \<Rightarrow> u32 list \<Rightarrow> u32 list option" where
  "accepts ev down =
     (let ps = pointers ev; k = unat (te_action_index ev) in
      if te_action ev = action_code Down then (if down = [] \<and> length ps = 1 \<and> k = 0 then Some ps else None)
      else if te_action ev = action_code Up then (if ps = down \<and> length ps = 1 \<and> k = 0 then Some [] else None)
      else if te_action ev = action_code Move then (if ps = down \<and> ps \<noteq> [] then Some down else None)
      else if te_action ev = action_code PointerDown then
        (if 2 \<le> length ps \<and> k < length ps \<and> without k ps = down then Some ps else None)
      else if te_action ev = action_code PointerUp then
        (if 2 \<le> length ps \<and> k < length ps \<and> ps = down then Some (without k ps) else None)
      else None)"

fun accepts_all :: "AAP_TouchEvent list \<Rightarrow> u32 list \<Rightarrow> u32 list option" where
  "accepts_all [] down = Some down"
| "accepts_all (ev # evs) down = Option.bind (accepts ev down) (accepts_all evs)"

lemma accepts_all_append:
  "accepts_all (a @ b) down = Option.bind (accepts_all a down) (accepts_all b)"
proof (induction a arbitrary: down)
  case (Cons ev a)
  then show ?case by (cases "accepts ev down") simp_all
qed simp

text \<open>The ids of the fingers on the device, in slot order.\<close>

definition down_ids :: "MtState \<Rightarrow> u32 list" where
  "down_ids m =
     map (\<lambda>s. word_of_int (fg_id (finger_at m s)))
       (filter (\<lambda>s. fg_id (finger_at m s) \<ge> 0) [0..<kMaxFingers])"

section \<open>Slot-ordered lists\<close>

definition slot_list :: "(nat \<Rightarrow> bool) \<Rightarrow> (nat \<Rightarrow> Finger) \<Rightarrow> SnapEntry list" where
  "slot_list P f = map (\<lambda>s. (s, f s)) (filter P [0..<kMaxFingers])"

definition entry_ids :: "SnapEntry list \<Rightarrow> u32 list" where
  "entry_ids = map (\<lambda>(_, f). word_of_int (fg_id f))"

lemma slots_split: "s < kMaxFingers \<Longrightarrow> [0..<kMaxFingers] = [0..<s] @ s # [Suc s..<kMaxFingers]"
  by (metis less_eq_nat.simps(1) less_imp_le upt_add_eq_append upt_conv_Cons le_add_diff_inverse)

lemma length_slot_list: "\<not> P s \<Longrightarrow> s < kMaxFingers \<Longrightarrow> length (slot_list P f) < kMaxFingers"
proof -
  assume "\<not> P s" "s < kMaxFingers"
  then have "length (filter P [0..<kMaxFingers]) < length [0..<kMaxFingers]"
    by (intro length_filter_less [of s]) simp_all
  then show ?thesis by (simp add: slot_list_def)
qed

lemma slot_list_outside:
  assumes "s \<notin> set xs"
  shows "map (\<lambda>i. (i, if i = s then g else f i)) (filter (\<lambda>i. P i \<or> i = s) xs) =
    map (\<lambda>i. (i, f i)) (filter P xs)"
  using assms by (induction xs) auto

lemma insert_slot_list:
  assumes "\<not> P s" and "s < kMaxFingers"
  shows "\<exists>pos. insert_sorted (slot_list P f) s (g s) =
      Some (pos, slot_list (\<lambda>i. P i \<or> i = s) (\<lambda>i. if i = s then g s else f i)) \<and>
    pos \<le> length (slot_list P f) \<and>
    length (slot_list (\<lambda>i. P i \<or> i = s) (\<lambda>i. if i = s then g s else f i)) = Suc (length (slot_list P f)) \<and>
    without pos (slot_list (\<lambda>i. P i \<or> i = s) (\<lambda>i. if i = s then g s else f i)) = slot_list P f"
proof -
  let ?lo = "map (\<lambda>i. (i, f i)) (filter P [0..<s])"
  let ?hi = "map (\<lambda>i. (i, f i)) (filter P [Suc s..<kMaxFingers])"
  have l: "slot_list P f = ?lo @ ?hi"
    unfolding slot_list_def by (subst slots_split [OF assms(2)]) (simp add: assms(1))
  have lo: "takeWhile (\<lambda>e. \<not> s < fst e) ?lo = ?lo"
    by (rule takeWhile_eq_all_conv [THEN iffD2]) auto
  have hi: "takeWhile (\<lambda>e. \<not> s < fst e) ?hi = []"
  proof (cases "?hi")
    case (Cons e es)
    then have "e \<in> set ?hi" by (metis list.set_intros(1))
    then have "s < fst e" by auto
    then show ?thesis using Cons by simp
  qed simp
  have tw: "takeWhile (\<lambda>e. \<not> s < fst e) (?lo @ ?hi) = ?lo"
    using lo hi by (subst takeWhile_append2) (auto simp: takeWhile_eq_all_conv)
  have new: "slot_list (\<lambda>i. P i \<or> i = s) (\<lambda>i. if i = s then g s else f i) = ?lo @ (s, g s) # ?hi"
    unfolding slot_list_def
    by (subst slots_split [OF assms(2)]) (simp add: slot_list_outside)
  have "insert_sorted (slot_list P f) s (g s) = Some (length ?lo, ?lo @ (s, g s) # ?hi)"
    using length_slot_list [of P s f] assms tw
    by (simp add: insert_sorted_def Let_def l)
  then show ?thesis unfolding new by (auto simp: l without_def)
qed

section \<open>Every event continues the gesture\<close>

text \<open>The OEM lets events through for the whole run.\<close>

definition open_gate :: oem_touch where
  "open_gate = \<lparr>ot_aap = True, ot_focus = True, ot_race = True\<rparr>"

lemma send_event_open:
  assumes "arr \<noteq> []" and "length arr \<le> kMaxFingers" and "k < length arr"
  shows "\<exists>ev. send_event open_gate arr act k = [ev] \<and> pointers ev = entry_ids arr \<and>
    te_action ev = action_code act \<and> unat (te_action_index ev) = k"
proof -
  have n: "unat (of_nat (length arr) :: u32) = length arr" "unat (of_nat k :: u32) = k"
    using assms(2,3) by (simp_all add: kMaxFingers_def unat_of_nat take_bit_nat_eq_self)
  show ?thesis
    using assms n by (simp add: send_event_def open_gate_def Let_def pointers_def entry_ids_def)
qed

lemma action_codes_distinct: "action_code a = action_code b \<longleftrightarrow> a = b"
  by (cases a; cases b) (simp_all add: action_code_def)

lemma without_map: "without k (map f xs) = map f (without k xs)"
  by (simp add: without_def take_map drop_map)

lemma entry_ids_simps [simp]: "length (entry_ids xs) = length xs" "entry_ids [] = []"
  "entry_ids xs = [] \<longleftrightarrow> xs = []"
  by (simp_all add: entry_ids_def)

lemma entry_ids_without: "entry_ids (without k xs) = without k (entry_ids xs)"
  by (simp add: entry_ids_def without_map)

lemma length_without: "k < length xs \<Longrightarrow> length (without k xs) = length xs - 1"
  by (simp add: without_def)

text \<open>An array that gains one entry: the receiver takes it as (POINTER\_)DOWN, or before as (POINTER\_)UP.\<close>

lemma accepts_gain:
  assumes "k < length arr" and "length arr \<le> kMaxFingers"
  shows "accepts_all (send_event open_gate arr (if length arr = 1 then Down else PointerDown)
      (if length arr = 1 then 0 else k)) (entry_ids (without k arr)) = Some (entry_ids arr)"
    and "accepts_all (send_event open_gate arr (if length arr = 1 then Up else PointerUp)
      (if length arr = 1 then 0 else k)) (entry_ids arr) = Some (entry_ids (without k arr))"
proof -
  have ne: "arr \<noteq> []" using assms(1) by auto
  have one: "length arr = 1 \<Longrightarrow> k = 0 \<and> without k arr = []" using assms(1) by (cases arr) (auto simp: without_def)
  have k': "(if length arr = 1 then 0 else k) < length arr" using assms(1) by simp
  obtain d where d: "send_event open_gate arr (if length arr = 1 then Down else PointerDown)
      (if length arr = 1 then 0 else k) = [d]" "pointers d = entry_ids arr"
    "te_action d = action_code (if length arr = 1 then Down else PointerDown)"
    "unat (te_action_index d) = (if length arr = 1 then 0 else k)"
    using send_event_open [OF ne assms(2) k'] by blast
  show "accepts_all (send_event open_gate arr (if length arr = 1 then Down else PointerDown)
      (if length arr = 1 then 0 else k)) (entry_ids (without k arr)) = Some (entry_ids arr)"
    using d one assms(1)
    by (cases "length arr = 1")
      (auto simp: accepts_def Let_def action_codes_distinct entry_ids_without)
  obtain u where u: "send_event open_gate arr (if length arr = 1 then Up else PointerUp)
      (if length arr = 1 then 0 else k) = [u]" "pointers u = entry_ids arr"
    "te_action u = action_code (if length arr = 1 then Up else PointerUp)"
    "unat (te_action_index u) = (if length arr = 1 then 0 else k)"
    using send_event_open [OF ne assms(2) k'] by blast
  show "accepts_all (send_event open_gate arr (if length arr = 1 then Up else PointerUp)
      (if length arr = 1 then 0 else k)) (entry_ids arr) = Some (entry_ids (without k arr))"
    using u one assms(1)
    by (cases "length arr = 1")
      (auto simp: accepts_def Let_def action_codes_distinct entry_ids_without)
qed

lemma length_slot_list_le: "length (slot_list P f) \<le> kMaxFingers"
  using length_filter_le [of P "[0..<kMaxFingers]"] by (simp add: slot_list_def)

lemma slot_list_cong:
  "(\<And>s. s < kMaxFingers \<Longrightarrow> P s = Q s) \<Longrightarrow> (\<And>s. s < kMaxFingers \<Longrightarrow> P s \<Longrightarrow> f s = g s) \<Longrightarrow>
   slot_list P f = slot_list Q g"
  by (auto simp: slot_list_def cong: filter_cong intro!: map_cong filter_cong)

lemma entry_ids_slot_list:
  "entry_ids (slot_list P f) = map (\<lambda>s. word_of_int (fg_id (f s))) (filter P [0..<kMaxFingers])"
  by (simp add: entry_ids_def slot_list_def)

text \<open>Rising fingers, one event each.\<close>

lemma rising_accepted:
  assumes "distinct slots" and "\<forall>s \<in> set slots. s < kMaxFingers \<and> \<not> P s"
  shows "\<exists>evs. rising_events open_gate cur (slot_list P (finger_at cur)) slots = Some evs \<and>
    accepts_all evs (entry_ids (slot_list P (finger_at cur))) =
      Some (entry_ids (slot_list (\<lambda>s. P s \<or> s \<in> set slots) (finger_at cur)))"
  using assms
proof (induction slots arbitrary: P)
  case (Cons s slots)
  let ?f = "finger_at cur"
  let ?P = "\<lambda>i. P i \<or> i = s"
  have f: "(\<lambda>i. if i = s then ?f s else ?f i) = ?f" by auto
  obtain pos where pos: "insert_sorted (slot_list P ?f) s (?f s) = Some (pos, slot_list ?P ?f)"
    "pos \<le> length (slot_list P ?f)" "without pos (slot_list ?P ?f) = slot_list P ?f"
    "length (slot_list ?P ?f) = Suc (length (slot_list P ?f))"
    using insert_slot_list [of P s ?f ?f] Cons.prems by (auto simp: f)
  have len: "pos < length (slot_list ?P ?f)" using pos(2,4) by simp
  obtain evs where evs: "rising_events open_gate cur (slot_list ?P ?f) slots = Some evs"
    "accepts_all evs (entry_ids (slot_list ?P ?f)) =
      Some (entry_ids (slot_list (\<lambda>i. ?P i \<or> i \<in> set slots) ?f))"
    using Cons.IH [of ?P] Cons.prems by auto
  have c: "slot_list (\<lambda>i. ?P i \<or> i \<in> set slots) ?f = slot_list (\<lambda>i. P i \<or> i \<in> set (s # slots)) ?f"
    by (rule slot_list_cong) auto
  have "accepts_all (send_event open_gate (slot_list ?P ?f)
      (if length (slot_list ?P ?f) = 1 then Down else PointerDown)
      (if length (slot_list ?P ?f) = 1 then 0 else pos)) (entry_ids (slot_list P ?f)) =
      Some (entry_ids (slot_list ?P ?f))"
    using accepts_gain(1) [OF len length_slot_list_le] pos(3) by simp
  then show ?case
    using pos(1) evs c by (simp add: Let_def accepts_all_append)
qed simp

definition prev_of :: "touch_send \<Rightarrow> MtState" where
  "prev_of t = (if \<not> ts_prev_init t then no_fingers else ts_prev t)"

definition one_lifted :: "MtState \<Rightarrow> MtState \<Rightarrow> bool" where
  "one_lifted prev cur \<longleftrightarrow> length (filter (is_falling prev cur) [0..<kMaxFingers]) \<le> 1"

definition stays :: "MtState \<Rightarrow> MtState \<Rightarrow> nat \<Rightarrow> bool" where
  "stays prev cur s \<longleftrightarrow>
     fg_id (finger_at prev s) \<ge> 0 \<and> fg_id (finger_at cur s) = fg_id (finger_at prev s)"

lemma slot_kinds:
  "fg_id (finger_at prev s) \<ge> 0 \<longleftrightarrow> stays prev cur s \<or> is_falling prev cur s"
  "fg_id (finger_at cur s) \<ge> 0 \<longleftrightarrow> stays prev cur s \<or> is_rising prev cur s"
  "stays prev cur s \<Longrightarrow> \<not> is_falling prev cur s" "stays prev cur s \<Longrightarrow> \<not> is_rising prev cur s"
  by (auto simp: stays_def is_falling_def is_rising_def Let_def)

lemma survivors_slot_list: "build_survivors prev cur = slot_list (stays prev cur) (finger_at cur)"
  by (simp add: build_survivors_def slot_list_def stays_def [abs_def])

lemma down_ids_slot_list: "down_ids m = entry_ids (slot_list (\<lambda>s. fg_id (finger_at m s) \<ge> 0) (finger_at m))"
  by (simp add: down_ids_def entry_ids_slot_list)

lemma entry_ids_cong:
  assumes "\<And>s. s < kMaxFingers \<Longrightarrow> P s = Q s"
    and "\<And>s. s < kMaxFingers \<Longrightarrow> Q s \<Longrightarrow> fg_id (f s) = fg_id (g s)"
  shows "entry_ids (slot_list P f) = entry_ids (slot_list Q g)"
  using assms by (auto simp: entry_ids_slot_list cong: filter_cong intro!: map_cong filter_cong)

text \<open>The finger that is lifted, if any.\<close>

lemma falling_accepted:
  assumes "one_lifted prev cur"
  shows "\<exists>evs. falling_events open_gate prev (build_survivors prev cur)
      (filter (is_falling prev cur) [0..<kMaxFingers]) = Some evs \<and>
    accepts_all evs (down_ids prev) = Some (entry_ids (slot_list (stays prev cur) (finger_at cur)))"
proof (cases "filter (is_falling prev cur) [0..<kMaxFingers]")
  case Nil
  then have "\<not> is_falling prev cur s" if "s < kMaxFingers" for s
    using that by (auto simp: filter_empty_conv)
  then have k: "fg_id (finger_at prev s) \<ge> 0 \<longleftrightarrow> stays prev cur s" if "s < kMaxFingers" for s
    using that slot_kinds(1) [of prev s cur] by blast
  have "down_ids prev = entry_ids (slot_list (stays prev cur) (finger_at cur))"
    unfolding down_ids_slot_list by (rule entry_ids_cong) (simp_all add: k, simp add: stays_def)
  then show ?thesis using Nil by simp
next
  case (Cons s rest)
  then have rest: "rest = []" using assms by (simp add: one_lifted_def)
  then have "set (filter (is_falling prev cur) [0..<kMaxFingers]) = {s}" using Cons by simp
  then have set: "{i. i < kMaxFingers \<and> is_falling prev cur i} = {s}" by auto
  have fall: "i < kMaxFingers \<Longrightarrow> is_falling prev cur i \<longleftrightarrow> i = s" for i
    using set by blast
  have s: "s < kMaxFingers" "is_falling prev cur s" using set by blast+
  let ?S = "stays prev cur" and ?f = "finger_at cur" and ?g = "finger_at prev"
  let ?arr = "slot_list (\<lambda>i. ?S i \<or> i = s) (\<lambda>i. if i = s then ?g s else ?f i)"
  obtain pos where pos: "insert_sorted (slot_list ?S ?f) s (?g s) = Some (pos, ?arr)"
    "pos \<le> length (slot_list ?S ?f)" "length ?arr = Suc (length (slot_list ?S ?f))"
    "without pos ?arr = slot_list ?S ?f"
    using insert_slot_list [of ?S s ?f ?g] s slot_kinds(3) by blast
  have "pos < length ?arr" using pos(2,3) by simp
  from accepts_gain(2) [OF this length_slot_list_le]
  have "accepts_all (send_event open_gate ?arr (if length ?arr = 1 then Up else PointerUp)
      (if length ?arr = 1 then 0 else pos)) (entry_ids ?arr) = Some (entry_ids (slot_list ?S ?f))"
    by (simp add: pos(4))
  moreover have "entry_ids ?arr = down_ids prev"
    unfolding down_ids_slot_list
  proof (rule entry_ids_cong)
    fix i assume i: "i < kMaxFingers"
    show "(?S i \<or> i = s) = (0 \<le> fg_id (?g i))"
      using slot_kinds(1) [of prev i cur] fall [OF i] by blast
    then show "0 \<le> fg_id (?g i) \<Longrightarrow> fg_id (if i = s then ?g s else ?f i) = fg_id (?g i)"
      by (auto simp: stays_def)
  qed
  ultimately show ?thesis
    using pos(1) Cons rest by (simp add: survivors_slot_list Let_def)
qed

lemma move_accepted:
  assumes "list_ex (is_moved prev cur) [0..<kMaxFingers]"
  shows "accepts_all (send_event open_gate
      (slot_list (\<lambda>s. \<not> fg_id (finger_at cur s) < 0) (finger_at cur)) Move 0) (down_ids cur) =
    Some (down_ids cur)"
proof -
  let ?arr = "slot_list (\<lambda>s. \<not> fg_id (finger_at cur s) < 0) (finger_at cur)"
  obtain s where "s < kMaxFingers" "fg_id (finger_at cur s) \<ge> 0"
    using assms unfolding list_ex_iff is_moved_def Let_def by auto
  then have ne: "?arr \<noteq> []" unfolding slot_list_def by (force simp: filter_empty_conv)
  have "entry_ids ?arr = down_ids cur"
    unfolding down_ids_slot_list by (rule entry_ids_cong) auto
  then show ?thesis
    using send_event_open [OF ne length_slot_list_le, of 0 Move] ne
    by (auto simp: accepts_def Let_def action_codes_distinct)
qed

lemma frame_accepted:
  assumes "one_lifted (prev_of t) cur"
  shows "\<exists>evs. touch_on_frame open_gate cur t = Some (evs, \<lparr>ts_prev = cur, ts_prev_init = True\<rparr>) \<and>
    accepts_all evs (down_ids (prev_of t)) = Some (down_ids cur)"
proof -
  let ?p = "prev_of t"
  let ?S = "stays ?p cur" and ?R = "filter (is_rising ?p cur) [0..<kMaxFingers]"
  obtain e1 where e1: "falling_events open_gate ?p (build_survivors ?p cur)
      (filter (is_falling ?p cur) [0..<kMaxFingers]) = Some e1"
    "accepts_all e1 (down_ids ?p) = Some (entry_ids (slot_list ?S (finger_at cur)))"
    using falling_accepted [OF assms] by (elim exE conjE)
  have r: "distinct ?R" "\<forall>s \<in> set ?R. s < kMaxFingers \<and> \<not> ?S s"
    using slot_kinds(4) [of ?p cur] by auto
  obtain e2 where e2: "rising_events open_gate cur (slot_list ?S (finger_at cur)) ?R = Some e2"
    "accepts_all e2 (entry_ids (slot_list ?S (finger_at cur))) =
      Some (entry_ids (slot_list (\<lambda>s. ?S s \<or> s \<in> set ?R) (finger_at cur)))"
    using rising_accepted [OF r, of cur] by (elim exE conjE)
  have ids: "entry_ids (slot_list (\<lambda>s. ?S s \<or> s \<in> set ?R) (finger_at cur)) = down_ids cur"
    unfolding down_ids_slot_list
  proof (rule entry_ids_cong)
    fix i assume "i < kMaxFingers"
    then show "(?S i \<or> i \<in> set ?R) = (0 \<le> fg_id (finger_at cur i))"
      using slot_kinds(2) [of cur i ?p] by auto
  qed simp
  let ?m = "list_ex (is_moved ?p cur) [0..<kMaxFingers]"
  let ?arr = "slot_list (\<lambda>s. \<not> fg_id (finger_at cur s) < 0) (finger_at cur)"
  define e3 where "e3 = (if filter (is_falling ?p cur) [0..<kMaxFingers] = [] \<and> ?R = [] \<and> ?m
    then send_event open_gate ?arr Move 0 else [])"
  have "touch_on_frame open_gate cur t = Some (e1 @ e2 @ e3, \<lparr>ts_prev = cur, ts_prev_init = True\<rparr>)"
    unfolding touch_on_frame_def prev_of_def [symmetric] Let_def e1(1) option.case
    unfolding survivors_slot_list e2(1) option.case
    unfolding e3_def slot_list_def ..
  moreover have "accepts_all e3 (down_ids cur) = Some (down_ids cur)"
    using move_accepted [of ?p cur] by (simp add: e3_def)
  then have "accepts_all (e1 @ e2 @ e3) (down_ids ?p) = Some (down_ids cur)"
    using e1(2) e2(2) ids by (simp add: accepts_all_append)
  ultimately show ?thesis by blast
qed

text \<open>Frames in the order the device reports them.\<close>

fun frames :: "oem_touch \<Rightarrow> MtState list \<Rightarrow> touch_send \<Rightarrow> (AAP_TouchEvent list \<times> touch_send) option" where
  "frames e [] t = Some ([], t)"
| "frames e (c # cs) t =
     (case touch_on_frame e c t of
        None \<Rightarrow> None
      | Some (evs, t) \<Rightarrow> map_option (\<lambda>(evs', t). (evs @ evs', t)) (frames e cs t))"

fun one_lifted_all :: "MtState \<Rightarrow> MtState list \<Rightarrow> bool" where
  "one_lifted_all p [] = True"
| "one_lifted_all p (c # cs) \<longleftrightarrow> one_lifted p c \<and> one_lifted_all c cs"

text \<open>
  C19.  The event stream is a well-formed multi-touch gesture: while video has focus, for every
  sequence of device frames in which no two fingers are lifted in one frame - fingers landing,
  moving, changing identity in a slot, up to ten at once - no array is overrun, every event
  names exactly the fingers the previous events left down, and after each sequence the phone
  holds exactly the fingers on the glass.
\<close>

theorem touch_stream_wellformed:
  assumes "one_lifted_all (prev_of t) cs"
  shows "\<exists>evs t'. frames open_gate cs t = Some (evs, t') \<and>
    accepts_all evs (down_ids (prev_of t)) = Some (down_ids (prev_of t')) \<and>
    (cs \<noteq> [] \<longrightarrow> prev_of t' = last cs)"
  using assms
proof (induction cs arbitrary: t)
  case (Cons c cs)
  let ?t = "\<lparr>ts_prev = c, ts_prev_init = True\<rparr>"
  obtain e1 where e1: "touch_on_frame open_gate c t = Some (e1, ?t)"
    "accepts_all e1 (down_ids (prev_of t)) = Some (down_ids c)"
    using frame_accepted Cons.prems by fastforce
  have p: "prev_of ?t = c" by (simp add: prev_of_def)
  obtain e2 t' where e2: "frames open_gate cs ?t = Some (e2, t')"
    "accepts_all e2 (down_ids c) = Some (down_ids (prev_of t'))" "cs \<noteq> [] \<longrightarrow> prev_of t' = last cs"
    using Cons.IH [of ?t] Cons.prems p by auto
  then have "prev_of t' = last (c # cs)" using p by (cases cs) auto
  then show ?case using e1 e2 by (simp add: accepts_all_append)
qed simp

text \<open>One finger lands, a second one lands, the first is lifted.\<close>

definition finger_frame :: "(nat \<times> int) list \<Rightarrow> MtState" where
  "finger_frame ids =
     \<lparr>mt_fingers = fold (\<lambda>(s, i) fs. fs[s := \<lparr>fg_id = i, fg_x = 100, fg_y = 200\<rparr>]) ids
        (replicate kMaxFingers empty_finger), mt_n_active = int (length ids)\<rparr>"

definition sample_frames :: "MtState list" where
  "sample_frames = [finger_frame [(0, 3)], finger_frame [(0, 3), (1, 4)], finger_frame [(1, 4)]]"

definition touch_fresh :: touch_send where
  "touch_fresh = \<lparr>ts_prev = no_fingers, ts_prev_init = False\<rparr>"

lemmas frame_eval = finger_frame_def sample_frames_def touch_fresh_def no_fingers_def
  empty_finger_def kMaxFingers_def finger_at_def upt_rec

lemma sample_one_lifted: "one_lifted_all (prev_of touch_fresh) sample_frames"
  by (simp add: frame_eval one_lifted_def is_falling_def prev_of_def)

lemma sample_down: "down_ids (finger_frame [(1, 4)]) = [4]" "down_ids (prev_of touch_fresh) = []"
  by (simp_all add: frame_eval down_ids_def prev_of_def)

theorem touch_stream_wellformed_witness:
  "\<exists>evs t'. frames open_gate sample_frames touch_fresh = Some (evs, t') \<and>
     accepts_all evs [] = Some [4]"
proof -
  have "last sample_frames = finger_frame [(1, 4)]" by (simp add: sample_frames_def)
  then have l: "down_ids (last sample_frames) = [4]" by (simp only: sample_down(1))
  have "sample_frames \<noteq> []" by (simp add: sample_frames_def)
  then show ?thesis
    using touch_stream_wellformed [OF sample_one_lifted] l unfolding sample_down(2) by metis
qed

section \<open>Two fingers lifted in one frame\<close>

lemma length_down_ids:
  "length (down_ids prev) = length (build_survivors prev cur) +
     length (filter (is_falling prev cur) [0..<kMaxFingers])"
proof -
  have "length (filter (\<lambda>s. fg_id (finger_at prev s) \<ge> 0) xs) =
      length (filter (stays prev cur) xs) + length (filter (is_falling prev cur) xs)" for xs
  proof (induction xs)
    case (Cons x xs)
    then show ?case using slot_kinds(1) [of prev x cur] slot_kinds(3) [of prev cur x] by auto
  qed simp
  then show ?thesis by (simp add: down_ids_def survivors_slot_list slot_list_def)
qed

lemma falling_total:
  assumes "\<forall>s \<in> set slots. s < kMaxFingers \<and> \<not> stays prev cur s"
  shows "\<exists>evs. falling_events e prev (build_survivors prev cur) slots = Some evs"
  using assms
proof (induction slots)
  case (Cons s slots)
  then show ?case
    using insert_slot_list [of "stays prev cur" s "finger_at cur" "finger_at prev"]
    by (auto simp: survivors_slot_list Let_def)
qed simp

text \<open>
  Two fingers lifted in the same frame break the gesture: the first event of the frame
  already names fewer fingers than are down, so a receiver that follows the rule rejects the
  stream; the fingers still waiting for their own event are missing from the array.
\<close>

theorem two_lifted_malformed:
  assumes "\<not> one_lifted (prev_of t) cur"
  shows "\<exists>evs t'. touch_on_frame open_gate cur t = Some (evs, t') \<and>
    accepts_all evs (down_ids (prev_of t)) = None"
proof -
  let ?p = "prev_of t"
  let ?F = "filter (is_falling ?p cur) [0..<kMaxFingers]"
  let ?R = "filter (is_rising ?p cur) [0..<kMaxFingers]"
  let ?S = "stays ?p cur" and ?f = "finger_at cur"
  obtain s rest where F: "?F = s # rest" and rest: "rest \<noteq> []"
    using assms by (cases ?F) (auto simp: one_lifted_def)
  have all: "\<forall>i \<in> set ?F. i < kMaxFingers \<and> \<not> ?S i" using slot_kinds(3) [of ?p cur] by auto
  then have s: "s < kMaxFingers" "\<not> ?S s" and r: "\<forall>i \<in> set rest. i < kMaxFingers \<and> \<not> ?S i"
    unfolding F by simp_all
  let ?arr = "slot_list (\<lambda>i. ?S i \<or> i = s) (\<lambda>i. if i = s then finger_at ?p s else ?f i)"
  obtain pos where pos: "insert_sorted (build_survivors ?p cur) s (finger_at ?p s) = Some (pos, ?arr)"
    "pos \<le> length (slot_list ?S ?f)" "length ?arr = Suc (length (slot_list ?S ?f))"
    using insert_slot_list [of ?S s ?f "finger_at ?p", OF s(2,1)] unfolding survivors_slot_list
    by (elim exE conjE)
  define act where "act = (if length ?arr = 1 then Up else PointerUp)"
  define k where "k = (if length ?arr = 1 then 0 else pos)"
  have ne: "?arr \<noteq> []" and kl: "k < length ?arr" using pos(2,3) by (auto simp: k_def)
  obtain ev where ev: "send_event open_gate ?arr act k = [ev]" "pointers ev = entry_ids ?arr"
    "te_action ev = action_code act"
    using send_event_open [OF ne length_slot_list_le kl, of act] by (elim exE conjE)
  obtain e1 where "falling_events open_gate ?p (build_survivors ?p cur) rest = Some e1"
    using falling_total [OF r, of open_gate] by (elim exE)
  then have fall: "falling_events open_gate ?p (build_survivors ?p cur) ?F = Some (ev # e1)"
    unfolding F falling_events.simps pos(1) option.case prod.case Let_def
    using ev(1) unfolding act_def k_def by simp
  have "distinct ?R" "\<forall>i \<in> set ?R. i < kMaxFingers \<and> \<not> ?S i"
    using slot_kinds(4) [of ?p cur] by auto
  from rising_accepted [OF this, of cur]
  obtain e2 where e2: "rising_events open_gate cur (build_survivors ?p cur) ?R = Some e2"
    unfolding survivors_slot_list by (elim exE conjE) simp
  have "length (pointers ev) \<noteq> length (down_ids ?p)"
    unfolding ev(2) length_down_ids [of ?p cur] F using rest pos(3)
    by (cases rest) (simp_all add: survivors_slot_list)
  then have "pointers ev \<noteq> down_ids ?p" by metis
  then have rej: "accepts ev (down_ids ?p) = None"
    by (simp add: accepts_def ev(3) act_def action_codes_distinct Let_def)
  have "\<exists>e3. touch_on_frame open_gate cur t =
      Some ((ev # e1) @ e2 @ e3, \<lparr>ts_prev = cur, ts_prev_init = True\<rparr>)"
    unfolding touch_on_frame_def prev_of_def [symmetric] Let_def fall option.case e2 by blast
  then show ?thesis using rej by auto
qed

theorem two_lifted_malformed_witness:
  "\<exists>evs t'. touch_on_frame open_gate (finger_frame [])
      \<lparr>ts_prev = finger_frame [(0, 3), (1, 4)], ts_prev_init = True\<rparr> = Some (evs, t') \<and>
    accepts_all evs [3, 4] = None"
proof -
  let ?t = "\<lparr>ts_prev = finger_frame [(0, 3), (1, 4)], ts_prev_init = True\<rparr>"
  have "\<not> one_lifted (prev_of ?t) (finger_frame [])"
    by (simp add: frame_eval one_lifted_def is_falling_def prev_of_def)
  moreover have "down_ids (prev_of ?t) = [3, 4]"
    by (simp add: frame_eval down_ids_def prev_of_def)
  ultimately show ?thesis using two_lifted_malformed [of ?t] by auto
qed

section \<open>Coordinates\<close>

lemma scale_value:
  assumes "unat k * 4294967296 < 2 ^ 64" and "unat k \<le> 800"
  shows "unat (ucast ((ucast (v :: u32) :: u64) * ucast k div ucast kRawMax) :: u32) = unat v * unat (k :: u32) div 4099"
proof -
  have v: "unat v < 4294967296" by (rule less_le_trans [OF unsigned_less]) simp
  have "unat v * unat k \<le> 4294967296 * 800" using v assms(2) by (intro mult_le_mono) simp_all
  then have m: "unat v * unat k < 2 ^ 64" by simp
  have a: "unat (ucast v :: u64) = unat v" "unat (ucast k :: u64) = unat k"
    using v assms(2) by (simp_all add: unsigned_ucast_eq take_bit_nat_eq_self)
  have "unat ((ucast v :: u64) * ucast k) = unat (ucast v :: u64) * unat (ucast k :: u64)"
    by (rule unat_mult_lem [THEN iffD1]) (use m a in simp)
  then have "unat ((ucast v :: u64) * ucast k) = unat v * unat k" by (simp only: a)
  moreover have "unat (ucast kRawMax :: u64) = 4099" by (simp add: kRawMax_def)
  ultimately have "unat ((ucast v :: u64) * ucast k div ucast kRawMax) = unat v * unat k div 4099"
    by (simp add: unat_div)
  moreover have "unat v * unat k div 4099 < 2 ^ 32"
    using \<open>unat v * unat k \<le> 4294967296 * 800\<close> by simp
  ultimately show ?thesis by (simp add: unsigned_ucast_eq take_bit_nat_eq_self)
qed

text \<open>
  Coordinates: for every raw value the scaled one is the exact quotient rounded down, no
  intermediate overflows, the order of points is kept, and raw values below 4099 stay inside
  the 800 by 480 display; the raw value 4099 itself maps one pixel outside it.
\<close>

theorem scale_in_display:
  "unat (scale_x v) = unat v * 800 div 4099 \<and> unat (scale_y v) = unat v * 480 div 4099 \<and>
   (v \<le> w \<longrightarrow> scale_x v \<le> scale_x w \<and> scale_y v \<le> scale_y w) \<and>
   (v < 4099 \<longrightarrow> scale_x v < 800 \<and> scale_y v < 480) \<and> scale_x 4099 = 800 \<and> scale_y 4099 = 480"
proof -
  have x: "unat (scale_x u) = unat u * 800 div 4099" for u
    using scale_value [of kDisplayWidth u] by (simp add: scale_x_def kDisplayWidth_def)
  have y: "unat (scale_y u) = unat u * 480 div 4099" for u
    using scale_value [of kDisplayHeight u] by (simp add: scale_y_def kDisplayHeight_def)
  show ?thesis
    by (auto simp: x y word_le_nat_alt word_less_nat_alt word_unat_eq_iff intro!: div_le_mono mult_le_mono)
qed

theorem scale_in_display_witness: "scale_x 4098 < 800 \<and> scale_y 4098 < 480"
  using scale_in_display [of 4098 4098] by simp

end
