(* ===== verification/Touch.thy ===== *)
theory Touch
  imports Touch_Send
begin

text \<open>
  The touch reader (\<open>touch/touch.cpp\<close>): the bounded open of the event device, the type-B
  multi-touch state the events update, and the session bracket.  What \<open>poll\<close>, \<open>open\<close> and
  \<open>read\<close> return is input.
\<close>

definition kOpenMaxAttempts :: nat where "kOpenMaxAttempts = 60"

definition EV_SYN :: u16 where "EV_SYN = 0"
definition EV_ABS :: u16 where "EV_ABS = 3"
definition SYN_REPORT :: u16 where "SYN_REPORT = 0"
definition SYN_MT_REPORT :: u16 where "SYN_MT_REPORT = 2"
definition SYN_DROPPED :: u16 where "SYN_DROPPED = 3"
definition ABS_MT_SLOT :: u16 where "ABS_MT_SLOT = 0x2f"
definition ABS_MT_POSITION_X :: u16 where "ABS_MT_POSITION_X = 0x35"
definition ABS_MT_POSITION_Y :: u16 where "ABS_MT_POSITION_Y = 0x36"
definition ABS_MT_TRACKING_ID :: u16 where "ABS_MT_TRACKING_ID = 0x39"

lemmas evdev_codes = EV_SYN_def EV_ABS_def SYN_REPORT_def SYN_MT_REPORT_def SYN_DROPPED_def
  ABS_MT_SLOT_def ABS_MT_POSITION_X_def ABS_MT_POSITION_Y_def ABS_MT_TRACKING_ID_def

record input_event =
  ev_type :: u16
  ev_code :: u16
  ev_value :: int

record reader =
  rd_cur :: MtState
  rd_slot :: nat
  rd_send :: touch_send

definition init_state :: MtState where
  "init_state = \<lparr>mt_fingers = replicate kMaxFingers \<lparr>fg_id = -1, fg_x = 0, fg_y = 0\<rparr>, mt_n_active = 0\<rparr>"

definition recount_active :: "MtState \<Rightarrow> MtState" where
  "recount_active m = m\<lparr>mt_n_active := int (length (filter (\<lambda>f. fg_id f \<ge> 0) (mt_fingers m)))\<rparr>"

definition set_finger :: "(Finger \<Rightarrow> Finger) \<Rightarrow> reader \<Rightarrow> reader option" where
  "set_finger f r =
     (if rd_slot r < length (mt_fingers (rd_cur r)) then
        Some (r\<lparr>rd_cur := (rd_cur r)\<lparr>mt_fingers :=
          (mt_fingers (rd_cur r))[rd_slot r := f (mt_fingers (rd_cur r) ! rd_slot r)]\<rparr>\<rparr>)
      else None)"

text \<open>One event; the first component of the result is what was sent to the phone.\<close>

definition reader_frame :: "oem_touch \<Rightarrow> MtState \<Rightarrow> reader \<Rightarrow> (AAP_TouchEvent list \<times> reader) option" where
  "reader_frame e cur r =
     map_option (\<lambda>(evs, t). (evs, r\<lparr>rd_cur := cur, rd_send := t\<rparr>)) (touch_on_frame e cur (rd_send r))"

definition reader_event :: "oem_touch \<Rightarrow> input_event \<Rightarrow> reader \<Rightarrow> (AAP_TouchEvent list \<times> reader) option" where
  "reader_event e ev r =
     (if ev_type ev = EV_ABS then
        map_option (\<lambda>r. ([], r))
          (if ev_code ev = ABS_MT_SLOT then
             (if ev_value ev \<ge> 0 \<and> ev_value ev < int kMaxFingers
              then Some (r\<lparr>rd_slot := nat (ev_value ev)\<rparr>)
              else Some (r\<lparr>rd_slot := 0\<rparr>))
           else if ev_code ev = ABS_MT_TRACKING_ID then
             set_finger (\<lambda>f. f\<lparr>fg_id := ev_value ev\<rparr>) r
           else if ev_code ev = ABS_MT_POSITION_X then
             set_finger (\<lambda>f. f\<lparr>fg_x := word_of_int (ev_value ev)\<rparr>) r
           else if ev_code ev = ABS_MT_POSITION_Y then
             set_finger (\<lambda>f. f\<lparr>fg_y := word_of_int (ev_value ev)\<rparr>) r
           else Some r)
      else if ev_type ev = EV_SYN then
        (if ev_code ev = SYN_REPORT then reader_frame e (recount_active (rd_cur r)) r
         else if ev_code ev = SYN_MT_REPORT then Some ([], r)
         else if ev_code ev = SYN_DROPPED then reader_frame e init_state r
         else Some ([], r))
      else Some ([], r))"

fun reader_events :: "oem_touch \<Rightarrow> input_event list \<Rightarrow> reader \<Rightarrow> (AAP_TouchEvent list \<times> reader) option" where
  "reader_events e [] r = Some ([], r)"
| "reader_events e (ev # evs) r =
     (case reader_event e ev r of
        None \<Rightarrow> None
      | Some (out, r) \<Rightarrow> map_option (\<lambda>(out', r). (out @ out', r)) (reader_events e evs r))"

text \<open>
  One pass of the loop: the result of \<open>poll\<close> (and whether it was interrupted), the two flags, and
  what \<open>read\<close> gives (\<open>Inl\<close> whether the failure is transient).  The first component tells whether
  the loop goes on.
\<close>

record reader_input =
  ri_poll :: int
  ri_intr :: bool
  ri_stop :: bool
  ri_ready :: bool
  ri_read :: "bool + input_event"

definition reader_pass ::
  "oem_touch \<Rightarrow> reader_input \<Rightarrow> reader \<Rightarrow> (bool \<times> AAP_TouchEvent list \<times> reader) option" where
  "reader_pass e i r =
     (if ri_poll i < 0 then Some (ri_intr i, [], r)
      else if ri_stop i then Some (False, [], r)
      else if \<not> ri_ready i then Some (True, [], r)
      else
        (case ri_read i of
           Inl transient \<Rightarrow> Some (transient, [], r)
         | Inr ev \<Rightarrow> map_option (\<lambda>x. (True, x)) (reader_event e ev r)))"

text \<open>
  \<open>open_touch_device\<close> from an attempt on: \<open>stop a\<close> and \<open>wait a\<close> are the stop tests before and
  after attempt \<open>a\<close>, \<open>fd a\<close> what \<open>open\<close> returns.  The result is the descriptor and the number of
  attempts made.
\<close>

function open_touch_device :: "(nat \<Rightarrow> bool) \<Rightarrow> (nat \<Rightarrow> int) \<Rightarrow> (nat \<Rightarrow> bool) \<Rightarrow> nat \<Rightarrow> int \<times> nat" where
  "open_touch_device stop fd wait attempt =
     (if \<not> attempt < kOpenMaxAttempts then (-1, attempt)
      else if stop attempt then (-1, attempt)
      else if fd attempt \<ge> 0 then (fd attempt, attempt + 1)
      else if attempt + 1 \<ge> kOpenMaxAttempts then (-1, attempt + 1)
      else if wait attempt then (-1, attempt + 1)
      else open_touch_device stop fd wait (attempt + 1))"
  by pat_completeness auto
termination
  by (relation "measure (\<lambda>(stop, fd, wait, a). kOpenMaxAttempts - a)") auto

declare open_touch_device.simps [simp del]

definition reader_init :: "touch_send \<Rightarrow> reader" where
  "reader_init t = \<lparr>rd_cur = init_state, rd_slot = 0, rd_send = t\<rparr>"

section \<open>The session bracket\<close>

record touch_session =
  tc_alive :: bool
  tc_stop_fd :: int
  tc_send :: touch_send

definition touch_post_aap_create_session :: "int \<Rightarrow> bool \<Rightarrow> touch_session \<Rightarrow> touch_session" where
  "touch_post_aap_create_session efd spawned s =
     (if tc_alive s then s
      else
        let s = s\<lparr>tc_send := touch_send_reset (tc_send s), tc_stop_fd := efd\<rparr> in
        if efd < 0 then s
        else if \<not> spawned then s\<lparr>tc_stop_fd := -1\<rparr>
        else s\<lparr>tc_alive := True\<rparr>)"

text \<open>\<open>final\<close> is the sender state the joined reader left.\<close>

definition touch_pre_aap_destroy_session :: "touch_send \<Rightarrow> touch_session \<Rightarrow> touch_session" where
  "touch_pre_aap_destroy_session final s =
     (if \<not> tc_alive s then s else s\<lparr>tc_alive := False, tc_stop_fd := -1, tc_send := final\<rparr>)"

section \<open>Safety of the reader\<close>

definition reader_ok :: "reader \<Rightarrow> bool" where
  "reader_ok r \<longleftrightarrow> length (mt_fingers (rd_cur r)) = kMaxFingers \<and> rd_slot r < kMaxFingers"

lemma rising_total:
  assumes "distinct slots" and "\<forall>s \<in> set slots. s < kMaxFingers \<and> \<not> P s"
  shows "\<exists>evs. rising_events e cur (slot_list P (finger_at cur)) slots = Some evs"
  using assms
proof (induction slots arbitrary: P)
  case (Cons s slots)
  let ?P = "\<lambda>i. P i \<or> i = s"
  have f: "(\<lambda>i. if i = s then finger_at cur s else finger_at cur i) = finger_at cur" by auto
  have s: "\<not> P s" "s < kMaxFingers" using Cons.prems(2) by simp_all
  obtain pos where pos: "insert_sorted (slot_list P (finger_at cur)) s (finger_at cur s) =
      Some (pos, slot_list ?P (finger_at cur))"
    using insert_slot_list [of P s "finger_at cur" "finger_at cur"] s unfolding f by blast
  obtain evs where "rising_events e cur (slot_list ?P (finger_at cur)) slots = Some evs"
    using Cons.IH [of ?P] Cons.prems by auto
  then show ?case using pos by (simp add: Let_def)
qed simp

lemma touch_on_frame_total:
  "\<exists>evs. touch_on_frame e cur t = Some (evs, \<lparr>ts_prev = cur, ts_prev_init = True\<rparr>)"
proof -
  let ?p = "prev_of t"
  have "\<forall>s \<in> set (filter (is_falling ?p cur) [0..<kMaxFingers]). s < kMaxFingers \<and> \<not> stays ?p cur s"
    using slot_kinds(3) [of ?p cur] by auto
  from falling_total [OF this, of e] obtain e1 where e1: "falling_events e ?p (build_survivors ?p cur)
      (filter (is_falling ?p cur) [0..<kMaxFingers]) = Some e1" by (elim exE)
  have "distinct (filter (is_rising ?p cur) [0..<kMaxFingers])"
    "\<forall>s \<in> set (filter (is_rising ?p cur) [0..<kMaxFingers]). s < kMaxFingers \<and> \<not> stays ?p cur s"
    using slot_kinds(4) [of ?p cur] by auto
  from rising_total [OF this, of e cur] obtain e2 where e2: "rising_events e cur (build_survivors ?p cur)
      (filter (is_rising ?p cur) [0..<kMaxFingers]) = Some e2"
    unfolding survivors_slot_list by (elim exE)
  show ?thesis
    unfolding touch_on_frame_def prev_of_def [symmetric] Let_def e1 option.case e2 by blast
qed

lemma length_init_state [simp]: "length (mt_fingers init_state) = kMaxFingers"
  by (simp add: init_state_def)

lemma reader_event_ok:
  assumes "reader_ok r"
  shows "\<exists>out r'. reader_event e ev r = Some (out, r') \<and> reader_ok r'"
proof -
  have f: "\<exists>r'. set_finger f r = Some r' \<and> reader_ok r'" for f
    using assms by (auto simp: set_finger_def reader_ok_def)
  have fr: "\<exists>out r'. reader_frame e cur r = Some (out, r') \<and> reader_ok r'"
    if "length (mt_fingers cur) = kMaxFingers" for cur
    using touch_on_frame_total [of e cur "rd_send r"] assms that
    by (auto simp: reader_frame_def reader_ok_def)
  have "length (mt_fingers (recount_active (rd_cur r))) = kMaxFingers"
    using assms by (simp add: recount_active_def reader_ok_def)
  note frames = fr [OF this] fr [OF length_init_state]
  have slot: "reader_ok (r\<lparr>rd_slot := nat v\<rparr>)" if "0 \<le> v" "v < int kMaxFingers" for v
    using assms that by (simp add: reader_ok_def nat_less_iff)
  have slot0: "reader_ok (r\<lparr>rd_slot := 0\<rparr>)"
    using assms by (simp add: reader_ok_def)
  show ?thesis
    unfolding reader_event_def using f frames slot slot0 assms by auto
qed

text \<open>
  C37.  The reader never leaves its arrays: for every sequence of device events - any types, codes
  and values, overflowed queues included - and whatever the OEM's focus state, each event is
  processed, the slot stays below ten and the finger table keeps its ten entries.
\<close>

theorem reader_never_fails:
  assumes "reader_ok r"
  shows "\<exists>out r'. reader_events e evs r = Some (out, r') \<and> rd_slot r' < 10 \<and>
    length (mt_fingers (rd_cur r')) = 10"
proof -
  have "\<exists>out r'. reader_events e evs r = Some (out, r') \<and> reader_ok r'"
    using assms
  proof (induction evs arbitrary: r)
    case (Cons ev evs)
    then obtain o1 r1 where r1: "reader_event e ev r = Some (o1, r1)" "reader_ok r1"
      using reader_event_ok by metis
    then show ?case using Cons.IH [OF r1(2)] by auto
  qed simp
  then show ?thesis by (auto simp: reader_ok_def kMaxFingers_def)
qed

theorem reader_never_fails_witness:
  "\<exists>out r'. reader_events open_gate
      [\<lparr>ev_type = 3, ev_code = 0x2f, ev_value = 9\<rparr>, \<lparr>ev_type = 3, ev_code = 0x39, ev_value = 5\<rparr>,
       \<lparr>ev_type = 0, ev_code = 0, ev_value = 0\<rparr>] (reader_init touch_fresh) = Some (out, r') \<and> rd_slot r' < 10"
proof -
  have "reader_ok (reader_init touch_fresh)"
    by (simp add: reader_ok_def reader_init_def kMaxFingers_def)
  from reader_never_fails [OF this] show ?thesis by blast
qed

text \<open>
  A slot number the table does not have is not ignored: its finger overwrites the one in
  slot 0, so an eleventh contact replaces the first finger's identity and, with the next report,
  looks like a lift of the first finger.
\<close>

theorem slot_overflow_hits_first:
  assumes "reader_ok r" and "10 \<le> v"
  shows "\<exists>r'. reader_events e
      [\<lparr>ev_type = EV_ABS, ev_code = ABS_MT_SLOT, ev_value = v\<rparr>,
       \<lparr>ev_type = EV_ABS, ev_code = ABS_MT_TRACKING_ID, ev_value = i\<rparr>] r = Some ([], r') \<and>
    fg_id (finger_at (rd_cur r') 0) = i \<and>
    (\<forall>s < 10. 0 < s \<longrightarrow> finger_at (rd_cur r') s = finger_at (rd_cur r) s)"
proof -
  have "length (mt_fingers (rd_cur r)) = 10" using assms(1) by (simp add: reader_ok_def kMaxFingers_def)
  then show ?thesis
    using assms(2)
    by (simp add: reader_event_def set_finger_def evdev_codes kMaxFingers_def finger_at_def)
qed

theorem slot_overflow_hits_first_witness:
  "\<exists>r'. reader_events open_gate
      [\<lparr>ev_type = EV_ABS, ev_code = ABS_MT_SLOT, ev_value = 12\<rparr>,
       \<lparr>ev_type = EV_ABS, ev_code = ABS_MT_TRACKING_ID, ev_value = 44\<rparr>] (reader_init touch_fresh) =
      Some ([], r') \<and> fg_id (finger_at (rd_cur r') 0) = 44"
proof -
  have "reader_ok (reader_init touch_fresh)"
    by (simp add: reader_ok_def reader_init_def kMaxFingers_def)
  from slot_overflow_hits_first [OF this, of 12 open_gate 44] show ?thesis by auto
qed

section \<open>The bounded open\<close>

lemma open_found:
  assumes "a < kOpenMaxAttempts" and "fd a \<ge> 0" and "k \<le> a" and "\<forall>b. k \<le> b \<and> b < a \<longrightarrow> fd b < 0 \<and> \<not> wait b"
    and "\<forall>b. k \<le> b \<and> b \<le> a \<longrightarrow> \<not> stop b"
  shows "open_touch_device stop fd wait k = (fd a, a + 1)"
  using assms(3-5)
proof (induction "a - k" arbitrary: k)
  case 0
  then show ?case using assms(1,2) by (subst open_touch_device.simps) simp
next
  case (Suc d)
  then have "k < a" by simp
  then have "open_touch_device stop fd wait (k + 1) = (fd a, a + 1)"
    using Suc.hyps(1) [of "k + 1"] Suc.hyps(2) Suc.prems by simp
  then show ?case
    using Suc.prems \<open>k < a\<close> assms(1) by (subst open_touch_device.simps) auto
qed

lemma open_bounded:
  "k \<le> kOpenMaxAttempts \<Longrightarrow>
   snd (open_touch_device stop fd wait k) \<le> kOpenMaxAttempts \<and>
   (fst (open_touch_device stop fd wait k) = -1 \<or>
    (\<exists>a < kOpenMaxAttempts. fst (open_touch_device stop fd wait k) = fd a \<and> fd a \<ge> 0))"
proof (induction stop fd wait k rule: open_touch_device.induct)
  case (1 stop fd wait k)
  have eq: "open_touch_device stop fd wait k = (fd k, k + 1)"
    if "k < kOpenMaxAttempts" "\<not> stop k" "fd k \<ge> 0"
    using that by (simp add: open_touch_device.simps [of stop fd wait k])
  have rec: "open_touch_device stop fd wait k = open_touch_device stop fd wait (k + 1)"
    if "k < kOpenMaxAttempts" "\<not> stop k" "\<not> fd k \<ge> 0" "\<not> k + 1 \<ge> kOpenMaxAttempts" "\<not> wait k"
    using that by (simp add: open_touch_device.simps [of stop fd wait k])
  have fails: "fst (open_touch_device stop fd wait k) = -1 \<and> snd (open_touch_device stop fd wait k) \<le> kOpenMaxAttempts"
    if "\<not> k < kOpenMaxAttempts \<or> stop k \<or> (\<not> fd k \<ge> 0 \<and> (k + 1 \<ge> kOpenMaxAttempts \<or> wait k))"
    using that "1.prems" by (auto simp: open_touch_device.simps [of stop fd wait k])
  consider "k < kOpenMaxAttempts" "\<not> stop k" "fd k \<ge> 0"
    | "k < kOpenMaxAttempts" "\<not> stop k" "\<not> fd k \<ge> 0" "\<not> k + 1 \<ge> kOpenMaxAttempts" "\<not> wait k"
    | "\<not> k < kOpenMaxAttempts \<or> stop k \<or> (\<not> fd k \<ge> 0 \<and> (k + 1 \<ge> kOpenMaxAttempts \<or> wait k))"
    by blast
  then show ?case
  proof cases
    case 1
    show ?thesis unfolding eq [OF 1] using 1 by auto
  next
    case 2
    show ?thesis unfolding rec [OF 2] using "1.IH" 2 by simp
  next
    case 3
    from fails [OF 3] show ?thesis by blast
  qed
qed

text \<open>
  Opening the touch device terminates: after at most sixty attempts it returns, either -1
  or a descriptor \<open>open\<close> gave; and when no stop is requested, the first attempt below sixty that
  succeeds is the one returned.
\<close>

theorem open_terminates:
  "snd (open_touch_device stop fd wait 0) \<le> 60 \<and>
   (fst (open_touch_device stop fd wait 0) = -1 \<or>
    (\<exists>a < 60. fst (open_touch_device stop fd wait 0) = fd a \<and> fd a \<ge> 0)) \<and>
   (\<forall>a < 60. fd a \<ge> 0 \<and> (\<forall>b < a. fd b < 0) \<longrightarrow>
      open_touch_device (\<lambda>_. False) fd (\<lambda>_. False) 0 = (fd a, a + 1))"
proof (intro conjI allI impI)
  note b = open_bounded [of 0 stop fd wait, unfolded kOpenMaxAttempts_def]
  show "snd (open_touch_device stop fd wait 0) \<le> 60" using b by simp
  show "fst (open_touch_device stop fd wait 0) = -1 \<or>
    (\<exists>a < 60. fst (open_touch_device stop fd wait 0) = fd a \<and> fd a \<ge> 0)" using b by simp
  fix a :: nat assume a: "a < 60" and f: "0 \<le> fd a \<and> (\<forall>b < a. fd b < 0)"
  show "open_touch_device (\<lambda>_. False) fd (\<lambda>_. False) 0 = (fd a, a + 1)"
    by (rule open_found) (use a f in \<open>auto simp: kOpenMaxAttempts_def\<close>)
qed

theorem open_terminates_witness:
  "open_touch_device (\<lambda>_. False) (\<lambda>a. if a < 5 then -1 else 33) (\<lambda>_. False) 0 = (33, 6)"
proof -
  let ?fd = "\<lambda>a :: nat. if a < 5 then -1 else 33 :: int"
  have "?fd 5 \<ge> 0 \<and> (\<forall>b < 5. ?fd b < 0)" by simp
  then show ?thesis
    using open_terminates [of "\<lambda>_. False" ?fd "\<lambda>_. False"] by (auto dest!: spec [of _ "5 :: nat"])
qed

end
