(* ===== verification/Bt16pair.thy ===== *)
theory Bt16pair
  imports Config
begin

text \<open>
  The pairing bypass of the wireless dongle (\<open>bt16pair/bt16pair.cpp\<close>): the wrapper around the
  projection-status callback, the single-flight guard and the activator thread.  What the vendor's
  objects answer at one moment is a \<open>bt_view\<close>; addresses are words, 0 is null.  A call of
  \<open>spawn_activator_once\<close> is two steps, since the mutex is released between the test of the guard
  and the creation of the thread.  \<open>bt_armed\<close> and \<open>bt_calls\<close> are history variables: how often the
  guard was taken, and the calls of \<open>ActivateAapSession\<close> with the view each was made on.
\<close>

definition kCbListProjSlot :: nat where "kCbListProjSlot = 3"
definition kAapProjectionSetup :: int where "kAapProjectionSetup = 0x403"
definition kDongleDevName :: "u8 list" where "kDongleDevName = ascii ''AAWireless''"
definition kConnModePendingPair :: int where "kConnModePendingPair = 2"
definition kConnModeActivated :: int where "kConnModeActivated = 3"
definition kGraceTries :: nat where "kGraceTries = 30"

section \<open>One poll\<close>

record bt_view =
  bv_aap :: u32
  bv_vm :: u32
  bv_focus :: int
  bv_cm :: u32
  bv_mode :: int
  bv_dev :: "u8 list option"

definition view_focus :: "bt_view \<Rightarrow> int" where
  "view_focus v = (if bv_aap v \<noteq> 0 \<and> bv_vm v \<noteq> 0 then bv_focus v else 0)"

definition view_mode :: "bt_view \<Rightarrow> int" where
  "view_mode v = (if bv_cm v \<noteq> 0 then bv_mode v else -1)"

definition view_activated :: "bt_view \<Rightarrow> bool" where
  "view_activated v \<longleftrightarrow> view_focus v \<noteq> 0 \<or> view_mode v = kConnModeActivated"

definition view_parked :: "bt_view \<Rightarrow> bool" where
  "view_parked v \<longleftrightarrow> bv_cm v \<noteq> 0 \<and> view_mode v = kConnModePendingPair"

text \<open>The thread is in its loop at poll \<open>i\<close>, or past it with the value of \<open>injected\<close>.\<close>

datatype activator = Polling nat | Leaving bool

type_synonym bt_calls = "(u32 \<times> bt_view) list"

definition activator_step :: "bt_view \<Rightarrow> nat \<Rightarrow> activator \<times> bt_calls" where
  "activator_step v i =
     (if \<not> i < kGraceTries then (Leaving False, [])
      else if view_activated v then (Leaving False, [])
      else if view_parked v then (Leaving True, [(bv_cm v, v)])
      else (Polling (i + 1), []))"

lemma activator_step_polling: "activator_step v i = (Polling j, cs) \<Longrightarrow> i < kGraceTries \<and> j = i + 1"
  by (auto simp: activator_step_def split: if_splits)

text \<open>The loop from poll \<open>i\<close> on, \<open>view i\<close> what it sees then: the calls and the polls made.\<close>

function activator_loop :: "(nat \<Rightarrow> bt_view) \<Rightarrow> nat \<Rightarrow> bt_calls \<times> nat" where
  "activator_loop view i =
     (case activator_step (view i) i of
        (Leaving injected, cs) \<Rightarrow> (cs, i)
      | (Polling j, cs) \<Rightarrow> activator_loop view j)"
  by pat_completeness auto
termination
  by (relation "measure (\<lambda>(view, i). kGraceTries - i)") (auto dest!: activator_step_polling [OF sym])

declare activator_loop.simps [simp del]

section \<open>The state and its steps\<close>

record bt16 =
  bt_orig :: u32
  bt_running :: bool
  bt_starting :: nat
  bt_threads :: "activator list"
  bt_armed :: nat
  bt_calls :: bt_calls

definition bt16_init :: bt16 where
  "bt16_init = \<lparr>bt_orig = 0, bt_running = False, bt_starting = 0, bt_threads = [], bt_armed = 0,
     bt_calls = []\<rparr>"

definition spawn_activator_once :: "bt16 \<Rightarrow> bt16" where
  "spawn_activator_once s =
     (if bt_running s then s
      else s\<lparr>bt_running := True, bt_starting := bt_starting s + 1, bt_armed := bt_armed s + 1\<rparr>)"

definition spawn_activator_create :: "bool \<Rightarrow> bt16 \<Rightarrow> bt16" where
  "spawn_activator_create ok s =
     (let s = s\<lparr>bt_starting := bt_starting s - 1\<rparr> in
      if ok then s\<lparr>bt_threads := bt_threads s @ [Polling 0]\<rparr> else s\<lparr>bt_running := False\<rparr>)"

text \<open>\<open>oem f\<close> is the function at address \<open>f\<close>, on its three arguments.\<close>

definition our_projection_status_cb ::
  "Settings \<Rightarrow> (u32 \<Rightarrow> u32 \<times> int \<times> u32 \<Rightarrow> int) \<Rightarrow> bt_view \<Rightarrow> u32 \<times> int \<times> u32 \<Rightarrow> bt16 \<Rightarrow> int \<times> bt16" where
  "our_projection_status_cb cfg oem v args s =
     (let rc = (if bt_orig s \<noteq> 0 then oem (bt_orig s) args else 0);
          dev = (if bv_cm v \<noteq> 0 then bv_dev v else None) in
      if fst (snd args) \<noteq> kAapProjectionSetup then (rc, s)
      else if \<not> cfg_use_protocol_v1_6 cfg then (rc, s)
      else if bv_cm v = 0 then (rc, s)
      else
        (case dev of
           None \<Rightarrow> (rc, s)
         | Some d \<Rightarrow> if cstr d \<noteq> kDongleDevName then (rc, s) else (rc, spawn_activator_once s)))"

text \<open>\<open>wrapper\<close> is the address of \<open>our_projection_status_cb\<close>; \<open>None\<close> is an access past the table.\<close>

definition bt16pair_pre_aap_create_session ::
  "u32 \<Rightarrow> u32 list option \<Rightarrow> bt16 \<Rightarrow> (u32 list option \<times> bt16) option" where
  "bt16pair_pre_aap_create_session wrapper cb_list s =
     (case cb_list of
        None \<Rightarrow> Some (None, s)
      | Some slots \<Rightarrow>
          if \<not> kCbListProjSlot < length slots then None
          else if slots ! kCbListProjSlot = wrapper then Some (Some slots, s)
          else
            Some (Some (slots[kCbListProjSlot := wrapper]), s\<lparr>bt_orig := slots ! kCbListProjSlot\<rparr>))"

definition activator_poll :: "nat \<Rightarrow> nat \<Rightarrow> bt_view \<Rightarrow> bt16 \<Rightarrow> bt16" where
  "activator_poll t i v s =
     (let (a, cs) = activator_step v i in
      s\<lparr>bt_threads := (bt_threads s)[t := a], bt_calls := bt_calls s @ cs\<rparr>)"

definition activator_exit :: "nat \<Rightarrow> bt16 \<Rightarrow> bt16" where
  "activator_exit t s =
     s\<lparr>bt_running := False, bt_threads := take t (bt_threads s) @ drop (Suc t) (bt_threads s)\<rparr>"

inductive bt_step :: "Settings \<Rightarrow> bt16 \<Rightarrow> bt16 \<Rightarrow> bool" for cfg where
  hook: "bt16pair_pre_aap_create_session w cbs s = Some (cbs', t) \<Longrightarrow> bt_step cfg s t"
| event: "our_projection_status_cb cfg oem v args s = (rc, t) \<Longrightarrow> bt_step cfg s t"
| create: "0 < bt_starting s \<Longrightarrow> bt_step cfg s (spawn_activator_create ok s)"
| poll: "t < length (bt_threads s) \<Longrightarrow> bt_threads s ! t = Polling i \<Longrightarrow>
    bt_step cfg s (activator_poll t i v s)"
| leave: "t < length (bt_threads s) \<Longrightarrow> bt_threads s ! t = Leaving injected \<Longrightarrow>
    bt_step cfg s (activator_exit t s)"

section \<open>Invariant\<close>

definition polling :: "activator list \<Rightarrow> nat" where
  "polling ts = length (filter (\<lambda>a. case a of Polling i \<Rightarrow> True | Leaving j \<Rightarrow> False) ts)"

definition bt_ok :: "bt16 \<Rightarrow> bool" where
  "bt_ok s \<longleftrightarrow>
     bt_starting s + length (bt_threads s) = (if bt_running s then 1 else 0) \<and>
     length (bt_calls s) + polling (bt_threads s) + bt_starting s \<le> bt_armed s \<and>
     (\<forall>(c, v) \<in> set (bt_calls s). c = bv_cm v \<and> view_parked v \<and> \<not> view_activated v)"

lemma bt_ok_init: "bt_ok bt16_init"
  by (simp add: bt_ok_def bt16_init_def polling_def)

lemma spawn_ok: "bt_ok s \<Longrightarrow> bt_ok (spawn_activator_once s)"
  by (simp add: bt_ok_def spawn_activator_once_def)

lemma create_ok: "bt_ok s \<Longrightarrow> 0 < bt_starting s \<Longrightarrow> bt_ok (spawn_activator_create ok s)"
  by (cases "bt_threads s")
    (auto simp: bt_ok_def spawn_activator_create_def polling_def Let_def split: if_splits)

lemma only_thread: "bt_ok s \<Longrightarrow> t < length (bt_threads s) \<Longrightarrow>
    t = 0 \<and> bt_running s \<and> bt_starting s = 0 \<and> bt_threads s = [bt_threads s ! 0]"
  by (cases "bt_threads s") (auto simp: bt_ok_def split: if_splits)

lemma poll_ok:
  assumes "bt_ok s" and "t < length (bt_threads s)" and "bt_threads s ! t = Polling i"
  shows "bt_ok (activator_poll t i v s)"
proof -
  have o: "t = 0" "bt_running s" "bt_starting s = 0" "bt_threads s = [Polling i]"
    using only_thread [OF assms(1,2)] assms(3) by auto
  show ?thesis
    using assms(1) o
    by (auto simp: bt_ok_def activator_poll_def activator_step_def polling_def)
qed

lemma exit_ok:
  assumes "bt_ok s" and "t < length (bt_threads s)" and "bt_threads s ! t = Leaving j"
  shows "bt_ok (activator_exit t s)"
proof -
  have o: "t = 0" "bt_running s" "bt_starting s = 0" "bt_threads s = [Leaving j]"
    using only_thread [OF assms(1,2)] assms(3) by auto
  show ?thesis using assms(1) o by (auto simp: bt_ok_def activator_exit_def polling_def)
qed

lemma bt_step_ok: "bt_step cfg s t \<Longrightarrow> bt_ok s \<Longrightarrow> bt_ok t"
proof (induction rule: bt_step.induct)
  case (hook w cbs s cbs' t)
  then show ?case
    by (auto simp: bt16pair_pre_aap_create_session_def bt_ok_def split: option.splits if_splits)
next
  case (event oem v args s rc t)
  then show ?case using spawn_ok [of s]
    by (auto simp: our_projection_status_cb_def Let_def split: option.splits if_splits)
qed (simp_all add: create_ok poll_ok exit_ok)

lemma bt_reachable_ok: "(bt_step cfg)\<^sup>*\<^sup>* bt16_init s \<Longrightarrow> bt_ok s"
  by (induction rule: rtranclp_induct) (auto simp: bt_ok_init bt_step_ok)

section \<open>Properties\<close>

text \<open>
  C32.  Single flight: in every interleaving of projection events, thread creations and polls there
  is at most one activator, it exists only while the guard is taken, every forced activation was
  made on a connection manager that was waiting for the missing pairing while the phone did not
  hold the display, and there are at most as many of them as times the guard was taken.
\<close>

theorem activation_single_flight:
  assumes "(bt_step cfg)\<^sup>*\<^sup>* bt16_init s"
  shows "length (bt_threads s) \<le> 1 \<and> (bt_threads s \<noteq> [] \<longrightarrow> bt_running s) \<and>
    length (bt_calls s) \<le> bt_armed s \<and>
    (\<forall>(c, v) \<in> set (bt_calls s). c \<noteq> 0 \<and> c = bv_cm v \<and> bv_mode v = 2 \<and> view_focus v = 0)"
proof -
  have ok: "bt_ok s" using bt_reachable_ok [OF assms] .
  then have "length (bt_threads s) \<le> 1" "bt_threads s \<noteq> [] \<Longrightarrow> bt_running s"
    "length (bt_calls s) \<le> bt_armed s"
    by (auto simp: bt_ok_def split: if_splits)
  moreover have "\<forall>(c, v) \<in> set (bt_calls s). c \<noteq> 0 \<and> c = bv_cm v \<and> bv_mode v = 2 \<and> view_focus v = 0"
    using ok by (auto simp: bt_ok_def view_parked_def view_activated_def view_mode_def
        kConnModePendingPair_def)
  ultimately show ?thesis by blast
qed

text \<open>The step relation runs the loop.\<close>

lemma loop_unfold:
  "activator_loop view i =
     (if \<not> i < kGraceTries then ([], i)
      else if view_activated (view i) then ([], i)
      else if view_parked (view i) then ([(bv_cm (view i), view i)], i)
      else activator_loop view (i + 1))"
  by (subst activator_loop.simps) (simp add: activator_step_def)

definition idle_view :: "bt_view \<Rightarrow> bool" where
  "idle_view v \<longleftrightarrow> \<not> view_activated v \<and> \<not> view_parked v"

lemma loop_skips: "\<forall>k<n. idle_view (view (i + k)) \<Longrightarrow> i + n \<le> kGraceTries \<Longrightarrow>
    activator_loop view i = activator_loop view (i + n)"
proof (induction n arbitrary: i)
  case (Suc n)
  have "idle_view (view i)" using Suc.prems(1) by (metis add.right_neutral zero_less_Suc)
  moreover have "i < kGraceTries" using Suc.prems(2) by simp
  ultimately have "activator_loop view i = activator_loop view (i + 1)"
    by (subst loop_unfold) (simp add: idle_view_def)
  moreover have "\<forall>k<n. idle_view (view (i + 1 + k))"
  proof (intro allI impI)
    fix k assume "k < n"
    then show "idle_view (view (i + 1 + k))" using Suc.prems(1) [rule_format, of "Suc k"] by simp
  qed
  ultimately show ?case using Suc.IH [of "i + 1"] Suc.prems(2) by simp
qed simp

lemma loop_run:
  assumes "bt_threads s = [Polling i]" and "activator_loop view i = (cs, n)"
  shows "(bt_step cfg)\<^sup>*\<^sup>* s (s\<lparr>bt_running := False, bt_threads := [], bt_calls := bt_calls s @ cs\<rparr>)"
  using assms
proof (induction "kGraceTries - i" arbitrary: i s rule: less_induct)
  case less
  obtain a cs1 where a: "activator_step (view i) i = (a, cs1)" by fastforce
  let ?t = "activator_poll 0 i (view i) s"
  have t: "?t = s\<lparr>bt_threads := [a], bt_calls := bt_calls s @ cs1\<rparr>"
    using less.prems(1) a by (simp add: activator_poll_def)
  have step: "bt_step cfg s ?t" by (rule bt_step.poll) (simp_all add: less.prems(1))
  show ?case
  proof (cases a)
    case (Leaving j)
    have "cs = cs1" using less.prems(2) a Leaving by (simp add: activator_loop.simps [of view i])
    moreover have "bt_step cfg ?t (activator_exit 0 ?t)"
      by (rule bt_step.leave) (simp_all add: t Leaving)
    moreover have "activator_exit 0 ?t = s\<lparr>bt_running := False, bt_threads := [], bt_calls := bt_calls s @ cs1\<rparr>"
      by (simp add: t activator_exit_def)
    ultimately show ?thesis using step by (metis rtranclp.rtrancl_into_rtrancl rtranclp.rtrancl_refl)
  next
    case (Polling j)
    have j: "i < kGraceTries" "j = i + 1" "cs1 = []"
      using activator_step_polling [of "view i" i j cs1] a Polling
      by (auto simp: activator_step_def split: if_splits)
    have "activator_loop view j = (cs, n)"
      using less.prems(2) a Polling by (simp add: activator_loop.simps [of view i])
    then have "(bt_step cfg)\<^sup>*\<^sup>* ?t (?t\<lparr>bt_running := False, bt_threads := [], bt_calls := bt_calls ?t @ cs\<rparr>)"
      using j Polling by (intro less.hyps [of j]) (simp_all add: t)
    then show ?thesis using step j(3) by (simp add: t converse_rtranclp_into_rtranclp)
  qed
qed

text \<open>
  A flight: what may happen from the creation of the thread until it leaves, with the number of
  steps of the thread; its poll \<open>i\<close> sees \<open>view i\<close>, everything else is arbitrary.
\<close>

inductive bt_flight :: "Settings \<Rightarrow> (nat \<Rightarrow> bt_view) \<Rightarrow> bt16 \<Rightarrow> nat \<Rightarrow> bt16 \<Rightarrow> bool"
  for cfg view s where
  start: "bt_flight cfg view s 0 s"
| hook: "bt_flight cfg view s k t \<Longrightarrow> bt16pair_pre_aap_create_session w cbs t = Some (cbs', u) \<Longrightarrow>
    bt_flight cfg view s k u"
| event: "bt_flight cfg view s k t \<Longrightarrow> our_projection_status_cb cfg oem v args t = (rc, u) \<Longrightarrow>
    bt_flight cfg view s k u"
| create: "bt_flight cfg view s k t \<Longrightarrow> 0 < bt_starting t \<Longrightarrow>
    bt_flight cfg view s k (spawn_activator_create ok t)"
| poll: "bt_flight cfg view s k t \<Longrightarrow> j < length (bt_threads t) \<Longrightarrow> bt_threads t ! j = Polling i \<Longrightarrow>
    bt_flight cfg view s (Suc k) (activator_poll j i (view i) t)"

lemma flight_steps: "bt_flight cfg view s k t \<Longrightarrow> (bt_step cfg)\<^sup>*\<^sup>* s t"
  by (induction rule: bt_flight.induct)
    (auto intro: rtranclp.rtrancl_into_rtrancl bt_step.intros)

text \<open>The calls of a thread whose first poll that is not idle is poll \<open>n\<close>, if there is one.\<close>

definition calls_at :: "(nat \<Rightarrow> bt_view) \<Rightarrow> nat \<Rightarrow> bt_calls" where
  "calls_at view n = (if n < 30 then [(bv_cm (view n), view n)] else [])"

definition flight_ok :: "(nat \<Rightarrow> bt_view) \<Rightarrow> nat \<Rightarrow> bt16 \<Rightarrow> nat \<Rightarrow> bt16 \<Rightarrow> bool" where
  "flight_ok view n b k t \<longleftrightarrow>
     bt_running t \<and> bt_starting t = 0 \<and> bt_armed t = bt_armed b \<and> k \<le> n + 1 \<and>
     (if k \<le> n then bt_threads t = [Polling k] \<and> bt_calls t = bt_calls b
      else bt_threads t = [Leaving (n < 30)] \<and> bt_calls t = bt_calls b @ calls_at view n)"

lemma flight_poll:
  assumes "flight_ok view n b k t" and "j < length (bt_threads t)" and "bt_threads t ! j = Polling i"
    and "n \<le> 30" and "\<forall>k<n. idle_view (view k)"
    and "n < 30 \<longrightarrow> view_parked (view n) \<and> \<not> view_activated (view n)"
  shows "flight_ok view n b (Suc k) (activator_poll j i (view i) t)"
proof -
  have p: "k \<le> n" "bt_threads t = [Polling k]" "bt_calls t = bt_calls b" "j = 0" "i = k"
    using assms(1-3) by (auto simp: flight_ok_def split: if_splits)
  consider "k < n" | "k = n" "n < 30" | "k = n" "n = 30" using p(1) assms(4) by linarith
  then show ?thesis
  proof cases
    case 1
    then have "k < 30" "idle_view (view k)" using assms(4,5) by auto
    then show ?thesis using assms(1) p 1
      by (simp add: flight_ok_def activator_poll_def activator_step_def idle_view_def kGraceTries_def)
  qed (use assms(1,6) p in \<open>simp_all add: flight_ok_def activator_poll_def activator_step_def
        kGraceTries_def calls_at_def\<close>)
qed

lemma flight_all:
  assumes "bt_flight cfg view b k t" and "flight_ok view n b 0 b"
    and "n \<le> 30" and "\<forall>k<n. idle_view (view k)"
    and "n < 30 \<longrightarrow> view_parked (view n) \<and> \<not> view_activated (view n)"
  shows "flight_ok view n b k t"
  using assms(1)
proof (induction rule: bt_flight.induct)
  case (hook k t w cbs cbs' u)
  then show ?case
    by (auto simp: bt16pair_pre_aap_create_session_def flight_ok_def split: option.splits if_splits)
next
  case (event k t oem v args rc u)
  then show ?case
    by (auto simp: our_projection_status_cb_def Let_def flight_ok_def spawn_activator_once_def
        split: option.splits if_splits)
next
  case (create k t ok)
  then show ?case by (simp add: flight_ok_def)
next
  case (poll k t j i)
  then show ?case using flight_poll assms(3-5) by blast
qed (rule assms(2))

text \<open>
  C15.  The bypass works and lets go.  The dongle announces its projection in a reachable state
  with no activator in flight; poll \<open>n\<close> of the activator is the first at which the connection
  manager waits for the pairing, or \<open>n = 30\<close> when the 30 polls of the grace period see neither
  that nor an activation.  Then in every run, whatever else happens meanwhile, the thread makes
  exactly \<open>n\<close> fruitless polls and one last step, never more; until then it has called nothing and
  its next step is possible; after it, it has called \<open>ActivateAapSession\<close> exactly once, on what poll
  \<open>n\<close> saw, or not at all when \<open>n = 30\<close>; no event in between starts a second activator, and leaving
  releases the guard.  When the thread cannot be created the guard is released at once.
\<close>

theorem dongle_is_activated:
  fixes view :: "nat \<Rightarrow> bt_view"
  assumes "(bt_step cfg)\<^sup>*\<^sup>* bt16_init s" and "\<not> bt_running s"
    and "cfg_use_protocol_v1_6 cfg" and "bv_cm v \<noteq> 0" and "bv_dev v = Some (kDongleDevName @ [0])"
    and "n \<le> 30" and "\<forall>k<n. idle_view (view k)"
    and "n < 30 \<longrightarrow> view_parked (view n) \<and> \<not> view_activated (view n)"
    and a: "a = snd (our_projection_status_cb cfg oem v (user, 0x403, data) s)"
    and b: "b = spawn_activator_create True a"
  shows "bt_step cfg s a \<and> bt_step cfg a b \<and> \<not> bt_running (spawn_activator_create False a) \<and>
    activator_loop view 0 = (calls_at view n, n) \<and>
    (\<forall>k t. bt_flight cfg view b k t \<longrightarrow>
       k \<le> n + 1 \<and> bt_armed t = bt_armed s + 1 \<and>
       (if k \<le> n then
          bt_threads t = [Polling k] \<and> bt_calls t = bt_calls s \<and>
          bt_flight cfg view b (k + 1) (activator_poll 0 k (view k) t)
        else
          bt_threads t = [Leaving (n < 30)] \<and> bt_calls t = bt_calls s @ calls_at view n \<and>
          bt_step cfg t (activator_exit 0 t) \<and> \<not> bt_running (activator_exit 0 t) \<and>
          bt_threads (activator_exit 0 t) = []))"
proof -
  have ok: "bt_threads s = []" "bt_starting s = 0"
    using bt_reachable_ok [OF assms(1)] assms(2) by (simp_all add: bt_ok_def)
  have "cstr (kDongleDevName @ [0]) = kDongleDevName"
    by (simp add: kDongleDevName_def ascii_def cstr_def)
  then have a': "a = s\<lparr>bt_running := True, bt_starting := 1, bt_armed := bt_armed s + 1\<rparr>"
    using assms(2-5) ok by (simp add: a our_projection_status_cb_def kAapProjectionSetup_def
        spawn_activator_once_def)
  have step: "bt_step cfg s a" unfolding a by (rule bt_step.event [OF prod.collapse [symmetric]])
  have create: "bt_step cfg a b" unfolding b by (rule bt_step.create) (simp add: a')
  have bs: "bt_threads b = [Polling 0]" "bt_calls b = bt_calls s" "bt_armed b = bt_armed s + 1"
    "bt_running b" "bt_starting b = 0"
    using ok by (simp_all add: b a' spawn_activator_create_def)
  then have "flight_ok view n b 0 b" by (simp add: flight_ok_def)
  note inv = flight_all [OF _ this assms(6-8)]
  have loop: "activator_loop view 0 = (calls_at view n, n)"
    using loop_skips [of n view 0] loop_unfold [of view n] assms(6-8)
    by (simp add: kGraceTries_def calls_at_def)
  have "k \<le> n + 1 \<and> bt_armed t = bt_armed s + 1 \<and>
      (if k \<le> n then
         bt_threads t = [Polling k] \<and> bt_calls t = bt_calls s \<and>
         bt_flight cfg view b (k + 1) (activator_poll 0 k (view k) t)
       else
         bt_threads t = [Leaving (n < 30)] \<and> bt_calls t = bt_calls s @ calls_at view n \<and>
         bt_step cfg t (activator_exit 0 t) \<and> \<not> bt_running (activator_exit 0 t) \<and>
         bt_threads (activator_exit 0 t) = [])"
    if t: "bt_flight cfg view b k t" for k t
    using inv [OF t] bt_flight.poll [OF t, of 0 k] bt_step.leave [of 0 t "n < 30" cfg]
    by (cases "k \<le> n") (simp_all add: flight_ok_def bs activator_exit_def)
  moreover have "\<not> bt_running (spawn_activator_create False a)"
    by (simp add: spawn_activator_create_def)
  ultimately show ?thesis using step create loop by blast
qed

text \<open>The dongle parks at its third poll.\<close>

definition dongle_view :: "int \<Rightarrow> bt_view" where
  "dongle_view m = \<lparr>bv_aap = 1, bv_vm = 1, bv_focus = 0, bv_cm = 7, bv_mode = m,
     bv_dev = Some (kDongleDevName @ [0])\<rparr>"

theorem dongle_is_activated_witness:
  "\<exists>t. bt_flight (default_settings\<lparr>cfg_use_protocol_v1_6 := True\<rparr>) (\<lambda>k. dongle_view (if k < 2 then 0 else 2))
       (spawn_activator_create True (spawn_activator_once bt16_init)) 3 t \<and>
     bt_calls t = [(7, dongle_view 2)] \<and> bt_threads t = [Leaving True] \<and>
     \<not> bt_running (activator_exit 0 t)"
proof -
  let ?cfg = "default_settings\<lparr>cfg_use_protocol_v1_6 := True\<rparr>"
  let ?view = "\<lambda>k :: nat. dongle_view (if k < 2 then 0 else 2)"
  let ?a = "snd (our_projection_status_cb ?cfg (\<lambda>f a. 0) (dongle_view 0) (0, 0x403, 0) bt16_init)"
  let ?b = "spawn_activator_create True ?a"
  have v: "\<not> view_activated (dongle_view m)" "view_parked (dongle_view m) \<longleftrightarrow> m = 2" if "m < 3" for m
    using that by (auto simp: view_activated_def view_parked_def view_focus_def view_mode_def dongle_view_def
        kConnModeActivated_def kConnModePendingPair_def)
  have idle: "\<forall>k<2. idle_view (?view k)" by (simp add: idle_view_def v)
  have park: "(2 :: nat) < 30 \<longrightarrow> view_parked (?view 2) \<and> \<not> view_activated (?view 2)"
    by (simp add: v)
  have f: "\<not> bt_running bt16_init" "cfg_use_protocol_v1_6 ?cfg" "bv_cm (dongle_view 0) \<noteq> 0"
    "bv_dev (dongle_view 0) = Some (kDongleDevName @ [0])" "(2 :: nat) \<le> 30"
    by (simp_all add: dongle_view_def bt16_init_def)
  have all: "\<forall>k t. bt_flight ?cfg ?view ?b k t \<longrightarrow>
       k \<le> 2 + 1 \<and> bt_armed t = bt_armed bt16_init + 1 \<and>
       (if k \<le> 2 then
          bt_threads t = [Polling k] \<and> bt_calls t = bt_calls bt16_init \<and>
          bt_flight ?cfg ?view ?b (k + 1) (activator_poll 0 k (?view k) t)
        else
          bt_threads t = [Leaving (2 < (30 :: nat))] \<and> bt_calls t = bt_calls bt16_init @ calls_at ?view 2 \<and>
          bt_step ?cfg t (activator_exit 0 t) \<and> \<not> bt_running (activator_exit 0 t) \<and>
          bt_threads (activator_exit 0 t) = [])"
    by (rule dongle_is_activated [OF rtranclp.rtrancl_refl f idle park refl refl, THEN conjunct2,
          THEN conjunct2, THEN conjunct2, THEN conjunct2])
  have "\<exists>t. bt_flight ?cfg ?view ?b k t" if "k \<le> 3" for k
    using that
  proof (induction k)
    case (Suc k)
    then obtain t where "bt_flight ?cfg ?view ?b k t" by auto
    then show ?case using all Suc.prems by (metis Suc_eq_plus1 Suc_le_mono eval_nat_numeral(3))
  qed (blast intro: bt_flight.start)
  then obtain t where t: "bt_flight ?cfg ?view ?b 3 t" by auto
  have "?a = spawn_activator_once bt16_init"
    by (simp add: our_projection_status_cb_def dongle_view_def kAapProjectionSetup_def
        kDongleDevName_def ascii_def cstr_def)
  with t all show ?thesis
    by (intro exI [of _ t]) (auto simp: calls_at_def bt16_init_def dongle_view_def)
qed

theorem activation_single_flight_witness:
  "length (bt_threads (spawn_activator_create True (spawn_activator_once bt16_init))) \<le> 1"
proof -
  let ?cfg = "default_settings\<lparr>cfg_use_protocol_v1_6 := True\<rparr>"
  let ?a = "snd (our_projection_status_cb ?cfg (\<lambda>f a. 0) (dongle_view 0) (0, 0x403, 0) bt16_init)"
  have a: "?a = spawn_activator_once bt16_init"
    by (simp add: our_projection_status_cb_def dongle_view_def kAapProjectionSetup_def
        kDongleDevName_def ascii_def cstr_def)
  have "bt_step ?cfg bt16_init ?a" by (rule bt_step.event [OF prod.collapse [symmetric]])
  moreover have "bt_step ?cfg ?a (spawn_activator_create True ?a)"
    by (rule bt_step.create) (unfold a, simp add: spawn_activator_once_def bt16_init_def)
  ultimately have "(bt_step ?cfg)\<^sup>*\<^sup>* bt16_init (spawn_activator_create True ?a)"
    by (meson rtranclp.rtrancl_into_rtrancl rtranclp.rtrancl_refl)
  from activation_single_flight [OF this] show ?thesis by (simp add: a)
qed

end
