(* ===== verification/Lifecycle.thy ===== *)
theory Lifecycle
  imports Preload Hud_Core Touch Play_Pause Bt16pair
begin

text \<open>
  The session bracket (\<open>blmjciaapa/lifecycle.cpp\<close>): the shims of \<open>aap_create_session\<close> and
  \<open>aap_destroy_session\<close>, which find the vendor's functions, decide once whether the process is the
  right one, patch the callback table and start and stop the workers of \<open>Touch\<close>, \<open>Hud_Core\<close>,
  \<open>Play_Pause\<close> and \<open>Bt16pair\<close>.  The configuration \<open>cfg\<close> is read once and never changes.  The debug
  monitor is not compiled into a release and is left out.  Addresses are words, 0 is null; an
  access past the callback table is \<open>None\<close>.
\<close>

section \<open>The contract of a session worker\<close>

text \<open>
  \<open>inv\<close> is kept by both hooks; a stop leaves the worker idle, whatever its thread did before, and
  does nothing to an idle one.
\<close>

locale session_worker =
  fixes inv :: "'s \<Rightarrow> bool" and idle :: "'s \<Rightarrow> bool"
    and start :: "'a \<Rightarrow> 's \<Rightarrow> 's" and stop :: "'b \<Rightarrow> 's \<Rightarrow> 's"
  assumes start_inv: "inv s \<Longrightarrow> inv (start a s)"
    and stop_inv: "inv s \<Longrightarrow> inv (stop b s)"
    and stop_idle: "inv s \<Longrightarrow> idle (stop b s)"
    and stop_again: "idle s \<Longrightarrow> stop b s = s"
begin

lemma stop_twice: "inv s \<Longrightarrow> stop c (stop b s) = stop b s"
  using stop_idle stop_again by blast

lemma bracket: "inv s \<Longrightarrow> inv (stop b (start a s)) \<and> idle (stop b (start a s))"
  using start_inv stop_inv stop_idle by blast

text \<open>A worker run under a switch, as the shims do.\<close>

lemma switched:
  assumes "inv s" and "\<not> on \<Longrightarrow> idle s"
  shows "inv (if on then start a s else s)" and "inv (if on then stop b s else s)"
    and "idle (if on then stop b s else s)" and "\<not> on \<Longrightarrow> idle (if on then start a s else s)"
  using assms start_inv stop_inv stop_idle by simp_all

end

text \<open>Touch: \<open>a\<close> is the event descriptor and whether the thread was created.\<close>

definition touch_start :: "int \<times> bool \<Rightarrow> touch_session \<Rightarrow> touch_session" where
  "touch_start a = touch_post_aap_create_session (fst a) (snd a)"

interpretation touch_worker: session_worker "\<lambda>_. True" "\<lambda>s. \<not> tc_alive s" touch_start
  touch_pre_aap_destroy_session
  by unfold_locales (simp_all add: touch_pre_aap_destroy_session_def)

text \<open>
  Play/pause: the stop waits for the thread, \<open>left\<close> is the state it leaves.
\<close>

definition playpause_start :: "int \<times> bool \<Rightarrow> 'w watcher \<Rightarrow> 'w watcher" where
  "playpause_start a = playpause_post_aap_create_session (fst a) (snd a)"

definition playpause_pre_aap_destroy_session :: "'w watcher \<Rightarrow> 'w watcher \<Rightarrow> 'w watcher" where
  "playpause_pre_aap_destroy_session left s =
     (if \<not> pw_thread_up s then s else playpause_stop_join left)"

interpretation playpause_worker: session_worker "\<lambda>_. True" "\<lambda>s. \<not> pw_thread_up s" playpause_start
  playpause_pre_aap_destroy_session
  by unfold_locales (simp_all add: playpause_pre_aap_destroy_session_def playpause_stop_join_def)

text \<open>The display path: the receiver and the two transports, of which only the bound one runs.\<close>

type_synonym hud_side = "(hud option) rx \<times> hud option"

definition hud_up :: "hud \<Rightarrow> bool \<times> bool" where
  "hud_up h = (tx_up (hd_vbs h), tx_up (hd_svc h))"

definition hud_idle :: "hud_side \<Rightarrow> bool" where
  "hud_idle s \<longleftrightarrow> \<not> rx_thread_up (fst s) \<and> (\<forall>h. snd s = Some h \<longrightarrow> hud_up h = (False, False))"

definition bound_only :: "Settings \<Rightarrow> hud \<Rightarrow> bool" where
  "bound_only cfg h \<longleftrightarrow>
     (tx_up (hd_vbs h) \<longrightarrow> hd_tx h = HUD_TRANSPORT_VBS \<and> cfg_hud_transport cfg = HUD_TRANSPORT_VBS) \<and>
     (tx_up (hd_svc h) \<longrightarrow> hd_tx h = HUD_TRANSPORT_SVCNAVI \<and> cfg_hud_transport cfg \<noteq> HUD_TRANSPORT_VBS)"

definition hud_inv :: "Settings \<Rightarrow> hud_side \<Rightarrow> bool" where
  "hud_inv cfg s \<longleftrightarrow>
     (\<forall>h. snd s = Some h \<longrightarrow> bound_only cfg h) \<and> (rx_thread_up (fst s) \<longrightarrow> cfg_use_protocol_v1_6 cfg)"

definition hud_start :: "Settings \<Rightarrow> bool \<times> int \<times> bool \<times> int \<Rightarrow> hud_side \<Rightarrow> hud_side" where
  "hud_start cfg a s =
     (case a of (thread_ok, efd, spawned, sock) \<Rightarrow> hud_post_aap_create_session cfg thread_ok efd spawned sock s)"

definition hud_stop :: "Settings \<Rightarrow> vbs_env \<times> svc_env \<times> bool \<Rightarrow> hud_side \<Rightarrow> hud_side" where
  "hud_stop cfg b s = (case b of (ve, se, b1) \<Rightarrow> hud_pre_aap_destroy_session cfg ve se b1 s)"

lemma tx_start_bound: "bound_only cfg h \<Longrightarrow> bound_only cfg (hud_tx_start cfg ok h)"
  by (cases "cfg_hud_transport cfg")
    (auto simp: bound_only_def hud_tx_start_def vbs_tx_start_def svcnavi_tx_start_def tx_start_def Let_def)

lemma reset_bound: "bound_only cfg (hud_feed_nav16_reset h) = bound_only cfg h"
  by (simp add: bound_only_def hud_feed_nav16_reset_def)

lemma tx_stop_wait_down: "\<not> tx_up (tx_stop_wait connect close e b s)"
  by (auto simp: tx_stop_wait_def tx_stop_join_def Let_def)

lemma tx_stop_bound:
  assumes "bound_only cfg h"
  shows "bound_only cfg (hud_tx_stop ve se b h)" and "hud_up (hud_tx_stop ve se b h) = (False, False)"
  using assms
  by (cases "hd_tx h";
      auto simp: bound_only_def hud_up_def hud_tx_stop_def vbs_tx_stop_def svcnavi_tx_stop_def tx_stop_wait_down)+

lemma tx_stop_idle: "hud_up h = (False, False) \<Longrightarrow> hud_tx_stop ve se b h = h"
  by (cases "hd_tx h")
    (simp_all add: hud_up_def hud_tx_stop_def vbs_tx_stop_def svcnavi_tx_stop_def tx_stop_wait_def)

lemma hud_start_inv: "hud_inv cfg s \<Longrightarrow> hud_inv cfg (hud_start cfg a s)"
  using tx_start_bound reset_bound
  by (cases a) (auto simp: hud_inv_def hud_start_def hud_post_aap_create_session_def
      hud_nav16_rx_start_def Let_def)

interpretation hud_worker: session_worker "hud_inv cfg" hud_idle "hud_start cfg" "hud_stop cfg" for cfg
proof
  fix s :: hud_side and a b
  show "hud_inv cfg s \<Longrightarrow> hud_inv cfg (hud_start cfg a s)" by (rule hud_start_inv)
  show "hud_inv cfg s \<Longrightarrow> hud_inv cfg (hud_stop cfg b s)"
    using tx_stop_bound(1)
    by (cases b) (auto simp: hud_inv_def hud_stop_def hud_pre_aap_destroy_session_def hud_nav16_rx_stop_def)
  show "hud_inv cfg s \<Longrightarrow> hud_idle (hud_stop cfg b s)"
    using tx_stop_bound(2)
    by (cases b) (auto simp: hud_inv_def hud_idle_def hud_stop_def hud_pre_aap_destroy_session_def
        hud_nav16_rx_stop_def)
  show "hud_idle s \<Longrightarrow> hud_stop cfg b s = s"
    using tx_stop_idle
    by (cases b; cases s; cases "snd s")
      (auto simp: hud_idle_def hud_stop_def hud_pre_aap_destroy_session_def hud_nav16_rx_stop_def)
qed

section \<open>State\<close>

text \<open>The addresses of the exported shims and of the two callbacks put into the table.\<close>

record life_code =
  lc_create :: u32
  lc_destroy :: u32
  lc_nav_cb :: u32
  lc_proj_cb :: u32

record 'w lifecycle =
  lf_real_create :: u32
  lf_real_destroy :: u32
  lf_libaap :: u32
  lf_gate_done :: bool
  lf_enabled :: bool
  lf_session :: u32
  lf_up :: bool
  lf_touch :: touch_session
  lf_hud :: hud_side
  lf_pp :: "'w watcher"
  lf_bt :: bt16

text \<open>
  What one call of a shim meets: the linker, whether the vendor's module is mapped, the vendor's
  functions by address, whether \<open>out_handle\<close> is non-null, and the outcomes of the workers' starts
  and stops.
\<close>

record 'w life_env =
  le_ld :: linker
  le_mapped :: bool
  le_create :: "u32 \<Rightarrow> u32 list option \<Rightarrow> int \<times> u32"
  le_destroy :: "u32 \<Rightarrow> u32 \<Rightarrow> int"
  le_out :: bool
  le_touch :: "int \<times> bool"
  le_hud :: "bool \<times> int \<times> bool \<times> int"
  le_pp :: "int \<times> bool"
  le_touch_left :: touch_send
  le_hud_left :: "vbs_env \<times> svc_env \<times> bool"
  le_pp_left :: "'w watcher"

definition kLibaapSoname :: "u8 list" where "kLibaapSoname = ascii ''libaap_interface.so''"
definition kLibaapPath :: "u8 list" where "kLibaapPath = ascii ''/usr/lib/libaap_interface.so''"

section \<open>The shims\<close>

definition oem_self_gate :: "bool \<Rightarrow> 'w lifecycle \<Rightarrow> 'w lifecycle" where
  "oem_self_gate mapped s =
     (if lf_gate_done s then s else s\<lparr>lf_gate_done := True, lf_enabled := mapped\<rparr>)"

text \<open>One symbol: the cached pointer, or a resolution that may fill the handle cache.\<close>

definition resolve_cached :: "linker \<Rightarrow> u8 list \<Rightarrow> u32 \<Rightarrow> u32 \<Rightarrow> u32 \<Rightarrow> u32 \<times> u32" where
  "resolve_cached ld name own real lib =
     (if real \<noteq> 0 then (real, lib)
      else
        (case resolve_real_symbol ld name (Some kLibaapSoname) (Some kLibaapPath) own (Some lib) of
           (p, cache) \<Rightarrow> (p, case cache of Some h \<Rightarrow> h | None \<Rightarrow> lib)))"

definition resolve_real_once :: "life_code \<Rightarrow> linker \<Rightarrow> 'w lifecycle \<Rightarrow> 'w lifecycle" where
  "resolve_real_once own ld s =
     (let (c, lib) = resolve_cached ld (ascii ''aap_create_session'') (lc_create own)
                       (lf_real_create s) (lf_libaap s);
          (d, lib) = resolve_cached ld (ascii ''aap_destroy_session'') (lc_destroy own)
                       (lf_real_destroy s) lib in
      s\<lparr>lf_real_create := c, lf_real_destroy := d, lf_libaap := lib\<rparr>)"

definition start_workers :: "Settings \<Rightarrow> 'w life_env \<Rightarrow> 'w lifecycle \<Rightarrow> 'w lifecycle" where
  "start_workers cfg e s =
     (if lf_up s then s
      else
        s\<lparr>lf_touch := (if cfg_touch cfg then touch_start (le_touch e) (lf_touch s) else lf_touch s),
          lf_hud := (if cfg_hud cfg then hud_start cfg (le_hud e) (lf_hud s) else lf_hud s),
          lf_pp := (if cfg_mute_pauses_phone cfg then playpause_start (le_pp e) (lf_pp s) else lf_pp s),
          lf_up := True\<rparr>)"

definition stop_workers :: "Settings \<Rightarrow> 'w life_env \<Rightarrow> 'w lifecycle \<Rightarrow> 'w lifecycle" where
  "stop_workers cfg e s =
     (if \<not> lf_up s then s
      else
        s\<lparr>lf_touch := (if cfg_touch cfg then touch_pre_aap_destroy_session (le_touch_left e) (lf_touch s)
                       else lf_touch s),
          lf_hud := (if cfg_hud cfg then hud_stop cfg (le_hud_left e) (lf_hud s) else lf_hud s),
          lf_pp := (if cfg_mute_pauses_phone cfg
                    then playpause_pre_aap_destroy_session (le_pp_left e) (lf_pp s) else lf_pp s),
          lf_up := False\<rparr>)"

text \<open>
  Both shims return the code, the vendor's function that was called (if one was), and the new
  state; the create shim also the callback table as the caller finds it afterwards.
\<close>

definition patch_table ::
  "life_code \<Rightarrow> Settings \<Rightarrow> u32 list option \<Rightarrow> 'w lifecycle \<Rightarrow> (u32 list option \<times> 'w lifecycle) option" where
  "patch_table own cfg cbs s =
     Option.bind (if lf_enabled s \<and> cfg_hud cfg then hud_pre_aap_create_session (lc_nav_cb own) cbs
                  else Some cbs)
       (\<lambda>cbs.
          if lf_enabled s \<and> cfg_use_protocol_v1_6 cfg then
            map_option (\<lambda>(cbs, bt). (cbs, s\<lparr>lf_bt := bt\<rparr>))
              (bt16pair_pre_aap_create_session (lc_proj_cb own) cbs (lf_bt s))
          else Some (cbs, s))"

definition aap_create_session ::
  "life_code \<Rightarrow> Settings \<Rightarrow> 'w life_env \<Rightarrow> u32 list option \<Rightarrow> 'w lifecycle
    \<Rightarrow> (int \<times> u32 option \<times> u32 list option \<times> 'w lifecycle) option" where
  "aap_create_session own cfg e cbs s =
     (let s = oem_self_gate (le_mapped e) (resolve_real_once own (le_ld e) s) in
      if lf_real_create s = 0 then Some (0x103, None, cbs, s)
      else
        map_option
          (\<lambda>(cbs, s).
             let (rc, handle) = le_create e (lf_real_create s) cbs in
             (rc, Some (lf_real_create s), cbs,
              if rc \<noteq> 0 \<or> \<not> lf_enabled s \<or> \<not> le_out e \<or> handle = 0 then s
              else start_workers cfg e (s\<lparr>lf_session := handle\<rparr>)))
          (patch_table own cfg cbs s))"

definition aap_destroy_session ::
  "life_code \<Rightarrow> Settings \<Rightarrow> 'w life_env \<Rightarrow> u32 \<Rightarrow> 'w lifecycle \<Rightarrow> int \<times> u32 option \<times> 'w lifecycle" where
  "aap_destroy_session own cfg e handle s =
     (let s = resolve_real_once own (le_ld e) s;
          s = (if lf_enabled s then (stop_workers cfg e s)\<lparr>lf_session := 0\<rparr> else s) in
      if lf_real_destroy s = 0 then (0x103, None, s)
      else (le_destroy e (lf_real_destroy s) handle, Some (lf_real_destroy s), s))"

section \<open>Steps\<close>

definition life_init :: "touch_session \<Rightarrow> hud_side \<Rightarrow> 'w lifecycle" where
  "life_init t h =
     \<lparr>lf_real_create = 0, lf_real_destroy = 0, lf_libaap = 0, lf_gate_done = False, lf_enabled = False,
      lf_session = 0, lf_up = False, lf_touch = t, lf_hud = h, lf_pp = watcher_init, lf_bt = bt16_init\<rparr>"

text \<open>The workers run on their own: they do not touch the marks of the hooks.\<close>

definition marks ::
  "'w lifecycle \<Rightarrow> bool \<times> bool \<times> (HudTransport \<times> bool \<times> bool) option \<times> bool" where
  "marks s = (tc_alive (lf_touch s), rx_thread_up (fst (lf_hud s)),
     map_option (\<lambda>h. (hd_tx h, hud_up h)) (snd (lf_hud s)), pw_thread_up (lf_pp s))"

inductive life_step :: "life_code \<Rightarrow> Settings \<Rightarrow> 'w lifecycle \<Rightarrow> 'w lifecycle \<Rightarrow> bool" for own cfg where
  create: "aap_create_session own cfg e cbs s = Some (rc, f, cbs', t) \<Longrightarrow> life_step own cfg s t"
| destroy: "aap_destroy_session own cfg e handle s = (rc, f, t) \<Longrightarrow> life_step own cfg s t"
| workers: "marks (s\<lparr>lf_touch := t, lf_hud := h, lf_pp := p\<rparr>) = marks s \<Longrightarrow>
    life_step own cfg s (s\<lparr>lf_touch := t, lf_hud := h, lf_pp := p\<rparr>)"
| pairing: "bt_step cfg (lf_bt s) b \<Longrightarrow> bt_orig b = bt_orig (lf_bt s) \<Longrightarrow>
    life_step own cfg s (s\<lparr>lf_bt := b\<rparr>)"

section \<open>Invariants\<close>

definition all_idle :: "'w lifecycle \<Rightarrow> bool" where
  "all_idle s \<longleftrightarrow> \<not> tc_alive (lf_touch s) \<and> hud_idle (lf_hud s) \<and> \<not> pw_thread_up (lf_pp s)"

definition workers_ok :: "Settings \<Rightarrow> 'w lifecycle \<Rightarrow> bool" where
  "workers_ok cfg s \<longleftrightarrow>
     hud_inv cfg (lf_hud s) \<and> (\<not> lf_up s \<longrightarrow> all_idle s) \<and> (lf_up s \<longrightarrow> lf_enabled s) \<and>
     (lf_enabled s \<longrightarrow> lf_gate_done s) \<and>
     (\<not> cfg_touch cfg \<longrightarrow> \<not> tc_alive (lf_touch s)) \<and> (\<not> cfg_hud cfg \<longrightarrow> hud_idle (lf_hud s)) \<and>
     (\<not> cfg_mute_pauses_phone cfg \<longrightarrow> \<not> pw_thread_up (lf_pp s))"

definition not_own :: "life_code \<Rightarrow> 'w lifecycle \<Rightarrow> bool" where
  "not_own own s \<longleftrightarrow>
     (lf_real_create s \<noteq> 0 \<longrightarrow> lf_real_create s \<noteq> lc_create own) \<and>
     (lf_real_destroy s \<noteq> 0 \<longrightarrow> lf_real_destroy s \<noteq> lc_destroy own) \<and>
     (bt_orig (lf_bt s) \<noteq> 0 \<longrightarrow> bt_orig (lf_bt s) \<noteq> lc_proj_cb own)"

lemma resolve_cached_own:
  "resolve_cached ld name own real lib = (p, lib') \<Longrightarrow> (real \<noteq> 0 \<longrightarrow> real \<noteq> own) \<Longrightarrow>
   (p \<noteq> 0 \<longrightarrow> p \<noteq> own) \<and> (real \<noteq> 0 \<longrightarrow> p = real)"
  by (auto simp: resolve_cached_def resolve_real_symbol_def Let_def split: if_splits option.splits)

lemma resolve_keeps:
  "resolve_real_once own ld s = s\<lparr>lf_real_create := lf_real_create (resolve_real_once own ld s),
     lf_real_destroy := lf_real_destroy (resolve_real_once own ld s),
     lf_libaap := lf_libaap (resolve_real_once own ld s)\<rparr>"
  by (simp add: resolve_real_once_def Let_def split: prod.splits)

lemma resolve_not_own: "not_own own s \<Longrightarrow> not_own own (resolve_real_once own ld s)"
  by (auto simp: not_own_def resolve_real_once_def Let_def dest!: resolve_cached_own split: prod.splits)

lemma workers_ok_cong:
  assumes "lf_hud t = lf_hud s" "lf_up t = lf_up s" "lf_enabled t = lf_enabled s"
    "lf_gate_done t = lf_gate_done s" "lf_touch t = lf_touch s" "lf_pp t = lf_pp s"
  shows "workers_ok cfg t = workers_ok cfg s"
  using assms by (simp add: workers_ok_def all_idle_def)

lemma resolve_workers_ok [simp]: "workers_ok cfg (resolve_real_once own ld s) = workers_ok cfg s"
  by (rule workers_ok_cong) (subst resolve_keeps, simp)+

lemma gate_ok:
  assumes "workers_ok cfg s"
  shows "workers_ok cfg (oem_self_gate m s)"
  using assms by (auto simp: workers_ok_def oem_self_gate_def all_idle_def)

lemma start_workers_ok: "workers_ok cfg s \<Longrightarrow> lf_enabled s \<Longrightarrow> workers_ok cfg (start_workers cfg e s)"
  using touch_worker.switched(4) playpause_worker.switched(4) hud_worker.switched(1,4)
  by (auto simp: workers_ok_def start_workers_def all_idle_def)

lemma stop_workers_ok: "workers_ok cfg s \<Longrightarrow> workers_ok cfg (stop_workers cfg e s) \<and> all_idle (stop_workers cfg e s)"
  using touch_worker.switched(3) [where s = "lf_touch s" and on = "cfg_touch cfg"]
    playpause_worker.switched(3) [where s = "lf_pp s" and on = "cfg_mute_pauses_phone cfg"]
    hud_worker.switched(2,3) [where cfg = cfg and s = "lf_hud s" and on = "cfg_hud cfg"]
  by (auto simp: workers_ok_def stop_workers_def all_idle_def)

lemma pre_orig:
  "bt16pair_pre_aap_create_session w cbs b = Some (cbs', b') \<Longrightarrow> bt_orig b' = bt_orig b \<or> bt_orig b' \<noteq> w"
  by (auto simp: bt16pair_pre_aap_create_session_def split: option.splits if_splits)

lemma patch_table_bt:
  assumes "patch_table own cfg cbs s = Some (cbs', t)"
  shows "\<exists>bt. t = s\<lparr>lf_bt := bt\<rparr> \<and> (bt_orig bt = bt_orig (lf_bt s) \<or> bt_orig bt \<noteq> lc_proj_cb own)"
proof (cases "lf_enabled s \<and> cfg_use_protocol_v1_6 cfg")
  case True
  then obtain c bt where "bt16pair_pre_aap_create_session (lc_proj_cb own) c (lf_bt s) = Some (cbs', bt)"
    "t = s\<lparr>lf_bt := bt\<rparr>"
    using assms by (auto simp: patch_table_def Option.bind_eq_Some_conv split: if_splits)
  then show ?thesis using pre_orig by blast
next
  case False
  then have "t = s\<lparr>lf_bt := lf_bt s\<rparr>"
    using assms by (auto simp: patch_table_def Option.bind_eq_Some_conv split: if_splits)
  then show ?thesis by blast
qed

lemma create_cases:
  assumes "aap_create_session own cfg e cbs s = Some (rc, f, cbs', t)"
  obtains u bt where "u = oem_self_gate (le_mapped e) (resolve_real_once own (le_ld e) s)"
    and "bt_orig bt = bt_orig (lf_bt s) \<or> bt_orig bt \<noteq> lc_proj_cb own"
    and "t = u\<lparr>lf_bt := bt\<rparr> \<or> lf_enabled u \<and> (\<exists>h. t = start_workers cfg e (u\<lparr>lf_bt := bt, lf_session := h\<rparr>))"
proof -
  define u where "u = oem_self_gate (le_mapped e) (resolve_real_once own (le_ld e) s)"
  have bt: "lf_bt u = lf_bt s"
    unfolding u_def oem_self_gate_def by (subst (1 2) resolve_keeps) simp
  show ?thesis
  proof (cases "lf_real_create u = 0")
    case True
    then have "t = u\<lparr>lf_bt := lf_bt s\<rparr>"
      using assms bt by (auto simp: aap_create_session_def u_def [symmetric])
    then show ?thesis using that [OF u_def, of "lf_bt s"] by blast
  next
    case False
    then obtain c v where pt: "patch_table own cfg cbs u = Some (c, v)"
      using assms by (cases "patch_table own cfg cbs u") (auto simp: aap_create_session_def u_def [symmetric])
    have "c = cbs'" "t = v \<or> lf_enabled v \<and> (\<exists>h. t = start_workers cfg e (v\<lparr>lf_session := h\<rparr>))"
      using assms False
      by (auto simp: aap_create_session_def u_def [symmetric] pt split: prod.splits if_splits)
    note v = pt [unfolded this(1)] this(2)
    obtain b where b: "v = u\<lparr>lf_bt := b\<rparr>" "bt_orig b = bt_orig (lf_bt u) \<or> bt_orig b \<noteq> lc_proj_cb own"
      using patch_table_bt [OF v(1)] by blast
    show ?thesis by (rule that [OF u_def, of b]) (use v(2) b bt in auto)
  qed
qed

lemma start_keeps:
  "lf_real_create (start_workers cfg e s) = lf_real_create s" "lf_bt (start_workers cfg e s) = lf_bt s"
  "lf_real_destroy (start_workers cfg e s) = lf_real_destroy s"
  by (simp_all add: start_workers_def)

lemma create_calls:
  assumes "aap_create_session own cfg e cbs s = Some (rc, Some f, cbs', t)"
  shows "f = lf_real_create (resolve_real_once own (le_ld e) s) \<and> f \<noteq> 0"
proof -
  define u where "u = oem_self_gate (le_mapped e) (resolve_real_once own (le_ld e) s)"
  have u: "lf_real_create u \<noteq> 0"
    using assms by (auto simp: aap_create_session_def u_def [symmetric])
  obtain c v where pt: "patch_table own cfg cbs u = Some (c, v)"
    using assms u by (cases "patch_table own cfg cbs u") (auto simp: aap_create_session_def u_def [symmetric])
  have "f = lf_real_create v"
    using assms u by (auto simp: aap_create_session_def u_def [symmetric] pt split: prod.splits)
  also have "\<dots> = lf_real_create u" using patch_table_bt [OF pt] by auto
  also have r: "\<dots> = lf_real_create (resolve_real_once own (le_ld e) s)" by (simp add: u_def oem_self_gate_def)
  finally show ?thesis using u r by simp
qed

lemma stop_keeps:
  "lf_real_create (stop_workers cfg e s) = lf_real_create s" "lf_bt (stop_workers cfg e s) = lf_bt s"
  "lf_real_destroy (stop_workers cfg e s) = lf_real_destroy s"
  by (simp_all add: stop_workers_def)

lemma gate_keeps:
  "lf_real_create (oem_self_gate m s) = lf_real_create s" "lf_bt (oem_self_gate m s) = lf_bt s"
  "lf_real_destroy (oem_self_gate m s) = lf_real_destroy s"
  by (simp_all add: oem_self_gate_def)

lemma not_own_cong:
  assumes "lf_real_create t = lf_real_create s" "lf_real_destroy t = lf_real_destroy s"
    and "bt_orig (lf_bt t) = bt_orig (lf_bt s) \<or> bt_orig (lf_bt t) \<noteq> lc_proj_cb own" and "not_own own s"
  shows "not_own own t"
  using assms by (auto simp: not_own_def)

lemma destroy_state:
  assumes "aap_destroy_session own cfg e handle s = (rc, f, t)"
  shows "t = (let u = resolve_real_once own (le_ld e) s in
    if lf_enabled u then (stop_workers cfg e u)\<lparr>lf_session := 0\<rparr> else u)"
  using assms by (auto simp: aap_destroy_session_def Let_def split: if_splits)

lemma shim_create_ok:
  assumes "aap_create_session own cfg e cbs s = Some (rc, f, cbs', t)" and "workers_ok cfg s"
    and "not_own own s"
  shows "workers_ok cfg t \<and> not_own own t"
  using assms(1)
proof (cases rule: create_cases)
  case (1 u bt)
  have u: "workers_ok cfg u" "not_own own u" "lf_bt u = lf_bt s"
    unfolding 1(1) using gate_ok [of cfg "resolve_real_once own (le_ld e) s"] assms(2,3)
      resolve_not_own [of own s]
    by (auto intro: not_own_cong [of _ "resolve_real_once own (le_ld e) s"] simp: gate_keeps)
      (subst resolve_keeps, simp)
  have w: "workers_ok cfg (u\<lparr>lf_bt := bt\<rparr>)" "workers_ok cfg (u\<lparr>lf_bt := bt, lf_session := h\<rparr>)" for h
    using u(1) by (simp_all add: workers_ok_def all_idle_def)
  have n: "not_own own (u\<lparr>lf_bt := bt\<rparr>)" "not_own own (u\<lparr>lf_bt := bt, lf_session := h\<rparr>)" for h
    by (rule not_own_cong [OF _ _ _ u(2)]; use 1(2) u(3) in simp)+
  show ?thesis
    using 1(3)
  proof (elim disjE conjE exE)
    fix h assume "lf_enabled u" and t: "t = start_workers cfg e (u\<lparr>lf_bt := bt, lf_session := h\<rparr>)"
    then have "workers_ok cfg t" using start_workers_ok [OF w(2)] by simp
    moreover have "not_own own t" by (rule not_own_cong [OF _ _ _ n(2)]) (simp_all add: t start_keeps)
    ultimately show ?thesis by simp
  qed (use w n in simp)
qed

lemma shim_destroy_ok:
  assumes "aap_destroy_session own cfg e handle s = (rc, f, t)" and "workers_ok cfg s"
    and "not_own own s"
  shows "workers_ok cfg t \<and> all_idle t \<and> not_own own t"
proof -
  define u where "u = resolve_real_once own (le_ld e) s"
  have u: "workers_ok cfg u" "not_own own u" using assms(2,3) resolve_not_own by (auto simp: u_def)
  have t: "t = (if lf_enabled u then (stop_workers cfg e u)\<lparr>lf_session := 0\<rparr> else u)"
    using destroy_state [OF assms(1)] by (simp add: u_def)
  show ?thesis
  proof (cases "lf_enabled u")
    case True
    have "not_own own t" by (rule not_own_cong [OF _ _ _ u(2)]) (simp_all add: t stop_keeps)
    then show ?thesis
      using stop_workers_ok [OF u(1), of e] True t by (simp add: workers_ok_def all_idle_def)
  next
    case False
    then show ?thesis using u t by (auto simp: workers_ok_def)
  qed
qed

lemma marks_ok:
  assumes "workers_ok cfg s" and "marks (s\<lparr>lf_touch := t, lf_hud := h, lf_pp := p\<rparr>) = marks s"
  shows "workers_ok cfg (s\<lparr>lf_touch := t, lf_hud := h, lf_pp := p\<rparr>)"
proof -
  have m: "tc_alive t = tc_alive (lf_touch s)" "pw_thread_up p = pw_thread_up (lf_pp s)"
    "rx_thread_up (fst h) = rx_thread_up (fst (lf_hud s))"
    "map_option (\<lambda>x. (hd_tx x, hud_up x)) (snd h) = map_option (\<lambda>x. (hd_tx x, hud_up x)) (snd (lf_hud s))"
    using assms(2) by (simp_all add: marks_def)
  have "hud_idle h = hud_idle (lf_hud s)" "hud_inv cfg h = hud_inv cfg (lf_hud s)"
    using m(3,4)
    by (cases "snd h"; cases "snd (lf_hud s)";
        simp add: hud_idle_def hud_inv_def bound_only_def hud_up_def)+
  then show ?thesis using assms(1) m(1,2) by (simp add: workers_ok_def all_idle_def)
qed

lemma life_step_ok:
  "life_step own cfg s t \<Longrightarrow> workers_ok cfg s \<and> not_own own s \<Longrightarrow> workers_ok cfg t \<and> not_own own t"
proof (induction rule: life_step.induct)
  case (create e cbs s rc f cbs' t)
  then show ?case using shim_create_ok by blast
next
  case (destroy e handle s rc f t)
  then show ?case using shim_destroy_ok by blast
next
  case (workers s t h p)
  then show ?case using marks_ok [OF _ workers(1)] by (simp add: not_own_def)
next
  case (pairing s b)
  then show ?case by (simp add: workers_ok_def all_idle_def not_own_def)
qed

lemma life_reachable_ok:
  assumes "(life_step own cfg)\<^sup>*\<^sup>* (life_init t h) s" and "\<not> tc_alive t" and "hud_idle h"
  shows "workers_ok cfg s \<and> not_own own s"
  using assms(1)
proof (induction rule: rtranclp_induct)
  case base
  have "hud_inv cfg h" using assms(3) by (auto simp: hud_idle_def hud_inv_def hud_up_def bound_only_def)
  then show ?case
    using assms(2,3) by (simp add: workers_ok_def all_idle_def not_own_def life_init_def watcher_init_def bt16_init_def)
next
  case (step s u)
  then show ?case using life_step_ok by blast
qed

section \<open>Properties\<close>

text \<open>
  C13.  The bracket holds: whatever the vendor calls in whatever order, and whatever the workers do
  in between, a worker runs only while a session is up, a session is up only in the process that
  has the vendor's module, a worker whose switch is off never runs, and after any destroy call no
  worker runs - whether its start had succeeded or not.
\<close>

theorem session_bracket:
  assumes "(life_step own cfg)\<^sup>*\<^sup>* (life_init t h) s" and "\<not> tc_alive t" and "hud_idle h"
  shows "(\<not> lf_up s \<longrightarrow> all_idle s) \<and> (lf_up s \<longrightarrow> lf_enabled s) \<and>
    (\<not> cfg_touch cfg \<longrightarrow> \<not> tc_alive (lf_touch s)) \<and> (\<not> cfg_hud cfg \<longrightarrow> hud_idle (lf_hud s)) \<and>
    (\<not> cfg_mute_pauses_phone cfg \<longrightarrow> \<not> pw_thread_up (lf_pp s)) \<and>
    all_idle (snd (snd (aap_destroy_session own cfg e handle s)))"
proof -
  have ok: "workers_ok cfg s" "not_own own s" using life_reachable_ok [OF assms] by simp_all
  obtain rc f u where "aap_destroy_session own cfg e handle s = (rc, f, u)" by (metis prod_cases3)
  then show ?thesis using ok shim_destroy_ok [OF _ ok, of e handle rc f u] by (simp add: workers_ok_def)
qed

text \<open>
  C31.  The shims never call themselves: in every reachable state the function a shim forwards to
  is non-null and not the shim's own export, and the callback the projection wrapper chains to is
  not the wrapper - also when the vendor retries with the table the shim has already patched.
\<close>

theorem shims_never_recurse:
  assumes "(life_step own cfg)\<^sup>*\<^sup>* (life_init t h) s" and "\<not> tc_alive t" and "hud_idle h"
  shows "(\<forall>e cbs rc f cbs' u. aap_create_session own cfg e cbs s = Some (rc, Some f, cbs', u) \<longrightarrow>
      f \<noteq> 0 \<and> f \<noteq> lc_create own) \<and>
    (\<forall>e hd rc f u. aap_destroy_session own cfg e hd s = (rc, Some f, u) \<longrightarrow>
      f \<noteq> 0 \<and> f \<noteq> lc_destroy own) \<and>
    (bt_orig (lf_bt s) \<noteq> 0 \<longrightarrow> bt_orig (lf_bt s) \<noteq> lc_proj_cb own)"
proof (intro conjI allI impI)
  have ok: "not_own own s" using life_reachable_ok [OF assms] by simp
  then have res: "not_own own (resolve_real_once own ld s)" for ld by (rule resolve_not_own)
  show "bt_orig (lf_bt s) \<noteq> lc_proj_cb own" if "bt_orig (lf_bt s) \<noteq> 0"
    using ok that by (simp add: not_own_def)
  fix e cbs rc f cbs' u
  assume "aap_create_session own cfg e cbs s = Some (rc, Some f, cbs', u)"
  from create_calls [OF this] show "f \<noteq> 0" "f \<noteq> lc_create own" using res by (auto simp: not_own_def)
next
  fix e hd rc f u
  assume "aap_destroy_session own cfg e hd s = (rc, Some f, u)"
  then have "f = lf_real_destroy (resolve_real_once own (le_ld e) s)" "f \<noteq> 0"
    by (auto simp: aap_destroy_session_def Let_def stop_keeps split: if_splits)
  then show "f \<noteq> 0" "f \<noteq> lc_destroy own"
    using resolve_not_own [of own s "le_ld e"] life_reachable_ok [OF assms] by (auto simp: not_own_def)
qed

lemma patch_table_eq:
  fixes own cfg slots u
  defines "a \<equiv> (if lf_enabled u \<and> cfg_hud cfg then slots[10 := lc_nav_cb own] else slots)"
  assumes "length slots = 19"
  shows "patch_table own cfg (Some slots) u =
    Some (Some (if lf_enabled u \<and> cfg_use_protocol_v1_6 cfg then a[3 := lc_proj_cb own] else a),
      if lf_enabled u \<and> cfg_use_protocol_v1_6 cfg \<and> slots ! 3 \<noteq> lc_proj_cb own
      then u\<lparr>lf_bt := (lf_bt u)\<lparr>bt_orig := slots ! 3\<rparr>\<rparr> else u)"
proof -
  have id: "slots[3 := lc_proj_cb own] = slots" "slots[10 := x, 3 := lc_proj_cb own] = slots[10 := x]"
    if "slots ! 3 = lc_proj_cb own" for x
  proof -
    show "slots[3 := lc_proj_cb own] = slots" using that list_update_id [of slots 3] by simp
    then show "slots[10 := x, 3 := lc_proj_cb own] = slots[10 := x]"
      by (simp add: list_update_swap [of 10 3])
  qed
  show ?thesis
    using assms
    by (auto simp: patch_table_def hud_pre_aap_create_session_def bt16pair_pre_aap_create_session_def
        kCbListNavSlot_def kCbListProjSlot_def id)
qed

text \<open>
  The create shim is transparent: with the vendor's nineteen-slot table it returns what the
  vendor's function returned on the table it hands back, or \<open>0x103\<close> without touching the table
  when that function cannot be found.  Only slots 3 and 10 of the table change, slot 10 only for
  the display path and slot 3 only for GAL 1.6, both only in the right process; the wrapper in
  slot 3 chains to the vendor's callback, and keeps doing so on a retry with the patched table.
\<close>

theorem create_transparent:
  assumes "length slots = 19" and "lf_gate_done s"
  shows "\<exists>rc f slots' t. aap_create_session own cfg e (Some slots) s = Some (rc, f, Some slots', t) \<and>
    (f = None \<longrightarrow> rc = 0x103 \<and> slots' = slots) \<and>
    (\<forall>p. f = Some p \<longrightarrow>
       rc = fst (le_create e p (Some slots')) \<and>
       slots' = (let a = (if lf_enabled s \<and> cfg_hud cfg then slots[10 := lc_nav_cb own] else slots) in
         if lf_enabled s \<and> cfg_use_protocol_v1_6 cfg then a[3 := lc_proj_cb own] else a) \<and>
       bt_orig (lf_bt t) =
         (if lf_enabled s \<and> cfg_use_protocol_v1_6 cfg \<and> slots ! 3 \<noteq> lc_proj_cb own then slots ! 3
          else bt_orig (lf_bt s)))"
proof -
  define u where "u = oem_self_gate (le_mapped e) (resolve_real_once own (le_ld e) s)"
  have u: "lf_enabled u = lf_enabled s" "lf_bt u = lf_bt s"
    unfolding u_def oem_self_gate_def using assms(2) by (subst (1 2) resolve_keeps, simp)+
  show ?thesis
  proof (cases "lf_real_create u = 0")
    case True
    then show ?thesis by (simp add: aap_create_session_def u_def [symmetric])
  next
    case False
    let ?a = "if lf_enabled s \<and> cfg_hud cfg then slots[10 := lc_nav_cb own] else slots"
    let ?v = "if lf_enabled s \<and> cfg_use_protocol_v1_6 cfg \<and> slots ! 3 \<noteq> lc_proj_cb own
      then u\<lparr>lf_bt := (lf_bt s)\<lparr>bt_orig := slots ! 3\<rparr>\<rparr> else u"
    define slots' where "slots' = (if lf_enabled s \<and> cfg_use_protocol_v1_6 cfg then ?a[3 := lc_proj_cb own] else ?a)"
    define v where "v = ?v"
    have pt: "patch_table own cfg (Some slots) u = Some (Some slots', v)"
      using patch_table_eq [OF assms(1), of own cfg u] unfolding slots'_def v_def u .
    have v: "lf_real_create v = lf_real_create u"
      "bt_orig (lf_bt v) = (if lf_enabled s \<and> cfg_use_protocol_v1_6 cfg \<and> slots ! 3 \<noteq> lc_proj_cb own
        then slots ! 3 else bt_orig (lf_bt s))" using u by (simp_all add: v_def)
    obtain rc h where r: "le_create e (lf_real_create v) (Some slots') = (rc, h)" by fastforce
    define t where "t = (if rc \<noteq> 0 \<or> \<not> lf_enabled v \<or> \<not> le_out e \<or> h = 0 then v
      else start_workers cfg e (v\<lparr>lf_session := h\<rparr>))"
    have "aap_create_session own cfg e (Some slots) s = Some (rc, Some (lf_real_create v), Some slots', t)"
      using False by (simp add: aap_create_session_def u_def [symmetric] pt r t_def)
    moreover have "bt_orig (lf_bt t) = bt_orig (lf_bt v)" by (simp add: t_def start_keeps)
    moreover have "rc = fst (le_create e (lf_real_create v) (Some slots'))" by (simp add: r)
    moreover have "slots' = (let a = ?a in
        if lf_enabled s \<and> cfg_use_protocol_v1_6 cfg then a[3 := lc_proj_cb own] else a)"
      by (simp only: slots'_def Let_def)
    ultimately show ?thesis unfolding v(2) by (metis option.distinct(1) option.inject)
  qed
qed

section \<open>A sample session\<close>

definition life_own :: life_code where
  "life_own = \<lparr>lc_create = 1, lc_destroy = 2, lc_nav_cb = 3, lc_proj_cb = 4\<rparr>"

definition life_touch :: touch_session where
  "life_touch = \<lparr>tc_alive = False, tc_stop_fd = -1,
     tc_send = \<lparr>ts_prev = init_state, ts_prev_init = False\<rparr>\<rparr>"

definition life_hud :: hud_side where
  "life_hud = (rx_init, Some \<lparr>hd_tx = HUD_TRANSPORT_VBS, hd_vbs = vbs_init, hd_svc = svc_init svc_all_ok,
     hd_acc = zero_hud_state, hd_last = zero_hud_state, hd_have_last = False\<rparr>)"

definition life_start :: "unit lifecycle" where
  "life_start = life_init life_touch life_hud"

definition life_env :: "unit life_env" where
  "life_env =
     \<lparr>le_ld = \<lparr>dlsym_next = \<lambda>_. 0, dlopen_noload = \<lambda>_. 9, dlsym_in = \<lambda>_ n. of_nat (length n)\<rparr>,
      le_mapped = True, le_create = \<lambda>f cbs. (0, 77), le_destroy = \<lambda>f hd. 0, le_out = True,
      le_touch = (5, True), le_hud = (True, 6, True, 7), le_pp = (8, True),
      le_touch_left = tc_send life_touch,
      le_hud_left = (\<lparr>ve_created = True, ve_connected = True\<rparr>, \<lparr>sc_opened = True, sc_registered = True\<rparr>, False),
      le_pp_left = watcher_init\<rparr>"

lemma life_idle: "\<not> tc_alive life_touch" "hud_idle life_hud"
  by (simp_all add: life_touch_def life_hud_def hud_idle_def hud_up_def rx_init_def vbs_init_def
      svc_init_def sender_init_def)

lemma life_resolved:
  "lf_real_create (resolve_real_once life_own (le_ld life_env) life_start) = 18"
  by (simp add: resolve_real_once_def resolve_cached_def resolve_real_symbol_def life_own_def life_env_def
      life_start_def life_init_def ascii_def kLibaapSoname_def Let_def)

lemma life_created:
  "\<exists>f cbs' s. aap_create_session life_own default_settings life_env (Some (replicate 19 100)) life_start =
     Some (0, Some f, cbs', s) \<and> lf_up s"
proof -
  define u where "u = oem_self_gate (le_mapped life_env) (resolve_real_once life_own (le_ld life_env) life_start)"
  have env: "le_mapped life_env" "le_create life_env f cbs = (0, 77)" "le_out life_env" for f cbs
    by (simp_all add: life_env_def)
  have c: "lf_real_create u = 18" by (simp add: u_def oem_self_gate_def life_resolved)
  have g: "lf_enabled u"
    unfolding u_def oem_self_gate_def
    by (subst (1 2 3) resolve_keeps) (simp add: life_start_def life_init_def env)
  have "patch_table life_own default_settings (Some (replicate 19 100)) u =
      Some (Some ((replicate 19 100)[10 := 3]), u)"
    by (simp add: patch_table_def hud_pre_aap_create_session_def kCbListNavSlot_def default_settings_def g
        life_own_def)
  moreover have "lf_up (start_workers cfg e (s :: unit lifecycle))" for cfg e s
    by (simp add: start_workers_def)
  ultimately show ?thesis
    unfolding aap_create_session_def u_def [symmetric] Let_def using g c env(2,3) by simp
qed

theorem session_bracket_witness:
  "\<exists>f cbs' s. aap_create_session life_own default_settings life_env (Some (replicate 19 100)) life_start =
     Some (0, Some f, cbs', s) \<and> lf_up s \<and>
     all_idle (snd (snd (aap_destroy_session life_own default_settings life_env 77 s)))"
proof -
  obtain f cbs' s where s: "aap_create_session life_own default_settings life_env (Some (replicate 19 100))
      life_start = Some (0, Some f, cbs', s)" "lf_up s" using life_created by blast
  then have "(life_step life_own default_settings)\<^sup>*\<^sup>* (life_init life_touch life_hud) s"
    unfolding life_start_def using life_step.create by blast
  from session_bracket [OF this life_idle, of life_env 77] s show ?thesis by blast
qed

theorem shims_never_recurse_witness:
  "\<exists>f cbs' s. aap_create_session life_own default_settings life_env (Some (replicate 19 100)) life_start =
     Some (0, Some f, cbs', s) \<and> f \<noteq> 1"
proof -
  obtain f cbs' s where s: "aap_create_session life_own default_settings life_env (Some (replicate 19 100))
      life_start = Some (0, Some f, cbs', s)" using life_created by blast
  have "(life_step life_own default_settings)\<^sup>*\<^sup>* (life_init life_touch life_hud) life_start"
    by (simp add: life_start_def)
  from shims_never_recurse [OF this life_idle] s have "f \<noteq> lc_create life_own" by blast
  then show ?thesis using s by (auto simp: life_own_def)
qed

theorem create_transparent_witness:
  "\<exists>rc f slots' t. aap_create_session life_own default_settings life_env (Some (replicate 19 100))
     (life_start\<lparr>lf_gate_done := True, lf_enabled := True\<rparr>) = Some (rc, f, Some slots', t)"
  using create_transparent [of "replicate 19 100" "life_start\<lparr>lf_gate_done := True, lf_enabled := True\<rparr>"
      life_own default_settings life_env] by auto

end
