(* ===== verification/Carplay_Nav.thy ===== *)
theory Carplay_Nav
  imports Nav16_Msg Config "HOL-Library.Monad_Syntax"
begin

text \<open>
  The CarPlay navigation decoder (\<open>blmjcicarplay/nav.cpp\<close>): the maneuver and guidance messages
  tapped from the device manager, the window of displayable maneuvers, the choice of the
  imminent one by the head of Apple's maneuver list, and the calls made on the display sender.
  A read outside the received buffer is \<open>None\<close>.
\<close>

named_theorems cp_consts \<open>constants of the CarPlay decoder\<close>

definition kMtManeuver :: u32 where [cp_consts]: "kMtManeuver = 0x8059"
definition kMtGuidance :: u32 where [cp_consts]: "kMtGuidance = 0x8058"
definition kBurstIdxOff :: nat where [cp_consts]: "kBurstIdxOff = 0x20"
definition kValidInfoOff :: nat where [cp_consts]: "kValidInfoOff = 0x1c"
definition kManeuverTextOff :: nat where [cp_consts]: "kManeuverTextOff = 0x24"
definition kManeuverTextMax :: nat where [cp_consts]: "kManeuverTextMax = 256"
definition kManeuverTypeOff :: nat where [cp_consts]: "kManeuverTypeOff = 0x128"
definition kRoadNameOff :: nat where [cp_consts]: "kRoadNameOff = 0x12c"
definition kDriveSideOff :: nat where [cp_consts]: "kDriveSideOff = 0x33c"
definition kJunctionTypeOff :: nat where [cp_consts]: "kJunctionTypeOff = 0x340"
definition kJunctionAngleOff :: nat where [cp_consts]: "kJunctionAngleOff = 0x346"
definition kGuidanceDistOff :: nat where [cp_consts]: "kGuidanceDistOff = 0x34c"
definition kManListOff :: nat where [cp_consts]: "kManListOff = 0x458"
definition kManListCntOff :: nat where [cp_consts]: "kManListCntOff = 0x656"
definition kMaxBurst :: nat where [cp_consts]: "kMaxBurst = 48"

definition EV_SLIGHT :: u32 where [cp_consts]: "EV_SLIGHT = 3"
definition EV_TURN :: u32 where [cp_consts]: "EV_TURN = 4"
definition EV_SHARP :: u32 where [cp_consts]: "EV_SHARP = 5"
definition EV_UTURN :: u32 where [cp_consts]: "EV_UTURN = 6"
definition EV_ON_RAMP :: u32 where [cp_consts]: "EV_ON_RAMP = 7"
definition EV_OFF_RAMP :: u32 where [cp_consts]: "EV_OFF_RAMP = 8"
definition EV_FORK :: u32 where [cp_consts]: "EV_FORK = 9"
definition EV_ROUNDABOUT :: u32 where [cp_consts]: "EV_ROUNDABOUT = 13"
definition EV_STRAIGHT :: u32 where [cp_consts]: "EV_STRAIGHT = 14"
definition EV_FERRY :: u32 where [cp_consts]: "EV_FERRY = 16"
definition EV_DEST :: u32 where [cp_consts]: "EV_DEST = 19"
definition SIDE_LEFT :: u32 where [cp_consts]: "SIDE_LEFT = 1"
definition SIDE_RIGHT :: u32 where [cp_consts]: "SIDE_RIGHT = 2"
definition SIDE_NONE :: u32 where [cp_consts]: "SIDE_NONE = 3"

section \<open>Maneuver types\<close>

definition is_context_type :: "u32 \<Rightarrow> bool" where
  "is_context_type m \<longleftrightarrow> m = 0 \<or> m = 5 \<or> m = 11 \<or> m = 18"

record CpManeuver =
  mv_event :: u32
  mv_side :: u32
  mv_angle :: int
  mv_number :: int

definition cp_is_roundabout :: "u32 \<Rightarrow> u32 \<Rightarrow> bool" where
  "cp_is_roundabout mtype junctionType \<longleftrightarrow>
     junctionType = 1 \<or> mtype = 6 \<or> mtype = 7 \<or> mtype = 19 \<or> (28 \<le> mtype \<and> mtype \<le> 46)"

text \<open>The switch of \<open>classify\<close>: event and side of a maneuver that is no roundabout.\<close>

definition cp_turn_of :: "u32 \<Rightarrow> u32 \<Rightarrow> u32 \<times> u32" where
  "cp_turn_of mtype driveSide =
     (if mtype = 1 then (EV_TURN, SIDE_LEFT)
      else if mtype = 2 then (EV_TURN, SIDE_RIGHT)
      else if mtype = 20 then (EV_TURN, SIDE_LEFT)
      else if mtype = 21 then (EV_TURN, SIDE_RIGHT)
      else if mtype = 47 then (EV_SHARP, SIDE_LEFT)
      else if mtype = 48 then (EV_SHARP, SIDE_RIGHT)
      else if mtype = 49 then (EV_SLIGHT, SIDE_LEFT)
      else if mtype = 50 then (EV_SLIGHT, SIDE_RIGHT)
      else if mtype = 13 then (EV_FORK, SIDE_LEFT)
      else if mtype = 14 then (EV_FORK, SIDE_RIGHT)
      else if mtype = 51 then (EV_FORK, SIDE_NONE)
      else if mtype = 52 then (EV_FORK, SIDE_LEFT)
      else if mtype = 53 then (EV_FORK, SIDE_RIGHT)
      else if mtype = 4 \<or> mtype = 26 then (EV_UTURN, if driveSide = 1 then SIDE_RIGHT else SIDE_LEFT)
      else if mtype = 8 then (EV_OFF_RAMP, SIDE_NONE)
      else if mtype = 22 then (EV_OFF_RAMP, SIDE_LEFT)
      else if mtype = 23 then (EV_OFF_RAMP, SIDE_RIGHT)
      else if mtype = 9 then (EV_ON_RAMP, SIDE_NONE)
      else if mtype = 15 \<or> mtype = 16 \<or> mtype = 17 then (EV_FERRY, SIDE_NONE)
      else if mtype = 10 \<or> mtype = 12 \<or> mtype = 27 then (EV_DEST, SIDE_NONE)
      else if mtype = 24 then (EV_DEST, SIDE_LEFT)
      else if mtype = 25 then (EV_DEST, SIDE_RIGHT)
      else (EV_STRAIGHT, SIDE_NONE))"

definition cp_classify :: "u32 \<Rightarrow> u32 \<Rightarrow> int \<Rightarrow> u32 \<Rightarrow> CpManeuver" where
  "cp_classify mtype junctionType junctionAngle driveSide =
     (if cp_is_roundabout mtype junctionType then
        let a = cmod junctionAngle 360 in
        \<lparr>mv_event = EV_ROUNDABOUT,
         mv_side = (if driveSide = 1 then SIDE_LEFT else SIDE_RIGHT),
         mv_angle = (if a < 0 then a + 360 else a),
         mv_number = (if 28 \<le> mtype \<and> mtype \<le> 46 then sint mtype - 27 else 0)\<rparr>
      else
        let (event, side) = cp_turn_of mtype driveSide in
        \<lparr>mv_event = event, mv_side = side, mv_angle = 0, mv_number = 0\<rparr>)"

section \<open>Reads of the message\<close>

definition load_u16 :: "u8 list \<Rightarrow> nat \<Rightarrow> u16 option" where
  "load_u16 b off =
     (if off + 2 \<le> length b then Some (bytes_u16 (b ! off) (b ! (off + 1))) else None)"

definition load_u32 :: "u8 list \<Rightarrow> nat \<Rightarrow> u32 option" where
  "load_u32 b off =
     (if off + 4 \<le> length b then
        Some (bytes_u32 (b ! off) (b ! (off + 1)) (b ! (off + 2)) (b ! (off + 3)))
      else None)"

definition cp_read_u32 :: "u8 list \<Rightarrow> nat \<Rightarrow> nat \<Rightarrow> u32 option" where
  "cp_read_u32 b n off = (if off + 4 > n then Some 0 else load_u32 b off)"

definition cp_read_u16 :: "u8 list \<Rightarrow> nat \<Rightarrow> nat \<Rightarrow> u32 option" where
  "cp_read_u16 b n off = (if off + 2 > n then Some 0 else map_option ucast (load_u16 b off))"

definition cp_read_s16 :: "u8 list \<Rightarrow> nat \<Rightarrow> nat \<Rightarrow> int option" where
  "cp_read_s16 b n off = (if off + 2 > n then Some 0 else map_option sint (load_u16 b off))"

text \<open>\<open>read_str\<close> from its \<open>k\<close> on, the bytes it copies before the terminator.\<close>

function cp_read_str :: "u8 list \<Rightarrow> nat \<Rightarrow> nat \<Rightarrow> nat \<Rightarrow> nat \<Rightarrow> u8 list option" where
  "cp_read_str b n off outsz k =
     (if off + k < n \<and> k + 1 < outsz then
        (case load b (off + k) of
           None \<Rightarrow> None
         | Some c \<Rightarrow> if c = 0 then Some [] else map_option ((#) c) (cp_read_str b n off outsz (k + 1)))
      else Some [])"
  by pat_completeness auto
termination by (relation "measure (\<lambda>(b, n, off, outsz, k). outsz - k)") auto

declare cp_read_str.simps [simp del]

section \<open>The window and the latched display state\<close>

record BufManeuver =
  bm_mtype :: u32
  bm_idx :: u32
  bm_validInfo :: u32
  bm_mv :: CpManeuver
  bm_road :: "u8 list"
  bm_desc :: "u8 list"

record Shown =
  sh_event :: u32
  sh_side :: u32
  sh_angle :: int
  sh_number :: int
  sh_road :: "u8 list"

record cp_nav =
  cn_disp :: Shown
  cn_emit :: Shown
  cn_reset_req :: bool
  cn_buf :: "BufManeuver list"
  cn_prev_idx :: u32
  cn_last_head :: u32
  cn_last_head_valid :: bool

text \<open>Calls on the display sender (\<open>hud/hud_send.h\<close>).\<close>

datatype cp_hud_call =
    CpStatus u32
  | CpNextTurn "u8 list" u32 u32 int int
  | CpDistance int int int u32

definition cp_never :: Shown where
  "cp_never = \<lparr>sh_event = 0xffffffff, sh_side = 0xffffffff, sh_angle = 0x7fffffff,
     sh_number = 0x7fffffff, sh_road = replicate 256 0\<rparr>"

definition cp_nav_init :: cp_nav where
  "cp_nav_init =
     \<lparr>cn_disp = \<lparr>sh_event = EV_STRAIGHT, sh_side = SIDE_NONE, sh_angle = 0, sh_number = 0,
        sh_road = replicate 256 0\<rparr>,
      cn_emit = cp_never, cn_reset_req = False, cn_buf = [], cn_prev_idx = 0xffffffff,
      cn_last_head = 0, cn_last_head_valid = False\<rparr>"

text \<open>The first index of the window at which a maneuver satisfies \<open>P\<close>.\<close>

definition first_index :: "('a \<Rightarrow> bool) \<Rightarrow> 'a list \<Rightarrow> nat option" where
  "first_index P xs =
     (let i = length (takeWhile (\<lambda>x. \<not> P x) xs) in if i < length xs then Some i else None)"

definition select_by_head :: "u32 \<Rightarrow> BufManeuver list \<Rightarrow> nat option" where
  "select_by_head head buf =
     (case first_index (\<lambda>m. bm_idx m = head) buf of
        Some i \<Rightarrow> Some i
      | None \<Rightarrow> first_index (\<lambda>m. bm_idx m = head + 1) buf)"

definition shown_differs :: "Shown \<Rightarrow> Shown \<Rightarrow> bool" where
  "shown_differs d e \<longleftrightarrow>
     sh_event d \<noteq> sh_event e \<or> sh_side d \<noteq> sh_side e \<or> sh_angle d \<noteq> sh_angle e \<or>
     sh_number d \<noteq> sh_number e \<or> cstr (sh_road d) \<noteq> cstr (sh_road e)"

definition shown_of :: "BufManeuver \<Rightarrow> Shown" where
  "shown_of im =
     \<lparr>sh_event = mv_event (bm_mv im), sh_side = mv_side (bm_mv im), sh_angle = mv_angle (bm_mv im),
      sh_number = mv_number (bm_mv im),
      sh_road = strncpy_z 256 (if bm_road im ! 0 \<noteq> 0 then bm_road im else bm_desc im)\<rparr>"

definition turn_call :: "Shown \<Rightarrow> cp_hud_call" where
  "turn_call d =
     CpNextTurn (if sh_road d ! 0 \<noteq> 0 then cstr (sh_road d) else [32])
       (sh_side d) (sh_event d) (sh_angle d) (sh_number d)"

definition emit_selection :: "nat \<Rightarrow> cp_nav \<Rightarrow> cp_hud_call list \<times> cp_nav" where
  "emit_selection sel s =
     (if sel \<ge> length (cn_buf s) then ([], s)
      else
        let disp = shown_of (cn_buf s ! sel);
            s = s\<lparr>cn_disp := disp\<rparr> in
        if shown_differs disp (cn_emit s) then
          ([CpStatus 1, turn_call disp],
           s\<lparr>cn_emit := disp\<lparr>sh_road := strncpy_z 256 (sh_road disp)\<rparr>\<rparr>)
        else ([], s))"

section \<open>One message\<close>

definition nav_request_reset :: "cp_nav \<Rightarrow> cp_nav" where
  "nav_request_reset s = s\<lparr>cn_reset_req := True\<rparr>"

definition nav_take_reset :: "cp_nav \<Rightarrow> cp_nav" where
  "nav_take_reset s =
     (if cn_reset_req s then
        s\<lparr>cn_reset_req := False, cn_buf := [], cn_last_head_valid := False, cn_last_head := 0,
          cn_prev_idx := 0xffffffff,
          cn_emit := (cn_emit s)\<lparr>sh_event := 0xffffffff, sh_side := 0xffffffff,
            sh_angle := 0x7fffffff, sh_number := 0x7fffffff,
            sh_road := (sh_road (cn_emit s))[0 := 0]\<rparr>\<rparr>
      else s)"

definition read_maneuver :: "u8 list \<Rightarrow> nat \<Rightarrow> u32 \<Rightarrow> u32 \<Rightarrow> BufManeuver option" where
  "read_maneuver b n idx mtype =
     do {
       validInfo \<leftarrow> cp_read_u32 b n kValidInfoOff;
       driveSide \<leftarrow> cp_read_u32 b n kDriveSideOff;
       junction \<leftarrow> cp_read_u32 b n kJunctionTypeOff;
       jAngle \<leftarrow> cp_read_s16 b n kJunctionAngleOff;
       road \<leftarrow> cp_read_str b n kRoadNameOff 256 0;
       text \<leftarrow> cp_read_str b n kManeuverTextOff (kManeuverTextMax + 1) 0;
       Some \<lparr>bm_mtype = mtype, bm_idx = idx, bm_validInfo = validInfo,
         bm_mv = cp_classify mtype junction jAngle driveSide,
         bm_road = strncpy_z 256 road, bm_desc = strncpy_z 256 text\<rparr>
     }"

definition on_maneuver :: "u8 list \<Rightarrow> nat \<Rightarrow> cp_nav \<Rightarrow> (cp_hud_call list \<times> cp_nav) option" where
  "on_maneuver b n s =
     do {
       idx \<leftarrow> (if n \<ge> kBurstIdxOff + 4 then map_option (drop_bit 16) (load_u32 b kBurstIdxOff) else Some 0);
       let burst_start = (idx = 0 \<or> idx < cn_prev_idx s);
       let s = s\<lparr>cn_prev_idx := idx\<rparr>;
       let s = (if burst_start then s\<lparr>cn_buf := []\<rparr> else s);
       mtype \<leftarrow> cp_read_u32 b n kManeuverTypeOff;
       if idx = 0 \<or> is_context_type mtype then Some ([], s)
       else if length (cn_buf s) \<ge> kMaxBurst then Some ([], s)
       else do {
         e \<leftarrow> read_maneuver b n idx mtype;
         let s = s\<lparr>cn_buf := cn_buf s @ [e]\<rparr>;
         Some (if cn_last_head_valid s then
                 (case select_by_head (cn_last_head s) (cn_buf s) of
                    Some sel \<Rightarrow> emit_selection sel s
                  | None \<Rightarrow> ([], s))
               else ([], s))
       }
     }"

text \<open>The distance line of a guidance message; \<open>(int32_t)\<close> reads the word as signed.\<close>

definition guidance_distance :: "int \<Rightarrow> cp_hud_call list" where
  "guidance_distance dist =
     (if dist > 0 \<and> dist \<le> 100000 then
        (if dist < 1000 then [CpDistance dist 0 (to_i32 (dist * 1000)) 1]
         else [CpDistance dist 0 dist 3])
      else [])"

definition on_guidance :: "u8 list \<Rightarrow> nat \<Rightarrow> cp_nav \<Rightarrow> (cp_hud_call list \<times> cp_nav) option" where
  "on_guidance b n s =
     do {
       cnt \<leftarrow> cp_read_u16 b n kManListCntOff;
       head \<leftarrow> (if cnt > 0 then cp_read_u16 b n kManListOff else Some 0);
       let (calls, s) =
         (if cnt > 0 then
            (case select_by_head head (cn_buf s) of
               Some sel \<Rightarrow> emit_selection sel (s\<lparr>cn_last_head := head, cn_last_head_valid := True\<rparr>)
             | None \<Rightarrow> ([], s))
          else ([], s));
       if n \<ge> kGuidanceDistOff + 4 then
         map_option (\<lambda>d. (calls @ guidance_distance (sint d), s)) (load_u32 b kGuidanceDistOff)
       else Some (calls, s)
     }"

definition nav_on_devmgr_msg ::
  "u8 list option \<Rightarrow> int \<Rightarrow> cp_nav \<Rightarrow> (cp_hud_call list \<times> cp_nav) option" where
  "nav_on_devmgr_msg msgp n s =
     (case msgp of
        None \<Rightarrow> Some ([], s)
      | Some b \<Rightarrow>
          if n < int (kManeuverTextOff + 4) then Some ([], s)
          else do {
            w \<leftarrow> load_u32 b 0;
            let mt = w AND 0xffff;
            let s = nav_take_reset s;
            if mt = kMtManeuver then on_maneuver b (nat n) s
            else if mt = kMtGuidance then on_guidance b (nat n) s
            else Some ([], s)
          })"

section \<open>Total readings\<close>

text \<open>
  When the receive call returned \<open>n\<close> bytes into a buffer of at least \<open>n\<close>, every read succeeds and
  gives the field, or zero where the message is too short to hold it.
\<close>

definition field16 :: "u8 list \<Rightarrow> nat \<Rightarrow> nat \<Rightarrow> u16" where
  "field16 b n off = (if off + 2 > n then 0 else bytes_u16 (b ! off) (b ! (off + 1)))"

definition field32 :: "u8 list \<Rightarrow> nat \<Rightarrow> nat \<Rightarrow> u32" where
  "field32 b n off =
     (if off + 4 > n then 0
      else bytes_u32 (b ! off) (b ! (off + 1)) (b ! (off + 2)) (b ! (off + 3)))"

definition field_str :: "u8 list \<Rightarrow> nat \<Rightarrow> nat \<Rightarrow> u8 list" where
  "field_str b n off = cstr (drop off (take n b))"

named_theorems cp_reads \<open>reads of a buffer that holds the message\<close>

lemma cp_read_u32_total [cp_reads]: "n \<le> length b \<Longrightarrow> cp_read_u32 b n off = Some (field32 b n off)"
  by (simp add: cp_read_u32_def field32_def load_u32_def)

lemma cp_read_u16_total [cp_reads]: "n \<le> length b \<Longrightarrow> cp_read_u16 b n off = Some (ucast (field16 b n off))"
  by (simp add: cp_read_u16_def field16_def load_u16_def)

lemma cp_read_s16_total [cp_reads]: "n \<le> length b \<Longrightarrow> cp_read_s16 b n off = Some (sint (field16 b n off))"
  by (simp add: cp_read_s16_def field16_def load_u16_def)

lemma load_u32_total [cp_reads]: "n \<le> length b \<Longrightarrow> off + 4 \<le> n \<Longrightarrow> load_u32 b off = Some (field32 b n off)"
  by (simp add: field32_def load_u32_def)

lemma cp_read_str_total:
  "n \<le> length b \<Longrightarrow> k < outsz \<Longrightarrow>
   cp_read_str b n off outsz k = Some (take (outsz - 1 - k) (cstr (drop (off + k) (take n b))))"
proof (induction b n off outsz k rule: cp_read_str.induct)
  case (1 b n off outsz k)
  show ?case
  proof (cases "off + k < n \<and> k + 1 < outsz")
    case False
    then show ?thesis using 1(3) by (auto simp: cp_read_str.simps [of b n off outsz k])
  next
    case True
    let ?c = "b ! (off + k)"
    have l: "load b (off + k) = Some ?c" using True 1(2) by simp
    have d: "drop (off + k) (take n b) = ?c # drop (off + (k + 1)) (take n b)"
      using True 1(2) by (subst Cons_nth_drop_Suc [symmetric]) auto
    have t: "outsz - 1 - k = Suc (outsz - 1 - (k + 1))" using True by arith
    show ?thesis
    proof (cases "?c = 0")
      case c: True
      then show ?thesis using True
        by (simp add: cp_read_str.simps [of b n off outsz k] l d cstr_def)
    next
      case c: False
      have "cp_read_str b n off outsz (k + 1) =
          Some (take (outsz - 1 - (k + 1)) (cstr (drop (off + (k + 1)) (take n b))))"
        using 1(1) [OF True l c] 1(2) True by simp
      then show ?thesis using True c
        unfolding cp_read_str.simps [of b n off outsz k] l d t by (simp add: cstr_def)
    qed
  qed
qed

lemma cp_read_str_fields [cp_reads]:
  assumes "n \<le> length b"
  shows "cp_read_str b n off 256 0 = Some (take 255 (field_str b n off))"
    and "cp_read_str b n off 257 0 = Some (take 256 (field_str b n off))"
  using cp_read_str_total [OF assms, of 0 256 off] cp_read_str_total [OF assms, of 0 257 off]
  by (simp_all add: field_str_def)

text \<open>What a maneuver message says.\<close>

definition msg_idx :: "u8 list \<Rightarrow> nat \<Rightarrow> u32" where
  "msg_idx b n = drop_bit 16 (field32 b n kBurstIdxOff)"

definition msg_type :: "u8 list \<Rightarrow> nat \<Rightarrow> u32" where
  "msg_type b n = field32 b n kManeuverTypeOff"

definition maneuver_at :: "u8 list \<Rightarrow> nat \<Rightarrow> BufManeuver" where
  "maneuver_at b n =
     \<lparr>bm_mtype = msg_type b n, bm_idx = msg_idx b n, bm_validInfo = field32 b n kValidInfoOff,
      bm_mv = cp_classify (msg_type b n) (field32 b n kJunctionTypeOff)
        (sint (field16 b n kJunctionAngleOff)) (field32 b n kDriveSideOff),
      bm_road = strncpy_z 256 (field_str b n kRoadNameOff),
      bm_desc = strncpy_z 256 (field_str b n kManeuverTextOff)\<rparr>"

definition displayable :: "u8 list \<Rightarrow> nat \<Rightarrow> bool" where
  "displayable b n \<longleftrightarrow> msg_idx b n \<noteq> 0 \<and> \<not> is_context_type (msg_type b n)"

lemma strncpy_z_take: "cap - 1 \<le> k \<Longrightarrow> strncpy_z cap (take k (cstr s)) = strncpy_z cap s"
  by (simp add: strncpy_z_def cstr_id [OF take_no_nul [OF cstr_no_nul]] min.absorb1 Let_def)

lemma read_maneuver_total [cp_reads]:
  "n \<le> length b \<Longrightarrow> read_maneuver b n (msg_idx b n) (msg_type b n) = Some (maneuver_at b n)"
  by (simp add: read_maneuver_def cp_reads(1-4) cp_read_str_fields
      maneuver_at_def field_str_def strncpy_z_take kManeuverTextMax_def)

text \<open>The window and the repaint, as two functions of the state.\<close>

definition nav_window :: "u8 list \<Rightarrow> nat \<Rightarrow> cp_nav \<Rightarrow> cp_nav" where
  "nav_window b n s =
     (let buf = (if msg_idx b n = 0 \<or> msg_idx b n < cn_prev_idx s then [] else cn_buf s) in
      s\<lparr>cn_prev_idx := msg_idx b n,
        cn_buf := (if displayable b n \<and> length buf < kMaxBurst then buf @ [maneuver_at b n] else buf)\<rparr>)"

definition nav_repaint :: "u32 \<Rightarrow> cp_nav \<Rightarrow> cp_hud_call list \<times> cp_nav" where
  "nav_repaint head s =
     (case select_by_head head (cn_buf s) of Some sel \<Rightarrow> emit_selection sel s | None \<Rightarrow> ([], s))"

definition nav_grew :: "u8 list \<Rightarrow> nat \<Rightarrow> cp_nav \<Rightarrow> bool" where
  "nav_grew b n s \<longleftrightarrow>
     displayable b n \<and>
     (msg_idx b n < cn_prev_idx s \<or> length (cn_buf s) < kMaxBurst)"

lemma on_maneuver_total:
  assumes "n \<le> length b" and "40 \<le> n"
  shows "on_maneuver b n s =
    Some (if nav_grew b n s \<and> cn_last_head_valid s then nav_repaint (cn_last_head s) (nav_window b n s)
          else ([], nav_window b n s))"
proof -
  have idx: "(if n \<ge> kBurstIdxOff + 4 then map_option (drop_bit 16) (load_u32 b kBurstIdxOff) else Some 0)
      = Some (msg_idx b n)"
    using assms load_u32_total [OF assms(1), of kBurstIdxOff] by (simp add: msg_idx_def kBurstIdxOff_def)
  have ty: "cp_read_u32 b n kManeuverTypeOff = Some (msg_type b n)"
    using assms by (simp add: cp_reads msg_type_def)
  note rd = read_maneuver_total [OF assms(1)]
  show ?thesis
    unfolding on_maneuver_def idx ty
    by (auto simp: Let_def rd nav_grew_def displayable_def nav_window_def nav_repaint_def kMaxBurst_def
        cong: option.case_cong)
qed

lemma on_guidance_total:
  assumes "n \<le> length b"
  shows "on_guidance b n s =
    Some (let head = ucast (field16 b n kManListOff);
              (calls, s) =
                (if field16 b n kManListCntOff \<noteq> 0 \<and> select_by_head head (cn_buf s) \<noteq> None then
                   nav_repaint head (s\<lparr>cn_last_head := head, cn_last_head_valid := True\<rparr>)
                 else ([], s)) in
          (if n \<ge> kGuidanceDistOff + 4 then
             (calls @ guidance_distance (sint (field32 b n kGuidanceDistOff)), s)
           else (calls, s)))"
proof -
  have cnt: "cp_read_u16 b n kManListCntOff = Some (ucast (field16 b n kManListCntOff))"
    and head: "cp_read_u16 b n kManListOff = Some (ucast (field16 b n kManListOff))"
    using assms by (simp_all add: cp_reads)
  have pos: "(0 :: u32) < ucast (field16 b n kManListCntOff) \<longleftrightarrow> field16 b n kManListCntOff \<noteq> 0"
    by (simp add: word_less_nat_alt unsigned_ucast_eq take_bit_nat_eq_self
        unsigned_less [THEN less_le_trans] unat_gt_0)
  show ?thesis
    unfolding on_guidance_def cnt bind.bind_lunit pos
    using load_u32_total [OF assms, of kGuidanceDistOff]
    by (auto simp: head Let_def nav_repaint_def split: prod.splits option.splits)
qed

section \<open>Shapes of the values sent on\<close>

definition mv_ok :: "CpManeuver \<Rightarrow> bool" where
  "mv_ok m \<longleftrightarrow>
     mv_event m \<in> {3, 4, 5, 6, 7, 8, 9, 13, 14, 16, 19} \<and> mv_side m \<in> {1, 2, 3} \<and>
     0 \<le> mv_angle m \<and> mv_angle m < 360 \<and> 0 \<le> mv_number m \<and> mv_number m \<le> 19"

definition bm_ok :: "BufManeuver \<Rightarrow> bool" where
  "bm_ok m \<longleftrightarrow> mv_ok (bm_mv m) \<and> length (bm_road m) = 256 \<and> length (bm_desc m) = 256"

fun call_ok :: "cp_hud_call \<Rightarrow> bool" where
  "call_ok (CpStatus v) \<longleftrightarrow> v = 1"
| "call_ok (CpNextTurn road side event angle number) \<longleftrightarrow>
     road \<noteq> [] \<and> length road \<le> 255 \<and> 0 \<notin> set road \<and>
     mv_ok \<lparr>mv_event = event, mv_side = side, mv_angle = angle, mv_number = number\<rparr>"
| "call_ok (CpDistance m t disp u) \<longleftrightarrow>
     0 < m \<and> m \<le> 100000 \<and> t = 0 \<and> (if m < 1000 then u = 1 \<and> disp = m * 1000 else u = 3 \<and> disp = m)"

definition nav_ok :: "cp_nav \<Rightarrow> bool" where
  "nav_ok s \<longleftrightarrow>
     length (cn_buf s) \<le> 48 \<and> (\<forall>m \<in> set (cn_buf s). bm_ok m) \<and>
     length (sh_road (cn_disp s)) = 256 \<and> length (sh_road (cn_emit s)) = 256"

lemma exit_number_range:
  assumes "28 \<le> (m :: u32)" and "m \<le> 46"
  shows "0 \<le> sint m - 27" and "sint m - 27 \<le> 19"
proof -
  have u: "28 \<le> uint m" "uint m \<le> 46" using assms by (simp_all add: word_le_def)
  then have "sint m = uint m" by (simp add: sint_uint signed_take_bit_int_eq_self)
  then show "0 \<le> sint m - 27" and "sint m - 27 \<le> 19" using u by simp_all
qed

lemma cp_turn_of_range:
  "fst (cp_turn_of t d) \<in> {3, 4, 5, 6, 7, 8, 9, 14, 16, 19}" "snd (cp_turn_of t d) \<in> {1, 2, 3}"
  unfolding cp_turn_of_def cp_consts by (simp_all split: if_split)

lemma cp_classify_ok: "mv_ok (cp_classify t j a d)"
proof (cases "cp_is_roundabout t j")
  case True
  have "(if cmod a 360 < 0 then cmod a 360 + 360 else cmod a 360) = a mod 360"
    by (rule cmod_fixup) simp
  then show ?thesis
    using True exit_number_range [of t]
    by (simp add: cp_classify_def mv_ok_def Let_def cp_consts)
next
  case False
  then show ?thesis
    using cp_turn_of_range [of t d]
    by (cases "cp_turn_of t d") (auto simp: cp_classify_def mv_ok_def)
qed

lemma maneuver_at_ok: "bm_ok (maneuver_at b n)"
  by (simp add: bm_ok_def maneuver_at_def cp_classify_ok)

lemma cstr_nonempty: "0 < length r \<Longrightarrow> cstr r \<noteq> [] \<longleftrightarrow> r ! 0 \<noteq> 0"
  by (cases r) (simp_all add: cstr_def)

lemma turn_call_ok:
  assumes "bm_ok m"
  shows "call_ok (turn_call (shown_of m))"
proof -
  let ?x = "if bm_road m ! 0 \<noteq> 0 then bm_road m else bm_desc m"
  have "cstr (strncpy_z 256 ?x) = take 255 (cstr ?x)" by simp
  moreover have "strncpy_z 256 ?x ! 0 \<noteq> 0 \<Longrightarrow> cstr (strncpy_z 256 ?x) \<noteq> []"
    by (subst cstr_nonempty) simp_all
  ultimately show ?thesis
    using assms by (auto simp: turn_call_def shown_of_def bm_ok_def mv_ok_def dest: in_set_takeD)
qed

lemma first_index_Some:
  "first_index P xs = Some i \<Longrightarrow> i < length xs \<and> P (xs ! i) \<and> (\<forall>j < i. \<not> P (xs ! j))"
  unfolding first_index_def Let_def
  by (auto split: if_splits dest: nth_length_takeWhile)
    (metis nth_mem set_takeWhileD takeWhile_nth)

lemma first_index_None: "first_index P xs = None \<longleftrightarrow> (\<forall>x \<in> set xs. \<not> P x)"
proof -
  have "length (takeWhile (\<lambda>x. \<not> P x) xs) < length xs \<longleftrightarrow> \<not> (\<forall>x \<in> set xs. \<not> P x)"
    by (metis length_takeWhile_le nless_le nth_length_takeWhile takeWhile_eq_all_conv nth_mem takeWhile_eq_take take_all_iff)
  then show ?thesis by (auto simp: first_index_def Let_def)
qed

lemma first_index_append: "first_index P xs = Some i \<Longrightarrow> first_index P (xs @ ys) = Some i"
  unfolding first_index_def Let_def
  by (auto split: if_splits simp: takeWhile_append)
    (metis length_takeWhile_le nless_le takeWhile_eq_all_conv)+

lemma select_bound: "select_by_head h buf = Some i \<Longrightarrow> i < length buf"
  by (auto simp: select_by_head_def dest: first_index_Some split: option.splits)

section \<open>A message as one total step\<close>

definition nav_guidance :: "u8 list \<Rightarrow> nat \<Rightarrow> cp_nav \<Rightarrow> cp_hud_call list \<times> cp_nav" where
  "nav_guidance b n s =
     (let head = ucast (field16 b n kManListOff);
          (calls, s) =
            (if field16 b n kManListCntOff \<noteq> 0 \<and> select_by_head head (cn_buf s) \<noteq> None then
               nav_repaint head (s\<lparr>cn_last_head := head, cn_last_head_valid := True\<rparr>)
             else ([], s)) in
      (if n \<ge> kGuidanceDistOff + 4 then
         (calls @ guidance_distance (sint (field32 b n kGuidanceDistOff)), s)
       else (calls, s)))"

definition msg_kind :: "u8 list \<Rightarrow> nat \<Rightarrow> u32" where
  "msg_kind b n = field32 b n 0 AND 0xffff"

definition nav_step :: "u8 list \<Rightarrow> nat \<Rightarrow> cp_nav \<Rightarrow> cp_hud_call list \<times> cp_nav" where
  "nav_step b n s =
     (let s = nav_take_reset s in
      if msg_kind b n = kMtManeuver then
        (if nav_grew b n s \<and> cn_last_head_valid s then nav_repaint (cn_last_head s) (nav_window b n s)
         else ([], nav_window b n s))
      else if msg_kind b n = kMtGuidance then nav_guidance b n s
      else ([], s))"

lemma nav_msg_total:
  assumes "n \<le> length b" and "40 \<le> n"
  shows "nav_on_devmgr_msg (Some b) (int n) s = Some (nav_step b n s)"
proof -
  have "load_u32 b 0 = Some (field32 b n 0)" using assms by (intro load_u32_total) simp_all
  then show ?thesis
    using assms
    by (simp add: nav_on_devmgr_msg_def nav_step_def msg_kind_def on_maneuver_total on_guidance_total
        nav_guidance_def kManeuverTextOff_def Let_def)
qed

lemma nav_msg_short: "n < 40 \<Longrightarrow> nav_on_devmgr_msg m n s = Some ([], s)"
  by (simp add: nav_on_devmgr_msg_def kManeuverTextOff_def split: option.split)

lemma nav_take_reset_ok: "nav_ok s \<Longrightarrow> nav_ok (nav_take_reset s)"
  by (simp add: nav_ok_def nav_take_reset_def)

lemma nav_window_ok: "nav_ok s \<Longrightarrow> nav_ok (nav_window b n s)"
  by (auto simp: nav_ok_def nav_window_def Let_def kMaxBurst_def maneuver_at_ok)

lemma shown_of_len: "length (sh_road (shown_of m)) = 256"
  by (simp add: shown_of_def)

lemma nav_repaint_ok:
  assumes "nav_ok s"
  shows "nav_ok (snd (nav_repaint h s)) \<and> (\<forall>c \<in> set (fst (nav_repaint h s)). call_ok c)"
proof (cases "select_by_head h (cn_buf s)")
  case (Some i)
  then have i: "i < length (cn_buf s)" by (rule select_bound)
  then have "bm_ok (cn_buf s ! i)" using assms by (simp add: nav_ok_def)
  from turn_call_ok [OF this] show ?thesis
    using assms i Some by (simp add: nav_repaint_def emit_selection_def Let_def nav_ok_def shown_of_len)
qed (use assms in \<open>simp add: nav_repaint_def\<close>)

lemma guidance_distance_ok: "c \<in> set (guidance_distance d) \<Longrightarrow> call_ok c"
  by (auto simp: guidance_distance_def i32_rangeI split: if_splits)

lemma nav_guidance_ok:
  assumes "nav_ok s"
  shows "nav_ok (snd (nav_guidance b n s)) \<and> (\<forall>c \<in> set (fst (nav_guidance b n s)). call_ok c)"
proof -
  let ?h = "ucast (field16 b n kManListOff) :: u32"
  let ?s = "s\<lparr>cn_last_head := ?h, cn_last_head_valid := True\<rparr>"
  have "nav_ok ?s" using assms by (simp add: nav_ok_def)
  note r = nav_repaint_ok [OF this, of ?h]
  obtain cs s' where e: "nav_repaint ?h ?s = (cs, s')" by fastforce
  show ?thesis
    using r assms guidance_distance_ok unfolding nav_guidance_def Let_def e by auto
qed

lemma nav_step_ok:
  assumes "nav_ok s"
  shows "nav_ok (snd (nav_step b n s)) \<and> (\<forall>c \<in> set (fst (nav_step b n s)). call_ok c)"
  unfolding nav_step_def Let_def
  using nav_repaint_ok [OF nav_window_ok [OF nav_take_reset_ok [OF assms]]]
    nav_window_ok [OF nav_take_reset_ok [OF assms]] nav_guidance_ok [OF nav_take_reset_ok [OF assms]]
    nav_take_reset_ok [OF assms]
  by simp

section \<open>Sequences of messages\<close>

datatype cp_input = CpMsg "u8 list option" int | CpResetReq

text \<open>The receive call never reports more bytes than the buffer holds.\<close>

fun input_ok :: "cp_input \<Rightarrow> bool" where
  "input_ok (CpMsg (Some b) n) \<longleftrightarrow> n \<le> int (length b)"
| "input_ok _ \<longleftrightarrow> True"

fun nav_run :: "cp_input list \<Rightarrow> cp_nav \<Rightarrow> (cp_hud_call list \<times> cp_nav) option" where
  "nav_run [] s = Some ([], s)"
| "nav_run (CpResetReq # ins) s = nav_run ins (nav_request_reset s)"
| "nav_run (CpMsg m n # ins) s =
     do {
       (cs, s) \<leftarrow> nav_on_devmgr_msg m n s;
       (cs', s) \<leftarrow> nav_run ins s;
       Some (cs @ cs', s)
     }"

lemma nav_msg_step:
  assumes "input_ok (CpMsg m n)"
  shows "nav_on_devmgr_msg m n s = Some ([], s) \<or>
    (\<exists>b. nav_on_devmgr_msg m n s = Some (nav_step b (nat n) s))"
proof (cases m)
  case None
  then show ?thesis by (simp add: nav_on_devmgr_msg_def)
next
  case (Some b)
  show ?thesis
  proof (cases "n < 40")
    case True
    then show ?thesis using nav_msg_short by blast
  next
    case False
    then show ?thesis
      using nav_msg_total [of "nat n" b s] assms Some by auto
  qed
qed

text \<open>Rule induction over a run: what every message and every reset request keeps.\<close>

lemma nav_run_induct:
  assumes "\<forall>i \<in> set ins. input_ok i" and "P cs0 s"
    and "\<And>cs s. P cs s \<Longrightarrow> P cs (nav_request_reset s)"
    and "\<And>cs s b n. P cs s \<Longrightarrow> P (cs @ fst (nav_step b n s)) (snd (nav_step b n s))"
  shows "\<exists>cs s'. nav_run ins s = Some (cs, s') \<and> P (cs0 @ cs) s'"
  using assms(1,2)
proof (induction ins s arbitrary: cs0 rule: nav_run.induct)
  case (2 ins s)
  then show ?case using assms(3) by simp
next
  case (3 m n ins s)
  have ok: "input_ok (CpMsg m n)" "\<forall>i \<in> set ins. input_ok i" using 3(2) by simp_all
  obtain cs1 s1 where s1: "nav_on_devmgr_msg m n s = Some (cs1, s1)" "P (cs0 @ cs1) s1"
  proof (cases "nav_on_devmgr_msg m n s = Some ([], s)")
    case True
    then show ?thesis using that 3(3) by simp
  next
    case False
    then obtain b where b: "nav_on_devmgr_msg m n s = Some (nav_step b (nat n) s)"
      using nav_msg_step [OF ok(1)] by blast
    show ?thesis
      using that [of "fst (nav_step b (nat n) s)" "snd (nav_step b (nat n) s)"] b assms(4) [OF 3(3)] by simp
  qed
  from 3(1) [OF s1(1) refl ok(2) s1(2)] show ?case using s1(1) by auto
qed simp

lemma nav_init_ok: "nav_ok cp_nav_init"
  by (simp add: nav_ok_def cp_nav_init_def cp_never_def)

lemma run_calls_ok:
  assumes "\<forall>i \<in> set ins. input_ok i" and "nav_ok s"
  shows "\<exists>cs s'. nav_run ins s = Some (cs, s') \<and> nav_ok s' \<and> (\<forall>c \<in> set cs. call_ok c)"
proof -
  let ?P = "\<lambda>cs s. nav_ok s \<and> (\<forall>c \<in> set cs. call_ok c)"
  have "\<exists>cs s'. nav_run ins s = Some (cs, s') \<and> ?P ([] @ cs) s'"
  proof (rule nav_run_induct [OF assms(1)])
    show "?P [] s" using assms(2) by simp
    show "?P cs (nav_request_reset s)" if "?P cs s" for cs s
      using that by (simp add: nav_request_reset_def nav_ok_def)
    show "?P (cs @ fst (nav_step b n s)) (snd (nav_step b n s))" if "?P cs s" for cs s b n
      using that nav_step_ok [of s b n] by auto
  qed
  then show ?thesis by simp
qed

text \<open>
  C28.  No message can harm the receive thread: for every sequence of messages of any length and
  content and of reset requests, no read leaves the received bytes, the window keeps at most its
  48 entries, and every call made on the display sender is well formed - a road text that is
  never empty and fits its buffer, an event and a side of the glyph table, an exit angle below
  360 degrees, an exit number of at most 19, and a distance in the unit it is announced in.
\<close>

theorem nav_calls_safe:
  assumes "\<forall>i \<in> set ins. input_ok i"
  shows "\<exists>cs s. nav_run ins cp_nav_init = Some (cs, s) \<and> length (cn_buf s) \<le> 48 \<and>
    (\<forall>c \<in> set cs. call_ok c)"
  using run_calls_ok [OF assms nav_init_ok] by (auto simp: nav_ok_def)

section \<open>What the display was told\<close>

fun is_turn :: "cp_hud_call \<Rightarrow> bool" where
  "is_turn (CpNextTurn _ _ _ _ _) \<longleftrightarrow> True"
| "is_turn _ \<longleftrightarrow> False"

definition last_turn :: "cp_hud_call list \<Rightarrow> cp_hud_call option" where
  "last_turn cs = (if filter is_turn cs = [] then None else Some (last (filter is_turn cs)))"

lemma last_turn_append [simp]:
  "last_turn (cs @ cs') = (case last_turn cs' of None \<Rightarrow> last_turn cs | Some t \<Rightarrow> Some t)"
  by (simp add: last_turn_def)

lemma last_turn_distance [simp]: "last_turn (guidance_distance d) = None"
  by (simp add: last_turn_def guidance_distance_def)

lemma last_turn_pair [simp]: "last_turn [CpStatus 1, turn_call d] = Some (turn_call d)"
  "last_turn [] = None"
  by (simp_all add: last_turn_def turn_call_def)

text \<open>Nothing was shown since the last reset.\<close>

definition never_shown :: "cp_nav \<Rightarrow> bool" where
  "never_shown s \<longleftrightarrow> sh_side (cn_emit s) = 0xffffffff"

definition told :: "cp_hud_call list \<Rightarrow> cp_nav \<Rightarrow> bool" where
  "told cs s \<longleftrightarrow>
     nav_ok s \<and>
     (never_shown s \<or>
      \<not> shown_differs (cn_disp s) (cn_emit s) \<and> last_turn cs = Some (turn_call (cn_disp s)))"

lemma turn_call_same:
  assumes "\<not> shown_differs d e" and "length (sh_road d) = 256" and "length (sh_road e) = 256"
  shows "turn_call d = turn_call e"
  using assms cstr_nonempty [of "sh_road d"] cstr_nonempty [of "sh_road e"]
  by (auto simp: turn_call_def shown_differs_def)

lemma repaint_tells:
  assumes "told cs s" and "select_by_head h (cn_buf s) = Some i"
  shows "told (cs @ fst (nav_repaint h s)) (snd (nav_repaint h s)) \<and>
    \<not> never_shown (snd (nav_repaint h s)) \<and>
    cn_disp (snd (nav_repaint h s)) = shown_of (cn_buf s ! i)"
proof -
  let ?d = "shown_of (cn_buf s ! i)"
  have ok: "nav_ok s" using assms(1) by (simp add: told_def)
  have i: "i < length (cn_buf s)" using select_bound [OF assms(2)] .
  have "bm_ok (cn_buf s ! i)" using ok i by (simp add: nav_ok_def)
  then have side: "sh_side ?d \<noteq> 0xffffffff" by (auto simp: bm_ok_def mv_ok_def shown_of_def)
  have len: "length (sh_road ?d) = 256" by (rule shown_of_len)
  have r: "nav_repaint h s =
      (if shown_differs ?d (cn_emit s) then
         ([CpStatus 1, turn_call ?d],
          s\<lparr>cn_disp := ?d, cn_emit := ?d\<lparr>sh_road := strncpy_z 256 (sh_road ?d)\<rparr>\<rparr>)
       else ([], s\<lparr>cn_disp := ?d\<rparr>))"
    using i by (simp add: nav_repaint_def assms(2) emit_selection_def Let_def)
  show ?thesis
  proof (cases "shown_differs ?d (cn_emit s)")
    case True
    have "cstr (sh_road ?d) = take 255 (cstr (sh_road ?d))" by (simp add: shown_of_def)
    then show ?thesis
      using True side ok len by (simp add: r told_def never_shown_def shown_differs_def nav_ok_def)
  next
    case False
    have "\<not> never_shown s" using False side by (simp add: never_shown_def shown_differs_def)
    then have old: "\<not> shown_differs (cn_disp s) (cn_emit s)" "last_turn cs = Some (turn_call (cn_disp s))"
      using assms(1) by (simp_all add: told_def)
    have lens: "length (sh_road (cn_disp s)) = 256" "length (sh_road (cn_emit s)) = 256"
      using ok by (simp_all add: nav_ok_def)
    have "turn_call ?d = turn_call (cn_disp s)"
      using turn_call_same [OF False len lens(2)] turn_call_same [OF old(1) lens] by simp
    then show ?thesis
      using False old ok len \<open>\<not> never_shown s\<close> by (simp add: r told_def never_shown_def nav_ok_def)
  qed
qed

lemma told_unchanged:
  "told cs s \<Longrightarrow> cn_disp t = cn_disp s \<Longrightarrow> cn_emit t = cn_emit s \<Longrightarrow> nav_ok t \<Longrightarrow> told cs t"
  by (simp add: told_def never_shown_def)

lemma take_reset_tells: "told cs s \<Longrightarrow> told cs (nav_take_reset s)"
  by (simp add: nav_take_reset_def told_def never_shown_def nav_ok_def)

lemma reset_tells: "nav_ok s \<Longrightarrow> cn_reset_req s \<Longrightarrow> told [] (nav_take_reset s)"
  by (simp add: nav_take_reset_def told_def never_shown_def nav_ok_def)

lemma window_tells: "told cs s \<Longrightarrow> told cs (nav_window b n s)"
proof (rule told_unchanged, assumption)
  show "cn_disp (nav_window b n s) = cn_disp s" "cn_emit (nav_window b n s) = cn_emit s"
    by (simp_all add: nav_window_def Let_def)
  show "nav_ok (nav_window b n s)" if "told cs s"
    using that by (simp add: told_def nav_window_ok)
qed

lemma nav_repaint_none: "select_by_head h (cn_buf s) = None \<Longrightarrow> nav_repaint h s = ([], s)"
  by (simp add: nav_repaint_def)

lemma repaint_told:
  assumes "told cs s"
  shows "told (cs @ fst (nav_repaint h s)) (snd (nav_repaint h s))"
  using repaint_tells [OF assms] assms nav_repaint_none
  by (cases "select_by_head h (cn_buf s)") auto

lemma guidance_told:
  assumes "told cs s"
  shows "told (cs @ fst (nav_guidance b n s)) (snd (nav_guidance b n s))"
proof -
  let ?h = "ucast (field16 b n kManListOff) :: u32"
  let ?s = "s\<lparr>cn_last_head := ?h, cn_last_head_valid := True\<rparr>"
  have "told cs ?s" using assms by (rule told_unchanged) (use assms in \<open>simp_all add: told_def nav_ok_def\<close>)
  note r = repaint_told [OF this, of ?h]
  obtain cs' s' where e: "nav_repaint ?h ?s = (cs', s')" by fastforce
  show ?thesis
    using r assms unfolding nav_guidance_def Let_def e by (auto simp: told_def split: option.splits)
qed

lemma step_told:
  assumes "told cs s"
  shows "told (cs @ fst (nav_step b n s)) (snd (nav_step b n s))"
  unfolding nav_step_def Let_def
  using repaint_told [OF window_tells [OF take_reset_tells [OF assms]]]
    window_tells [OF take_reset_tells [OF assms]] guidance_told [OF take_reset_tells [OF assms]]
    take_reset_tells [OF assms]
  by simp

lemma run_told:
  assumes "\<forall>i \<in> set ins. input_ok i"
  shows "\<exists>cs s. nav_run ins cp_nav_init = Some (cs, s) \<and> told cs s"
proof -
  have "\<exists>cs s'. nav_run ins cp_nav_init = Some (cs, s') \<and> told ([] @ cs) s'"
  proof (rule nav_run_induct [OF assms])
    show "told [] cp_nav_init"
      by (simp add: told_def nav_init_ok never_shown_def) (simp add: cp_nav_init_def cp_never_def)
    show "told cs (nav_request_reset s)" if "told cs s" for cs s
      using that by (simp add: nav_request_reset_def told_def never_shown_def nav_ok_def)
  qed (rule step_told)
  then show ?thesis by simp
qed

text \<open>
  The display is never out of step with the decoder: after any sequence of messages and reset
  requests, either nothing has been selected since the last reset took effect, or the last turn
  the display sender was told is exactly the latched maneuver - the change test that suppresses
  repeated calls never leaves an older one standing.
\<close>

theorem latched_is_told:
  assumes "\<forall>i \<in> set ins. input_ok i"
  shows "\<exists>cs s. nav_run ins cp_nav_init = Some (cs, s) \<and>
    (never_shown s \<or> last_turn cs = Some (turn_call (cn_disp s)))"
  using run_told [OF assms] by (auto simp: told_def)

section \<open>One route update\<close>

text \<open>A burst of maneuver messages, each given with its length.\<close>

type_synonym nav_msg = "u8 list \<times> nat"

fun nav_input :: "nav_msg \<Rightarrow> cp_input" where
  "nav_input (b, n) = CpMsg (Some b) (int n)"

definition msg_of_kind :: "u32 \<Rightarrow> nav_msg \<Rightarrow> bool" where
  "msg_of_kind k m \<longleftrightarrow> snd m \<le> length (fst m) \<and> 40 \<le> snd m \<and> msg_kind (fst m) (snd m) = k"

definition idx_of :: "nav_msg \<Rightarrow> u32" where "idx_of m = msg_idx (fst m) (snd m)"

text \<open>The window a burst leaves: its displayable maneuvers, the first 48 of them.\<close>

definition burst_window :: "nav_msg list \<Rightarrow> BufManeuver list" where
  "burst_window ms =
     take 48 (map (\<lambda>m. maneuver_at (fst m) (snd m)) (filter (\<lambda>m. displayable (fst m) (snd m)) ms))"

text \<open>\<open>ms\<close> is a whole burst: it starts with the heading entry 0 and its indices ascend.\<close>

definition is_burst :: "nav_msg list \<Rightarrow> bool" where
  "is_burst ms \<longleftrightarrow>
     (\<forall>m \<in> set ms. msg_of_kind kMtManeuver m) \<and> sorted_wrt (<) (map idx_of ms) \<and>
     ms \<noteq> [] \<and> idx_of (hd ms) = 0"

lemma nav_run_append:
  "nav_run (xs @ ys) s =
     do { (cs, s) \<leftarrow> nav_run xs s; (cs', s) \<leftarrow> nav_run ys s; Some (cs @ cs', s) }"
proof (induction xs s rule: nav_run.induct)
  case (1 s)
  then show ?case by (cases "nav_run ys s") auto
next
  case (2 ins s)
  then show ?case by simp
next
  case (3 m n ins s)
  show ?case
  proof (cases "nav_on_devmgr_msg m n s")
    case (Some r)
    obtain c t where r: "r = (c, t)" by fastforce
    show ?thesis
      using 3 [OF Some [unfolded r] refl]
      by (cases "nav_run ins t"; cases "nav_run ys (snd (the (nav_run ins t)))")
        (auto simp: Some r split: prod.splits)
  qed simp
qed

lemma run_one:
  assumes "msg_of_kind k m"
  shows "nav_run [nav_input m] s = Some (nav_step (fst m) (snd m) s)"
  using assms nav_msg_total [of "snd m" "fst m" s]
  by (cases m) (auto simp: msg_of_kind_def split: prod.split)

lemma repaint_window:
  "cn_buf (snd (nav_repaint h s)) = cn_buf s" "cn_prev_idx (snd (nav_repaint h s)) = cn_prev_idx s"
  "cn_reset_req (snd (nav_repaint h s)) = cn_reset_req s"
  by (auto simp: nav_repaint_def emit_selection_def Let_def split: option.split)

lemma maneuver_step_window:
  assumes "msg_of_kind kMtManeuver m"
  shows "cn_buf (snd (nav_step (fst m) (snd m) s)) = cn_buf (nav_window (fst m) (snd m) (nav_take_reset s))"
    and "cn_prev_idx (snd (nav_step (fst m) (snd m) s)) = idx_of m"
    and "\<not> cn_reset_req (snd (nav_step (fst m) (snd m) s))"
  using assms by (simp_all add: nav_step_def msg_of_kind_def repaint_window Let_def)
    (simp_all add: nav_window_def idx_of_def Let_def nav_take_reset_def)

lemma window_grows:
  assumes "cn_prev_idx s < idx_of m" and "length (cn_buf s) \<le> 48"
  shows "cn_buf (nav_window (fst m) (snd m) s) =
    take 48 (cn_buf s @ (if displayable (fst m) (snd m) then [maneuver_at (fst m) (snd m)] else []))"
  using assms by (auto simp: nav_window_def idx_of_def Let_def kMaxBurst_def)

lemma take_idle: "take k (take k xs @ ys) = take k (xs @ ys)"
  by (simp add: min_def)

lemma burst_run:
  assumes "\<forall>m \<in> set ms. msg_of_kind kMtManeuver m" and "sorted_wrt (<) (cn_prev_idx s # map idx_of ms)"
    and "\<not> cn_reset_req s" and "told cs0 s"
  shows "\<exists>cs s'. nav_run (map nav_input ms) s = Some (cs, s') \<and> told (cs0 @ cs) s' \<and>
    \<not> cn_reset_req s' \<and>
    cn_buf s' = take 48 (cn_buf s @ map (\<lambda>m. maneuver_at (fst m) (snd m))
      (filter (\<lambda>m. displayable (fst m) (snd m)) ms))"
  using assms
proof (induction ms arbitrary: s cs0)
  case Nil
  then show ?case by (simp add: told_def nav_ok_def)
next
  case (Cons m ms)
  let ?t = "snd (nav_step (fst m) (snd m) s)"
  let ?c = "fst (nav_step (fst m) (snd m) s)"
  let ?f = "\<lambda>ms. map (\<lambda>m. maneuver_at (fst m) (snd m)) (filter (\<lambda>m. displayable (fst m) (snd m)) ms)"
  have m: "msg_of_kind kMtManeuver m" using Cons.prems(1) by simp
  have "nav_take_reset s = s" using Cons.prems(3) by (simp add: nav_take_reset_def)
  moreover have "length (cn_buf s) \<le> 48" using Cons.prems(4) by (simp add: told_def nav_ok_def)
  ultimately have buf: "cn_buf ?t = take 48 (cn_buf s @ ?f [m])"
    using maneuver_step_window(1) [OF m, of s] window_grows [of s m] Cons.prems(2) by simp
  have "sorted_wrt (<) (cn_prev_idx ?t # map idx_of ms)"
    using Cons.prems(2) maneuver_step_window(2) [OF m] by simp
  moreover have "told (cs0 @ ?c) ?t" using step_told Cons.prems(4) .
  ultimately obtain cs s' where r: "nav_run (map nav_input ms) ?t = Some (cs, s')"
      "told ((cs0 @ ?c) @ cs) s'" "\<not> cn_reset_req s'" "cn_buf s' = take 48 (cn_buf ?t @ ?f ms)"
    using Cons.IH [of ?t "cs0 @ ?c"] Cons.prems(1) maneuver_step_window(3) [OF m] by auto
  have "nav_run (map nav_input (m # ms)) s = Some (?c @ cs, s')"
    using nav_run_append [of "[nav_input m]" "map nav_input ms" s] run_one [OF m, of s] r(1)
    by (cases "nav_step (fst m) (snd m) s") simp
  moreover have "take 48 (cn_buf ?t @ ?f ms) = take 48 (cn_buf s @ ?f (m # ms))"
    unfolding buf take_idle by (simp del: take_append)
  ultimately show ?case using r(2-4) by auto
qed

lemma burst_clears:
  assumes "is_burst ms" and "told cs0 s"
  shows "\<exists>cs s'. nav_run (map nav_input ms) s = Some (cs, s') \<and> told (cs0 @ cs) s' \<and>
    cn_buf s' = burst_window ms \<and> \<not> cn_reset_req s' \<and>
    (told [] (nav_take_reset s) \<longrightarrow> told cs s')"
proof -
  obtain h rest where ms: "ms = h # rest" using assms(1) by (cases ms) (auto simp: is_burst_def)
  let ?t = "snd (nav_step (fst h) (snd h) s)"
  let ?c = "fst (nav_step (fst h) (snd h) s)"
  have h: "msg_of_kind kMtManeuver h" "idx_of h = 0" and sorted: "sorted_wrt (<) (map idx_of ms)"
    and rest: "\<forall>m \<in> set rest. msg_of_kind kMtManeuver m"
    using assms(1) by (auto simp: is_burst_def ms)
  have d: "\<not> displayable (fst h) (snd h)" using h(2) by (simp add: displayable_def idx_of_def)
  have buf: "cn_buf ?t = []"
    using maneuver_step_window(1) [OF h(1)] h(2) d by (simp add: nav_window_def idx_of_def Let_def)
  have prev: "cn_prev_idx ?t = 0" using maneuver_step_window(2) [OF h(1)] h(2) by simp
  have one: "\<exists>cs s'. nav_run (map nav_input ms) s = Some (?c @ cs, s') \<and> told (cs1 @ cs) s' \<and>
      \<not> cn_reset_req s' \<and> cn_buf s' = burst_window ms" if "told cs1 ?t" for cs1
  proof -
    have "sorted_wrt (<) (cn_prev_idx ?t # map idx_of rest)"
      using sorted h(2) prev by (simp add: ms)
    from burst_run [OF rest this maneuver_step_window(3) [OF h(1)] that]
    obtain cs s' where r: "nav_run (map nav_input rest) ?t = Some (cs, s')" "told (cs1 @ cs) s'"
        "\<not> cn_reset_req s'" "cn_buf s' = burst_window ms"
      using buf d by (auto simp: burst_window_def ms)
    have "nav_run (map nav_input ms) s = Some (?c @ cs, s')"
      using nav_run_append [of "[nav_input h]" "map nav_input rest" s] run_one [OF h(1), of s] r(1)
      by (cases "nav_step (fst h) (snd h) s") (simp add: ms)
    then show ?thesis using r(2-4) by blast
  qed
  have t0: "told (cs0 @ ?c) ?t" using step_told [OF assms(2)] .
  from one [OF t0] obtain cs s' where r: "nav_run (map nav_input ms) s = Some (?c @ cs, s')"
      "told ((cs0 @ ?c) @ cs) s'" "\<not> cn_reset_req s'" "cn_buf s' = burst_window ms" by blast
  have "told (?c @ cs) s'" if s0: "told [] (nav_take_reset s)"
  proof -
    let ?r = "nav_take_reset s"
    have "nav_take_reset ?r = ?r" by (simp add: nav_take_reset_def)
    then have "nav_step (fst h) (snd h) ?r = nav_step (fst h) (snd h) s" by (simp add: nav_step_def)
    then have "told ?c ?t" using step_told [OF s0, of "fst h" "snd h"] by simp
    from one [OF this] r(1) show ?thesis by auto
  qed
  then show ?thesis using r by auto
qed

text \<open>The entry of a window a maneuver-list head stands for.\<close>

definition is_head_of :: "BufManeuver list \<Rightarrow> u32 \<Rightarrow> BufManeuver \<Rightarrow> bool" where
  "is_head_of buf head m \<longleftrightarrow>
     m \<in> set buf \<and>
     (bm_idx m = head \<or> bm_idx m = head + 1 \<and> (\<forall>m' \<in> set buf. bm_idx m' \<noteq> head))"

lemma first_index_unique:
  assumes "m \<in> set buf" and "P m" and "\<forall>x \<in> set buf. P x \<longrightarrow> x = m"
  shows "\<exists>i. first_index P buf = Some i \<and> buf ! i = m"
proof (cases "first_index P buf")
  case None
  then have "\<forall>x \<in> set buf. \<not> P x" by (simp add: first_index_None)
  then show ?thesis using assms(1,2) by blast
next
  case (Some i)
  have "buf ! i \<in> set buf" "P (buf ! i)" using first_index_Some [OF Some] by simp_all
  then have "buf ! i = m" using assms(3) by blast
  then show ?thesis using Some by blast
qed

lemma select_unique:
  assumes "is_head_of buf head m" and "inj_on bm_idx (set buf)"
  shows "\<exists>i. select_by_head head buf = Some i \<and> buf ! i = m"
proof -
  have m: "m \<in> set buf" using assms(1) by (simp add: is_head_of_def)
  have u: "\<exists>i. first_index (\<lambda>x. bm_idx x = bm_idx m) buf = Some i \<and> buf ! i = m"
    using first_index_unique [OF m, of "\<lambda>x. bm_idx x = bm_idx m"] inj_onD [OF assms(2) _ _ m] by simp
  show ?thesis
  proof (cases "bm_idx m = head")
    case True
    then show ?thesis using u by (auto simp: select_by_head_def)
  next
    case False
    then have h: "bm_idx m = head + 1" "\<forall>m' \<in> set buf. bm_idx m' \<noteq> head"
      using assms(1) by (simp_all add: is_head_of_def)
    have "first_index (\<lambda>x. bm_idx x = head) buf = None" using h(2) by (simp add: first_index_None)
    then show ?thesis using u h(1) by (auto simp: select_by_head_def)
  qed
qed

lemma burst_window_inj:
  assumes "is_burst ms"
  shows "inj_on bm_idx (set (burst_window ms))"
proof -
  have d: "distinct (map idx_of ms)"
    using assms by (simp add: is_burst_def strict_sorted_iff)
  have "inj_on idx_of (set ms)" using d unfolding distinct_map by (rule conjunct2)
  then have "inj_on bm_idx ((\<lambda>m. maneuver_at (fst m) (snd m)) ` set ms)"
    by (auto simp: inj_on_def maneuver_at_def idx_of_def)
  moreover have "set (burst_window ms) \<subseteq> (\<lambda>m. maneuver_at (fst m) (snd m)) ` set ms"
    by (auto simp: burst_window_def dest!: in_set_takeD)
  ultimately show ?thesis by (rule inj_on_subset)
qed

lemma head_shown:
  assumes "\<forall>i \<in> set ins. input_ok i" and "nav_run ins cp_nav_init = Some (cs0, s)"
    and "is_burst ms" and "msg_of_kind kMtGuidance (g, k)" and "field16 g k kManListCntOff \<noteq> 0"
    and "is_head_of (burst_window ms) (ucast (field16 g k kManListOff)) m"
  shows "\<exists>cs s'. nav_run (map nav_input ms @ [nav_input (g, k)]) s = Some (cs, s') \<and>
    cn_disp s' = shown_of m \<and> last_turn (cs0 @ cs) = Some (turn_call (shown_of m)) \<and>
    (cn_reset_req s \<or> never_shown s \<longrightarrow> last_turn cs = Some (turn_call (shown_of m)))"
proof -
  let ?h = "ucast (field16 g k kManListOff) :: u32"
  have told0: "told cs0 s" using assms(2) run_told [OF assms(1)] by auto
  have fresh: "told [] (nav_take_reset s)" if "cn_reset_req s \<or> never_shown s"
    using that told0 reset_tells by (cases "cn_reset_req s") (auto simp: told_def nav_take_reset_def)
  from burst_clears [OF assms(3) told0] obtain c1 t where t: "nav_run (map nav_input ms) s = Some (c1, t)"
    "told (cs0 @ c1) t" "cn_buf t = burst_window ms" "\<not> cn_reset_req t" "told [] (nav_take_reset s) \<longrightarrow> told c1 t"
    by (elim exE conjE)
  obtain i where i: "select_by_head ?h (burst_window ms) = Some i" "burst_window ms ! i = m"
    using select_unique [OF assms(6) burst_window_inj [OF assms(3)]] by blast
  let ?t = "t\<lparr>cn_last_head := ?h, cn_last_head_valid := True\<rparr>"
  let ?r = "nav_repaint ?h ?t"
  have sel: "select_by_head ?h (cn_buf ?t) = Some i" using i(1) t(3) by simp
  have told: "told c ?t" if "told c t" for c
    using that by (rule told_unchanged) (use that in \<open>simp_all add: told_def nav_ok_def\<close>)
  have "nav_step g k t = nav_guidance g k t"
    using assms(4) t(4) by (simp add: nav_step_def msg_of_kind_def nav_take_reset_def kMtGuidance_def kMtManeuver_def)
  moreover define d where
    "d = (if k \<ge> kGuidanceDistOff + 4 then guidance_distance (sint (field32 g k kGuidanceDistOff)) else [])"
  ultimately have step: "nav_step g k t = (fst ?r @ d, snd ?r)"
    using assms(5) sel t(3) by (cases ?r) (simp add: nav_guidance_def i(1))
  have d: "last_turn d = None" by (simp add: d_def)
  have run: "nav_run (map nav_input ms @ [nav_input (g, k)]) s = Some (c1 @ fst ?r @ d, snd ?r)"
    unfolding nav_run_append t(1) using run_one [OF assms(4), of t] step by simp
  have shown: "cn_disp (snd ?r) = shown_of m"
    using repaint_tells [OF told [OF t(2)] sel] t(3) i(2) by simp
  have last: "last_turn (c @ fst ?r) = Some (turn_call (shown_of m))" if "told c t" for c
    using repaint_tells [OF told [OF that] sel] shown by (auto simp: told_def)
  have "last_turn (cs0 @ c1 @ fst ?r @ d) = Some (turn_call (shown_of m))"
    using last [OF t(2)] d by (simp split: option.splits)
  moreover have "last_turn (c1 @ fst ?r @ d) = Some (turn_call (shown_of m))" if "cn_reset_req s \<or> never_shown s"
    using last t(5) fresh [OF that] d by (simp split: option.splits)
  ultimately show ?thesis using run shown by blast
qed


text \<open>
  C20.  The display shows the maneuver Apple calls the next one: in any reachable state, after a
  whole burst of maneuver messages (the heading entry 0, then ascending indices) and a guidance
  message whose list head designates an entry of the window - directly, or as the entry after a
  heading or context entry - the latched maneuver is that entry's, and it is the last one the
  display sender was told; when a reset was pending, or nothing had been shown since the last one,
  it was told within this very update.
\<close>

theorem head_is_shown:
  assumes "\<forall>i \<in> set ins. input_ok i" and "nav_run ins cp_nav_init = Some (cs0, s)"
    and "is_burst ms" and "msg_of_kind kMtGuidance (g, k)" and "field16 g k kManListCntOff \<noteq> 0"
    and "is_head_of (burst_window ms) (ucast (field16 g k kManListOff)) m"
  shows "\<exists>cs s'. nav_run (map nav_input ms @ [nav_input (g, k)]) s = Some (cs, s') \<and>
    cn_disp s' = shown_of m \<and> last_turn (cs0 @ cs) = Some (turn_call (shown_of m)) \<and>
    (cn_reset_req s \<or> never_shown s \<longrightarrow> last_turn cs = Some (turn_call (shown_of m)))"
  by (rule head_shown [OF assms])

text \<open>
  A maneuver sent again is not updated: when a message repeats the index of the message before
  it and the window already holds an entry of that index, the new entry is stored behind the old
  one, and the next guidance message selects the old one.
\<close>

theorem resent_is_stale:
  assumes "nav_ok s" and "\<not> cn_reset_req s" and "msg_of_kind kMtManeuver (b, n)"
    and "cn_prev_idx s = msg_idx b n" and "displayable b n" and "length (cn_buf s) < 48"
    and "first_index (\<lambda>e. bm_idx e = msg_idx b n) (cn_buf s) = Some i"
    and "msg_of_kind kMtGuidance (g, k)" and "field16 g k kManListCntOff \<noteq> 0"
    and "ucast (field16 g k kManListOff) = msg_idx b n"
  shows "\<exists>cs s'. nav_run [nav_input (b, n), nav_input (g, k)] s = Some (cs, s') \<and>
    maneuver_at b n \<in> set (cn_buf s') \<and> cn_disp s' = shown_of (cn_buf s ! i)"
proof -
  let ?t = "snd (nav_step b n s)"
  let ?h = "msg_idx b n"
  have i: "i < length (cn_buf s)" using first_index_Some [OF assms(7)] by simp
  have s: "nav_take_reset s = s" using assms(2) by (simp add: nav_take_reset_def)
  have "?h \<noteq> 0" using assms(5) by (simp add: displayable_def)
  then have buf: "cn_buf ?t = cn_buf s @ [maneuver_at b n]"
    using maneuver_step_window(1) [OF assms(3), of s] assms(4-6) s
    by (simp add: nav_window_def Let_def kMaxBurst_def)
  then have sel: "select_by_head ?h (cn_buf ?t) = Some i" and nth: "cn_buf ?t ! i = cn_buf s ! i"
    using first_index_append [OF assms(7)] i by (simp_all add: select_by_head_def nth_append)
  let ?u = "?t\<lparr>cn_last_head := ?h, cn_last_head_valid := True\<rparr>"
  have t: "\<not> cn_reset_req ?t" using maneuver_step_window(3) [OF assms(3)] by simp
  have "nav_step g k ?t = nav_guidance g k ?t"
    using assms(8) t by (simp add: nav_step_def msg_of_kind_def nav_take_reset_def kMtGuidance_def kMtManeuver_def)
  then have g: "snd (nav_step g k ?t) = snd (nav_repaint ?h ?u)"
    using assms(9,10) sel by (cases "nav_repaint ?h ?u") (simp add: nav_guidance_def)
  have shown: "cn_disp (snd (nav_repaint ?h ?u)) = shown_of (cn_buf s ! i)"
    using i nth sel buf by (simp add: nav_repaint_def emit_selection_def Let_def)
  have "nav_run [nav_input (b, n), nav_input (g, k)] s =
      Some (fst (nav_step b n s) @ fst (nav_step g k ?t), snd (nav_step g k ?t))"
    using nav_run_append [of "[nav_input (b, n)]" "[nav_input (g, k)]" s] run_one [OF assms(3), of s]
      run_one [OF assms(8), of ?t]
    by (cases "nav_step b n s"; cases "nav_step g k ?t") simp
  then show ?thesis using g shown buf by (simp add: repaint_window)
qed

section \<open>Sample messages\<close>

text \<open>A message of \<open>n\<close> bytes, zero but for the bytes listed.\<close>

definition nav_bytes :: "(nat \<times> u8) list \<Rightarrow> nat \<Rightarrow> u8 list" where
  "nav_bytes fs n = map (\<lambda>i. case map_of fs i of Some v \<Rightarrow> v | None \<Rightarrow> 0) [0..<n]"

lemma nav_bytes_nth [simp]:
  "i < n \<Longrightarrow> nav_bytes fs n ! i = (case map_of fs i of Some v \<Rightarrow> v | None \<Rightarrow> 0)"
  "length (nav_bytes fs n) = n"
  by (simp_all add: nav_bytes_def)

definition heading_msg :: nav_msg where "heading_msg = (nav_bytes [(0, 0x59), (1, 0x80)] 40, 40)"

definition turn_msg :: "u8 \<Rightarrow> nav_msg" where
  "turn_msg ty = (nav_bytes [(0, 0x59), (1, 0x80), (0x22, 1), (0x128, ty), (0x12c, 0x41)] 310, 310)"

definition guide_msg :: nav_msg where
  "guide_msg = (nav_bytes [(0, 0x58), (1, 0x80), (0x458, 1), (0x656, 1)] 1628, 1628)"

lemma sample_kinds:
  "msg_of_kind kMtManeuver heading_msg" "msg_of_kind kMtManeuver (turn_msg ty)"
  "msg_of_kind kMtGuidance guide_msg"
  by (simp_all add: msg_of_kind_def heading_msg_def turn_msg_def guide_msg_def msg_kind_def
      field32_def bytes_u32_def kMtManeuver_def kMtGuidance_def)

lemma sample_indices: "idx_of heading_msg = 0" "idx_of (turn_msg ty) = 1"
  by (simp_all add: idx_of_def msg_idx_def heading_msg_def turn_msg_def field32_def bytes_u32_def
      kBurstIdxOff_def)

lemma sample_type: "msg_type (fst (turn_msg ty)) (snd (turn_msg ty)) = ucast ty"
  by (simp add: msg_type_def turn_msg_def field32_def bytes_u32_def kManeuverTypeOff_def)

lemma sample_guide:
  "field16 (fst guide_msg) (snd guide_msg) kManListCntOff = 1"
  "field16 (fst guide_msg) (snd guide_msg) kManListOff = 1"
  by (simp_all add: guide_msg_def field16_def bytes_u16_def kManListCntOff_def kManListOff_def)

lemma sample_displayable:
  "displayable (fst (turn_msg 1)) (snd (turn_msg 1))" "displayable (fst (turn_msg 2)) (snd (turn_msg 2))"
  "\<not> displayable (fst heading_msg) (snd heading_msg)"
  using sample_indices sample_type [of 1] sample_type [of 2]
  by (simp_all add: displayable_def idx_of_def is_context_type_def)

lemma sample_event:
  "sh_event (shown_of (maneuver_at (fst (turn_msg 1)) (snd (turn_msg 1)))) = EV_TURN"
  "sh_side (shown_of (maneuver_at (fst (turn_msg 1)) (snd (turn_msg 1)))) = SIDE_LEFT"
proof -
  have "field32 (fst (turn_msg 1)) (snd (turn_msg 1)) kJunctionTypeOff = 0"
    by (simp add: turn_msg_def field32_def kJunctionTypeOff_def)
  then show "sh_event (shown_of (maneuver_at (fst (turn_msg 1)) (snd (turn_msg 1)))) = EV_TURN"
    "sh_side (shown_of (maneuver_at (fst (turn_msg 1)) (snd (turn_msg 1)))) = SIDE_LEFT"
    by (simp_all add: shown_of_def maneuver_at_def cp_classify_def cp_is_roundabout_def word_le_nat_alt
        sample_type cp_turn_of_def)
qed

theorem nav_calls_safe_witness:
  "\<exists>cs s. nav_run [nav_input heading_msg, nav_input (turn_msg 1), CpResetReq, CpMsg None 99,
      CpMsg (Some []) (-1), nav_input guide_msg] cp_nav_init = Some (cs, s) \<and> length (cn_buf s) \<le> 48"
proof -
  have "\<forall>i \<in> set [nav_input heading_msg, nav_input (turn_msg 1), CpResetReq, CpMsg None 99,
      CpMsg (Some []) (-1), nav_input guide_msg]. input_ok i"
    by (simp add: heading_msg_def turn_msg_def guide_msg_def)
  from nav_calls_safe [OF this] show ?thesis by blast
qed

theorem latched_is_told_witness:
  "\<exists>cs s. nav_run [nav_input heading_msg, nav_input (turn_msg 1), nav_input guide_msg] cp_nav_init =
      Some (cs, s) \<and> (never_shown s \<or> last_turn cs = Some (turn_call (cn_disp s)))"
proof -
  have "\<forall>i \<in> set [nav_input heading_msg, nav_input (turn_msg 1), nav_input guide_msg]. input_ok i"
    by (simp add: heading_msg_def turn_msg_def guide_msg_def)
  from latched_is_told [OF this] show ?thesis .
qed

theorem head_is_shown_witness:
  "\<exists>cs s'. nav_run [nav_input heading_msg, nav_input (turn_msg 1), nav_input guide_msg] cp_nav_init =
      Some (cs, s') \<and> sh_event (cn_disp s') = EV_TURN \<and> sh_side (cn_disp s') = SIDE_LEFT"
proof -
  let ?m = "maneuver_at (fst (turn_msg 1)) (snd (turn_msg 1))"
  have burst: "is_burst [heading_msg, turn_msg 1]"
    by (simp add: is_burst_def sample_kinds sample_indices)
  have "burst_window [heading_msg, turn_msg 1] = [?m]"
    by (simp add: burst_window_def sample_displayable)
  then have head: "is_head_of (burst_window [heading_msg, turn_msg 1])
      (ucast (field16 (fst guide_msg) (snd guide_msg) kManListOff)) ?m"
    using sample_indices by (simp add: is_head_of_def sample_guide maneuver_at_def idx_of_def)
  have g: "msg_of_kind kMtGuidance (fst guide_msg, snd guide_msg)" using sample_kinds(3) by simp
  have "field16 (fst guide_msg) (snd guide_msg) kManListCntOff \<noteq> 0" by (simp add: sample_guide)
  from head_is_shown [of "[]", OF _ _ burst g this head] sample_event show ?thesis by auto
qed

theorem resent_is_stale_witness:
  "\<exists>cs s'. nav_run [nav_input (turn_msg 2), nav_input guide_msg]
      (cp_nav_init\<lparr>cn_buf := [maneuver_at (fst (turn_msg 1)) (snd (turn_msg 1))], cn_prev_idx := 1\<rparr>) =
      Some (cs, s') \<and> maneuver_at (fst (turn_msg 2)) (snd (turn_msg 2)) \<in> set (cn_buf s') \<and>
    sh_side (cn_disp s') = SIDE_LEFT"
proof -
  let ?m = "maneuver_at (fst (turn_msg 1)) (snd (turn_msg 1))"
  let ?s = "cp_nav_init\<lparr>cn_buf := [?m], cn_prev_idx := 1\<rparr>"
  have ok: "nav_ok ?s" by (simp add: nav_ok_def maneuver_at_ok) (simp add: cp_nav_init_def cp_never_def)
  have r: "\<not> cn_reset_req ?s" by (simp add: cp_nav_init_def)
  have k: "msg_of_kind kMtManeuver (fst (turn_msg 2), snd (turn_msg 2))"
    "msg_of_kind kMtGuidance (fst guide_msg, snd guide_msg)" using sample_kinds by simp_all
  have idx: "msg_idx (fst (turn_msg ty)) (snd (turn_msg ty)) = 1" for ty
    using sample_indices(2) by (simp add: idx_of_def)
  have "first_index (\<lambda>e. bm_idx e = msg_idx (fst (turn_msg 2)) (snd (turn_msg 2))) (cn_buf ?s) = Some 0"
    by (simp add: first_index_def idx maneuver_at_def)
  from resent_is_stale [OF ok r k(1) _ sample_displayable(2) _ this k(2)]
  obtain cs s' where "nav_run [nav_input (turn_msg 2), nav_input guide_msg] ?s = Some (cs, s')"
    "maneuver_at (fst (turn_msg 2)) (snd (turn_msg 2)) \<in> set (cn_buf s')" "cn_disp s' = shown_of ?m"
    by (auto simp: idx sample_guide)
  then show ?thesis using sample_event(2) by auto
qed

end
