(* ===== verification/Decimal.thy ===== *)
theory Decimal
  imports Config
begin

text \<open>
  What \<open>printf\<close> makes of numbers: \<open>%u\<close>, \<open>%d\<close> and \<open>%03x\<close> as lists of ASCII bytes, shared by the debug
  label of the CarPlay sender and the log formatters.
\<close>

text \<open>\<open>%u\<close> and \<open>%d\<close>.\<close>

fun dec_nat :: "nat \<Rightarrow> u8 list" where
  "dec_nat n = (if n < 10 then [of_nat (48 + n)] else dec_nat (n div 10) @ [of_nat (48 + n mod 10)])"

declare dec_nat.simps [simp del]

definition dec_int :: "int \<Rightarrow> u8 list" where
  "dec_int i = (if i < 0 then 45 # dec_nat (nat (- i)) else dec_nat (nat i))"

text \<open>\<open>%03x\<close>: at least three digits.\<close>

definition hex_digit :: "nat \<Rightarrow> u8" where
  "hex_digit d = (if d < 10 then of_nat (48 + d) else of_nat (87 + d))"

fun hex_nat :: "nat \<Rightarrow> u8 list" where
  "hex_nat n = (if n < 16 then [hex_digit n] else hex_nat (n div 16) @ [hex_digit (n mod 16)])"

declare hex_nat.simps [simp del]

definition hex3 :: "nat \<Rightarrow> u8 list" where
  "hex3 n = (let h = hex_nat n in replicate (3 - length h) 48 @ h)"

lemma dec_nat_facts: "dec_nat n \<noteq> []" "0 \<notin> set (dec_nat n)"
proof (induction n rule: dec_nat.induct)
  case (1 n)
  have "(of_nat (48 + k) :: u8) \<noteq> 0" if "k < 10" for k :: nat
  proof -
    have "unat (of_nat (48 + k) :: u8) = 48 + k"
      using that by (simp add: unat_of_nat del: of_nat_add)
    then show ?thesis by (metis unat_0 add_is_0 zero_neq_numeral)
  qed
  then have d: "(of_nat (48 + n mod 10) :: u8) \<noteq> 0" "n < 10 \<Longrightarrow> (of_nat (48 + n) :: u8) \<noteq> 0"
    by simp_all
  show "dec_nat n \<noteq> []" "0 \<notin> set (dec_nat n)"
    using 1 d by (simp_all add: dec_nat.simps [of n])
qed

lemma hex_nat_no_nul: "0 \<notin> set (hex_nat n)"
proof (induction n rule: hex_nat.induct)
  case (1 n)
  have "hex_digit k \<noteq> 0" if "k < 16" for k
  proof -
    have "unat (hex_digit k) = (if k < 10 then 48 + k else 87 + k)"
      using that by (simp add: hex_digit_def unat_of_nat del: of_nat_add)
    then show ?thesis by (metis unat_0 add_is_0 zero_neq_numeral)
  qed
  then show ?case using 1 by (simp add: hex_nat.simps [of n])
qed

lemma dec_int_no_nul: "0 \<notin> set (dec_int i)"
  by (simp add: dec_int_def dec_nat_facts)

end
