(* ===== verification/Carplay_Send.thy ===== *)
theory Carplay_Send
  imports Carplay_Nav Hud_Nav Translit Vbs_Tx Decimal
begin

text \<open>
  The CarPlay display sender (\<open>blmjcicarplay/hud/hud_send.cpp\<close>), the part without threads: glyphs
  and units, the frame pair \<open>send_one\<close> makes of two snapshots, the blank frame, and the three
  entry points that write the snapshot.  A call on the display service is recorded with its
  return code; the table of glyph numbers is the one of \<open>Hud_Nav\<close>.
\<close>

section \<open>Glyphs and units\<close>

definition cp_kTurnIcons :: "u8 list list" where
  "cp_kTurnIcons =
    [[0, 0, 0],
     [HUD_FLAG_LEFT, HUD_FLAG_RIGHT, HUD_FLAG],
     [HUD_STRAIGHT, HUD_STRAIGHT, HUD_STRAIGHT],
     [HUD_SLIGHT_LEFT, HUD_SLIGHT_RIGHT, HUD_STRAIGHT],
     [HUD_LEFT, HUD_RIGHT, HUD_STRAIGHT],
     [HUD_SHARP_LEFT, HUD_SHARP_RIGHT, HUD_STRAIGHT],
     [HUD_U_TURN_LEFT, HUD_U_TURN_RIGHT, HUD_STRAIGHT],
     [HUD_LEFT, HUD_RIGHT, HUD_STRAIGHT],
     [HUD_OFF_RAMP_LEFT, HUD_OFF_RAMP_RIGHT, HUD_STRAIGHT],
     [HUD_FORK_LEFT, HUD_FORK_RIGHT, HUD_STRAIGHT],
     [HUD_MERGE_LEFT, HUD_MERGE_RIGHT, HUD_STRAIGHT],
     [0, 0, 0],
     [0, 0, 0],
     [0, 0, 0],
     [HUD_STRAIGHT, HUD_STRAIGHT, HUD_STRAIGHT],
     [0, 0, 0],
     [0, 0, 0],
     [0, 0, 0],
     [0, 0, 0],
     [HUD_DESTINATION_LEFT, HUD_DESTINATION_RIGHT, HUD_DESTINATION]]"

definition cp_roundabout_icon :: "int \<Rightarrow> int \<Rightarrow> u8" where
  "cp_roundabout_icon degrees side_index_lr =
     (let d = cmod (to_i32 (180 - degrees)) 360;
          d = (if d < 0 then d + 360 else d);
          nearest = word_of_int (cmod (cdiv (d + 15) 30) 12);
          offset = (if side_index_lr = 0 then 49 else 37)
      in nearest + offset)"

definition cp_map_distance_unit :: "u32 \<Rightarrow> u8" where
  "cp_map_distance_unit android_unit =
     (if android_unit = 1 then 1
      else if android_unit = 2 then 3
      else if android_unit = 3 then 3
      else if android_unit = 4 then 2
      else if android_unit = 5 then 2
      else if android_unit = 6 then 5
      else 0)"

section \<open>The snapshot and its writers\<close>

record CpSnapshot =
  cs_road :: "u8 list"
  cs_side :: u32
  cs_event :: u32
  cs_angle :: int
  cs_number :: int
  cs_dist :: int
  cs_unit :: u8
  cs_time :: int

definition cp_blank :: CpSnapshot where
  "cp_blank = \<lparr>cs_road = replicate 256 0, cs_side = 0, cs_event = 0, cs_angle = 0, cs_number = 0,
     cs_dist = 0, cs_unit = 0, cs_time = 0\<rparr>"

text \<open>The truncation of a road name at \<open>n\<close>: back over continuation bytes.\<close>

fun cp_back_off :: "u8 list \<Rightarrow> nat \<Rightarrow> nat" where
  "cp_back_off road 0 = 0"
| "cp_back_off road (Suc n) =
     (if road ! Suc n AND 0xC0 = 0x80 then cp_back_off road n else Suc n)"

text \<open>\<open>road\<close> is the string the pointer names.\<close>

definition cp_road_length :: "u8 list \<Rightarrow> nat" where
  "cp_road_length road =
     (let n = min (length road) 256 in if n > 255 then cp_back_off road 255 else n)"

definition cp_store_road :: "u8 list option \<Rightarrow> u8 list \<Rightarrow> u8 list" where
  "cp_store_road road_name old =
     (case road_name of
        Some road \<Rightarrow>
          let n = cp_road_length road in take n road @ 0 # drop (n + 1) old
      | None \<Rightarrow> old[0 := 0])"

definition cp_write_turn :: "u8 list option \<Rightarrow> u32 \<Rightarrow> u32 \<Rightarrow> int \<Rightarrow> int \<Rightarrow> CpSnapshot \<Rightarrow> CpSnapshot" where
  "cp_write_turn road_name turn_side turn_event turn_angle turn_number n =
     n\<lparr>cs_road := cp_store_road road_name (cs_road n), cs_side := turn_side, cs_event := turn_event,
       cs_angle := turn_angle, cs_number := turn_number\<rparr>"

definition cp_write_distance :: "int \<Rightarrow> int \<Rightarrow> u32 \<Rightarrow> CpSnapshot \<Rightarrow> CpSnapshot" where
  "cp_write_distance time_until display_distance unit n =
     n\<lparr>cs_dist := cdiv display_distance 100, cs_unit := cp_map_distance_unit unit,
       cs_time := time_until\<rparr>"

section \<open>The frame pair\<close>

definition cp_icon :: "CpSnapshot \<Rightarrow> u32" where
  "cp_icon cur =
     (if cs_event cur = 13 then
        let side_lr = (if cs_side cur = 1 then 0 else 1) in
        ucast (cp_roundabout_icon (cs_angle cur) side_lr)
      else if cs_event cur < 20 then
        let side_idx = to_i32 (sint (cs_side cur) - 1);
            side_idx = (if side_idx < 0 \<or> side_idx > 2 then 2 else side_idx) in
        ucast (cp_kTurnIcons ! unat (cs_event cur) ! nat side_idx)
      else 0)"

definition cp_debug_label :: "CpSnapshot \<Rightarrow> u8 list" where
  "cp_debug_label cur =
     take 32 (ascii ''EV='' @ dec_nat (unat (cs_event cur)) @ ascii '' S='' @
       dec_nat (unat (cs_side cur)) @ ascii '' A='' @ dec_int (cs_angle cur))"

definition cp_maneuver_changed :: "CpSnapshot \<Rightarrow> CpSnapshot \<Rightarrow> bool" where
  "cp_maneuver_changed cur prev \<longleftrightarrow>
     strncmp_differs 256 (cs_road cur) (cs_road prev) \<or> cs_event cur \<noteq> cs_event prev \<or>
     cs_side cur \<noteq> cs_side prev \<or> cs_number cur \<noteq> cs_number prev"

definition cp_distance_changed :: "CpSnapshot \<Rightarrow> CpSnapshot \<Rightarrow> bool" where
  "cp_distance_changed cur prev \<longleftrightarrow>
     cp_maneuver_changed cur prev \<or> cs_dist cur \<noteq> cs_dist prev \<or> cs_unit cur \<noteq> cs_unit prev \<or>
     cs_angle cur \<noteq> cs_angle prev"

definition cp_bump :: "u8 \<Rightarrow> u8" where "cp_bump sync_bit = sync_bit mod 7 + 1"

text \<open>The street strip before the debug aid.\<close>

definition cp_strip :: "Settings \<Rightarrow> CpSnapshot \<Rightarrow> u8 list option" where
  "cp_strip cfg cur =
     map_option (\<lambda>road. if road = [] then [32] else road)
       (if cfg_carplay_vn_normalize cfg then
          (case fold_str (Some (strncpy_z 256 (cs_road cur))) 63 of
             Some (Some hud_name) \<Rightarrow> Some (cstr hud_name)
           | _ \<Rightarrow> None)
        else Some (cstr (cs_road cur)))"

definition cp_draw :: "int \<Rightarrow> u16" where
  "cp_draw dist =
     (let draw = (if dist < 0 then 0 else dist);
          draw = (if draw > 0xFFFF then 0xFFFF else draw)
      in of_int draw)"

text \<open>
  \<open>send_one\<close>: the calls made with their return codes (\<open>rc1\<close>, \<open>rc2\<close> are what the two setters
  return), whether all went well, and the new \<open>sync_bit\<close>.  The three later tests of the code
  repeat the guard of the early return and are not written again.
\<close>

type_synonym cp_calls = "(vbs_call \<times> int) list"

definition cp_send_one ::
  "Settings \<Rightarrow> bool \<Rightarrow> int \<Rightarrow> int \<Rightarrow> CpSnapshot \<Rightarrow> CpSnapshot \<Rightarrow> u8 \<Rightarrow> u16 \<Rightarrow> bool \<Rightarrow> bool
    \<Rightarrow> (cp_calls \<times> bool \<times> u8) option" where
  "cp_send_one cfg hud_absent rc1 rc2 cur prev sync_bit splim splim_changed force =
     (if hud_absent then Some ([], True, sync_bit)
      else if \<not> cp_maneuver_changed cur prev \<and> \<not> cp_distance_changed cur prev \<and>
              \<not> splim_changed \<and> \<not> force then Some ([], True, sync_bit)
      else
        let maneuver_changed = cp_maneuver_changed cur prev;
            sync_bit = (if maneuver_changed then cp_bump sync_bit else sync_bit) in
        (case cp_strip cfg cur of
           None \<Rightarrow> None
         | Some road \<Rightarrow>
             let icon = cp_icon cur;
                 label = (cfg_carplay_hud_debug cfg \<and> icon = 0);
                 sync_bit = (if label \<and> \<not> maneuver_changed then cp_bump sync_bit else sync_bit);
                 road = (if label then cp_debug_label cur else road);
                 icon = (if label then ucast HUD_STRAIGHT else icon);
                 disp = \<lparr>nextManeuverInfo = icon, distanceValue = cp_draw (cs_dist cur),
                   distanceUnit = (if cs_unit cur \<noteq> 0 then cs_unit cur else 1),
                   displaySpeedLimit = splim, displaySpeedUnit = (if splim \<noteq> 0 then 1 else 0),
                   text_ID3 = sync_bit\<rparr>;
                 msg2 = \<lparr>guidancePointName = Some road, syncBit = sync_bit\<rparr> in
             Some
               (if rc1 \<noteq> 0 then ([(SetHUDDisplayMsg disp, rc1)], False, sync_bit)
                else ([(SetHUDDisplayMsg disp, rc1), (SetHUDDisplayMsg2 msg2, rc2)], rc2 = 0, sync_bit))))"

definition cp_zero_frame :: VbsNaviHudDisplay where
  "cp_zero_frame = \<lparr>nextManeuverInfo = 0, distanceValue = 0, distanceUnit = 0, displaySpeedLimit = 0,
     displaySpeedUnit = 0, text_ID3 = 0\<rparr>"

definition cp_send_clear :: "bool \<Rightarrow> bool \<Rightarrow> int \<Rightarrow> int \<Rightarrow> u8 \<Rightarrow> cp_calls \<times> bool \<times> u8" where
  "cp_send_clear has_conn hud_absent rc1 rc2 sync_bit =
     (if \<not> has_conn then ([], False, sync_bit)
      else if hud_absent then ([], True, sync_bit)
      else if rc1 \<noteq> 0 then ([(SetHUDDisplayMsg cp_zero_frame, rc1)], False, sync_bit)
      else
        let sync_bit = cp_bump sync_bit in
        ([(SetHUDDisplayMsg cp_zero_frame, rc1),
          (SetHUDDisplayMsg2 \<lparr>guidancePointName = Some [32], syncBit = sync_bit\<rparr>, rc2)],
         rc2 = 0, sync_bit))"

section \<open>Speed-limit files\<close>

text \<open>
  \<open>file\<close> is what \<open>fscanf\<close> made of the file: the number of items it converted and their values,
  \<open>None\<close> when it cannot be opened.
\<close>

definition read_splim :: "Settings \<Rightarrow> (int \<times> int \<times> int) option \<Rightarrow> int \<Rightarrow> u16" where
  "read_splim cfg file now =
     (if \<not> cfg_carplay_speed_limit cfg then 0
      else
        (case file of
           None \<Rightarrow> 0
         | Some (n, limit, ts) \<Rightarrow>
             if n < 2 then 0
             else if now - ts > 8 \<or> limit < 5 \<or> limit > 200 then 0
             else of_int limit))"

definition read_over :: "Settings \<Rightarrow> (int \<times> int) option \<Rightarrow> bool" where
  "read_over cfg file =
     (cfg_carplay_speed_limit cfg \<and> (case file of None \<Rightarrow> False | Some (n, v) \<Rightarrow> n = 1 \<and> v = 1))"

section \<open>Glyph bounds\<close>

lemma cp_kTurnIcons_eq: "cp_kTurnIcons = kTurnIcons"
  by (simp add: cp_kTurnIcons_def kTurnIcons_def)

definition exit_sector :: "int \<Rightarrow> nat" where
  "exit_sector degrees = nat (((180 - degrees) mod 360 + 15) div 30 mod 12)"

lemma exit_sector_lt: "exit_sector d < 12"
  by (simp add: exit_sector_def nat_less_iff)

lemma sector_plus:
  assumes "0 \<le> q" and "q < 12"
  shows "unat (word_of_int q + (if b then 49 else 37) :: u8) = nat q + (if b then 49 else 37)"
proof -
  have "unat (word_of_int q :: u8) = nat q"
    using assms by (simp add: unsigned_of_int take_bit_int_eq_self nat_eq_iff)
  then show ?thesis using assms by (cases b) (simp_all add: unat_word_ariths nat_less_iff)
qed

lemma cp_roundabout_value:
  "unat (cp_roundabout_icon d s) =
    nat ((to_i32 (180 - d) mod 360 + 15) div 30 mod 12) + (if s = 0 then 49 else 37)"
proof -
  define e where "e = to_i32 (180 - d) mod 360"
  define q where "q = (e + 15) div 30 mod 12"
  have e: "0 \<le> e" "e < 360" by (simp_all add: e_def)
  have q: "0 \<le> q" "q < 12" by (simp_all add: q_def)
  have fx: "(if cmod (to_i32 (180 - d)) 360 < 0 then cmod (to_i32 (180 - d)) 360 + 360
      else cmod (to_i32 (180 - d)) 360) = e" unfolding e_def by (rule cmod_fixup) simp
  have "cdiv (e + 15) 30 = (e + 15) div 30" using e by (intro cdiv_nonneg) simp_all
  moreover have "0 \<le> (e + 15) div 30" using e by simp
  ultimately have "cmod (cdiv (e + 15) 30) 12 = q" unfolding q_def by (simp only: cmod_nonneg)
  then have "cp_roundabout_icon d s = word_of_int q + (if s = 0 then 49 else 37)"
    unfolding cp_roundabout_icon_def Let_def fx by (simp only:)
  then show ?thesis unfolding q_def [symmetric] e_def [symmetric] by (simp only: sector_plus [OF q])
qed

lemma cp_roundabout_sector:
  "i32_range (180 - d) \<Longrightarrow>
   unat (cp_roundabout_icon d s) = exit_sector d + (if s = 0 then 49 else 37)"
  by (simp add: cp_roundabout_value exit_sector_def)

lemma cp_roundabout_word:
  assumes "i32_range (180 - d)"
  shows "cp_roundabout_icon d s = of_nat (exit_sector d + (if s = 0 then 49 else 37))"
proof -
  have "of_nat (unat (cp_roundabout_icon d s)) = cp_roundabout_icon d s" by simp
  then show ?thesis unfolding cp_roundabout_sector [OF assms] by (rule sym)
qed

lemma cp_roundabout_bank: "37 \<le> cp_roundabout_icon d s" "cp_roundabout_icon d s \<le> 60"
proof -
  define k where "k = nat ((to_i32 (180 - d) mod 360 + 15) div 30 mod 12)"
  have "k < 12" by (simp add: k_def nat_less_iff)
  moreover have "unat (cp_roundabout_icon d s) = k + (if s = 0 then 49 else 37)"
    unfolding k_def by (rule cp_roundabout_value)
  ultimately show "37 \<le> cp_roundabout_icon d s" "cp_roundabout_icon d s \<le> 60"
    by (auto simp: word_le_nat_alt)
qed

lemma exit_sector_near: "(180 - d - 30 * int (exit_sector d) + 15) mod 360 < 30"
proof -
  define e where "e = (180 - d) mod 360"
  define q where "q = (e + 15) div 30"
  have "0 \<le> q mod 12" by simp
  then have k: "int (exit_sector d) = q mod 12" by (simp add: exit_sector_def q_def e_def)
  have d: "180 - d = e + 360 * ((180 - d) div 360)" unfolding e_def by (rule mod_mult_div_eq [symmetric])
  have q12: "q = q mod 12 + 12 * (q div 12)" by simp
  have "180 - d - 30 * (q mod 12) + 15 = (e + 15 - 30 * q) + 360 * ((180 - d) div 360 + q div 12)"
    using d q12 by (simp only: distrib_left)
  then have "(180 - d - 30 * (q mod 12) + 15) mod 360 = (e + 15 - 30 * q) mod 360"
    by (simp only: mod_mult_self2)
  moreover have "e + 15 - 30 * q = (e + 15) mod 30"
    unfolding q_def by (rule minus_mult_div_eq_mod)
  moreover have "0 \<le> (e + 15) mod 30" "(e + 15) mod 30 < 30" by simp_all
  ultimately show ?thesis unfolding k by simp
qed

text \<open>
  The roundabout glyph is the nearest one: for every exit bearing, the chosen sector of the
  traffic side's bank lies within fifteen degrees of the bearing seen from the entry leg, it is
  one of the twelve, and the bearings straight on, right, left and back have the four glyphs that
  point up, right, left and down.
\<close>

theorem exit_glyph_nearest:
  assumes "i32_range (180 - d)"
  shows "(let k = unat (cp_roundabout_icon d s) - (if s = 0 then 49 else 37);
             off = (180 - d - 30 * int k + 15) mod 360 in
          k < 12 \<and> (if s = 0 then 49 else 37) \<le> unat (cp_roundabout_icon d s) \<and> off < 30) \<and>
    map (\<lambda>a. cp_roundabout_icon a 1) [0, 90, 270, 180] = [43, 40, 46, 37]"
proof -
  have card: "map (\<lambda>a. cp_roundabout_icon a 1) [0, 90, 270, 180] = [43, 40, 46, 37]"
    by (simp add: cp_roundabout_word exit_sector_def i32_rangeI)
  show ?thesis
    unfolding cp_roundabout_sector [OF assms] using exit_sector_lt [of d] exit_sector_near [of d] card
    by (simp add: Let_def)
qed

theorem exit_glyph_nearest_witness: "cp_roundabout_icon (-45) 0 \<ge> 49"
  using exit_glyph_nearest [of "-45" 0] by (simp add: i32_rangeI word_le_nat_alt Let_def)

text \<open>Every glyph \<open>send_one\<close> can put in a frame.\<close>

lemma cp_icon_bound: "unat (cp_icon n) \<le> 60"
proof (cases "cs_event n = 13")
  case True
  then show ?thesis
    using ucast_u8_le [OF cp_roundabout_bank(2), of "cs_angle n"] by (simp add: cp_icon_def Let_def)
next
  case False
  show ?thesis
  proof (cases "cs_event n < 20")
    case lt: True
    let ?i = "to_i32 (sint (cs_side n) - 1)"
    let ?s = "nat (if ?i < 0 \<or> ?i > 2 then 2 else ?i)"
    have "unat (cs_event n) < 20" "?s < 3" using lt by (auto simp: word_less_nat_alt)
    from ucast_u8_le [OF kTurnIcons_entry [OF this]] show ?thesis
      using False lt by (simp add: cp_icon_def Let_def cp_kTurnIcons_eq)
  qed (use False in \<open>simp add: cp_icon_def\<close>)
qed

section \<open>Properties of the frame pair\<close>

lemma cp_bump_facts: "cp_bump s \<noteq> s" "1 \<le> cp_bump s" "cp_bump s \<le> 7"
proof -
  have u: "unat (cp_bump s) = unat s mod 7 + 1"
    by (simp add: cp_bump_def unat_word_ariths unat_mod)
  show "1 \<le> cp_bump s" "cp_bump s \<le> 7" using u by (simp_all add: word_le_nat_alt)
  have "unat s mod 7 + 1 \<noteq> unat s" by presburger
  then show "cp_bump s \<noteq> s" using u by metis
qed

lemma cp_strip_some:
  "\<exists>r. cp_strip cfg cur = Some r \<and> r \<noteq> [] \<and> 0 \<notin> set r"
proof (cases "cfg_carplay_vn_normalize cfg")
  case True
  have "0 \<in> set (strncpy_z 256 (cs_road cur))" by (rule strncpy_z_terminated) simp
  then obtain b where "fold_str (Some (strncpy_z 256 (cs_road cur))) 63 = Some (Some b)"
    by (rule fold_str_terminated)
  then show ?thesis using True by (simp add: cp_strip_def)
next
  case False
  then show ?thesis by (simp add: cp_strip_def)
qed

lemma cp_draw_value: "int (unat (cp_draw d)) = max 0 (min 65535 d)"
proof -
  have "unat (of_int x :: u16) = nat x" if "0 \<le> x" "x \<le> 65535" for x :: int
    using that by (simp add: unsigned_of_int take_bit_int_eq_self nat_eq_iff)
  then show ?thesis by (simp add: cp_draw_def Let_def max_def min_def)
qed

lemma cp_debug_label_facts: "cp_debug_label n \<noteq> []" "0 \<notin> set (cp_debug_label n)"
proof -
  have "0 \<notin> set (ascii ''EV='' @ dec_nat (unat (cs_event n)) @ ascii '' S='' @
      dec_nat (unat (cs_side n)) @ ascii '' A='' @ dec_int (cs_angle n))"
    by (simp add: ascii_def dec_int_def dec_nat_facts)
  then show "0 \<notin> set (cp_debug_label n)" unfolding cp_debug_label_def by (rule take_no_nul)
  show "cp_debug_label n \<noteq> []" by (simp add: cp_debug_label_def ascii_def)
qed

text \<open>
  The frame pair: \<open>send_one\<close> is total; it is silent exactly when the display is absent or
  nothing changed and no re-assert is due; otherwise it sends the maneuver frame and, when that
  was accepted, always the street strip with the same sync value - never a strip that is empty
  (the display would draw garbage), never unit 0, the distance clamped to sixteen bits, a glyph
  of the atlas, the speed limit it was given; and the sync value is a new one in 1 to 7 whenever
  the maneuver changed.
\<close>

theorem send_one_pairs:
  "\<exists>calls ok sync'.
    cp_send_one cfg absent rc1 rc2 cur prev sync splim splim_changed force = Some (calls, ok, sync') \<and>
    (if absent \<or> \<not> (cp_distance_changed cur prev \<or> splim_changed \<or> force)
     then calls = [] \<and> ok \<and> sync' = sync
     else
       ok = (rc1 = 0 \<and> rc2 = 0) \<and>
       (cp_maneuver_changed cur prev \<longrightarrow> sync' \<noteq> sync \<and> 1 \<le> sync' \<and> sync' \<le> 7) \<and>
       (\<exists>d road. road \<noteq> [] \<and> 0 \<notin> set road \<and>
          calls = (SetHUDDisplayMsg d, rc1) #
            (if rc1 \<noteq> 0 then []
             else [(SetHUDDisplayMsg2 \<lparr>guidancePointName = Some road, syncBit = sync'\<rparr>, rc2)]) \<and>
          text_ID3 d = sync' \<and> distanceUnit d \<noteq> 0 \<and> displaySpeedLimit d = splim \<and>
          int (unat (distanceValue d)) = max 0 (min 65535 (cs_dist cur)) \<and>
          unat (nextManeuverInfo d) \<le> 60))"
proof (cases "absent \<or> \<not> (cp_distance_changed cur prev \<or> splim_changed \<or> force)")
  case True
  then show ?thesis by (auto simp: cp_send_one_def cp_distance_changed_def)
next
  case False
  obtain r where r: "cp_strip cfg cur = Some r" "r \<noteq> []" "0 \<notin> set r" using cp_strip_some by blast
  have q: "\<not> (\<not> cp_maneuver_changed cur prev \<and> \<not> cp_distance_changed cur prev \<and>
      \<not> splim_changed \<and> \<not> force)" using False by blast
  have straight: "unat (ucast HUD_STRAIGHT :: u32) \<le> 60" by (simp add: HUD_STRAIGHT_def)
  show ?thesis
    unfolding cp_send_one_def if_not_P [OF q] r(1)
    using False r(2,3) cp_draw_value [of "cs_dist cur"] cp_icon_bound [of cur] straight
      cp_debug_label_facts [of cur] cp_bump_facts [of sync]
    by (simp add: Let_def) blast
qed

definition cp_sample :: CpSnapshot where
  "cp_sample = cp_blank\<lparr>cs_event := 4, cs_side := 1, cs_dist := 70000\<rparr>"

theorem send_one_pairs_witness:
  "\<exists>d road sync'. cp_send_one default_settings False 0 0 cp_sample cp_blank 3 0 False False =
      Some ([(SetHUDDisplayMsg d, 0),
        (SetHUDDisplayMsg2 \<lparr>guidancePointName = Some road, syncBit = sync'\<rparr>, 0)], True, sync') \<and>
    road \<noteq> [] \<and> int (unat (distanceValue d)) = 65535"
proof -
  have "cp_maneuver_changed cp_sample cp_blank"
    by (simp add: cp_maneuver_changed_def cp_sample_def cp_blank_def)
  then show ?thesis
    using send_one_pairs [of default_settings False 0 0 cp_sample cp_blank 3 0 False False]
    by (fastforce simp: cp_distance_changed_def cp_sample_def)
qed

section \<open>Every maneuver has a glyph\<close>

text \<open>The snapshot of a maneuver.\<close>

definition cp_of_maneuver :: "CpManeuver \<Rightarrow> CpSnapshot \<Rightarrow> CpSnapshot" where
  "cp_of_maneuver m n =
     n\<lparr>cs_side := mv_side m, cs_event := mv_event m, cs_angle := mv_angle m, cs_number := mv_number m\<rparr>"

lemma cp_icon_turn:
  assumes "cs_event n = e" and "e \<noteq> 13" and "e < 20" and "cs_side n \<in> {1, 2, 3}"
  shows "cp_icon n = ucast (cp_kTurnIcons ! unat e ! (unat (cs_side n) - 1))"
  using assms by (auto simp: cp_icon_def i32_rangeI)

lemma cp_turn_cells:
  assumes "e \<in> {3, 4, 5, 6, 7, 8, 9, 14, 19}" and "s < 3"
  shows "cp_kTurnIcons ! e ! s \<noteq> 0"
proof -
  have "s = 0 \<or> s = 1 \<or> s = 2" using assms(2) by arith
  then show ?thesis
    using assms(1) by (auto simp: cp_kTurnIcons_def icon_codes numeral_3_eq_3)
qed

lemma cp_turn_ferry: "fst (cp_turn_of t d) = 16 \<longleftrightarrow> t = 15 \<or> t = 16 \<or> t = 17"
  unfolding cp_turn_of_def cp_consts by (simp split: if_split)

lemma ucast_u8_zero: "(ucast (c :: u8) :: u32) = 0 \<longleftrightarrow> c = 0"
proof -
  have "unat (ucast c :: u32) = unat c"
    by (simp add: unsigned_ucast_eq take_bit_nat_eq_self unsigned_less [THEN less_le_trans])
  then show ?thesis by (metis unat_eq_zero)
qed

text \<open>
  Every maneuver iOS announces is drawn: whatever the maneuver type, junction, exit angle and
  driving side of the message, the decoder's event and side select a glyph of the atlas - except
  for the three ferry types outside a roundabout, which are drawn blank.
\<close>

theorem every_maneuver_drawn:
  "cp_icon (cp_of_maneuver (cp_classify t j a d) n) = 0 \<longleftrightarrow>
    \<not> cp_is_roundabout t j \<and> (t = 15 \<or> t = 16 \<or> t = 17)"
proof (cases "cp_is_roundabout t j")
  case True
  let ?n = "cp_of_maneuver (cp_classify t j a d) n"
  have "cs_event ?n = 13"
    using True by (simp add: cp_of_maneuver_def cp_classify_def Let_def EV_ROUNDABOUT_def)
  then obtain s where "cp_icon ?n = ucast (cp_roundabout_icon (cs_angle ?n) s)"
    unfolding cp_icon_def Let_def by simp
  moreover have "cp_roundabout_icon (cs_angle ?n) s \<noteq> 0"
    using cp_roundabout_bank(1) [of "cs_angle ?n" s] by auto
  ultimately show ?thesis using True by (simp add: ucast_u8_zero)
next
  case False
  obtain e s where es: "cp_turn_of t d = (e, s)" by fastforce
  let ?n = "cp_of_maneuver (cp_classify t j a d) n"
  have n: "cs_event ?n = e" "cs_side ?n = s"
    using False es by (simp_all add: cp_of_maneuver_def cp_classify_def)
  have e: "e \<in> {3, 4, 5, 6, 7, 8, 9, 14, 16, 19}" and s: "s \<in> {1, 2, 3}"
    using cp_turn_of_range [of t d] es by simp_all
  have icon: "cp_icon ?n = ucast (cp_kTurnIcons ! unat e ! (unat s - 1))"
    using cp_icon_turn [of ?n e] n e s by auto
  have ferry: "e = 16 \<longleftrightarrow> t = 15 \<or> t = 16 \<or> t = 17" using cp_turn_ferry [of t d] es by simp
  have lt: "unat s - 1 < 3" using s by auto
  show ?thesis
  proof (cases "e = 16")
    case True
    have "cp_kTurnIcons ! 16 ! k = 0" if "k < 3" for k
      using that by (auto simp: cp_kTurnIcons_def less_Suc_eq numeral_3_eq_3)
    then show ?thesis using icon True ferry False lt by (simp add: ucast_u8_zero)
  next
    case e16: False
    have "unat e \<in> {3, 4, 5, 6, 7, 8, 9, 14, 19}" using e e16 by auto
    from cp_turn_cells [OF this lt] show ?thesis
      using icon e16 ferry by (simp add: ucast_u8_zero)
  qed
qed

section \<open>Truncation of road names\<close>

text \<open>One encoded character: a byte that is no continuation, then at most three that are.\<close>

definition utf8_seq :: "u8 list \<Rightarrow> bool" where
  "utf8_seq s \<longleftrightarrow> s \<noteq> [] \<and> \<not> is_cont (s ! 0) \<and> (\<forall>b \<in> set (tl s). is_cont b) \<and> length s \<le> 4"

lemma boundary_past:
  assumes "s \<noteq> []" "length s \<le> i"
  shows "(\<exists>k < length (s # ss). i = length (concat (take k (s # ss)))) \<longleftrightarrow>
    (\<exists>k < length ss. i - length s = length (concat (take k ss)))"
proof -
  have "i \<noteq> 0" using assms by (cases s) auto
  then show ?thesis using assms(2) by (auto simp: Ex_less_Suc2)
qed

lemma is_boundary:
  assumes "\<forall>s \<in> set ss. utf8_seq s" and "i < length (concat ss)"
  shows "\<not> is_cont (concat ss ! i) \<longleftrightarrow> (\<exists>k < length ss. i = length (concat (take k ss)))"
  using assms
proof (induction ss arbitrary: i)
  case (Cons s ss)
  have s: "s \<noteq> []" "\<not> is_cont (s ! 0)" "\<forall>b \<in> set (tl s). is_cont b"
    using Cons.prems(1) by (simp_all add: utf8_seq_def)
  show ?case
  proof (cases "i < length s")
    case True
    have c: "concat (s # ss) ! i = s ! i" using True by (simp add: nth_append)
    show ?thesis
    proof (cases i)
      case 0
      then show ?thesis using c s(2) by (auto intro: exI [of _ 0])
    next
      case (Suc j)
      have "s ! i = tl s ! j" "j < length (tl s)" using Suc True by (simp_all add: nth_tl)
      then have "is_cont (s ! i)" using s(3) nth_mem by metis
      moreover have "i \<noteq> length (concat (take k (s # ss)))" for k
        using Suc True by (cases k) auto
      ultimately show ?thesis using c by simp
    qed
  next
    case False
    have "concat (s # ss) ! i = concat ss ! (i - length s)" using False by (simp add: nth_append)
    moreover have "i - length s < length (concat ss)" using Cons.prems(2) False by simp
    ultimately have "\<not> is_cont (concat (s # ss) ! i) \<longleftrightarrow>
        (\<exists>k < length ss. i - length s = length (concat (take k ss)))"
      using Cons.IH [of "i - length s"] Cons.prems(1) by simp
    then show ?thesis using boundary_past [of s i ss] s(1) False by simp
  qed
qed simp

lemma cp_back_off_spec:
  "cp_back_off road n \<le> n \<and>
   (cp_back_off road n \<noteq> 0 \<longrightarrow> \<not> is_cont (road ! cp_back_off road n)) \<and>
   (\<forall>i. cp_back_off road n < i \<and> i \<le> n \<longrightarrow> is_cont (road ! i))"
  by (induction road n rule: cp_back_off.induct) (auto simp: is_cont_def le_Suc_eq)

lemma concat_take_mono: "j \<le> k \<Longrightarrow> length (concat (take j ss)) \<le> length (concat (take k ss))"
  by (induction ss arbitrary: j k) (auto simp: take_Cons split: nat.splits)

lemma road_length_boundary:
  assumes "\<forall>s \<in> set ss. utf8_seq s"
  shows "\<exists>k \<le> length ss. cp_road_length (concat ss) = length (concat (take k ss)) \<and>
    length (concat (take k ss)) \<le> 255 \<and>
    (k = length ss \<or> 255 < length (concat (take (Suc k) ss)))"
proof (cases "length (concat ss) \<le> 255")
  case True
  then show ?thesis by (intro exI [of _ "length ss"]) (simp add: cp_road_length_def)
next
  case False
  let ?n = "cp_back_off (concat ss) 255"
  note b = cp_back_off_spec [of "concat ss" 255]
  have len: "cp_road_length (concat ss) = ?n" using False by (simp add: cp_road_length_def)
  have n: "?n < length (concat ss)" using b False by simp
  have "\<not> is_cont (concat ss ! ?n)"
  proof (cases "?n = 0")
    case True
    then have "ss \<noteq> []" using n by auto
    then obtain s ss' where ss: "ss = s # ss'" by (cases ss) auto
    then have "s \<noteq> []" "\<not> is_cont (s ! 0)" using assms by (simp_all add: utf8_seq_def)
    then show ?thesis using True ss by (simp add: nth_append)
  qed (use b in blast)
  then obtain k where k: "k < length ss" "?n = length (concat (take k ss))"
    using is_boundary [OF assms n] by blast
  have "255 < length (concat (take (Suc k) ss))"
  proof (rule ccontr)
    let ?m = "length (concat (take (Suc k) ss))"
    assume "\<not> 255 < ?m"
    then have m: "?m \<le> 255" by simp
    have "ss ! k \<noteq> []" using assms k(1) by (simp add: utf8_seq_def)
    then have gt: "?n < ?m" using k by (simp add: take_Suc_conv_app_nth)
    have lt: "?m < length (concat ss)" using m False by simp
    then have "Suc k \<noteq> length ss" by auto
    then have "Suc k < length ss" using k(1) by simp
    then have "\<not> is_cont (concat ss ! ?m)" using is_boundary [OF assms lt] by blast
    then show False using b gt m by blast
  qed
  then show ?thesis using k len b by (intro exI [of _ k]) simp
qed

text \<open>
  A long road name is cut between characters: for every name that is a sequence of encoded
  characters, what the snapshot holds is the longest run of whole characters that fits in 255
  bytes - all of them when the name fits -, it is terminated, and the buffer keeps its size.
\<close>

theorem road_cut_at_character:
  assumes "\<forall>s \<in> set ss. utf8_seq s" and "0 \<notin> set (concat ss)" and "length old = 256"
  shows "\<exists>k \<le> length ss.
    cstr (cp_store_road (Some (concat ss)) old) = concat (take k ss) \<and>
    length (concat (take k ss)) \<le> 255 \<and>
    (k = length ss \<or> 255 < length (concat (take (Suc k) ss))) \<and>
    length (cp_store_road (Some (concat ss)) old) = 256"
proof -
  obtain k where k: "k \<le> length ss" "cp_road_length (concat ss) = length (concat (take k ss))"
    "length (concat (take k ss)) \<le> 255" "k = length ss \<or> 255 < length (concat (take (Suc k) ss))"
    using road_length_boundary [OF assms(1)] by blast
  have split: "concat ss = concat (take k ss) @ concat (drop k ss)"
    by (simp flip: concat_append)
  have t: "take (length (concat (take k ss))) (concat ss) = concat (take k ss)"
    by (subst split) simp
  have nul: "0 \<notin> set (concat (take k ss))" using assms(2) split by (metis Un_iff set_append)
  have store: "cp_store_road (Some (concat ss)) old =
      concat (take k ss) @ 0 # drop (length (concat (take k ss)) + 1) old"
    unfolding cp_store_road_def option.case Let_def k(2) t ..
  then have "cstr (cp_store_road (Some (concat ss)) old) = concat (take k ss)"
    using cstr_append_nul [OF nul] by simp
  moreover have "length (cp_store_road (Some (concat ss)) old) = 256"
    unfolding store using k(3) assms(3) by simp
  ultimately show ?thesis using k by blast
qed

theorem road_cut_at_character_witness:
  "\<exists>k \<le> 2. cstr (cp_store_road (Some (concat (replicate 2 [0xC3, 0xA0]))) (replicate 256 1)) =
      concat (take k (replicate 2 [0xC3, 0xA0]))"
proof -
  have "\<forall>s \<in> set (replicate 2 [0xC3 :: u8, 0xA0]). utf8_seq s"
    by (simp add: utf8_seq_def is_cont_def)
  from road_cut_at_character [OF this, of "replicate 256 1"] show ?thesis by auto
qed

end
