(* ===== verification/Carplay_Hud.thy ===== *)
theory Carplay_Hud
  imports Carplay_Send
begin

text \<open>
  The thread of the CarPlay display sender (\<open>blmjcicarplay/hud/hud_send.cpp\<close>): set-up, the loop
  with its keep-alive and its two clear requests, tear-down, and the entry points other threads
  call.  One iteration of the loop is two steps, the send half and the clear half, so that the
  producers and the request callbacks may come between; \<open>Seqlock\<close> justifies that the copy of
  the snapshot is one step.  \<open>ch_nav_reset\<close> is the flag of \<open>nav_request_reset\<close>.  \<open>ch_commits\<close>,
  \<open>ch_seen\<close>, \<open>ch_calls\<close> and \<open>ch_missed\<close> are history variables: the number of snapshot writes so
  far and at the last send half, the calls made in this session, and whether one of them failed
  or was suppressed because the display was reported absent.
\<close>

datatype cp_pc = CpGone | CpSetup | CpLoop | CpClear | CpWait

record cp_hud =
  ch_snap :: CpSnapshot
  ch_seq :: u32
  ch_commits :: nat
  ch_have_guidance :: bool
  ch_clear_req :: bool
  ch_fullclear_req :: bool
  ch_tick :: u32
  ch_stop :: bool
  ch_active :: bool
  ch_absent :: bool
  ch_up :: bool
  ch_nav_reset :: bool
  ch_pc :: cp_pc
  ch_conn :: bool
  ch_ticker_up :: bool
  ch_prev :: CpSnapshot
  ch_sync :: u8
  ch_last :: u32
  ch_prev_splim :: u16
  ch_splim :: u16
  ch_last_tick :: u32
  ch_seen :: nat
  ch_calls :: cp_calls
  ch_missed :: bool

definition cp_hud_init :: cp_hud where
  "cp_hud_init =
     \<lparr>ch_snap = cp_blank, ch_seq = 0, ch_commits = 0, ch_have_guidance = False, ch_clear_req = False,
      ch_fullclear_req = False, ch_tick = 0, ch_stop = False, ch_active = False, ch_absent = False,
      ch_up = False, ch_nav_reset = False, ch_pc = CpGone, ch_conn = False, ch_ticker_up = False,
      ch_prev = cp_blank, ch_sync = 0, ch_last = 0, ch_prev_splim = 0, ch_splim = 0,
      ch_last_tick = 0, ch_seen = 0, ch_calls = [], ch_missed = False\<rparr>"

section \<open>Entry points of other threads\<close>

definition cp_commit :: "(CpSnapshot \<Rightarrow> CpSnapshot) \<Rightarrow> cp_hud \<Rightarrow> cp_hud" where
  "cp_commit f s =
     s\<lparr>ch_seq := ch_seq s + 1 + 1, ch_snap := f (ch_snap s), ch_commits := ch_commits s + 1\<rparr>"

definition hud_on_status :: "u32 \<Rightarrow> cp_hud \<Rightarrow> cp_hud" where
  "hud_on_status status s =
     (if status \<noteq> 1 then cp_commit (\<lambda>_. cp_blank) (s\<lparr>ch_have_guidance := False\<rparr>)
      else s\<lparr>ch_have_guidance := True\<rparr>)"

definition hud_on_next_turn :: "u8 list option \<Rightarrow> u32 \<Rightarrow> u32 \<Rightarrow> int \<Rightarrow> int \<Rightarrow> cp_hud \<Rightarrow> cp_hud" where
  "hud_on_next_turn road_name turn_side turn_event turn_angle turn_number s =
     (cp_commit (cp_write_turn road_name turn_side turn_event turn_angle turn_number) s)
       \<lparr>ch_have_guidance := True\<rparr>"

definition hud_on_distance :: "int \<Rightarrow> int \<Rightarrow> int \<Rightarrow> u32 \<Rightarrow> cp_hud \<Rightarrow> cp_hud" where
  "hud_on_distance distance_meters time_until display_distance unit s =
     cp_commit (cp_write_distance time_until display_distance unit) s"

definition hud_request_clear :: "cp_hud \<Rightarrow> cp_hud" where
  "hud_request_clear s = s\<lparr>ch_clear_req := True\<rparr>"

definition hud_request_fullclear :: "cp_hud \<Rightarrow> cp_hud" where
  "hud_request_fullclear s = s\<lparr>ch_fullclear_req := True\<rparr>"

definition cp_hud_status_cb :: "u8 \<Rightarrow> cp_hud \<Rightarrow> cp_hud" where
  "cp_hud_status_cb status s = s\<lparr>ch_absent := (status = 0)\<rparr>"

definition hud_send_start :: "bool \<Rightarrow> cp_hud \<Rightarrow> cp_hud" where
  "hud_send_start thread_ok s =
     (if ch_up s then s
      else
        let s = s\<lparr>ch_stop := False, ch_active := False\<rparr> in
        if \<not> thread_ok then s else s\<lparr>ch_up := True, ch_pc := CpSetup\<rparr>)"

definition hud_send_stop_request :: "cp_hud \<Rightarrow> cp_hud" where
  "hud_send_stop_request s =
     (if \<not> ch_up s then s else s\<lparr>ch_stop := True, ch_have_guidance := False\<rparr>)"

definition hud_send_stop_join :: "cp_hud \<Rightarrow> cp_hud" where
  "hud_send_stop_join s = s\<lparr>ch_up := False, ch_active := False\<rparr>"

definition splim_ticker :: "cp_hud \<Rightarrow> cp_hud" where
  "splim_ticker s = s\<lparr>ch_tick := ch_tick s + 1\<rparr>"

section \<open>The sender thread\<close>

definition cp_call :: "vbs_call list \<Rightarrow> cp_hud \<Rightarrow> cp_hud" where
  "cp_call cs s = s\<lparr>ch_calls := ch_calls s @ map (\<lambda>c. (c, 0)) cs\<rparr>"

text \<open>Calls of a setter pair; \<open>tried\<close> is that there was something to send.\<close>

definition cp_sent :: "cp_calls \<Rightarrow> bool \<Rightarrow> u8 \<Rightarrow> cp_hud \<Rightarrow> cp_hud" where
  "cp_sent calls ok sync s =
     s\<lparr>ch_calls := ch_calls s @ calls, ch_sync := sync,
       ch_missed := ch_missed s \<or> \<not> ok \<or> ch_absent s\<rparr>"

definition cp_sender_setup :: "vbs_env \<Rightarrow> bool \<Rightarrow> bool \<Rightarrow> cp_hud \<Rightarrow> bool \<times> cp_hud" where
  "cp_sender_setup e stop1 stop2 s =
     (if stop1 then (False, s)
      else if \<not> ve_created e then (False, s\<lparr>ch_conn := False\<rparr>)
      else
        let s = cp_call [ConnCreate, ConnConnect (ve_connected e)] (s\<lparr>ch_conn := True\<rparr>) in
        if \<not> ve_connected e then (False, cp_call [ConnFree] (s\<lparr>ch_conn := False\<rparr>))
        else
          let s = cp_call [WorkerStart] s in
          if stop2 then (False, s) else (True, cp_call [GetHUDStatus] s))"

definition cp_sender_teardown :: "int \<Rightarrow> cp_hud \<Rightarrow> cp_hud" where
  "cp_sender_teardown rc s =
     (if \<not> ch_conn s then s
      else
        let s = (if \<not> ch_absent s
                 then s\<lparr>ch_calls := ch_calls s @ [(SetHUDDisplayMsg cp_zero_frame, rc)]\<rparr> else s) in
        (cp_call [WorkerStop, ConnDisconnect, ConnFree] s)\<lparr>ch_conn := False\<rparr>)"

definition cp_clear_display :: "int \<Rightarrow> int \<Rightarrow> cp_hud \<Rightarrow> bool \<times> cp_hud" where
  "cp_clear_display rc1 rc2 s =
     (let (calls, ok, sync) = cp_send_clear (ch_conn s) (ch_absent s) rc1 rc2 (ch_sync s) in
      (ok, cp_sent calls ok sync s))"

definition cp_main_begin ::
  "vbs_env \<Rightarrow> bool \<Rightarrow> bool \<Rightarrow> bool \<Rightarrow> int \<Rightarrow> int \<Rightarrow> cp_hud \<Rightarrow> cp_hud" where
  "cp_main_begin e stop1 stop2 ticker_ok rc1 rc2 s =
     (let (ok, s) = cp_sender_setup e stop1 stop2 (s\<lparr>ch_calls := [], ch_missed := False\<rparr>) in
      if \<not> ok then (cp_sender_teardown rc1 s)\<lparr>ch_pc := CpGone\<rparr>
      else
        let s = s\<lparr>ch_active := True, ch_ticker_up := ticker_ok, ch_prev := cp_blank, ch_sync := 0,
                  ch_last := 0, ch_prev_splim := 0, ch_last_tick := 0, ch_seen := 0, ch_pc := CpLoop\<rparr> in
        if \<not> ch_have_guidance s then snd (cp_clear_display rc1 rc2 s) else s)"

text \<open>What a send half reads from outside: the two files, the time, the setters' return codes.\<close>

record cp_input_env =
  ce_splim :: "(int \<times> int \<times> int) option"
  ce_now :: int
  ce_over :: "(int \<times> int) option"
  ce_rc1 :: int
  ce_rc2 :: int

definition cp_pass_send :: "Settings \<Rightarrow> cp_input_env \<Rightarrow> cp_hud \<Rightarrow> cp_hud option" where
  "cp_pass_send cfg e s =
     (let splim = read_splim cfg (ce_splim e) (ce_now e);
          splim_changed = (splim \<noteq> ch_prev_splim s);
          painted = (if splim \<noteq> 0 \<and> read_over cfg (ce_over e) \<and> odd (unat (ch_tick s)) then 0 else splim);
          cur = (if cfg_carplay_speed_limit cfg \<and> \<not> ch_have_guidance s then cp_blank else ch_snap s);
          s = s\<lparr>ch_splim := splim, ch_pc := CpClear\<rparr> in
      if ch_seq s \<noteq> ch_last s \<or> splim_changed then
        map_option
          (\<lambda>(calls, ok, sync). (cp_sent calls ok sync s)
             \<lparr>ch_prev := cur, ch_prev_splim := splim, ch_last := ch_seq s, ch_seen := ch_commits s\<rparr>)
          (cp_send_one cfg (ch_absent s) (ce_rc1 e) (ce_rc2 e) cur (ch_prev s) (ch_sync s) painted
             splim_changed False)
      else if ch_have_guidance s \<or> ch_prev_splim s \<noteq> 0 then
        map_option (\<lambda>(calls, ok, sync). cp_sent calls ok sync s)
          (cp_send_one cfg (ch_absent s) (ce_rc1 e) (ce_rc2 e) (ch_prev s) (ch_prev s) (ch_sync s)
             painted False True)
      else Some s)"

text \<open>After a successful wipe: the route is over, and \<open>prev\<close> and the sign are set.\<close>

definition cp_wiped :: "CpSnapshot \<Rightarrow> u16 \<Rightarrow> cp_hud \<Rightarrow> cp_hud" where
  "cp_wiped prev splim s =
     s\<lparr>ch_have_guidance := False, ch_prev := prev, ch_prev_splim := splim, ch_last := ch_seq s,
       ch_seen := ch_commits s, ch_nav_reset := True\<rparr>"

definition cp_pass_clear :: "Settings \<Rightarrow> int \<Rightarrow> int \<Rightarrow> cp_hud \<Rightarrow> cp_hud option" where
  "cp_pass_clear cfg rc1 rc2 s =
     (let full_req = ch_fullclear_req s;
          nav_req = ch_clear_req s;
          s = s\<lparr>ch_fullclear_req := False, ch_clear_req := False\<rparr> in
      map_option (\<lambda>s. s\<lparr>ch_last_tick := ch_tick s, ch_pc := CpWait\<rparr>)
        (if full_req then
           (let (ok, s) = cp_clear_display rc1 rc2 s in Some (if ok then cp_wiped cp_blank 0 s else s))
         else if nav_req then
           (if cfg_carplay_speed_limit cfg \<and> ch_splim s > 0 then
              map_option
                (\<lambda>(calls, ok, sync).
                   let s = cp_sent calls ok sync s in
                   if ok then cp_wiped cp_blank (ch_splim s) s else s)
                (cp_send_one cfg (ch_absent s) rc1 rc2 cp_blank (ch_prev s) (ch_sync s) (ch_splim s)
                   True True)
            else
              (let (ok, s) = cp_clear_display rc1 rc2 s in Some (if ok then cp_wiped cp_blank 0 s else s)))
         else Some s))"

definition cp_wakes :: "cp_hud \<Rightarrow> bool" where
  "cp_wakes s \<longleftrightarrow> ch_stop s \<or> ch_seq s \<noteq> ch_last s \<or> ch_tick s \<noteq> ch_last_tick s"

definition cp_main_finish :: "int \<Rightarrow> cp_hud \<Rightarrow> cp_hud" where
  "cp_main_finish rc s =
     (cp_sender_teardown rc (s\<lparr>ch_active := False, ch_ticker_up := False\<rparr>))\<lparr>ch_pc := CpGone\<rparr>"

text \<open>All interleavings of the receive thread, the callbacks, the ticker and the sender.\<close>

inductive cp_step :: "Settings \<Rightarrow> cp_hud \<Rightarrow> cp_hud \<Rightarrow> bool" for cfg where
  status: "cp_step cfg s (hud_on_status v s)"
| next_turn: "cp_step cfg s (hud_on_next_turn r sd ev a n s)"
| distance: "cp_step cfg s (hud_on_distance m t d u s)"
| clear: "cp_step cfg s (hud_request_clear s)"
| fullclear: "cp_step cfg s (hud_request_fullclear s)"
| status_cb: "cp_step cfg s (cp_hud_status_cb b s)"
| nav_took_reset: "cp_step cfg s (s\<lparr>ch_nav_reset := False\<rparr>)"
| tick: "ch_ticker_up s \<Longrightarrow> cp_step cfg s (splim_ticker s)"
| start: "cp_step cfg s (hud_send_start ok s)"
| stop_request: "cp_step cfg s (hud_send_stop_request s)"
| stop_join: "ch_up s \<Longrightarrow> ch_stop s \<Longrightarrow> ch_pc s = CpGone \<Longrightarrow> cp_step cfg s (hud_send_stop_join s)"
| main_begin: "ch_pc s = CpSetup \<Longrightarrow> (b1 \<longrightarrow> ch_stop s) \<Longrightarrow>
    cp_step cfg s (cp_main_begin e b1 (ch_stop s) ok rc1 rc2 s)"
| pass_send: "ch_pc s = CpLoop \<Longrightarrow> \<not> ch_stop s \<Longrightarrow> cp_pass_send cfg e s = Some t \<Longrightarrow> cp_step cfg s t"
| pass_clear: "ch_pc s = CpClear \<Longrightarrow> cp_pass_clear cfg rc1 rc2 s = Some t \<Longrightarrow> cp_step cfg s t"
| wake: "ch_pc s = CpWait \<Longrightarrow> cp_wakes s \<Longrightarrow> cp_step cfg s (s\<lparr>ch_pc := CpLoop\<rparr>)"
| finish: "ch_pc s = CpLoop \<Longrightarrow> ch_stop s \<Longrightarrow> cp_step cfg s (cp_main_finish rc s)"

section \<open>Invariants of the thread\<close>

definition cp_running :: "cp_hud \<Rightarrow> bool" where
  "cp_running s \<longleftrightarrow> ch_pc s = CpLoop \<or> ch_pc s = CpClear \<or> ch_pc s = CpWait"

text \<open>What the display makes of the calls of a session: the last accepted frame and strip.\<close>

fun cp_view_step :: "vbs_call \<times> int \<Rightarrow> VbsNaviHudDisplay option \<times> VbsNaviHudMsg2 option
    \<Rightarrow> VbsNaviHudDisplay option \<times> VbsNaviHudMsg2 option" where
  "cp_view_step (SetHUDDisplayMsg d, rc) v = (if rc = 0 then (Some d, snd v) else v)"
| "cp_view_step (SetHUDDisplayMsg2 m, rc) v = (if rc = 0 then (fst v, Some m) else v)"
| "cp_view_step _ v = v"

definition cp_view :: "cp_calls \<Rightarrow> VbsNaviHudDisplay option \<times> VbsNaviHudMsg2 option" where
  "cp_view cs = fold cp_view_step cs (None, None)"

text \<open>The shown part of a snapshot.\<close>

definition cp_key :: "CpSnapshot \<Rightarrow> u8 list \<times> u32 \<times> u32 \<times> int \<times> int \<times> u8 \<times> int" where
  "cp_key n = (cstr (cs_road n), cs_event n, cs_side n, cs_number n, cs_dist n, cs_unit n, cs_angle n)"

definition cp_drawn :: "Settings \<Rightarrow> CpSnapshot \<Rightarrow> VbsNaviHudDisplay \<Rightarrow> VbsNaviHudMsg2 \<Rightarrow> bool" where
  "cp_drawn cfg n d m \<longleftrightarrow>
     (let label = (cfg_carplay_hud_debug cfg \<and> cp_icon n = 0) in
      nextManeuverInfo d = (if label then ucast HUD_STRAIGHT else cp_icon n) \<and>
      distanceValue d = cp_draw (cs_dist n) \<and>
      distanceUnit d = (if cs_unit n \<noteq> 0 then cs_unit n else 1) \<and>
      guidancePointName m = (if label then Some (cp_debug_label n) else cp_strip cfg n))"

definition cp_shows ::
  "Settings \<Rightarrow> CpSnapshot \<Rightarrow> VbsNaviHudDisplay option \<times> VbsNaviHudMsg2 option \<Rightarrow> bool" where
  "cp_shows cfg n v \<longleftrightarrow>
     (\<exists>d m. v = (Some d, Some m) \<and> cp_drawn cfg n d m) \<or>
     cp_key n = cp_key cp_blank \<and>
       (v = (None, None) \<or>
        (\<exists>b. v = (Some cp_zero_frame, Some \<lparr>guidancePointName = Some [32], syncBit = b\<rparr>)))"

definition cp_snap_ok :: "CpSnapshot \<Rightarrow> bool" where
  "cp_snap_ok n \<longleftrightarrow> length (cs_road n) = 256"

lemma cp_blank_ok [simp]: "cp_snap_ok cp_blank"
  by (simp add: cp_snap_ok_def cp_blank_def)

lemma cp_road_length_le: "cp_road_length r \<le> 255" "cp_road_length r \<le> length r"
proof -
  have "cp_back_off r 255 \<le> 255" using cp_back_off_spec [of r 255] by blast
  then show "cp_road_length r \<le> 255" "cp_road_length r \<le> length r"
    by (auto simp: cp_road_length_def Let_def)
qed

lemma cp_store_road_len: "length old = 256 \<Longrightarrow> length (cp_store_road r old) = 256"
proof (cases r)
  case (Some road)
  assume "length old = 256"
  then show ?thesis using Some cp_road_length_le [of road] by (simp add: cp_store_road_def Let_def)
qed (simp add: cp_store_road_def)

lemma cp_write_ok [simp]:
  "cp_snap_ok n \<Longrightarrow> cp_snap_ok (cp_write_turn r sd ev a k n)"
  "cp_snap_ok n \<Longrightarrow> cp_snap_ok (cp_write_distance t d u n)"
  by (simp_all add: cp_snap_ok_def cp_write_turn_def cp_write_distance_def cp_store_road_len)

lemma cp_same_key:
  assumes "cp_snap_ok n" and "cp_snap_ok p"
  shows "\<not> cp_distance_changed n p \<longleftrightarrow> cp_key n = cp_key p"
proof -
  have "take 256 (cstr (cs_road n)) = cstr (cs_road n)" "take 256 (cstr (cs_road p)) = cstr (cs_road p)"
    using assms length_cstr_le [of "cs_road n"] length_cstr_le [of "cs_road p"]
    by (simp_all add: cp_snap_ok_def)
  then show ?thesis
    by (auto simp: cp_distance_changed_def cp_maneuver_changed_def strncmp_differs_def cp_key_def)
qed

lemma cp_key_drawn: "cp_key n = cp_key p \<Longrightarrow> cp_drawn cfg n d m \<longleftrightarrow> cp_drawn cfg p d m"
proof -
  assume k: "cp_key n = cp_key p"
  then have e: "cstr (cs_road n) = cstr (cs_road p)" "cs_event n = cs_event p" "cs_side n = cs_side p"
    "cs_dist n = cs_dist p" "cs_unit n = cs_unit p" "cs_angle n = cs_angle p"
    by (simp_all add: cp_key_def)
  have "cp_icon n = cp_icon p" "cp_debug_label n = cp_debug_label p"
    unfolding cp_icon_def cp_debug_label_def e by (rule refl)+
  moreover have "strncpy_z 256 (cs_road n) = strncpy_z 256 (cs_road p)"
    unfolding strncpy_z_def e ..
  then have "cp_strip cfg n = cp_strip cfg p" unfolding cp_strip_def e by (rule arg_cong)
  ultimately show ?thesis unfolding cp_drawn_def e by (simp only:)
qed

lemma cp_shows_key: "cp_key n = cp_key p \<Longrightarrow> cp_shows cfg n v \<longleftrightarrow> cp_shows cfg p v"
  unfolding cp_shows_def using cp_key_drawn [of n p cfg] by auto

lemma cp_view_append: "cp_view (cs @ cs') = fold cp_view_step cs' (cp_view cs)"
  by (simp add: cp_view_def)

lemma cp_view_other [simp]: "fold cp_view_step (map (\<lambda>c. (c, 0)) [ConnCreate, ConnConnect b]) v = v"
  "fold cp_view_step (map (\<lambda>c. (c, 0)) [ConnFree]) v = v"
  "fold cp_view_step (map (\<lambda>c. (c, 0)) [WorkerStart]) v = v"
  "fold cp_view_step (map (\<lambda>c. (c, 0)) [GetHUDStatus]) v = v"
  by simp_all

text \<open>A send that went well brings the display from \<open>prev\<close> to \<open>cur\<close>.\<close>

lemma send_one_shows:
  assumes "cp_send_one cfg False rc1 rc2 cur prev sync splim ch force = Some (calls, True, sync')"
    and "cp_shows cfg prev v" and "cp_snap_ok cur" and "cp_snap_ok prev"
  shows "cp_shows cfg cur (fold cp_view_step calls v)"
proof (cases "\<not> cp_maneuver_changed cur prev \<and> \<not> cp_distance_changed cur prev \<and> \<not> ch \<and> \<not> force")
  case True
  then have "calls = []" using assms(1) by (simp add: cp_send_one_def)
  moreover have "cp_key cur = cp_key prev" using True cp_same_key [OF assms(3,4)] by blast
  ultimately show ?thesis using assms(2) cp_shows_key [of cur prev cfg v] by simp
next
  case False
  obtain r where r: "cp_strip cfg cur = Some r" using cp_strip_some by blast
  show ?thesis
    using assms(1) unfolding cp_send_one_def if_not_P [OF False] r
    by (auto simp: Let_def cp_shows_def cp_drawn_def r split: if_splits)
qed

lemma send_clear_shows:
  assumes "cp_send_clear c False rc1 rc2 sync = (calls, True, sync')"
  shows "cp_shows cfg cp_blank (fold cp_view_step calls v)"
  using assms by (auto simp: cp_send_clear_def cp_shows_def Let_def split: if_splits)

text \<open>
  The invariant: the sequence number counts the writes, the loop runs only behind a connection,
  and \<open>prev\<close> is what the display shows unless a call was missed.
\<close>

definition cp_hud_ok :: "Settings \<Rightarrow> cp_hud \<Rightarrow> bool" where
  "cp_hud_ok cfg s \<longleftrightarrow>
     cp_snap_ok (ch_snap s) \<and> ch_seq s = of_nat (2 * ch_commits s) \<and>
     (cp_running s \<or> ch_pc s = CpSetup \<longrightarrow> ch_up s) \<and>
     (cp_running s \<longrightarrow>
        ch_conn s \<and> cp_snap_ok (ch_prev s) \<and> ch_last s = of_nat (2 * ch_seen s) \<and>
        ch_seen s \<le> ch_commits s \<and>
        (\<not> ch_missed s \<longrightarrow> cp_shows cfg (ch_prev s) (cp_view (ch_calls s))) \<and>
        (cfg_carplay_speed_limit cfg \<and> \<not> ch_have_guidance s \<and> \<not> ch_stop s \<and>
           ch_seen s = ch_commits s \<longrightarrow> ch_prev s = cp_blank))"

section \<open>Preservation\<close>

definition cp_cur :: "Settings \<Rightarrow> cp_hud \<Rightarrow> CpSnapshot" where
  "cp_cur cfg s = (if cfg_carplay_speed_limit cfg \<and> \<not> ch_have_guidance s then cp_blank else ch_snap s)"

lemma cp_pass_send_cases:
  assumes "cp_pass_send cfg e s = Some t"
  obtains
    (fresh) splim painted calls ok sync where
      "ch_seq s \<noteq> ch_last s \<or> splim \<noteq> ch_prev_splim s"
      "cp_send_one cfg (ch_absent s) (ce_rc1 e) (ce_rc2 e) (cp_cur cfg s) (ch_prev s) (ch_sync s)
         painted (splim \<noteq> ch_prev_splim s) False = Some (calls, ok, sync)"
      "t = (cp_sent calls ok sync (s\<lparr>ch_splim := splim, ch_pc := CpClear\<rparr>))
         \<lparr>ch_prev := cp_cur cfg s, ch_prev_splim := splim, ch_last := ch_seq s, ch_seen := ch_commits s\<rparr>"
  | (again) splim painted calls ok sync where
      "ch_seq s = ch_last s" "splim = ch_prev_splim s"
      "cp_send_one cfg (ch_absent s) (ce_rc1 e) (ce_rc2 e) (ch_prev s) (ch_prev s) (ch_sync s)
         painted False True = Some (calls, ok, sync)"
      "t = cp_sent calls ok sync (s\<lparr>ch_splim := splim, ch_pc := CpClear\<rparr>)"
  | (quiet) splim where
      "ch_seq s = ch_last s" "t = s\<lparr>ch_splim := splim, ch_pc := CpClear\<rparr>"
proof -
  define splim where "splim = read_splim cfg (ce_splim e) (ce_now e)"
  define painted where
    "painted = (if splim \<noteq> 0 \<and> read_over cfg (ce_over e) \<and> odd (unat (ch_tick s)) then 0 else splim)"
  let ?s = "s\<lparr>ch_splim := splim, ch_pc := CpClear\<rparr>"
  have pass: "cp_pass_send cfg e s =
      (if ch_seq s \<noteq> ch_last s \<or> splim \<noteq> ch_prev_splim s then
         map_option (\<lambda>(calls, ok, sync). (cp_sent calls ok sync ?s)
             \<lparr>ch_prev := cp_cur cfg s, ch_prev_splim := splim, ch_last := ch_seq s, ch_seen := ch_commits s\<rparr>)
           (cp_send_one cfg (ch_absent s) (ce_rc1 e) (ce_rc2 e) (cp_cur cfg s) (ch_prev s) (ch_sync s)
              painted (splim \<noteq> ch_prev_splim s) False)
       else if ch_have_guidance s \<or> ch_prev_splim s \<noteq> 0 then
         map_option (\<lambda>(calls, ok, sync). cp_sent calls ok sync ?s)
           (cp_send_one cfg (ch_absent s) (ce_rc1 e) (ce_rc2 e) (ch_prev s) (ch_prev s) (ch_sync s)
              painted False True)
       else Some ?s)"
    unfolding cp_pass_send_def Let_def splim_def [symmetric] painted_def [symmetric] cp_cur_def by simp
  show thesis
  proof (cases "ch_seq s \<noteq> ch_last s \<or> splim \<noteq> ch_prev_splim s")
    case True
    then show ?thesis using assms fresh [of splim painted] by (auto simp: pass)
  next
    case no: False
    show ?thesis
    proof (cases "ch_have_guidance s \<or> ch_prev_splim s \<noteq> 0")
      case True
      then show ?thesis using no assms again [of splim painted] by (auto simp: pass)
    next
      case False
      then show ?thesis using no assms quiet [of splim] by (auto simp: pass)
    qed
  qed
qed

text \<open>The invariant of a running thread, clause by clause.\<close>

lemma cp_hud_okI:
  assumes "cp_running t" and "cp_snap_ok (ch_snap t)" and "ch_seq t = of_nat (2 * ch_commits t)"
    and "ch_up t" and "ch_conn t" and "cp_snap_ok (ch_prev t)" and "ch_last t = of_nat (2 * ch_seen t)"
    and "ch_seen t \<le> ch_commits t"
    and "\<not> ch_missed t \<Longrightarrow> cp_shows cfg (ch_prev t) (cp_view (ch_calls t))"
    and "cfg_carplay_speed_limit cfg \<Longrightarrow> \<not> ch_have_guidance t \<Longrightarrow> \<not> ch_stop t \<Longrightarrow>
      ch_seen t = ch_commits t \<Longrightarrow> ch_prev t = cp_blank"
  shows "cp_hud_ok cfg t"
  unfolding cp_hud_ok_def using assms by blast

lemma cp_hud_okD:
  assumes "cp_hud_ok cfg s" and "cp_running s"
  shows "cp_snap_ok (ch_snap s)" and "ch_seq s = of_nat (2 * ch_commits s)"
    and "ch_up s" and "ch_conn s" and "cp_snap_ok (ch_prev s)" and "ch_last s = of_nat (2 * ch_seen s)"
    and "ch_seen s \<le> ch_commits s"
    and "\<not> ch_missed s \<longrightarrow> cp_shows cfg (ch_prev s) (cp_view (ch_calls s))"
    and "cfg_carplay_speed_limit cfg \<Longrightarrow> \<not> ch_have_guidance s \<Longrightarrow> \<not> ch_stop s \<Longrightarrow>
      ch_seen s = ch_commits s \<Longrightarrow> ch_prev s = cp_blank"
  using assms unfolding cp_hud_ok_def by blast+

text \<open>A successful send from a state whose display shows \<open>prev\<close>.\<close>

lemma cp_sent_shows:
  assumes "cp_send_one cfg (ch_absent s) rc1 rc2 cur prev (ch_sync s) splim ch force = Some (calls, ok, sync)"
    and "\<not> ch_missed s \<longrightarrow> cp_shows cfg prev (cp_view (ch_calls s))"
    and "cp_snap_ok cur" and "cp_snap_ok prev"
    and "ch_calls t = ch_calls s" and "ch_missed t = ch_missed s" and "ch_absent t = ch_absent s"
    and "\<not> ch_missed (cp_sent calls ok sync t)"
  shows "cp_shows cfg cur (cp_view (ch_calls (cp_sent calls ok sync t)))"
proof -
  have m: "\<not> ch_missed s" "ok" "\<not> ch_absent s" using assms(6-8) by (simp_all add: cp_sent_def)
  then have one: "cp_send_one cfg False rc1 rc2 cur prev (ch_sync s) splim ch force = Some (calls, True, sync)"
    and shown: "cp_shows cfg prev (cp_view (ch_calls s))" using assms(1,2) by simp_all
  from send_one_shows [OF one shown assms(3,4)] assms(5) show ?thesis
    by (simp add: cp_sent_def cp_view_append)
qed

lemma cp_cur_ok: "cp_snap_ok (ch_snap s) \<Longrightarrow> cp_snap_ok (cp_cur cfg s)"
  by (simp add: cp_cur_def)

lemma pass_send_ok:
  assumes "cp_hud_ok cfg s" and "ch_pc s = CpLoop" and "cp_pass_send cfg e s = Some t"
  shows "cp_hud_ok cfg t"
proof -
  have "cp_running s" using assms(2) by (simp add: cp_running_def)
  note s = cp_hud_okD [OF assms(1) this]
  from assms(3) show ?thesis
  proof (cases rule: cp_pass_send_cases)
    case (fresh splim painted calls ok sync)
    let ?u = "s\<lparr>ch_splim := splim, ch_pc := CpClear\<rparr>"
    have "\<not> ch_missed (cp_sent calls ok sync ?u) \<Longrightarrow>
        cp_shows cfg (cp_cur cfg s) (cp_view (ch_calls (cp_sent calls ok sync ?u)))"
      using cp_sent_shows [OF fresh(2) s(8) cp_cur_ok [OF s(1)] s(5), of ?u] by simp
    then show ?thesis
      using s(1-7) cp_cur_ok [OF s(1)] unfolding fresh(3)
      by (intro cp_hud_okI) (simp_all add: cp_running_def cp_sent_def, simp add: cp_cur_def)
  next
    case (again splim painted calls ok sync)
    let ?u = "s\<lparr>ch_splim := splim, ch_pc := CpClear\<rparr>"
    have "\<not> ch_missed (cp_sent calls ok sync ?u) \<Longrightarrow>
        cp_shows cfg (ch_prev s) (cp_view (ch_calls (cp_sent calls ok sync ?u)))"
      using cp_sent_shows [OF again(3) s(8) s(5) s(5), of ?u] by simp
    then show ?thesis
      using s(1-7,9) unfolding again(4)
      by (intro cp_hud_okI) (simp_all add: cp_running_def cp_sent_def)
  next
    case (quiet splim)
    then show ?thesis
      using s unfolding quiet(2) by (intro cp_hud_okI) (simp_all add: cp_running_def)
  qed
qed

lemma clear_display_ok:
  assumes "cp_hud_ok cfg s" and "cp_running s" and "cp_clear_display rc1 rc2 s = (ok, t)"
  shows "ok \<Longrightarrow> cp_hud_ok cfg (cp_wiped cp_blank 0 t)"
    and "\<not> ok \<Longrightarrow> cp_hud_ok cfg t"
    and "cp_running t" and "ch_pc t = ch_pc s"
proof -
  obtain calls o' sync where c: "cp_send_clear (ch_conn s) (ch_absent s) rc1 rc2 (ch_sync s) = (calls, o', sync)"
    by (metis prod_cases3)
  have t: "ok = o'" "t = cp_sent calls o' sync s"
    using assms(3) by (auto simp: cp_clear_display_def c)
  show "ch_pc t = ch_pc s" by (simp add: t cp_sent_def)
  then show "cp_running t" using assms(2) by (simp add: cp_running_def)
  have sh: "cp_shows cfg cp_blank (cp_view (ch_calls t))" if "\<not> ch_missed t"
    using that c send_clear_shows [of "ch_conn s" rc1 rc2 "ch_sync s" calls sync cfg "cp_view (ch_calls s)"]
    by (simp add: t cp_sent_def cp_view_append)
  note s = cp_hud_okD [OF assms(1,2)]
  show "cp_hud_ok cfg (cp_wiped cp_blank 0 t)" if ok
    using s(1-4) assms(2) sh
    by (intro cp_hud_okI) (simp_all add: cp_wiped_def cp_running_def t cp_sent_def)
  show "cp_hud_ok cfg t" if "\<not> ok"
    using s assms(2) that by (intro cp_hud_okI) (simp_all add: cp_running_def t cp_sent_def)
qed

lemma cp_waits_ok: "cp_hud_ok cfg s \<Longrightarrow> ch_pc s = CpClear \<Longrightarrow> cp_hud_ok cfg (s\<lparr>ch_last_tick := k, ch_pc := CpWait\<rparr>)"
  by (simp add: cp_hud_ok_def cp_running_def)

lemma cp_pc_kept [simp]: "ch_pc (cp_wiped p l s) = ch_pc s" "ch_pc (cp_sent calls ok sync s) = ch_pc s"
  by (simp_all add: cp_wiped_def cp_sent_def)

lemma nav_clear_ok:
  assumes "cp_hud_ok cfg s" and "cp_running s"
    and "cp_send_one cfg (ch_absent s) rc1 rc2 cp_blank (ch_prev s) (ch_sync s) splim True True =
      Some (calls, ok, sync)"
  shows "cp_hud_ok cfg (if ok then cp_wiped cp_blank splim (cp_sent calls ok sync s) else cp_sent calls ok sync s)"
proof -
  let ?t = "cp_sent calls ok sync s"
  note s = cp_hud_okD [OF assms(1,2)]
  have sh: "\<not> ch_missed ?t \<Longrightarrow> cp_shows cfg cp_blank (cp_view (ch_calls ?t))"
    using cp_sent_shows [OF assms(3) s(8) cp_blank_ok s(5), of s] by simp
  show ?thesis
  proof (cases ok)
    case True
    then show ?thesis using sh s(1-4) assms(2)
      by (simp, intro cp_hud_okI) (simp_all add: cp_wiped_def cp_running_def cp_sent_def)
  next
    case False
    then show ?thesis using s assms(2)
      by (simp, intro cp_hud_okI) (simp_all add: cp_running_def cp_sent_def)
  qed
qed

lemma pass_clear_ok:
  assumes "cp_hud_ok cfg s" and "ch_pc s = CpClear" and "cp_pass_clear cfg rc1 rc2 s = Some t"
  shows "cp_hud_ok cfg t"
proof -
  let ?s = "s\<lparr>ch_fullclear_req := False, ch_clear_req := False\<rparr>"
  have s: "cp_hud_ok cfg ?s" "cp_running ?s" "ch_pc ?s = CpClear"
    using assms(1,2) by (simp_all add: cp_hud_ok_def cp_running_def)
  obtain ok u where u: "cp_clear_display rc1 rc2 ?s = (ok, u)" by fastforce
  note cl = clear_display_ok [OF s(1,2) u]
  have wipe: "cp_hud_ok cfg (if ok then cp_wiped cp_blank 0 u else u)"
    "ch_pc (if ok then cp_wiped cp_blank 0 u else u) = CpClear"
    using cl s(3) by simp_all
  obtain r where r: "cp_hud_ok cfg r" "ch_pc r = CpClear" "t = r\<lparr>ch_last_tick := ch_tick r, ch_pc := CpWait\<rparr>"
  proof (cases "ch_fullclear_req s \<or> (ch_clear_req s \<and> \<not> (cfg_carplay_speed_limit cfg \<and> ch_splim s > 0))")
    case True
    then show ?thesis
      using that [OF wipe] assms(3) u by (auto simp: cp_pass_clear_def Let_def split: if_splits)
  next
    case False
    show ?thesis
    proof (cases "ch_clear_req s")
      case True
      then obtain calls ok sync where o: "cp_send_one cfg (ch_absent ?s) rc1 rc2 cp_blank (ch_prev ?s) (ch_sync ?s)
          (ch_splim s) True True = Some (calls, ok, sync)"
          "t = (let r = (if ok then cp_wiped cp_blank (ch_splim s) (cp_sent calls ok sync ?s)
             else cp_sent calls ok sync ?s) in r\<lparr>ch_last_tick := ch_tick r, ch_pc := CpWait\<rparr>)"
        using assms(3) False by (auto simp: cp_pass_clear_def cp_sent_def Let_def split: if_splits)
      show ?thesis
        using that [OF nav_clear_ok [OF s(1,2) o(1)]] s(3) o(2) by (simp add: Let_def)
    next
      case c: False
      then show ?thesis using that [OF s(1,3)] assms(3) False by (simp add: cp_pass_clear_def Let_def)
    qed
  qed
  then show ?thesis using cp_waits_ok by simp
qed

lemma cp_hud_ok_idleI:
  assumes "\<not> cp_running t" and "cp_snap_ok (ch_snap t)" and "ch_seq t = of_nat (2 * ch_commits t)"
    and "ch_pc t = CpSetup \<Longrightarrow> ch_up t"
  shows "cp_hud_ok cfg t"
  unfolding cp_hud_ok_def using assms by blast

lemma cp_hud_ok_idleD:
  assumes "cp_hud_ok cfg s"
  shows "cp_snap_ok (ch_snap s)" and "ch_seq s = of_nat (2 * ch_commits s)"
    and "ch_pc s = CpSetup \<Longrightarrow> ch_up s"
  using assms unfolding cp_hud_ok_def by blast+

lemma commit_ok:
  assumes "cp_hud_ok cfg s" and "\<And>n. cp_snap_ok n \<Longrightarrow> cp_snap_ok (f n)"
  shows "cp_hud_ok cfg (cp_commit f (s\<lparr>ch_have_guidance := g\<rparr>))"
proof (cases "cp_running s")
  case True
  note d = cp_hud_okD [OF assms(1) True]
  show ?thesis
    by (rule cp_hud_okI) (use d(1-8) True assms(2) in \<open>simp_all add: cp_commit_def cp_running_def add.assoc\<close>)
next
  case False
  note d = cp_hud_ok_idleD [OF assms(1)]
  show ?thesis
    by (rule cp_hud_ok_idleI) (use d False assms(2) in \<open>simp_all add: cp_commit_def cp_running_def add.assoc\<close>)
qed

text \<open>Steps that leave the sender's own state alone.\<close>

lemma cp_hud_ok_same:
  assumes "cp_hud_ok cfg s" and "ch_snap t = ch_snap s" "ch_seq t = ch_seq s" "ch_commits t = ch_commits s"
    and "ch_pc t = ch_pc s" "ch_up t = ch_up s" "ch_conn t = ch_conn s" "ch_prev t = ch_prev s"
    and "ch_last t = ch_last s" "ch_seen t = ch_seen s" "ch_missed t = ch_missed s" "ch_calls t = ch_calls s"
    and "\<not> ch_have_guidance t \<and> \<not> ch_stop t \<Longrightarrow> \<not> ch_have_guidance s \<and> \<not> ch_stop s"
  shows "cp_hud_ok cfg t"
  using assms(1,13) unfolding cp_hud_ok_def cp_running_def assms(2-12) by blast

lemma guidance_ok: "cp_hud_ok cfg s \<Longrightarrow> cp_hud_ok cfg (s\<lparr>ch_have_guidance := True\<rparr>)"
  by (erule cp_hud_ok_same) simp_all

lemma status_ok: "cp_hud_ok cfg s \<Longrightarrow> cp_hud_ok cfg (hud_on_status v s)"
  unfolding hud_on_status_def by (simp add: guidance_ok commit_ok)

lemma cp_view_setup:
  assumes "cp_sender_setup e b1 b2 s = (ok, t)" and "ch_calls s = []"
  shows "cp_view (ch_calls t) = (None, None)" and "ok \<Longrightarrow> ch_conn t"
    and "ch_missed t = ch_missed s" and "ch_snap t = ch_snap s" and "ch_seq t = ch_seq s"
    and "ch_commits t = ch_commits s" and "ch_up t = ch_up s"
  using assms by (auto simp: cp_sender_setup_def cp_call_def cp_view_def Let_def split: if_splits)

lemma main_begin_ok:
  assumes "cp_hud_ok cfg s" and "ch_pc s = CpSetup"
  shows "cp_hud_ok cfg (cp_main_begin e b1 b2 tk rc1 rc2 s)"
proof -
  obtain ok t where t: "cp_sender_setup e b1 b2 (s\<lparr>ch_calls := [], ch_missed := False\<rparr>) = (ok, t)"
    by fastforce
  note st = cp_view_setup [OF t]
  have up: "ch_up s" "cp_snap_ok (ch_snap s)" "ch_seq s = of_nat (2 * ch_commits s)"
    using assms cp_hud_ok_idleD [OF assms(1)] by simp_all
  show ?thesis
  proof (cases ok)
    case False
    have "ch_snap (cp_sender_teardown rc1 t) = ch_snap s" "ch_seq (cp_sender_teardown rc1 t) = ch_seq s"
      "ch_commits (cp_sender_teardown rc1 t) = ch_commits s"
      using st by (simp_all add: cp_sender_teardown_def cp_call_def Let_def)
    then show ?thesis
      using False up by (intro cp_hud_ok_idleI) (simp_all add: cp_main_begin_def t cp_running_def)
  next
    case True
    let ?r = "t\<lparr>ch_active := True, ch_ticker_up := tk, ch_prev := cp_blank, ch_sync := 0,
        ch_last := 0, ch_prev_splim := 0, ch_last_tick := 0, ch_seen := 0, ch_pc := CpLoop\<rparr>"
    have run: "cp_running ?r" by (simp add: cp_running_def)
    have r: "cp_hud_ok cfg ?r"
      by (rule cp_hud_okI) (use run st up True in \<open>simp_all add: cp_shows_def\<close>)
    obtain ok' u where u: "cp_clear_display rc1 rc2 ?r = (ok', u)" by fastforce
    have "cp_hud_ok cfg u"
    proof -
      obtain calls o' sync where c: "cp_send_clear (ch_conn ?r) (ch_absent ?r) rc1 rc2 (ch_sync ?r) =
          (calls, o', sync)" by (metis prod_cases3)
      have u': "u = cp_sent calls o' sync ?r"
        using u unfolding cp_clear_display_def c Let_def by auto
      have "cp_shows cfg cp_blank (cp_view (ch_calls u))" if "\<not> ch_missed u"
        using that c send_clear_shows [of "ch_conn ?r" rc1 rc2 "ch_sync ?r" calls sync cfg "cp_view (ch_calls ?r)"]
        by (simp add: u' cp_sent_def cp_view_append)
      then show ?thesis
        using cp_hud_okD [OF r run]
        by (intro cp_hud_okI) (simp_all add: u' cp_sent_def cp_running_def)
    qed
    then show ?thesis
      using True r u by (simp add: cp_main_begin_def t Let_def)
  qed
qed

lemma cp_start_ok: "cp_hud_ok cfg s \<Longrightarrow> cp_hud_ok cfg (hud_send_start ok s)"
proof (cases "ch_up s")
  case False
  assume ok: "cp_hud_ok cfg s"
  note d = cp_hud_ok_idleD [OF ok]
  have "\<not> cp_running s" using False cp_hud_okD(3) [OF ok] by blast
  then show ?thesis
    using False d by (cases ok; intro cp_hud_ok_idleI) (auto simp: hud_send_start_def Let_def cp_running_def)
qed (simp add: hud_send_start_def)

lemma cp_finish_ok: "cp_hud_ok cfg s \<Longrightarrow> cp_hud_ok cfg (cp_main_finish rc s)"
  using cp_hud_ok_idleD [of cfg s]
  by (intro cp_hud_ok_idleI)
    (simp_all add: cp_main_finish_def cp_running_def cp_sender_teardown_def cp_call_def Let_def)

lemma cp_step_ok: "cp_step cfg s t \<Longrightarrow> cp_hud_ok cfg s \<Longrightarrow> cp_hud_ok cfg t"
proof (induction rule: cp_step.induct)
  case (next_turn s r sd ev a n)
  have "cp_commit f (s\<lparr>ch_have_guidance := ch_have_guidance s\<rparr>) = cp_commit f s" for f by simp
  then show ?case
    using guidance_ok [OF commit_ok [OF next_turn, of "cp_write_turn r sd ev a n" "ch_have_guidance s"]]
    by (simp add: hud_on_next_turn_def)
next
  case (distance s m t d u)
  have "cp_commit f (s\<lparr>ch_have_guidance := ch_have_guidance s\<rparr>) = cp_commit f s" for f by simp
  then show ?case
    using commit_ok [OF distance, of "cp_write_distance t d u" "ch_have_guidance s"]
    by (simp add: hud_on_distance_def)
next
  case (stop_request s)
  then show ?case by (cases "ch_up s"; rule cp_hud_ok_same) (simp_all add: hud_send_stop_request_def)
next
  case (stop_join s)
  have "\<not> cp_running s" using stop_join(3) by (simp add: cp_running_def)
  then show ?case
    using cp_hud_ok_idleD [OF stop_join(4)] stop_join(3)
    by (intro cp_hud_ok_idleI) (simp_all add: hud_send_stop_join_def cp_running_def)
next
  case (main_begin s b1 e ok rc1 rc2)
  then show ?case using main_begin_ok by simp
next
  case (pass_send s e t)
  then show ?case using pass_send_ok by simp
next
  case (pass_clear s rc1 rc2 t)
  then show ?case using pass_clear_ok by simp
next
  case (wake s)
  have "cp_running s" using wake(1) by (simp add: cp_running_def)
  note d = cp_hud_okD [OF wake(3) this]
  show ?case by (rule cp_hud_okI) (use d in \<open>simp_all add: cp_running_def\<close>)
next
  case (clear s)
  then show ?case by (rule cp_hud_ok_same) (simp_all add: hud_request_clear_def)
next
  case (fullclear s)
  then show ?case by (rule cp_hud_ok_same) (simp_all add: hud_request_fullclear_def)
next
  case (status_cb s b)
  then show ?case by (rule cp_hud_ok_same) (simp_all add: cp_hud_status_cb_def)
next
  case (nav_took_reset s)
  then show ?case by (rule cp_hud_ok_same) simp_all
next
  case (tick s)
  from tick(2) show ?case by (rule cp_hud_ok_same) (simp_all add: splim_ticker_def)
qed (simp_all add: status_ok cp_start_ok cp_finish_ok)

lemma cp_reachable_ok: "(cp_step cfg)\<^sup>*\<^sup>* cp_hud_init s \<Longrightarrow> cp_hud_ok cfg s"
proof (induction rule: rtranclp_induct)
  case base
  show ?case by (rule cp_hud_ok_idleI) (simp_all add: cp_running_def cp_hud_init_def)
next
  case (step t u)
  then show ?case using cp_step_ok by blast
qed

lemma cp_up_to_date:
  assumes "cp_hud_ok cfg s" and "cp_running s" and "ch_commits s - ch_seen s < 2 ^ 31"
    and "ch_seq s = ch_last s"
  shows "ch_seen s = ch_commits s"
proof -
  note s = cp_hud_okD [OF assms(1,2)]
  have "2 * ch_seen s = 2 * ch_commits s"
    by (rule u32_counter_eq) (use s(2,6,7) assms(3,4) in simp_all)
  then show ?thesis by simp
qed

section \<open>Properties\<close>

lemma send_one_total: "\<exists>x. cp_send_one cfg ab rc1 rc2 cur prev sync sp ch f = Some x"
proof -
  obtain r where r: "cp_strip cfg cur = Some r" using cp_strip_some by blast
  have "cp_send_one cfg ab rc1 rc2 cur prev sync sp ch f \<noteq> None"
    unfolding cp_send_one_def r by (simp add: Let_def del: not_None_eq)
  then show ?thesis by blast
qed

lemma cp_pass_send_total: "\<exists>t. cp_pass_send cfg e s = Some t"
proof -
  have "\<exists>x. cp_send_one cfg ab rc1 rc2 cur prev sync sp ch f = Some x" for ab rc1 rc2 cur prev sync sp ch f
    using send_one_total by blast
  then show ?thesis unfolding cp_pass_send_def Let_def by auto
qed

lemma display_tracks:
  assumes "(cp_step cfg)\<^sup>*\<^sup>* cp_hud_init s" and "ch_pc s = CpLoop"
  shows "\<exists>t. cp_pass_send cfg e s = Some t \<and>
    (\<not> ch_missed t \<longrightarrow> cp_shows cfg (ch_prev t) (cp_view (ch_calls t))) \<and>
    (ch_seq s \<noteq> ch_last s \<longrightarrow>
       ch_prev t = (if cfg_carplay_speed_limit cfg \<and> \<not> ch_have_guidance s then cp_blank else ch_snap s))"
proof -
  obtain t where t: "cp_pass_send cfg e s = Some t" using cp_pass_send_total by blast
  have ok: "cp_hud_ok cfg t" using pass_send_ok [OF cp_reachable_ok [OF assms(1)] assms(2) t] .
  have "ch_pc t = CpClear" using t by (cases rule: cp_pass_send_cases) simp_all
  then have run: "cp_running t" by (simp add: cp_running_def)
  have "ch_prev t = cp_cur cfg s" if "ch_seq s \<noteq> ch_last s"
    using t that by (cases rule: cp_pass_send_cases) simp_all
  then show ?thesis using t cp_hud_okD(8) [OF ok run] by (auto simp: cp_cur_def)
qed

text \<open>
  C9.  The display follows the decoder: in every reachable state of the sender - any interleaving
  of the decoder's calls, clear requests, presence replies, ticks, session starts and stops - a
  pass of the loop never fails, and unless a call of this session failed or was withheld, the
  display afterwards shows exactly the snapshot the sender holds as sent; when the decoder wrote
  since the last pass, that is the current snapshot, or blank when a posted limit is shown and
  no route is active.
\<close>

theorem carplay_display_tracks:
  assumes "(cp_step cfg)\<^sup>*\<^sup>* cp_hud_init s" and "ch_pc s = CpLoop"
  shows "\<exists>t. cp_pass_send cfg e s = Some t \<and>
    (\<not> ch_missed t \<longrightarrow> cp_shows cfg (ch_prev t) (cp_view (ch_calls t))) \<and>
    (ch_seq s \<noteq> ch_last s \<longrightarrow>
       ch_prev t = (if cfg_carplay_speed_limit cfg \<and> \<not> ch_have_guidance s then cp_blank else ch_snap s))"
  by (rule display_tracks [OF assms])

lemma send_one_frames:
  assumes "cp_send_one cfg ab rc1 rc2 cur prev sync sp ch f = Some (calls, ok, sync')"
    and "(SetHUDDisplayMsg d, rc) \<in> set calls" and "\<not> cfg_carplay_hud_debug cfg"
  shows "nextManeuverInfo d = cp_icon cur \<and> distanceValue d = cp_draw (cs_dist cur)"
proof -
  obtain r where r: "cp_strip cfg cur = Some r" using cp_strip_some by blast
  show ?thesis using assms(1,2) unfolding cp_send_one_def r
    by (auto simp: Let_def assms(3) split: if_splits)
qed

lemma cp_blank_frame: "cp_icon cp_blank = 0" "cp_draw (cs_dist cp_blank) = 0"
  by (simp_all add: cp_icon_def cp_blank_def cp_draw_def cp_kTurnIcons_def i32_rangeI)

text \<open>
  C29.  A finished route is never repainted while the posted limit is shown: with the speed-limit
  display on and no route active, every frame a pass sends - on a new snapshot, a new limit, or
  as keep-alive - has no maneuver glyph and no distance, whatever the stale snapshot holds.
\<close>

theorem finished_route_stays_off:
  assumes "(cp_step cfg)\<^sup>*\<^sup>* cp_hud_init s" and "ch_pc s = CpLoop" and "\<not> ch_stop s"
    and "cfg_carplay_speed_limit cfg" and "\<not> cfg_carplay_hud_debug cfg" and "\<not> ch_have_guidance s"
    and "ch_commits s - ch_seen s < 2 ^ 31" and "cp_pass_send cfg e s = Some t"
  shows "\<exists>calls. ch_calls t = ch_calls s @ calls \<and>
    (\<forall>d rc. (SetHUDDisplayMsg d, rc) \<in> set calls \<longrightarrow> nextManeuverInfo d = 0 \<and> distanceValue d = 0)"
proof -
  have ok: "cp_hud_ok cfg s" and run: "cp_running s"
    using cp_reachable_ok [OF assms(1)] assms(2) by (simp_all add: cp_running_def)
  have cur: "cp_cur cfg s = cp_blank" using assms(4,6) by (simp add: cp_cur_def)
  have prev: "ch_prev s = cp_blank" if "ch_seq s = ch_last s"
    using cp_hud_okD(9) [OF ok run assms(4,6,3) cp_up_to_date [OF ok run assms(7) that]] .
  have zero: "nextManeuverInfo d = 0 \<and> distanceValue d = 0"
    if "cp_send_one cfg ab rc1 rc2 cp_blank p sync sp ch f = Some (calls, o', sync')"
      "(SetHUDDisplayMsg d, rc) \<in> set calls" for d rc ab rc1 rc2 p sync sp ch f calls o' sync'
    using send_one_frames [OF that assms(5)] by (simp add: cp_blank_frame)
  from assms(8) show ?thesis
  proof (cases rule: cp_pass_send_cases)
    case (fresh splim painted calls ok sync)
    have "ch_calls t = ch_calls s @ calls" by (simp add: fresh(3) cp_sent_def)
    then show ?thesis using zero fresh(2) unfolding cur by blast
  next
    case (again splim painted calls ok sync)
    have "ch_calls t = ch_calls s @ calls" by (simp add: again(4) cp_sent_def)
    then show ?thesis using zero again(3) unfolding prev [OF again(1)] by blast
  next
    case (quiet splim)
    then show ?thesis by simp
  qed
qed

lemma send_forced:
  assumes "cp_send_one cfg False 0 0 cur prev sync sp ch True = Some (calls, ok, sync')"
  shows "\<exists>d m. calls = [(SetHUDDisplayMsg d, 0), (SetHUDDisplayMsg2 m, 0)] \<and> cp_drawn cfg cur d m"
proof -
  obtain r where r: "cp_strip cfg cur = Some r" using cp_strip_some by blast
  show ?thesis using assms unfolding cp_send_one_def r
    by (auto simp: Let_def cp_drawn_def r)
qed

text \<open>
  C30.  A wipe that fails is not retried: when the session is gone and the blank frame cannot be
  sent, the request is dropped, the route stays marked active, and the next pass sends the old
  maneuver again as its keep-alive.
\<close>

theorem failed_wipe_is_forgotten:
  assumes "ch_pc s = CpClear" and "ch_fullclear_req s" and "ch_conn s" and "\<not> ch_absent s"
    and "ch_have_guidance s" and "ch_seq s = ch_last s" and "rc1 \<noteq> 0"
    and "read_splim cfg (ce_splim e) (ce_now e) = ch_prev_splim s" and "ce_rc1 e = 0" "ce_rc2 e = 0"
  shows "\<exists>t u d m. cp_pass_clear cfg rc1 rc2 s = Some t \<and> \<not> ch_fullclear_req t \<and> \<not> ch_clear_req t \<and>
    ch_have_guidance t \<and> cp_pass_send cfg e (t\<lparr>ch_pc := CpLoop\<rparr>) = Some u \<and>
    ch_calls u = ch_calls t @ [(SetHUDDisplayMsg d, 0), (SetHUDDisplayMsg2 m, 0)] \<and>
    cp_drawn cfg (ch_prev s) d m"
proof -
  define t where "t = (cp_sent [(SetHUDDisplayMsg cp_zero_frame, rc1)] False (ch_sync s)
      (s\<lparr>ch_fullclear_req := False, ch_clear_req := False\<rparr>))\<lparr>ch_last_tick := ch_tick s, ch_pc := CpWait\<rparr>"
  have t: "cp_pass_clear cfg rc1 rc2 s = Some t"
    using assms(1-4,7)
    by (simp add: cp_pass_clear_def cp_clear_display_def cp_send_clear_def t_def cp_sent_def Let_def)
  have tf: "\<not> ch_fullclear_req t" "\<not> ch_clear_req t" "ch_have_guidance t" "ch_seq t = ch_last t"
    "\<not> ch_absent t" "ch_prev t = ch_prev s" "ch_prev_splim t = ch_prev_splim s"
    using assms(4-6) by (simp_all add: t_def cp_sent_def)
  obtain u where u: "cp_pass_send cfg e (t\<lparr>ch_pc := CpLoop\<rparr>) = Some u" using cp_pass_send_total by blast
  obtain calls ok sync painted where o: "ch_calls u = ch_calls t @ calls"
    "cp_send_one cfg False 0 0 (ch_prev s) (ch_prev s) (ch_sync t) painted False True = Some (calls, ok, sync)"
    using u tf assms(8-10)
    by (auto simp: cp_pass_send_def cp_sent_def Let_def split: if_splits)
  from send_forced [OF o(2)] show ?thesis using t tf(1-3) u o(1) by auto
qed

lemma send_one_first:
  assumes "cp_send_one cfg False rc1 rc2 cur prev sync sp ch f = Some (calls, ok, sync')"
    and "cp_distance_changed cur prev"
  shows "\<exists>d rest. calls = (SetHUDDisplayMsg d, rc1) # rest"
proof -
  obtain r where r: "cp_strip cfg cur = Some r" using cp_strip_some by blast
  show ?thesis using assms unfolding cp_send_one_def r by (auto simp: Let_def split: if_splits)
qed

lemma cp_icon_event0: "cs_event n = 0 \<Longrightarrow> cp_icon n = 0"
proof -
  let ?i = "to_i32 (sint (cs_side n) - 1)"
  let ?j = "nat (if ?i < 0 \<or> ?i > 2 then 2 else ?i)"
  assume "cs_event n = 0"
  then have "cp_icon n = ucast (cp_kTurnIcons ! 0 ! ?j)" by (simp add: cp_icon_def Let_def)
  moreover have "cp_kTurnIcons ! 0 ! j = 0" if "j < 3" for j
    using that by (auto simp: cp_kTurnIcons_def less_Suc_eq numeral_3_eq_3)
  moreover have "?j < 3" by auto
  ultimately show ?thesis by (simp only: ucast_0)
qed

text \<open>
  Without the speed-limit display a finished route comes back: after the wipe for navigation
  switched off succeeded, one distance message is enough for the next pass to send the glyph of
  the old snapshot again.
\<close>

theorem nav_off_repainted:
  assumes "ch_pc s = CpClear" and "ch_clear_req s" and "\<not> ch_fullclear_req s" and "ch_conn s"
    and "\<not> ch_absent s" and "\<not> cfg_carplay_speed_limit cfg" and "\<not> cfg_carplay_hud_debug cfg"
    and "cp_icon (ch_snap s) \<noteq> 0" and "ce_rc1 e = 0" "ce_rc2 e = 0"
  shows "\<exists>t u calls d. cp_pass_clear cfg 0 0 s = Some t \<and> \<not> ch_have_guidance t \<and>
    cp_pass_send cfg e (hud_on_distance m k dd un (t\<lparr>ch_pc := CpLoop\<rparr>)) = Some u \<and>
    ch_calls u = ch_calls t @ calls \<and> (SetHUDDisplayMsg d, 0) \<in> set calls \<and>
    nextManeuverInfo d = cp_icon (ch_snap s)"
proof -
  let ?calls = "[(SetHUDDisplayMsg cp_zero_frame, 0 :: int),
      (SetHUDDisplayMsg2 \<lparr>guidancePointName = Some [32], syncBit = cp_bump (ch_sync s)\<rparr>, 0)]"
  define t where "t = (cp_wiped cp_blank 0 (cp_sent ?calls True (cp_bump (ch_sync s))
      (s\<lparr>ch_fullclear_req := False, ch_clear_req := False\<rparr>)))\<lparr>ch_last_tick := ch_tick s, ch_pc := CpWait\<rparr>"
  have t: "cp_pass_clear cfg 0 0 s = Some t"
    using assms(1-6)
    by (simp add: cp_pass_clear_def cp_clear_display_def cp_send_clear_def t_def cp_sent_def
        cp_wiped_def Let_def)
  let ?w = "hud_on_distance m k dd un (t\<lparr>ch_pc := CpLoop\<rparr>)"
  let ?n = "cp_write_distance k dd un (ch_snap s)"
  have w: "\<not> ch_have_guidance t" "ch_seq ?w = ch_last ?w + 2" "ch_snap ?w = ?n" "ch_prev ?w = cp_blank"
    "\<not> ch_absent ?w" "ch_calls ?w = ch_calls t"
    using assms(5)
    by (simp_all add: t_def hud_on_distance_def cp_commit_def cp_wiped_def cp_sent_def)
  have fresh: "ch_seq ?w \<noteq> ch_last ?w" unfolding w(2) by simp
  obtain u where u: "cp_pass_send cfg e ?w = Some u" using cp_pass_send_total by blast
  have cur: "cp_cur cfg ?w = ?n" using assms(6) w(3) by (simp add: cp_cur_def)
  obtain splim painted calls ok sync where o: "ch_calls u = ch_calls t @ calls"
    "cp_send_one cfg False 0 0 ?n cp_blank (ch_sync ?w) painted (splim \<noteq> ch_prev_splim ?w) False =
      Some (calls, ok, sync)"
    using u
  proof (cases rule: cp_pass_send_cases)
    case (fresh splim painted calls ok sync)
    then show ?thesis
      using that [of calls painted splim ok sync] w(4-6) assms(9,10) unfolding cur
      by (simp add: cp_sent_def)
  qed (use fresh in simp_all)
  have icon: "cp_icon ?n = cp_icon (ch_snap s)" by (simp add: cp_icon_def cp_write_distance_def)
  have "cs_event ?n \<noteq> 0" using cp_icon_event0 [of ?n] assms(8) icon by auto
  then have "cp_distance_changed ?n cp_blank"
    by (simp add: cp_distance_changed_def cp_maneuver_changed_def) (simp add: cp_blank_def)
  then obtain d rest where "calls = (SetHUDDisplayMsg d, 0) # rest"
    using send_one_first [OF o(2)] by blast
  then have "(SetHUDDisplayMsg d, 0) \<in> set calls" by simp
  then show ?thesis using t w(1) u o(1) send_one_frames [OF o(2) _ assms(7)] icon by auto
qed

section \<open>From the message to the display\<close>

text \<open>The decoder's calls, one after another.\<close>

fun cp_feed1 :: "cp_hud_call \<Rightarrow> cp_hud \<Rightarrow> cp_hud" where
  "cp_feed1 (CpStatus v) s = hud_on_status v s"
| "cp_feed1 (CpNextTurn road side event angle number) s = hud_on_next_turn (Some road) side event angle number s"
| "cp_feed1 (CpDistance m k d u) s = hud_on_distance m k d u s"

definition cp_feed :: "cp_hud_call list \<Rightarrow> cp_hud \<Rightarrow> cp_hud" where
  "cp_feed cs s = fold cp_feed1 cs s"

text \<open>The snapshot holds the turn of a call.\<close>

fun cp_holds :: "cp_hud_call \<Rightarrow> CpSnapshot \<Rightarrow> bool" where
  "cp_holds (CpNextTurn road side event angle number) n \<longleftrightarrow>
     cstr (cs_road n) = road \<and> cs_side n = side \<and> cs_event n = event \<and> cs_angle n = angle \<and>
     cs_number n = number"
| "cp_holds _ n \<longleftrightarrow> True"

lemma cp_store_road_short:
  assumes "length road \<le> 255" and "0 \<notin> set road"
  shows "cstr (cp_store_road (Some road) old) = road"
  using assms by (simp add: cp_store_road_def cp_road_length_def Let_def)

lemma feed1_holds:
  assumes "call_ok c"
  shows "is_turn c \<Longrightarrow> cp_holds c (ch_snap (cp_feed1 c s)) \<and> ch_have_guidance (cp_feed1 c s) \<and>
      ch_commits (cp_feed1 c s) = ch_commits s + 1"
    and "\<not> is_turn c \<Longrightarrow> (cp_holds x (ch_snap s) \<longrightarrow> cp_holds x (ch_snap (cp_feed1 c s))) \<and>
      (ch_have_guidance s \<longrightarrow> ch_have_guidance (cp_feed1 c s)) \<and> ch_commits s \<le> ch_commits (cp_feed1 c s)"
proof -
  show "cp_holds c (ch_snap (cp_feed1 c s)) \<and> ch_have_guidance (cp_feed1 c s) \<and>
      ch_commits (cp_feed1 c s) = ch_commits s + 1" if "is_turn c"
    using assms that
    by (cases c) (auto simp: hud_on_next_turn_def cp_commit_def cp_write_turn_def cp_store_road_short)
  show "(cp_holds x (ch_snap s) \<longrightarrow> cp_holds x (ch_snap (cp_feed1 c s))) \<and>
      (ch_have_guidance s \<longrightarrow> ch_have_guidance (cp_feed1 c s)) \<and> ch_commits s \<le> ch_commits (cp_feed1 c s)"
    if "\<not> is_turn c"
    using assms that
    by (cases c; cases x) (auto simp: hud_on_status_def hud_on_distance_def cp_commit_def cp_write_distance_def)
qed

lemma feed_commits: "\<forall>c \<in> set cs. call_ok c \<Longrightarrow> ch_commits s \<le> ch_commits (cp_feed cs s)"
proof (induction cs arbitrary: s)
  case (Cons c cs)
  have "ch_commits s \<le> ch_commits (cp_feed1 c s)"
    using feed1_holds(1) [of c s] feed1_holds(2) [of c _ s] Cons.prems by (cases "is_turn c") auto
  then show ?case using Cons.IH [of "cp_feed1 c s"] Cons.prems by (simp add: cp_feed_def)
qed (simp add: cp_feed_def)

lemma feed_holds:
  assumes "\<forall>c \<in> set cs. call_ok c" and "last_turn cs = Some x"
  shows "cp_holds x (ch_snap (cp_feed cs s)) \<and> ch_have_guidance (cp_feed cs s) \<and>
    ch_commits s < ch_commits (cp_feed cs s)"
  using assms
proof (induction cs rule: rev_induct)
  case Nil
  then show ?case by (simp add: last_turn_def)
next
  case (snoc c cs)
  have c: "call_ok c" using snoc.prems(1) by simp
  have step: "cp_feed (cs @ [c]) s = cp_feed1 c (cp_feed cs s)" by (simp add: cp_feed_def)
  show ?case
  proof (cases "is_turn c")
    case True
    then have "x = c" using snoc.prems(2) by (simp add: last_turn_def)
    then show ?thesis
      using feed1_holds(1) [OF c True, of "cp_feed cs s"] feed_commits [of cs s] snoc.prems(1)
      by (simp add: step)
  next
    case False
    then have "last_turn [c] = None" by (simp add: last_turn_def)
    then have "last_turn cs = Some x" using snoc.prems(2) by simp
    then show ?thesis
      using snoc.IH snoc.prems(1) feed1_holds(2) [OF c False, of x "cp_feed cs s"] by (auto simp: step)
  qed
qed

lemma feed_thread:
  "ch_pc (cp_feed cs s) = ch_pc s \<and> ch_seen (cp_feed cs s) = ch_seen s \<and>
   (cp_step cfg)\<^sup>*\<^sup>* s (cp_feed cs s)"
proof (induction cs rule: rev_induct)
  case (snoc c cs)
  let ?t = "cp_feed cs s"
  have "cp_step cfg ?t (cp_feed1 c ?t)"
    by (cases c) (auto intro: cp_step.status cp_step.next_turn cp_step.distance)
  moreover have "ch_pc (cp_feed1 c ?t) = ch_pc ?t" "ch_seen (cp_feed1 c ?t) = ch_seen ?t"
    by (cases c; simp add: hud_on_status_def hud_on_next_turn_def hud_on_distance_def cp_commit_def)+
  ultimately show ?case
    using snoc by (simp add: cp_feed_def) (meson rtranclp.rtrancl_into_rtrancl)
qed (simp add: cp_feed_def)

lemma window_ok: "is_head_of (burst_window ms) k m \<Longrightarrow> bm_ok m"
  by (auto simp: is_head_of_def burst_window_def maneuver_at_ok dest!: in_set_takeD)

text \<open>What the snapshot holds after calls that end with the turn \<open>m\<close>.\<close>

lemma feed_snapshot:
  assumes "\<forall>c \<in> set cs. call_ok c" and "last_turn cs = Some (turn_call (shown_of m))" and "bm_ok m"
  shows "cp_icon (ch_snap (cp_feed cs h)) = cp_icon (cp_of_maneuver (bm_mv m) cp_blank)"
    and "cstr (cs_road (ch_snap (cp_feed cs h))) =
      (if cstr (sh_road (shown_of m)) = [] then [32] else cstr (sh_road (shown_of m)))"
    and "cp_key (ch_snap (cp_feed cs h)) \<noteq> cp_key cp_blank"
proof -
  have holds: "cs_event (ch_snap (cp_feed cs h)) = mv_event (bm_mv m)"
    "cs_side (ch_snap (cp_feed cs h)) = mv_side (bm_mv m)"
    "cs_angle (ch_snap (cp_feed cs h)) = mv_angle (bm_mv m)"
    "cstr (cs_road (ch_snap (cp_feed cs h))) =
      (if cstr (sh_road (shown_of m)) = [] then [32] else cstr (sh_road (shown_of m)))"
    using feed_holds [OF assms(1,2), of h] cstr_nonempty [of "sh_road (shown_of m)"] shown_of_len [of m]
    by (auto simp: turn_call_def shown_of_def)
  show "cp_icon (ch_snap (cp_feed cs h)) = cp_icon (cp_of_maneuver (bm_mv m) cp_blank)"
    using holds by (simp add: cp_icon_def cp_of_maneuver_def)
  show "cp_key (ch_snap (cp_feed cs h)) \<noteq> cp_key cp_blank"
    using assms(3) holds(1) by (auto simp: cp_key_def cp_blank_def bm_ok_def mv_ok_def)
  show "cstr (cs_road (ch_snap (cp_feed cs h))) =
      (if cstr (sh_road (shown_of m)) = [] then [32] else cstr (sh_road (shown_of m)))" by (rule holds(4))
qed

text \<open>The next pass of the sender draws the snapshot of the fed calls.\<close>

lemma feed_drawn:
  assumes h: "(cp_step cfg)\<^sup>*\<^sup>* cp_hud_init h" "ch_pc h = CpLoop"
    and calls: "\<forall>c \<in> set cs. call_ok c" "last_turn cs = Some c"
    and key: "cp_key (ch_snap (cp_feed cs h)) \<noteq> cp_key cp_blank"
  obtains t where "cp_pass_send cfg e (cp_feed cs h) = Some t"
    and "\<not> ch_missed t \<and> ch_commits (cp_feed cs h) - ch_seen h < 2 ^ 31 \<longrightarrow>
      (\<exists>d strip. cp_view (ch_calls t) = (Some d, Some strip) \<and> cp_drawn cfg (ch_snap (cp_feed cs h)) d strip)"
proof -
  let ?w = "cp_feed cs h"
  note feed = feed_holds [OF calls, of h]
  have w: "(cp_step cfg)\<^sup>*\<^sup>* cp_hud_init ?w" "ch_pc ?w = CpLoop" "ch_seen ?w = ch_seen h"
    using feed_thread [of cs h cfg] h by (auto intro: rtranclp_trans)
  obtain t where t: "cp_pass_send cfg e ?w = Some t"
    "\<not> ch_missed t \<longrightarrow> cp_shows cfg (ch_prev t) (cp_view (ch_calls t))"
    "ch_seq ?w \<noteq> ch_last ?w \<longrightarrow> ch_prev t = ch_snap ?w"
    using display_tracks [OF w(1,2), of e] feed by auto
  show ?thesis
  proof (rule that [OF t(1)], rule impI)
    assume a: "\<not> ch_missed t \<and> ch_commits ?w - ch_seen h < 2 ^ 31"
    have ok: "cp_hud_ok cfg ?w" and run: "cp_running ?w"
      using cp_reachable_ok [OF w(1)] w(2) by (simp_all add: cp_running_def)
    have "ch_seen h \<le> ch_commits h"
      using cp_hud_okD(7) [OF cp_reachable_ok [OF h(1)]] h(2) by (simp add: cp_running_def)
    then have "ch_seq ?w \<noteq> ch_last ?w"
      using cp_up_to_date [OF ok run] a feed w(3) by auto
    then have "ch_prev t = ch_snap ?w" using t(3) by blast
    then show "\<exists>d strip. cp_view (ch_calls t) = (Some d, Some strip) \<and> cp_drawn cfg (ch_snap ?w) d strip"
      using t(2) a key by (auto simp: cp_shows_def)
  qed
qed

text \<open>
  End to end: iOS starts (or restarts) a route - a reset was pending or nothing had been shown
  yet - and streams a burst of maneuvers and a guidance message whose list head designates one of
  them.  When the display sender then makes its next pass and none of its calls fails, the
  display shows the glyph of exactly that maneuver and its road name.
\<close>

theorem carplay_end_to_end:
  assumes "\<forall>i \<in> set ins. input_ok i" and "nav_run ins cp_nav_init = Some (cs0, s)"
    and "cn_reset_req s \<or> never_shown s"
    and "is_burst ms" and "msg_of_kind kMtGuidance (g, k)" and "field16 g k kManListCntOff \<noteq> 0"
    and "is_head_of (burst_window ms) (ucast (field16 g k kManListOff)) m"
    and "(cp_step cfg)\<^sup>*\<^sup>* cp_hud_init h" and "ch_pc h = CpLoop"
    and "\<not> cfg_carplay_hud_debug cfg"
  shows "\<exists>cs s' t. nav_run (map nav_input ms @ [nav_input (g, k)]) s = Some (cs, s') \<and>
    cp_pass_send cfg e (cp_feed cs h) = Some t \<and>
    (\<not> ch_missed t \<and> ch_commits (cp_feed cs h) - ch_seen h < 2 ^ 31 \<longrightarrow>
      (\<exists>d strip n. cp_view (ch_calls t) = (Some d, Some strip) \<and>
        nextManeuverInfo d = cp_icon (cp_of_maneuver (bm_mv m) cp_blank) \<and>
        guidancePointName strip = cp_strip cfg n \<and>
        cstr (cs_road n) = (if cstr (sh_road (shown_of m)) = [] then [32] else cstr (sh_road (shown_of m)))))"
proof -
  obtain cs s' where run: "nav_run (map nav_input ms @ [nav_input (g, k)]) s = Some (cs, s')"
    and last: "last_turn cs = Some (turn_call (shown_of m))"
    using head_shown [OF assms(1,2,4-7)] assms(3) by auto
  have ins: "\<forall>i \<in> set (map nav_input ms @ [nav_input (g, k)]). input_ok i"
    using assms(4,5) by (auto simp: is_burst_def msg_of_kind_def)
  have "told cs0 s" using assms(2) run_told [OF assms(1)] by auto
  then have calls: "\<forall>c \<in> set cs. call_ok c"
    using run_calls_ok [OF ins, of s] run by (auto simp: told_def)
  note snap = feed_snapshot [OF calls last window_ok [OF assms(7)], of h]
  obtain t where t: "cp_pass_send cfg e (cp_feed cs h) = Some t"
    "\<not> ch_missed t \<and> ch_commits (cp_feed cs h) - ch_seen h < 2 ^ 31 \<longrightarrow>
      (\<exists>d strip. cp_view (ch_calls t) = (Some d, Some strip) \<and> cp_drawn cfg (ch_snap (cp_feed cs h)) d strip)"
    by (rule feed_drawn [where e = e, OF assms(8,9) calls last snap(3)])
  have "\<exists>n. nextManeuverInfo d = cp_icon (cp_of_maneuver (bm_mv m) cp_blank) \<and>
      guidancePointName strip = cp_strip cfg n \<and>
      cstr (cs_road n) = (if cstr (sh_road (shown_of m)) = [] then [32] else cstr (sh_road (shown_of m)))"
    if "cp_drawn cfg (ch_snap (cp_feed cs h)) d strip" for d strip
    using that snap(1,2) assms(10) by (intro exI [of _ "ch_snap (cp_feed cs h)"]) (simp add: cp_drawn_def)
  then show ?thesis using run t by blast
qed

section \<open>A sample session\<close>

text \<open>The thread has connected; the decoder announced a left turn.\<close>

definition cp_session :: cp_hud where
  "cp_session =
     hud_on_next_turn (Some [72]) 1 4 0 0
       (cp_main_begin \<lparr>ve_created = True, ve_connected = True\<rparr> False False True 0 0
         (hud_send_start True cp_hud_init))"

definition cp_env :: cp_input_env where
  "cp_env = \<lparr>ce_splim = None, ce_now = 0, ce_over = None, ce_rc1 = 0, ce_rc2 = 0\<rparr>"

lemmas cp_session_defs = cp_session_def cp_hud_init_def hud_send_start_def cp_main_begin_def
  cp_sender_setup_def cp_call_def cp_clear_display_def cp_send_clear_def cp_sent_def
  hud_on_next_turn_def cp_commit_def

lemma cp_session_fields:
  "ch_pc cp_session = CpLoop" "\<not> ch_stop cp_session" "ch_have_guidance cp_session"
  "ch_seq cp_session = 2" "ch_last cp_session = 0" "ch_commits cp_session = 1" "ch_seen cp_session = 0"
  "ch_conn cp_session" "\<not> ch_absent cp_session"
  "cs_event (ch_snap cp_session) = 4" "cs_side (ch_snap cp_session) = 1"
  by (simp_all add: cp_session_defs cp_write_turn_def Let_def)

lemma cp_session_reachable: "(cp_step cfg)\<^sup>*\<^sup>* cp_hud_init cp_session"
proof -
  let ?a = "hud_send_start True cp_hud_init"
  let ?b = "cp_main_begin \<lparr>ve_created = True, ve_connected = True\<rparr> False False True 0 0 ?a"
  have "cp_step cfg cp_hud_init ?a" by (rule cp_step.start)
  moreover have "cp_step cfg ?a (cp_main_begin \<lparr>ve_created = True, ve_connected = True\<rparr> False
      (ch_stop ?a) True 0 0 ?a)"
    by (rule cp_step.main_begin) (simp_all add: hud_send_start_def cp_hud_init_def)
  then have "cp_step cfg ?a ?b" by (simp add: hud_send_start_def cp_hud_init_def)
  moreover have "cp_step cfg ?b cp_session" unfolding cp_session_def by (rule cp_step.next_turn)
  ultimately show ?thesis by (meson rtranclp.rtrancl_into_rtrancl rtranclp.rtrancl_refl)
qed

theorem carplay_display_tracks_witness:
  "\<exists>t. cp_pass_send default_settings cp_env cp_session = Some t \<and> ch_prev t = ch_snap cp_session"
  using carplay_display_tracks [OF cp_session_reachable cp_session_fields(1), of default_settings cp_env]
    cp_session_fields(3-5) by auto

theorem finished_route_stays_off_witness:
  "\<exists>t calls. cp_pass_send (default_settings\<lparr>cfg_carplay_speed_limit := True\<rparr>) cp_env
      (hud_on_status 0 cp_session) = Some t \<and> ch_calls t = ch_calls (hud_on_status 0 cp_session) @ calls \<and>
    (\<forall>d rc. (SetHUDDisplayMsg d, rc) \<in> set calls \<longrightarrow> nextManeuverInfo d = 0)"
proof -
  let ?cfg = "default_settings\<lparr>cfg_carplay_speed_limit := True\<rparr>"
  let ?s = "hud_on_status 0 cp_session"
  have r: "(cp_step ?cfg)\<^sup>*\<^sup>* cp_hud_init ?s"
    using cp_session_reachable cp_step.status by (rule rtranclp.rtrancl_into_rtrancl)
  obtain t where t: "cp_pass_send ?cfg cp_env ?s = Some t" using cp_pass_send_total by blast
  have "ch_pc ?s = CpLoop" "\<not> ch_stop ?s" "\<not> ch_have_guidance ?s" "ch_commits ?s - ch_seen ?s < 2 ^ 31"
    using cp_session_fields by (simp_all add: hud_on_status_def cp_commit_def)
  from finished_route_stays_off [OF r this(1,2) _ _ this(3,4) t] t show ?thesis
    by (auto simp: default_settings_def)
qed

theorem failed_wipe_is_forgotten_witness:
  "\<exists>t u d m. cp_pass_clear default_settings 5 0
      (cp_session\<lparr>ch_pc := CpClear, ch_fullclear_req := True, ch_last := 2\<rparr>) = Some t \<and>
    ch_have_guidance t \<and> cp_pass_send default_settings cp_env (t\<lparr>ch_pc := CpLoop\<rparr>) = Some u \<and>
    ch_calls u = ch_calls t @ [(SetHUDDisplayMsg d, 0), (SetHUDDisplayMsg2 m, 0)]"
proof -
  let ?s = "cp_session\<lparr>ch_pc := CpClear, ch_fullclear_req := True, ch_last := 2\<rparr>"
  have splim: "read_splim default_settings (ce_splim cp_env) (ce_now cp_env) = ch_prev_splim ?s"
    by (simp add: read_splim_def default_settings_def) (simp add: cp_session_defs Let_def)
  have "ch_pc ?s = CpClear" "ch_fullclear_req ?s" "ch_conn ?s" "\<not> ch_absent ?s" "ch_have_guidance ?s"
    "ch_seq ?s = ch_last ?s" "(5 :: int) \<noteq> 0" "ce_rc1 cp_env = 0" "ce_rc2 cp_env = 0"
    using cp_session_fields by (simp_all add: cp_env_def)
  from failed_wipe_is_forgotten [OF this(1-7) splim this(8,9), of 0] show ?thesis by blast
qed

theorem nav_off_repainted_witness:
  "\<exists>t u calls d. cp_pass_clear default_settings 0 0
      (cp_session\<lparr>ch_pc := CpClear, ch_clear_req := True\<rparr>) = Some t \<and> \<not> ch_have_guidance t \<and>
    cp_pass_send default_settings cp_env (hud_on_distance 900 60 900 1 (t\<lparr>ch_pc := CpLoop\<rparr>)) = Some u \<and>
    ch_calls u = ch_calls t @ calls \<and> (SetHUDDisplayMsg d, 0) \<in> set calls \<and> nextManeuverInfo d \<noteq> 0"
proof -
  let ?s = "cp_session\<lparr>ch_pc := CpClear, ch_clear_req := True\<rparr>"
  have icon: "cp_icon (ch_snap ?s) \<noteq> 0"
    using cp_session_fields by (simp add: cp_icon_def cp_kTurnIcons_def i32_rangeI icon_codes)
  have full: "\<not> ch_fullclear_req ?s" by (simp add: cp_session_defs Let_def)
  have s: "ch_pc ?s = CpClear" "ch_clear_req ?s" "ch_conn ?s" "\<not> ch_absent ?s"
    "ce_rc1 cp_env = 0" "ce_rc2 cp_env = 0"
    "\<not> cfg_carplay_speed_limit default_settings" "\<not> cfg_carplay_hud_debug default_settings"
    using cp_session_fields by (simp_all add: cp_env_def default_settings_def)
  from nav_off_repainted [OF s(1,2) full s(3,4,7,8) icon s(5,6), of 900 60 900 1] icon show ?thesis
    by metis
qed

theorem carplay_end_to_end_witness:
  "\<exists>cs s' t. nav_run [nav_input heading_msg, nav_input (turn_msg 1), nav_input guide_msg] cp_nav_init =
      Some (cs, s') \<and> cp_pass_send default_settings cp_env (cp_feed cs cp_session) = Some t"
proof -
  let ?m = "maneuver_at (fst (turn_msg 1)) (snd (turn_msg 1))"
  have burst: "is_burst [heading_msg, turn_msg 1]"
    by (simp add: is_burst_def sample_kinds sample_indices)
  have "burst_window [heading_msg, turn_msg 1] = [?m]"
    by (simp add: burst_window_def sample_displayable)
  then have head: "is_head_of (burst_window [heading_msg, turn_msg 1])
      (ucast (field16 (fst guide_msg) (snd guide_msg) kManListOff)) ?m"
    using sample_indices by (simp add: is_head_of_def sample_guide maneuver_at_def idx_of_def)
  have g: "msg_of_kind kMtGuidance (fst guide_msg, snd guide_msg)" using sample_kinds(3) by simp
  have n: "field16 (fst guide_msg) (snd guide_msg) kManListCntOff \<noteq> 0" by (simp add: sample_guide)
  have never: "never_shown cp_nav_init"
    by (simp add: never_shown_def cp_nav_init_def cp_never_def)
  have debug: "\<not> cfg_carplay_hud_debug default_settings" by (simp add: default_settings_def)
  from carplay_end_to_end [of "[]", OF _ _ _ burst g n head cp_session_reachable cp_session_fields(1) debug] never
  show ?thesis by simp blast
qed

end
