(* ===== verification/Devmgr_Shim.thy ===== *)
theory Devmgr_Shim
  imports Preload Carplay_Hud
begin

text \<open>
  The entry points of the CarPlay library (\<open>blmjcicarplay/devmgr_shim.cpp\<close>): the four interposed
  device-manager calls that arm the navigation feed, the passive tap on \<open>msgrcv\<close> that hands the
  received messages to \<open>Carplay_Nav\<close>, and the two subscribed signals that wipe the display of
  \<open>Carplay_Hud\<close>.  \<open>on\<close> is \<open>g_enabled\<close>, which the constructor sets once
  (\<open>Preload.blmjcicarplay_on_load\<close>).  Addresses and handles are words, 0 is null.  A message is
  decoded in one step, at which the reset flag is taken; its calls on the display sender follow one
  by one (\<open>dm_pending\<close>), so that the sender may run between them.  The two diagnostic files are in
  \<open>Diagnostics\<close>; the log lines are left out.
\<close>

section \<open>State\<close>

record dm_code =
  dc_register :: u32
  dc_callstate :: u32
  dc_commupd :: u32
  dc_sendloc :: u32

text \<open>Calls of vendor functions the library makes of its own accord; \<open>dm_calls\<close> is their history.\<close>

datatype dm_call =
    StartNavi u32 u32 u32 u32
  | SignalEnable u32
  | HmiCreate bool
  | HmiConnect bool
  | HmiFree
  | HmiWorkerStart

record devmgr =
  dm_register :: u32
  dm_callstate :: u32
  dm_commupd :: u32
  dm_sendloc :: u32
  dm_startnavi :: u32
  dm_handle :: u32
  dm_navi_armed :: bool
  dm_armed :: bool
  dm_procH :: u32
  dm_devH :: u32
  dm_tbt_enable :: u32
  dm_deactive_enable :: u32
  dm_hmi_conn :: bool
  dm_client_lib :: u32
  dm_subscribed :: bool
  dm_msgrcv :: u32
  dm_retry :: "nat list"
  dm_calls :: "dm_call list"
  dm_pending :: "cp_hud_call list"
  dm_nav :: cp_nav
  dm_hud :: cp_hud

definition devmgr_init :: devmgr where
  "devmgr_init =
     \<lparr>dm_register = 0, dm_callstate = 0, dm_commupd = 0, dm_sendloc = 0, dm_startnavi = 0, dm_handle = 0,
      dm_navi_armed = False, dm_armed = False, dm_procH = 0, dm_devH = 0, dm_tbt_enable = 0,
      dm_deactive_enable = 0, dm_hmi_conn = False, dm_client_lib = 0, dm_subscribed = False,
      dm_msgrcv = 0, dm_retry = [], dm_calls = [], dm_pending = [], dm_nav = cp_nav_init,
      dm_hud = cp_hud_init\<rparr>"

text \<open>
  What a call meets: the linker (with \<open>dlopen\<close> that really loads, and \<open>RTLD_DEFAULT\<close>), the vendor's
  functions by address, and the outcomes of the bus connection and of the two thread creations.
\<close>

record dm_env = linker +
  dlopen_global :: "u8 list \<Rightarrow> u32"
  dlsym_default :: "u8 list \<Rightarrow> u32"
  de_oem :: "u32 \<Rightarrow> u32 \<times> u32 \<times> u32 \<times> u32 \<Rightarrow> int"
  de_created :: bool
  de_connected :: bool
  de_sender :: bool
  de_retry :: bool

section \<open>Resolution\<close>

definition addr_is_own :: "dm_code \<Rightarrow> u32 \<Rightarrow> bool" where
  "addr_is_own own a \<longleftrightarrow>
     a = dc_register own \<or> a = dc_callstate own \<or> a = dc_commupd own \<or> a = dc_sendloc own"

definition kDevmgrSoname :: "u8 list" where "kDevmgrSoname = ascii ''libdevmgr_interface.so''"
definition kDevmgrPath :: "u8 list" where "kDevmgrPath = ascii ''/usr/lib/libdevmgr_interface.so''"
definition kClientSoname :: "u8 list" where "kClientSoname = ascii ''libjcicarplay_client.so''"
definition kClientPath :: "u8 list" where "kClientPath = ascii ''/jci/lib/libjcicarplay_client.so''"

text \<open>The pointer and the handle cache.\<close>

definition resolve_oem :: "dm_code \<Rightarrow> 'a linker_scheme \<Rightarrow> u8 list \<Rightarrow> u32 \<Rightarrow> u32 \<times> u32" where
  "resolve_oem own ld name handle =
     (let p = dlsym_next ld name in
      if p \<noteq> 0 \<and> \<not> addr_is_own own p then (p, handle)
      else
        let h = (if handle = 0 then
                   (let h = dlopen_noload ld kDevmgrSoname in
                    if h = 0 then dlopen_noload ld kDevmgrPath else h)
                 else handle) in
        if h = 0 then (0, h)
        else
          let p = dlsym_in ld h name in
          if p = 0 then (0, h) else if addr_is_own own p then (0, h) else (p, h))"

definition resolve_if :: "dm_code \<Rightarrow> 'a linker_scheme \<Rightarrow> u8 list \<Rightarrow> u32 \<Rightarrow> u32 \<Rightarrow> u32 \<times> u32" where
  "resolve_if own ld name real handle =
     (if real \<noteq> 0 then (real, handle) else resolve_oem own ld name handle)"

definition resolve_all_once :: "dm_code \<Rightarrow> 'a linker_scheme \<Rightarrow> devmgr \<Rightarrow> devmgr" where
  "resolve_all_once own ld s =
     (let (a, h) = resolve_if own ld (ascii ''eDevMgrRegisterProcess'') (dm_register s) (dm_handle s);
          (b, h) = resolve_if own ld (ascii ''eDevMgriPodStartCallStateUpdates'') (dm_callstate s) h;
          (c, h) = resolve_if own ld (ascii ''eDevMgriPodStartCommunicationUpdates'') (dm_commupd s) h;
          (d, h) = resolve_if own ld (ascii ''eDevMgriPodSendLocationInformation'') (dm_sendloc s) h;
          (e, h) = resolve_if own ld (ascii ''eDevMgriPodStartNaviRouteGuidenceUpdates'') (dm_startnavi s) h
      in s\<lparr>dm_register := a, dm_callstate := b, dm_commupd := c, dm_sendloc := d, dm_startnavi := e,
           dm_handle := h\<rparr>)"

section \<open>Turn-by-turn status of the head unit\<close>

definition cp_tbt_entity_cb :: "u32 option \<Rightarrow> cp_hud \<Rightarrow> cp_hud" where
  "cp_tbt_entity_cb p_entity s =
     (let e = (case p_entity of Some v \<Rightarrow> v | None \<Rightarrow> 0xffffffff) in
      if e \<noteq> 1 then hud_request_clear s else s)"

definition cp_deactive_cb :: "cp_hud \<Rightarrow> cp_hud" where
  "cp_deactive_cb s = hud_request_fullclear s"

definition cp_resolve :: "dm_env \<Rightarrow> u32 \<Rightarrow> u8 list \<Rightarrow> u32" where
  "cp_resolve e lib name =
     (let p = (if lib \<noteq> 0 then dlsym_in e lib name else 0) in
      if p = 0 then dlsym_default e name else p)"

definition dm_call :: "dm_call list \<Rightarrow> devmgr \<Rightarrow> devmgr" where
  "dm_call cs s = s\<lparr>dm_calls := dm_calls s @ cs\<rparr>"

definition load_client :: "dm_env \<Rightarrow> u32 \<Rightarrow> u32" where
  "load_client e lib =
     (if lib = 0 then
        (let h = dlopen_global e kClientSoname in if h = 0 then dlopen_global e kClientPath else h)
      else lib)"

definition hmi_subscribe :: "dm_env \<Rightarrow> devmgr \<Rightarrow> devmgr" where
  "hmi_subscribe e s =
     (if \<not> de_created e then dm_call [HmiCreate False] (s\<lparr>dm_hmi_conn := False\<rparr>)
      else if \<not> de_connected e then
        dm_call [HmiCreate True, HmiConnect False, HmiFree] (s\<lparr>dm_hmi_conn := False\<rparr>)
      else
        dm_call ([HmiCreate True, HmiConnect True, HmiWorkerStart, SignalEnable (dm_tbt_enable s)] @
            (if dm_deactive_enable s \<noteq> 0 then [SignalEnable (dm_deactive_enable s)] else []))
          (s\<lparr>dm_hmi_conn := True, dm_subscribed := True\<rparr>))"

definition carplay_status_start :: "dm_env \<Rightarrow> devmgr \<Rightarrow> devmgr" where
  "carplay_status_start e s =
     (if dm_subscribed s then s
      else
        let s = s\<lparr>dm_client_lib := load_client e (dm_client_lib s)\<rparr> in
        if dm_client_lib s = 0 then s
        else
          let s = s\<lparr>dm_tbt_enable :=
                      cp_resolve e (dm_client_lib s) (ascii ''CARPLAY_TurnByTurnEntitySignal_enable''),
                    dm_deactive_enable :=
                      cp_resolve e (dm_client_lib s) (ascii ''CARPLAY_SessionDeactiveSignal_enable'')\<rparr> in
          if dm_tbt_enable s = 0 then s else hmi_subscribe e s)"

definition arm_navi :: "bool \<Rightarrow> dm_env \<Rightarrow> u32 \<Rightarrow> u32 \<Rightarrow> devmgr \<Rightarrow> devmgr" where
  "arm_navi on e procH devH s =
     (if \<not> on then s
      else
        let s = s\<lparr>dm_armed := True, dm_procH := procH, dm_devH := devH\<rparr> in
        if dm_navi_armed s then s
        else
          let s = s\<lparr>dm_navi_armed := True, dm_hud := hud_send_start (de_sender e) (dm_hud s)\<rparr>;
              s = carplay_status_start e s in
          if dm_startnavi s \<noteq> 0 then
            let s = dm_call [StartNavi (dm_startnavi s) procH devH 0] s in
            if de_retry e then s\<lparr>dm_retry := dm_retry s @ [0]\<rparr> else s
          else s\<lparr>dm_navi_armed := False\<rparr>)"

text \<open>One round of \<open>navi_retry_thread\<close> \<open>t\<close>, after its five seconds.\<close>

definition navi_retry :: "nat \<Rightarrow> devmgr \<Rightarrow> devmgr" where
  "navi_retry t s =
     (if dm_startnavi s = 0 \<or> dm_procH s = 0 then s
      else
        let n = dm_retry s ! t; p3 = (if odd n then 0x5555 else 0) in
        (dm_call [StartNavi (dm_startnavi s) (dm_procH s) (dm_devH s) p3] s)
          \<lparr>dm_retry := (dm_retry s)[t := n + 1]\<rparr>)"

section \<open>The tap\<close>

text \<open>The decoder on the state it shares with the sender: the reset flag is \<open>ch_nav_reset\<close>.\<close>

definition nav_decode :: "u8 list option \<Rightarrow> int \<Rightarrow> devmgr \<Rightarrow> devmgr option" where
  "nav_decode msgp n s =
     map_option
       (\<lambda>(cs, nav). s\<lparr>dm_nav := nav, dm_pending := dm_pending s @ cs,
          dm_hud := (dm_hud s)\<lparr>ch_nav_reset := cn_reset_req nav\<rparr>\<rparr>)
       (nav_on_devmgr_msg msgp n ((dm_nav s)\<lparr>cn_reset_req := ch_nav_reset (dm_hud s)\<rparr>))"

definition msg_tap :: "u8 list option \<Rightarrow> int \<Rightarrow> devmgr \<Rightarrow> devmgr option" where
  "msg_tap msgp n s = (if n < 0x300 \<or> msgp = None then Some s else nav_decode msgp n s)"

text \<open>
  \<open>rcv f msgp\<close> is what the function at address \<open>f\<close> does with the caller's buffer: the length it
  returns and the buffer it leaves.
\<close>

definition msgrcv ::
  "bool \<Rightarrow> dm_env \<Rightarrow> (u32 \<Rightarrow> u8 list option \<Rightarrow> int \<times> u8 list option) \<Rightarrow> u8 list option \<Rightarrow> devmgr
    \<Rightarrow> (int \<times> u8 list option \<times> devmgr) option" where
  "msgrcv on e rcv msgp s =
     (let s = (if dm_msgrcv s = 0 then s\<lparr>dm_msgrcv := dlsym_next e (ascii ''msgrcv'')\<rparr> else s);
          (n, buf) = (if dm_msgrcv s \<noteq> 0 then rcv (dm_msgrcv s) msgp else (-1, msgp)) in
      map_option (\<lambda>s. (n, buf, s)) (if on \<and> dm_armed s \<and> 0 < n then msg_tap buf n s else Some s))"

section \<open>The interposed calls\<close>

type_synonym dm_args = "u32 \<times> u32 \<times> u32 \<times> u32"

definition eDevMgrRegisterProcess :: "dm_code \<Rightarrow> dm_env \<Rightarrow> dm_args \<Rightarrow> devmgr \<Rightarrow> int \<times> devmgr" where
  "eDevMgrRegisterProcess own e args s =
     (let s = resolve_all_once own e s in
      if dm_register s = 0 then (0x103, s) else (de_oem e (dm_register s) args, s))"

definition eDevMgriPodStartCallStateUpdates ::
  "bool \<Rightarrow> dm_code \<Rightarrow> dm_env \<Rightarrow> dm_args \<Rightarrow> devmgr \<Rightarrow> int \<times> devmgr" where
  "eDevMgriPodStartCallStateUpdates on own e args s =
     (let s = resolve_all_once own e s;
          rc = (if dm_callstate s \<noteq> 0 then de_oem e (dm_callstate s) args else 0x103) in
      (rc, arm_navi on e (fst args) (fst (snd args)) s))"

definition eDevMgriPodStartCommunicationUpdates ::
  "bool \<Rightarrow> dm_code \<Rightarrow> dm_env \<Rightarrow> dm_args \<Rightarrow> devmgr \<Rightarrow> int \<times> devmgr" where
  "eDevMgriPodStartCommunicationUpdates on own e args s =
     (let s = resolve_all_once own e s;
          rc = (if dm_commupd s \<noteq> 0 then de_oem e (dm_commupd s) args else 0x103) in
      (rc, arm_navi on e (fst args) (fst (snd args)) s))"

definition eDevMgriPodSendLocationInformation ::
  "bool \<Rightarrow> dm_code \<Rightarrow> dm_env \<Rightarrow> dm_args \<Rightarrow> devmgr \<Rightarrow> int \<times> devmgr" where
  "eDevMgriPodSendLocationInformation on own e args s =
     (let s = resolve_all_once own e s;
          rc = (if dm_sendloc s \<noteq> 0 then de_oem e (dm_sendloc s) args else 0x103) in
      (rc, arm_navi on e (fst args) (fst (snd args)) s))"

section \<open>The library as a whole\<close>

text \<open>
  The receive call reports at most the bytes it stored.  \<open>hud_thread\<close> is a step of a display sender
  that was started: no write of the snapshot, which is the decoder's, and no taking of the reset
  flag, which is part of \<open>receive\<close>.  The receive thread delivers the decoder's calls before it takes
  the next message.
\<close>

inductive dm_step :: "bool \<Rightarrow> dm_code \<Rightarrow> Settings \<Rightarrow> devmgr \<Rightarrow> devmgr \<Rightarrow> bool" for on own cfg where
  register: "eDevMgrRegisterProcess own e args s = (rc, t) \<Longrightarrow> dm_step on own cfg s t"
| callstate: "eDevMgriPodStartCallStateUpdates on own e args s = (rc, t) \<Longrightarrow> dm_step on own cfg s t"
| commupd: "eDevMgriPodStartCommunicationUpdates on own e args s = (rc, t) \<Longrightarrow> dm_step on own cfg s t"
| sendloc: "eDevMgriPodSendLocationInformation on own e args s = (rc, t) \<Longrightarrow> dm_step on own cfg s t"
| receive: "dm_pending s = [] \<Longrightarrow> (\<forall>f m k b. rcv f m = (k, Some b) \<longrightarrow> k \<le> int (length b)) \<Longrightarrow>
    msgrcv on e rcv msgp s = Some (n, buf, t) \<Longrightarrow> dm_step on own cfg s t"
| deliver: "dm_pending s = c # cs \<Longrightarrow>
    dm_step on own cfg s (s\<lparr>dm_pending := cs, dm_hud := cp_feed1 c (dm_hud s)\<rparr>)"
| retry: "t < length (dm_retry s) \<Longrightarrow> dm_step on own cfg s (navi_retry t s)"
| tbt: "dm_subscribed s \<Longrightarrow> dm_step on own cfg s (s\<lparr>dm_hud := cp_tbt_entity_cb p (dm_hud s)\<rparr>)"
| deactive: "dm_subscribed s \<Longrightarrow> dm_step on own cfg s (s\<lparr>dm_hud := cp_deactive_cb (dm_hud s)\<rparr>)"
| hud_thread: "cp_step cfg (dm_hud s) h \<Longrightarrow> ch_up (dm_hud s) \<Longrightarrow> ch_commits h = ch_commits (dm_hud s) \<Longrightarrow>
    (ch_nav_reset (dm_hud s) \<longrightarrow> ch_nav_reset h) \<Longrightarrow> dm_step on own cfg s (s\<lparr>dm_hud := h\<rparr>)"

section \<open>Invariants\<close>

lemma nav_step_takes_reset: "\<not> cn_reset_req (snd (nav_step b n s))"
proof -
  have t: "\<not> cn_reset_req (nav_take_reset s)" by (simp add: nav_take_reset_def)
  have w: "cn_reset_req (nav_window b n s) = cn_reset_req s" for s by (simp add: nav_window_def Let_def)
  have g: "cn_reset_req (snd (nav_guidance b n s)) = cn_reset_req s" for s
    using repaint_window(3) [of "ucast (field16 b n kManListOff)"
        "s\<lparr>cn_last_head := ucast (field16 b n kManListOff), cn_last_head_valid := True\<rparr>"]
    by (cases "nav_repaint (ucast (field16 b n kManListOff))
          (s\<lparr>cn_last_head := ucast (field16 b n kManListOff), cn_last_head_valid := True\<rparr>)")
      (simp add: nav_guidance_def Let_def)
  show ?thesis using t by (simp add: nav_step_def Let_def w g repaint_window(3))
qed

lemma nav_run_snoc:
  assumes "nav_run ins s = Some (cs, t)" and "nav_on_devmgr_msg m n t = Some (cs', u)"
  shows "nav_run (ins @ [CpMsg m n]) s = Some (cs @ cs', u)"
  using assms nav_run_append [of ins "[CpMsg m n]" s] by simp

lemma nav_run_reset:
  assumes "nav_run ins s = Some (cs, t)"
  shows "nav_run (ins @ [CpResetReq]) s = Some (cs, nav_request_reset t)"
  using assms nav_run_append [of ins "[CpResetReq]" s] by simp

definition nav_reached :: "cp_nav \<Rightarrow> bool" where
  "nav_reached nav \<longleftrightarrow>
     (\<exists>ins cs. (\<forall>i \<in> set ins. input_ok i) \<and> nav_run ins cp_nav_init = Some (cs, nav))"

lemma nav_reached_reset: "nav_reached nav \<Longrightarrow> nav_reached (nav_request_reset nav)"
proof -
  assume "nav_reached nav"
  then obtain ins cs where "\<forall>i \<in> set ins. input_ok i" "nav_run ins cp_nav_init = Some (cs, nav)"
    by (auto simp: nav_reached_def)
  then show ?thesis
    using nav_run_reset unfolding nav_reached_def
    by (intro exI [of _ "ins @ [CpResetReq]"]) auto
qed

lemma nav_reached_msg:
  assumes "nav_reached nav" and "n \<le> int (length b)"
  shows "\<exists>cs nav'. nav_on_devmgr_msg (Some b) n nav = Some (cs, nav') \<and> nav_reached nav' \<and>
    (\<forall>c \<in> set cs. call_ok c) \<and> (cn_reset_req nav' \<longrightarrow> cn_reset_req nav)"
proof -
  obtain ins cs0 where r: "\<forall>i \<in> set ins. input_ok i" "nav_run ins cp_nav_init = Some (cs0, nav)"
    using assms(1) by (auto simp: nav_reached_def)
  have ok: "nav_ok nav" using run_calls_ok [OF r(1) nav_init_ok] r(2) by auto
  have i: "input_ok (CpMsg (Some b) n)" using assms(2) by simp
  obtain cs nav' where m: "nav_on_devmgr_msg (Some b) n nav = Some (cs, nav')"
    "\<forall>c \<in> set cs. call_ok c" "cn_reset_req nav' \<longrightarrow> cn_reset_req nav"
    using nav_msg_step [OF i, of nav] nav_step_ok [OF ok] nav_step_takes_reset
    by (metis empty_iff empty_set prod.collapse)
  have "nav_run (ins @ [CpMsg (Some b) n]) cp_nav_init = Some (cs0 @ cs, nav')"
    by (rule nav_run_snoc [OF r(2) m(1)])
  moreover have "\<forall>x \<in> set (ins @ [CpMsg (Some b) n]). input_ok x" using r(1) i by auto
  ultimately show ?thesis using m unfolding nav_reached_def by blast
qed

text \<open>
  The library's state projects to reachable states of the decoder and of the display sender, its
  pointers are never its own exports, and it arms at most once.
\<close>

definition parts_ok :: "Settings \<Rightarrow> devmgr \<Rightarrow> bool" where
  "parts_ok cfg s \<longleftrightarrow>
     (cp_step cfg)\<^sup>*\<^sup>* cp_hud_init (dm_hud s) \<and> nav_reached (dm_nav s) \<and>
     (cn_reset_req (dm_nav s) \<longrightarrow> ch_nav_reset (dm_hud s)) \<and> (\<forall>c \<in> set (dm_pending s). call_ok c)"

definition not_ours :: "dm_code \<Rightarrow> devmgr \<Rightarrow> bool" where
  "not_ours own s \<longleftrightarrow>
     (\<forall>p \<in> {dm_register s, dm_callstate s, dm_commupd s, dm_sendloc s, dm_startnavi s}.
        p \<noteq> 0 \<longrightarrow> \<not> addr_is_own own p)"

definition armed_ok :: "bool \<Rightarrow> devmgr \<Rightarrow> bool" where
  "armed_ok on s \<longleftrightarrow>
     length (dm_retry s) \<le> 1 \<and> (dm_retry s \<noteq> [] \<longrightarrow> dm_navi_armed s) \<and>
     length (filter (\<lambda>c. c = HmiWorkerStart) (dm_calls s)) = (if dm_subscribed s then 1 else 0) \<and>
     (\<not> on \<longrightarrow> \<not> dm_armed s \<and> \<not> dm_navi_armed s \<and> \<not> dm_subscribed s \<and> dm_calls s = [] \<and>
        dm_retry s = [] \<and> dm_pending s = [] \<and> dm_nav s = cp_nav_init \<and> dm_hud s = cp_hud_init)"

lemma parts_ok_cong:
  "dm_hud t = dm_hud s \<Longrightarrow> dm_nav t = dm_nav s \<Longrightarrow> dm_pending t = dm_pending s \<Longrightarrow>
   parts_ok cfg t = parts_ok cfg s"
  by (simp add: parts_ok_def)

lemma parts_ok_hud:
  assumes "parts_ok cfg s" and "cp_step cfg (dm_hud s) h" and "ch_nav_reset (dm_hud s) \<longrightarrow> ch_nav_reset h"
  shows "parts_ok cfg (s\<lparr>dm_hud := h\<rparr>)"
  using assms rtranclp.rtrancl_into_rtrancl [of "cp_step cfg"] by (auto simp: parts_ok_def)

lemma resolve_if_own:
  "resolve_if own ld name real h = (p, h') \<Longrightarrow> (real \<noteq> 0 \<longrightarrow> \<not> addr_is_own own real) \<Longrightarrow>
   p \<noteq> 0 \<longrightarrow> \<not> addr_is_own own p"
  by (auto simp: resolve_if_def resolve_oem_def Let_def split: if_splits)

lemma resolve_all_keeps:
  "\<exists>a b c d e h. resolve_all_once own ld s = s\<lparr>dm_register := a, dm_callstate := b, dm_commupd := c,
     dm_sendloc := d, dm_startnavi := e, dm_handle := h\<rparr>"
  by (simp add: resolve_all_once_def Let_def split: prod.split) blast

lemma resolve_all_ours: "not_ours own s \<Longrightarrow> not_ours own (resolve_all_once own ld s)"
  by (auto simp: not_ours_def resolve_all_once_def Let_def dest!: resolve_if_own split: prod.splits)

lemma resolve_all_ok:
  "parts_ok cfg (resolve_all_once own ld s) = parts_ok cfg s"
  "armed_ok on (resolve_all_once own ld s) = armed_ok on s"
  using resolve_all_keeps [of own ld s] by (auto simp: parts_ok_def armed_ok_def)

text \<open>What a subscription attempt may change; \<open>new\<close> are the calls it made.\<close>

definition subscribes :: "devmgr \<Rightarrow> devmgr \<Rightarrow> dm_call list \<Rightarrow> bool" where
  "subscribes s t new \<longleftrightarrow>
     dm_hud t = dm_hud s \<and> dm_nav t = dm_nav s \<and> dm_pending t = dm_pending s \<and>
     dm_retry t = dm_retry s \<and> dm_navi_armed t = dm_navi_armed s \<and> dm_calls t = dm_calls s @ new \<and>
     dm_register t = dm_register s \<and> dm_callstate t = dm_callstate s \<and> dm_commupd t = dm_commupd s \<and>
     dm_sendloc t = dm_sendloc s \<and> dm_startnavi t = dm_startnavi s \<and>
     (dm_subscribed s \<longrightarrow> dm_subscribed t \<and> new = []) \<and>
     length (filter (\<lambda>c. c = HmiWorkerStart) new) = (if dm_subscribed t \<and> \<not> dm_subscribed s then 1 else 0)"

lemma hmi_subscribes:
  assumes "\<not> dm_subscribed s"
  shows "\<exists>new. subscribes s (hmi_subscribe e s) new"
proof -
  consider "\<not> de_created e" | "de_created e" "\<not> de_connected e" | "de_created e" "de_connected e" by blast
  then show ?thesis
  proof cases
    case 1
    then have "subscribes s (hmi_subscribe e s) [HmiCreate False]"
      using assms by (simp add: hmi_subscribe_def dm_call_def subscribes_def)
    then show ?thesis ..
  next
    case 2
    then have "subscribes s (hmi_subscribe e s) [HmiCreate True, HmiConnect False, HmiFree]"
      using assms by (simp add: hmi_subscribe_def dm_call_def subscribes_def)
    then show ?thesis ..
  next
    case 3
    then have "subscribes s (hmi_subscribe e s) ([HmiCreate True, HmiConnect True, HmiWorkerStart,
        SignalEnable (dm_tbt_enable s)] @
        (if dm_deactive_enable s \<noteq> 0 then [SignalEnable (dm_deactive_enable s)] else []))"
      using assms by (simp add: hmi_subscribe_def dm_call_def subscribes_def)
    then show ?thesis ..
  qed
qed

lemma subscribes_idle:
  assumes "\<not> dm_subscribed s"
  shows "subscribes s (s\<lparr>dm_client_lib := l\<rparr>) []"
    and "subscribes s (s\<lparr>dm_client_lib := l, dm_tbt_enable := a, dm_deactive_enable := b\<rparr>) []"
    and "subscribes (s\<lparr>dm_client_lib := l, dm_tbt_enable := a, dm_deactive_enable := b\<rparr>) t new \<Longrightarrow>
      subscribes s t new"
  using assms by (simp_all add: subscribes_def)

lemma status_start_subscribes: "\<exists>new. subscribes s (carplay_status_start x s) new"
proof (cases "dm_subscribed s")
  case True
  then show ?thesis by (auto simp: carplay_status_start_def subscribes_def)
next
  case False
  define lib where "lib = load_client x (dm_client_lib s)"
  define a where "a = cp_resolve x lib (ascii ''CARPLAY_TurnByTurnEntitySignal_enable'')"
  define b where "b = cp_resolve x lib (ascii ''CARPLAY_SessionDeactiveSignal_enable'')"
  let ?t = "s\<lparr>dm_client_lib := lib, dm_tbt_enable := a, dm_deactive_enable := b\<rparr>"
  have eq: "carplay_status_start x s =
      (if lib = 0 then s\<lparr>dm_client_lib := lib\<rparr> else if a = 0 then ?t else hmi_subscribe x ?t)"
    using False by (simp add: carplay_status_start_def lib_def [symmetric] a_def [symmetric] b_def [symmetric])
  have "\<exists>new. subscribes s (s\<lparr>dm_client_lib := lib\<rparr>) new" "\<exists>new. subscribes s ?t new"
    using subscribes_idle(1,2) [OF False] by blast+
  moreover have "\<not> dm_subscribed ?t" using False by simp
  then have "\<exists>new. subscribes s (hmi_subscribe x ?t) new"
    using hmi_subscribes [of ?t x] subscribes_idle(3) [where l = lib and a = a and b = b, OF False] by blast
  ultimately show ?thesis by (simp only: eq split: if_split) blast
qed

lemma arm_navi_ok:
  assumes "parts_ok cfg s" and "armed_ok on s" and "not_ours own s"
  shows "parts_ok cfg (arm_navi on e p d s) \<and> armed_ok on (arm_navi on e p d s) \<and>
    not_ours own (arm_navi on e p d s)"
proof (cases "on \<and> \<not> dm_navi_armed s")
  case False
  then have "arm_navi on e p d s = (if on then s\<lparr>dm_armed := True, dm_procH := p, dm_devH := d\<rparr> else s)"
    by (simp add: arm_navi_def)
  then show ?thesis
    using assms by (cases on) (simp_all add: parts_ok_def armed_ok_def not_ours_def)
next
  case True
  let ?s = "s\<lparr>dm_armed := True, dm_procH := p, dm_devH := d, dm_navi_armed := True,
    dm_hud := hud_send_start (de_sender e) (dm_hud s)\<rparr>"
  have r: "dm_retry s = []" using assms(2) True by (auto simp: armed_ok_def)
  define u where "u = carplay_status_start e ?s"
  obtain new where "subscribes ?s u new" using status_start_subscribes unfolding u_def by blast
  then have st: "dm_hud u = hud_send_start (de_sender e) (dm_hud s)" "dm_nav u = dm_nav s"
    "dm_pending u = dm_pending s" "dm_retry u = []" "dm_navi_armed u" "dm_calls u = dm_calls s @ new"
    "dm_subscribed s \<Longrightarrow> dm_subscribed u \<and> new = []"
    "length (filter (\<lambda>c. c = HmiWorkerStart) new) = (if dm_subscribed u \<and> \<not> dm_subscribed s then 1 else 0)"
    "not_ours own u = not_ours own s"
    using r by (simp_all add: subscribes_def not_ours_def)
  have eq: "arm_navi on e p d s =
      (if dm_startnavi u \<noteq> 0 then
         let s = dm_call [StartNavi (dm_startnavi u) p d 0] u in
         if de_retry e then s\<lparr>dm_retry := dm_retry s @ [0]\<rparr> else s
       else u\<lparr>dm_navi_armed := False\<rparr>)"
    using True by (simp add: arm_navi_def Let_def u_def)
  have "parts_ok cfg (s\<lparr>dm_hud := hud_send_start (de_sender e) (dm_hud s)\<rparr>)"
    by (rule parts_ok_hud [OF assms(1) cp_step.start]) (simp add: hud_send_start_def Let_def)
  then have "parts_ok cfg (arm_navi on e p d s)"
    using st(1-3) unfolding eq by (simp add: parts_ok_def dm_call_def Let_def)
  moreover have "armed_ok on (arm_navi on e p d s)"
    using assms(2) st(4-8) r True unfolding eq
    by (cases "dm_subscribed s"; cases "dm_subscribed u"; simp add: armed_ok_def dm_call_def Let_def)
  moreover have "not_ours own (arm_navi on e p d s)"
    using assms(3) st(9) unfolding eq by (simp add: not_ours_def dm_call_def Let_def)
  ultimately show ?thesis by simp
qed

lemma retry_ok:
  assumes "parts_ok cfg s" and "armed_ok on s" and "not_ours own s" and "t < length (dm_retry s)"
  shows "parts_ok cfg (navi_retry t s) \<and> armed_ok on (navi_retry t s) \<and> not_ours own (navi_retry t s)"
  using assms by (auto simp: navi_retry_def dm_call_def parts_ok_def armed_ok_def not_ours_def Let_def)

lemma decode_ok:
  assumes "parts_ok cfg s" and "dm_pending s = []" and "n \<le> int (length b)"
  shows "\<exists>t cs nav. nav_decode (Some b) n s = Some t \<and> parts_ok cfg t \<and>
    t = s\<lparr>dm_nav := nav, dm_pending := cs, dm_hud := (dm_hud s)\<lparr>ch_nav_reset := cn_reset_req nav\<rparr>\<rparr>"
proof -
  let ?nav = "(dm_nav s)\<lparr>cn_reset_req := ch_nav_reset (dm_hud s)\<rparr>"
  have "?nav = dm_nav s \<or> ?nav = nav_request_reset (dm_nav s)"
    using assms(1) by (cases "ch_nav_reset (dm_hud s)") (auto simp: parts_ok_def nav_request_reset_def)
  then have "nav_reached ?nav"
    using assms(1) nav_reached_reset [of "dm_nav s"] by (auto simp: parts_ok_def)
  from nav_reached_msg [OF this assms(3)]
  obtain cs nav where m: "nav_on_devmgr_msg (Some b) n ?nav = Some (cs, nav)" "nav_reached nav"
    "\<forall>c \<in> set cs. call_ok c" "cn_reset_req nav \<longrightarrow> ch_nav_reset (dm_hud s)" by auto
  let ?h = "(dm_hud s)\<lparr>ch_nav_reset := cn_reset_req nav\<rparr>"
  have "?h = dm_hud s \<or> cp_step cfg (dm_hud s) ?h"
    using m(4) cp_step.nav_took_reset [of cfg "dm_hud s"] by (cases "cn_reset_req nav") auto
  then have "(cp_step cfg)\<^sup>*\<^sup>* cp_hud_init ?h"
    using assms(1) rtranclp.rtrancl_into_rtrancl [of "cp_step cfg"] by (auto simp: parts_ok_def)
  then show ?thesis
    using m assms(2) by (auto simp: nav_decode_def parts_ok_def)
qed

lemma msgrcv_ok:
  assumes "parts_ok cfg s" and "armed_ok on s" and "not_ours own s" and "dm_pending s = []"
    and "\<forall>f m k b. rcv f m = (k, Some b) \<longrightarrow> k \<le> int (length b)"
  shows "\<exists>n buf t. msgrcv on e rcv msgp s = Some (n, buf, t) \<and> parts_ok cfg t \<and> armed_ok on t \<and>
    not_ours own t \<and>
    (n, buf) = (if dm_msgrcv t \<noteq> 0 then rcv (dm_msgrcv t) msgp else (-1, msgp)) \<and>
    (\<not> (on \<and> dm_armed s \<and> 0x300 \<le> n \<and> buf \<noteq> None) \<longrightarrow>
       dm_nav t = dm_nav s \<and> dm_pending t = [] \<and> dm_hud t = dm_hud s)"
proof -
  define r where "r = (if dm_msgrcv s = 0 then dlsym_next e (ascii ''msgrcv'') else dm_msgrcv s)"
  let ?s = "s\<lparr>dm_msgrcv := r\<rparr>"
  have s: "parts_ok cfg ?s" "armed_ok on ?s" "not_ours own ?s" "dm_pending ?s = []"
    using assms(1-4) by (simp_all add: parts_ok_def armed_ok_def not_ours_def)
  obtain n buf where nb: "(if r \<noteq> 0 then rcv r msgp else (-1, msgp)) = (n, buf)" by fastforce
  have eq: "msgrcv on e rcv msgp s =
      map_option (\<lambda>s. (n, buf, s)) (if on \<and> dm_armed s \<and> 0 < n then msg_tap buf n ?s else Some ?s)"
    using nb by (auto simp: msgrcv_def r_def Let_def)
  show ?thesis
  proof (cases "on \<and> dm_armed s \<and> 0x300 \<le> n \<and> buf \<noteq> None")
    case False
    then have "msgrcv on e rcv msgp s = Some (n, buf, ?s)"
      unfolding eq by (auto simp: msg_tap_def)
    then show ?thesis using s nb by auto
  next
    case True
    then obtain b where b: "buf = Some b" by blast
    have "n \<le> int (length b)" using nb b assms(5) True by (auto split: if_splits)
    from decode_ok [OF s(1,4) this]
    obtain t cs nav where t: "nav_decode (Some b) n ?s = Some t" "parts_ok cfg t"
      "t = ?s\<lparr>dm_nav := nav, dm_pending := cs, dm_hud := (dm_hud ?s)\<lparr>ch_nav_reset := cn_reset_req nav\<rparr>\<rparr>"
      by blast
    have "msgrcv on e rcv msgp s = Some (n, buf, t)"
      using True unfolding eq by (simp add: b msg_tap_def t(1))
    moreover have "armed_ok on t" "not_ours own t" using s(2,3) True by (simp_all add: t(3) armed_ok_def not_ours_def)
    moreover have "dm_msgrcv t = r" by (simp add: t(3))
    ultimately show ?thesis using t(2) nb True by auto
  qed
qed

definition dm_ok :: "bool \<Rightarrow> dm_code \<Rightarrow> Settings \<Rightarrow> devmgr \<Rightarrow> bool" where
  "dm_ok on own cfg s \<longleftrightarrow> parts_ok cfg s \<and> armed_ok on s \<and> not_ours own s"

lemma dm_okI: "parts_ok cfg s \<Longrightarrow> armed_ok on s \<Longrightarrow> not_ours own s \<Longrightarrow> dm_ok on own cfg s"
  and dm_okD: "dm_ok on own cfg s \<Longrightarrow> parts_ok cfg s" "dm_ok on own cfg s \<Longrightarrow> armed_ok on s"
    "dm_ok on own cfg s \<Longrightarrow> not_ours own s"
  by (simp_all add: dm_ok_def)

lemma resolve_dm_ok: "dm_ok on own cfg s \<Longrightarrow> dm_ok on own cfg (resolve_all_once own ld s)"
  by (simp add: dm_ok_def resolve_all_ok resolve_all_ours)

lemma arm_dm_ok: "dm_ok on own cfg s \<Longrightarrow> dm_ok on own cfg (arm_navi on e p d (resolve_all_once own e s))"
proof -
  assume "dm_ok on own cfg s"
  note ok = dm_okD [OF resolve_dm_ok [OF this, of e]]
  show ?thesis using arm_navi_ok [OF ok] by (simp add: dm_ok_def)
qed

lemma hud_dm_ok:
  assumes "dm_ok on own cfg s" and "cp_step cfg (dm_hud s) h" and on: on
    and "ch_nav_reset (dm_hud s) \<longrightarrow> ch_nav_reset h"
  shows "dm_ok on own cfg (s\<lparr>dm_hud := h\<rparr>)"
  using assms parts_ok_hud [OF dm_okD(1) [OF assms(1)] assms(2,4)]
  by (simp add: dm_ok_def armed_ok_def not_ours_def)

lemma feed1_step: "cp_step cfg h (cp_feed1 c h)" "ch_nav_reset (cp_feed1 c h) = ch_nav_reset h"
proof -
  show "cp_step cfg h (cp_feed1 c h)"
    by (cases c) (simp_all add: cp_step.status cp_step.next_turn cp_step.distance)
  show "ch_nav_reset (cp_feed1 c h) = ch_nav_reset h"
    by (cases c) (simp_all add: hud_on_status_def hud_on_next_turn_def hud_on_distance_def cp_commit_def)
qed

lemma dm_step_ok: "dm_step on own cfg s t \<Longrightarrow> dm_ok on own cfg s \<Longrightarrow> dm_ok on own cfg t"
proof (induction rule: dm_step.induct)
  case (register e args s rc t)
  then show ?case using resolve_dm_ok [of on own cfg s e]
    by (auto simp: eDevMgrRegisterProcess_def Let_def split: if_splits)
next
  case (callstate e args s rc t)
  then show ?case using arm_dm_ok by (auto simp: eDevMgriPodStartCallStateUpdates_def Let_def)
next
  case (commupd e args s rc t)
  then show ?case using arm_dm_ok by (auto simp: eDevMgriPodStartCommunicationUpdates_def Let_def)
next
  case (sendloc e args s rc t)
  then show ?case using arm_dm_ok by (auto simp: eDevMgriPodSendLocationInformation_def Let_def)
next
  case (receive s rcv e msgp n buf t)
  then show ?case
    using msgrcv_ok [OF dm_okD(1-3) [OF receive(4)] receive(1,2), of e msgp] by (auto simp: dm_ok_def)
next
  case (deliver s c cs)
  have on: on using deliver(1) dm_okD(2) [OF deliver(2)] by (auto simp: armed_ok_def)
  have "dm_ok on own cfg (s\<lparr>dm_pending := cs\<rparr>)"
    using deliver on by (auto simp: dm_ok_def parts_ok_def armed_ok_def not_ours_def)
  from hud_dm_ok [OF this _ on, of "cp_feed1 c (dm_hud s)"] feed1_step show ?case by simp
next
  case (retry t s)
  then show ?case using retry_ok [OF dm_okD(1-3) [OF retry(2)] retry(1)] by (simp add: dm_ok_def)
next
  case (tbt s p)
  have on: on using tbt dm_okD(2) [OF tbt(2)] by (auto simp: armed_ok_def)
  have "dm_ok on own cfg (s\<lparr>dm_hud := hud_request_clear (dm_hud s)\<rparr>)"
    by (rule hud_dm_ok [OF tbt(2) cp_step.clear on]) (simp add: hud_request_clear_def)
  then show ?case using tbt(2) by (simp add: cp_tbt_entity_cb_def Let_def)
next
  case (deactive s)
  have on: on using deactive dm_okD(2) [OF deactive(2)] by (auto simp: armed_ok_def)
  show ?case unfolding cp_deactive_cb_def
    by (rule hud_dm_ok [OF deactive(2) cp_step.fullclear on]) (simp add: hud_request_fullclear_def)
next
  case (hud_thread s h)
  have "\<not> ch_up cp_hud_init" by (simp add: cp_hud_init_def)
  then have on: on using hud_thread(2) dm_okD(2) [OF hud_thread(5)] by (auto simp: armed_ok_def)
  show ?case using hud_dm_ok [OF hud_thread(5,1) on hud_thread(4)] .
qed

lemma dm_reachable_ok: "(dm_step on own cfg)\<^sup>*\<^sup>* devmgr_init s \<Longrightarrow> dm_ok on own cfg s"
proof (induction rule: rtranclp_induct)
  case base
  have "nav_reached cp_nav_init" unfolding nav_reached_def by (rule exI [of _ "[]"]) simp
  then show ?case
    by (intro dm_okI) (simp_all add: parts_ok_def armed_ok_def not_ours_def devmgr_init_def,
        simp add: cp_nav_init_def)
next
  case (step s t)
  then show ?case using dm_step_ok by blast
qed

section \<open>Properties\<close>

text \<open>
  C14.  The tap is passive and safe: in every reachable state of the library, a receive call returns
  the length and the buffer the real call returned, reads nothing outside the bytes that call
  stored, and leaves decoder and display alone unless the library is enabled, a session has armed
  it and the message is long enough.  The decoder and the display sender stay in states they can
  reach on their own, so that their theorems hold of the library.
\<close>

theorem tap_is_passive:
  assumes "(dm_step on own cfg)\<^sup>*\<^sup>* devmgr_init s" and "dm_pending s = []"
    and "\<forall>f m k b. rcv f m = (k, Some b) \<longrightarrow> k \<le> int (length b)"
  shows "(cp_step cfg)\<^sup>*\<^sup>* cp_hud_init (dm_hud s) \<and> nav_reached (dm_nav s) \<and>
    (\<exists>n buf t. msgrcv on e rcv msgp s = Some (n, buf, t) \<and>
      (n, buf) = (if dm_msgrcv t \<noteq> 0 then rcv (dm_msgrcv t) msgp else (-1, msgp)) \<and>
      (\<not> (on \<and> dm_armed s \<and> 0x300 \<le> n \<and> buf \<noteq> None) \<longrightarrow>
         dm_nav t = dm_nav s \<and> dm_pending t = [] \<and> dm_hud t = dm_hud s))"
proof -
  note ok = dm_okD [OF dm_reachable_ok [OF assms(1)]]
  show ?thesis
    using msgrcv_ok [OF ok assms(2,3), of e msgp] ok(1) unfolding parts_ok_def by blast
qed

text \<open>
  The library arms at most once: along every run at most one retry thread and one
  subscription to the head unit's signals exist, the pointers it forwards to are never its own
  exports, and in any process but the right one it starts no thread, makes no call of its own and
  leaves decoder and display in their initial state.
\<close>

theorem arms_at_most_once:
  assumes "(dm_step on own cfg)\<^sup>*\<^sup>* devmgr_init s"
  shows "length (dm_retry s) \<le> 1 \<and> length (filter (\<lambda>c. c = HmiWorkerStart) (dm_calls s)) \<le> 1 \<and>
    (\<forall>p \<in> {dm_register s, dm_callstate s, dm_commupd s, dm_sendloc s, dm_startnavi s}.
       p \<noteq> 0 \<longrightarrow> p \<notin> {dc_register own, dc_callstate own, dc_commupd own, dc_sendloc own}) \<and>
    (\<not> on \<longrightarrow> dm_calls s = [] \<and> dm_retry s = [] \<and> dm_nav s = cp_nav_init \<and> dm_hud s = cp_hud_init)"
proof -
  note ok = dm_okD [OF dm_reachable_ok [OF assms]]
  have "length (dm_retry s) \<le> 1" "length (filter (\<lambda>c. c = HmiWorkerStart) (dm_calls s)) \<le> 1"
    "\<not> on \<longrightarrow> dm_calls s = [] \<and> dm_retry s = [] \<and> dm_nav s = cp_nav_init \<and> dm_hud s = cp_hud_init"
    using ok(2) by (simp_all add: armed_ok_def)
  moreover have "\<forall>p \<in> {dm_register s, dm_callstate s, dm_commupd s, dm_sendloc s, dm_startnavi s}.
       p \<noteq> 0 \<longrightarrow> p \<notin> {dc_register own, dc_callstate own, dc_commupd own, dc_sendloc own}"
    using ok(3) unfolding not_ours_def addr_is_own_def by blast
  ultimately show ?thesis by blast
qed

lemma send_forced_ok:
  assumes "cp_send_one cfg False 0 0 cur prev sync sp ch True = Some (calls, ok, sync')"
  shows ok
proof -
  obtain r where r: "cp_strip cfg cur = Some r" using cp_strip_some by blast
  show ?thesis using assms unfolding cp_send_one_def r by (auto simp: Let_def)
qed

lemma forced_view: "fold cp_view_step [(SetHUDDisplayMsg d, 0), (SetHUDDisplayMsg2 m, 0)] v = (Some d, Some m)"
  by (cases v) simp

text \<open>
  Switching navigation off wipes the display: when the head unit reports that CarPlay no
  longer owns turn-by-turn (or reports nothing readable), or the session ends, the sender's next
  clear half - its calls accepted - leaves a blank maneuver on the display, forgets the route, and
  tells the decoder to start over.
\<close>

theorem nav_end_wipes:
  assumes "(dm_step on own cfg)\<^sup>*\<^sup>* devmgr_init s"
    and "h = cp_deactive_cb (dm_hud s) \<or> p \<noteq> Some 1 \<and> h = cp_tbt_entity_cb p (dm_hud s)"
    and "ch_pc (dm_hud s) = CpClear" and "\<not> ch_absent (dm_hud s)"
  shows "\<exists>t. cp_pass_clear cfg 0 0 h = Some t \<and> cp_shows cfg cp_blank (cp_view (ch_calls t)) \<and>
    ch_prev t = cp_blank \<and> \<not> ch_have_guidance t \<and> ch_nav_reset t"
proof -
  have "cp_hud_ok cfg (dm_hud s)"
    using cp_reachable_ok dm_okD(1) [OF dm_reachable_ok [OF assms(1)]] by (simp add: parts_ok_def)
  moreover have "cp_running (dm_hud s)" using assms(3) by (simp add: cp_running_def)
  ultimately have "ch_conn (dm_hud s)" by (simp add: cp_hud_ok_def)
  then have h: "ch_conn h" "\<not> ch_absent h" "ch_fullclear_req h \<or> ch_clear_req h"
    using assms(2,4)
    by (auto simp: cp_deactive_cb_def hud_request_fullclear_def cp_tbt_entity_cb_def
        hud_request_clear_def Let_def split: option.splits if_splits)
  let ?h = "h\<lparr>ch_fullclear_req := False, ch_clear_req := False\<rparr>"
  obtain u where u: "cp_clear_display 0 0 ?h = (True, u)" "cp_shows cfg cp_blank (cp_view (ch_calls u))"
  proof -
    obtain calls ok sync where c: "cp_send_clear (ch_conn h) False 0 0 (ch_sync h) = (calls, ok, sync)"
      by (metis prod_cases3)
    have ok: ok using c h(1) by (auto simp: cp_send_clear_def Let_def)
    have "cp_clear_display 0 0 ?h = (True, cp_sent calls ok sync ?h)"
      using c ok h(2) by (simp add: cp_clear_display_def)
    moreover have "cp_shows cfg cp_blank (cp_view (ch_calls (cp_sent calls ok sync ?h)))"
      using send_clear_shows [of "ch_conn h" 0 0 "ch_sync h" calls sync cfg "cp_view (ch_calls h)"] c ok
      by (simp add: cp_sent_def cp_view_append)
    ultimately show ?thesis using that by blast
  qed
  obtain calls ok sync where o: "cp_send_one cfg False 0 0 cp_blank (ch_prev h) (ch_sync h) (ch_splim h)
      True True = Some (calls, ok, sync)" using send_one_total by (metis prod_cases3)
  have drawn: "cp_shows cfg cp_blank (cp_view (ch_calls (cp_sent calls ok sync ?h)))"
    using send_forced [OF o] by (auto simp: cp_sent_def cp_view_append forced_view cp_shows_def
        simp del: fold_simps fold.simps)
  show ?thesis
    using h(2,3) u o drawn send_forced_ok [OF o]
    by (auto simp: cp_pass_clear_def cp_wiped_def Let_def)
qed

section \<open>A sample session\<close>

definition dm_own :: dm_code where
  "dm_own = \<lparr>dc_register = 1, dc_callstate = 2, dc_commupd = 3, dc_sendloc = 4\<rparr>"

definition dm_sample_env :: dm_env where
  "dm_sample_env =
     \<lparr>dlsym_next = \<lambda>n. 7, dlopen_noload = \<lambda>n. 8, dlsym_in = \<lambda>h n. 9, dlopen_global = \<lambda>n. 10,
      dlsym_default = \<lambda>n. 0, de_oem = \<lambda>f a. 0, de_created = True, de_connected = True,
      de_sender = True, de_retry = True\<rparr>"

text \<open>The session has armed the feed: the sender thread is started.\<close>

definition dm_session :: devmgr where
  "dm_session = snd (eDevMgriPodStartCallStateUpdates True dm_own dm_sample_env (20, 21, 0, 0) devmgr_init)"

lemma dm_session_fields:
  "dm_armed dm_session" "dm_subscribed dm_session" "dm_pending dm_session = []"
  "dm_hud dm_session = hud_send_start True cp_hud_init" "dm_retry dm_session = [0]"
  "dm_nav dm_session = cp_nav_init" "dm_msgrcv dm_session = 0"
  by (simp_all add: dm_session_def eDevMgriPodStartCallStateUpdates_def resolve_all_once_def resolve_if_def
      resolve_oem_def dm_sample_env_def dm_own_def devmgr_init_def addr_is_own_def arm_navi_def
      carplay_status_start_def load_client_def cp_resolve_def hmi_subscribe_def dm_call_def Let_def)

lemma dm_session_reachable: "(dm_step True dm_own cfg)\<^sup>*\<^sup>* devmgr_init dm_session"
  unfolding dm_session_def
  by (rule r_into_rtranclp, rule dm_step.callstate, rule prod.collapse [symmetric])

text \<open>Then the thread of the sender has connected.\<close>

definition dm_connected :: devmgr where
  "dm_connected = dm_session\<lparr>dm_hud :=
     cp_main_begin \<lparr>ve_created = True, ve_connected = True\<rparr> False False True 0 0 (hud_send_start True cp_hud_init)\<rparr>"

lemma dm_connected_fields:
  "dm_armed dm_connected" "dm_pending dm_connected = []" "dm_nav dm_connected = cp_nav_init"
  "ch_pc (dm_hud dm_connected) = CpLoop" "\<not> ch_stop (dm_hud dm_connected)" "\<not> ch_absent (dm_hud dm_connected)"
  "ch_up (dm_hud dm_connected)" "ch_commits (dm_hud dm_connected) = 0" "\<not> ch_nav_reset (dm_hud dm_connected)"
  by (simp_all add: dm_connected_def dm_session_fields cp_session_defs Let_def)

lemma dm_connected_reachable:
  "(dm_step True dm_own default_settings)\<^sup>*\<^sup>* devmgr_init dm_connected"
proof -
  let ?h = "hud_send_start True cp_hud_init"
  have "cp_step default_settings ?h (dm_hud dm_connected)"
    using cp_step.main_begin [of ?h False default_settings "\<lparr>ve_created = True, ve_connected = True\<rparr>" True 0 0]
    by (simp add: dm_connected_def hud_send_start_def cp_hud_init_def)
  moreover have "ch_up ?h" "ch_commits ?h = 0" "\<not> ch_nav_reset ?h"
    by (simp_all add: hud_send_start_def cp_hud_init_def)
  ultimately have "dm_step True dm_own default_settings dm_session (dm_session\<lparr>dm_hud := dm_hud dm_connected\<rparr>)"
    by (intro dm_step.hud_thread) (simp_all add: dm_session_fields(4) dm_connected_fields)
  moreover have "dm_session\<lparr>dm_hud := dm_hud dm_connected\<rparr> = dm_connected" by (simp add: dm_connected_def)
  ultimately show ?thesis
    using rtranclp.rtrancl_into_rtrancl [OF dm_session_reachable] by simp
qed

theorem tap_is_passive_witness:
  "\<exists>buf t. msgrcv True dm_sample_env (\<lambda>f m. (1628, Some (fst guide_msg))) None dm_session =
     Some (1628, buf, t) \<and> buf = Some (fst guide_msg)"
proof -
  let ?rcv = "\<lambda>(f :: u32) (m :: u8 list option). (1628 :: int, Some (fst guide_msg))"
  have len: "length (fst guide_msg) = 1628" by (simp add: guide_msg_def)
  then have "\<forall>f m k b. ?rcv f m = (k, Some b) \<longrightarrow> k \<le> int (length b)" by auto
  from tap_is_passive [OF dm_session_reachable dm_session_fields(3) this]
  obtain n buf t where m: "msgrcv True dm_sample_env ?rcv None dm_session = Some (n, buf, t)"
    "(n, buf) = (if dm_msgrcv t \<noteq> 0 then ?rcv (dm_msgrcv t) None else (-1, None))" by blast
  have "n = 1628" using m(1) dm_session_fields(7)
    by (auto simp: msgrcv_def dm_sample_env_def Let_def split: if_splits)
  then show ?thesis using m by (auto split: if_splits)
qed

theorem arms_at_most_once_witness:
  "length (dm_retry dm_session) = 1 \<and> length (filter (\<lambda>c. c = HmiWorkerStart) (dm_calls dm_session)) \<le> 1"
  using arms_at_most_once [OF dm_session_reachable] dm_session_fields(5) by simp

theorem nav_end_wipes_witness:
  "\<exists>s t. (dm_step True dm_own default_settings)\<^sup>*\<^sup>* devmgr_init s \<and>
    cp_pass_clear default_settings 0 0 (cp_tbt_entity_cb (Some 0) (dm_hud s)) = Some t \<and>
    cp_shows default_settings cp_blank (cp_view (ch_calls t))"
proof -
  let ?step = "dm_step True dm_own default_settings" and ?a = "dm_hud dm_connected"
  obtain b where b: "cp_pass_send default_settings cp_env ?a = Some b" using cp_pass_send_total by blast
  have fb: "ch_pc b = CpClear" "\<not> ch_absent b" "ch_commits b = 0" "ch_nav_reset b = ch_nav_reset ?a"
    using b dm_connected_fields by (cases rule: cp_pass_send_cases; simp add: cp_sent_def)+
  let ?s = "dm_connected\<lparr>dm_hud := b\<rparr>"
  have "?step dm_connected ?s"
    by (rule dm_step.hud_thread)
      (use cp_step.pass_send [OF dm_connected_fields(4,5) b] dm_connected_fields fb in simp_all)
  then have r: "?step\<^sup>*\<^sup>* devmgr_init ?s"
    using dm_connected_reachable by (rule rtranclp.rtrancl_into_rtrancl [rotated])
  have hud: "dm_hud ?s = b" by simp
  have "cp_tbt_entity_cb (Some 0) (dm_hud ?s) = cp_deactive_cb (dm_hud ?s) \<or>
    (Some 0 :: u32 option) \<noteq> Some 1 \<and>
      cp_tbt_entity_cb (Some 0) (dm_hud ?s) = cp_tbt_entity_cb (Some 0) (dm_hud ?s)" by simp
  from nav_end_wipes [OF r this, unfolded hud, OF fb(1,2)]
  obtain t where "cp_pass_clear default_settings 0 0 (cp_tbt_entity_cb (Some 0) (dm_hud ?s)) = Some t"
    "cp_shows default_settings cp_blank (cp_view (ch_calls t))" unfolding hud by blast
  with r show ?thesis by blast
qed

end
