(* ===== verification/Carplay_Path.thy ===== *)
theory Carplay_Path
  imports Devmgr_Shim
begin

text \<open>
  The CarPlay path from the message queue to the display: the tap of \<open>devmgr_shim.cpp\<close> receives a
  burst of messages, the decoder of \<open>nav.cpp\<close> turns them into calls, and the thread of
  \<open>hud_send.cpp\<close> draws what they leave.
\<close>

section \<open>Receiving messages\<close>

text \<open>
  One message of the queue is received through the interposed \<open>msgrcv\<close>, and the decoder's calls on
  the display sender are delivered before the next one is taken.
\<close>

definition tap_deliver :: "dm_env \<Rightarrow> nav_msg \<Rightarrow> devmgr \<Rightarrow> devmgr option" where
  "tap_deliver e m s =
     (case msgrcv True e (\<lambda>f p. (int (snd m), Some (fst m))) None s of
        None \<Rightarrow> None
      | Some (n, buf, t) \<Rightarrow>
          Some (t\<lparr>dm_pending := [], dm_hud := cp_feed (dm_pending t) (dm_hud t)\<rparr>))"

fun tap_all :: "dm_env \<Rightarrow> nav_msg list \<Rightarrow> devmgr \<Rightarrow> devmgr option" where
  "tap_all e [] s = Some s"
| "tap_all e (m # ms) s = (case tap_deliver e m s of None \<Rightarrow> None | Some t \<Rightarrow> tap_all e ms t)"

text \<open>A message the tap does not skip: its length is covered by its bytes and reaches the threshold.\<close>

definition tapped :: "nav_msg \<Rightarrow> bool" where
  "tapped m \<longleftrightarrow> snd m \<le> length (fst m) \<and> 0x300 \<le> snd m"

text \<open>The decoder with the reset flag it shares with the sender.\<close>

definition dm_decoder :: "devmgr \<Rightarrow> cp_nav" where
  "dm_decoder s = (dm_nav s)\<lparr>cn_reset_req := ch_nav_reset (dm_hud s)\<rparr>"

section \<open>Receiving is feeding the decoder\<close>

lemma feed1_reset: "cp_feed1 c (h\<lparr>ch_nav_reset := b\<rparr>) = (cp_feed1 c h)\<lparr>ch_nav_reset := b\<rparr>"
  by (cases c) (simp_all add: hud_on_status_def hud_on_next_turn_def hud_on_distance_def cp_commit_def)

lemma feed_reset: "cp_feed cs (h\<lparr>ch_nav_reset := b\<rparr>) = (cp_feed cs h)\<lparr>ch_nav_reset := b\<rparr>"
  by (induction cs rule: rev_induct) (simp_all add: cp_feed_def feed1_reset)

lemma feed_append: "cp_feed (cs @ ds) h = cp_feed ds (cp_feed cs h)"
  by (simp add: cp_feed_def)

lemma tap_deliver_eq:
  assumes "tapped m" and "dm_armed s" and "dm_pending s = []" and "dlsym_next e (ascii ''msgrcv'') \<noteq> 0"
    and "nav_on_devmgr_msg (Some (fst m)) (int (snd m)) (dm_decoder s) = Some (cs, nav)"
  obtains t where "tap_deliver e m s = Some t" and "dm_armed t" and "dm_pending t = []"
    and "dm_hud t = (cp_feed cs (dm_hud s))\<lparr>ch_nav_reset := cn_reset_req nav\<rparr>" and "dm_decoder t = nav"
proof -
  define r where "r = (if dm_msgrcv s = 0 then s\<lparr>dm_msgrcv := dlsym_next e (ascii ''msgrcv'')\<rparr> else s)"
  define b where "b = cn_reset_req nav"
  let ?n = "int (snd m)" and ?b = "Some (fst m)"
  let ?t = "r\<lparr>dm_nav := nav, dm_pending := cs, dm_hud := (dm_hud s)\<lparr>ch_nav_reset := b\<rparr>\<rparr>"
  have r: "dm_msgrcv r \<noteq> 0" "dm_armed r" "dm_pending r = []" "dm_hud r = dm_hud s" "dm_nav r = dm_nav s"
    using assms(2-4) by (simp_all add: r_def)
  have "nav_decode ?b ?n r = Some ?t"
    using assms(5) r(3-5) unfolding dm_decoder_def nav_decode_def b_def by simp
  then have tap: "msg_tap ?b ?n r = Some ?t"
    using assms(1) by (simp add: msg_tap_def tapped_def)
  have pos: "0 < ?n" using assms(1) by (simp add: tapped_def)
  have "msgrcv True e (\<lambda>f p. (?n, ?b)) None s = Some (?n, ?b, ?t)"
    unfolding msgrcv_def r_def [symmetric] Let_def using r(1,2) pos tap by simp
  then have "tap_deliver e m s = Some (?t\<lparr>dm_pending := [], dm_hud := cp_feed cs (dm_hud ?t)\<rparr>)"
    by (simp add: tap_deliver_def)
  then show ?thesis
    by (rule that) (simp_all add: r(2) feed_reset dm_decoder_def b_def)
qed

lemma tap_all_run:
  assumes "\<forall>m \<in> set ms. tapped m" and "dm_armed s" and "dm_pending s = []"
    and "dlsym_next e (ascii ''msgrcv'') \<noteq> 0"
    and "nav_run (map nav_input ms) (dm_decoder s) = Some (cs, nav)"
  shows "\<exists>t. tap_all e ms s = Some t \<and>
    dm_hud t = (cp_feed cs (dm_hud s))\<lparr>ch_nav_reset := cn_reset_req nav\<rparr> \<and> dm_decoder t = nav"
  using assms
proof (induction ms arbitrary: s cs)
  case Nil
  then have "cs = []" "nav = dm_decoder s" by simp_all
  then show ?case by (simp add: cp_feed_def dm_decoder_def)
next
  case (Cons m ms)
  obtain cs1 nav1 cs2 where r: "nav_on_devmgr_msg (Some (fst m)) (int (snd m)) (dm_decoder s) = Some (cs1, nav1)"
    "nav_run (map nav_input ms) nav1 = Some (cs2, nav)" "cs = cs1 @ cs2"
    using Cons.prems(5) by (cases m) (auto split: bind_splits)
  obtain t where t: "tap_deliver e m s = Some t" "dm_armed t" "dm_pending t = []"
    "dm_hud t = (cp_feed cs1 (dm_hud s))\<lparr>ch_nav_reset := cn_reset_req nav1\<rparr>" "dm_decoder t = nav1"
    using tap_deliver_eq [OF _ Cons.prems(2-4) r(1)] Cons.prems(1) by auto
  have "\<exists>u. tap_all e ms t = Some u \<and>
      dm_hud u = (cp_feed cs2 (dm_hud t))\<lparr>ch_nav_reset := cn_reset_req nav\<rparr> \<and> dm_decoder u = nav"
    using Cons.IH [of t cs2] Cons.prems(1,4) t r(2) by simp
  then show ?case using t r(3) by (auto simp: feed_reset feed_append)
qed

section \<open>Receiving is a run of the library\<close>

lemma deliver_all:
  "dm_pending s = cs \<Longrightarrow>
   (dm_step on own cfg)\<^sup>*\<^sup>* s (s\<lparr>dm_pending := [], dm_hud := cp_feed cs (dm_hud s)\<rparr>)"
proof (induction cs arbitrary: s)
  case Nil
  then have "s\<lparr>dm_pending := [], dm_hud := cp_feed [] (dm_hud s)\<rparr> = s" by (simp add: cp_feed_def)
  then show ?case by (metis rtranclp.rtrancl_refl)
next
  case (Cons c cs)
  let ?t = "s\<lparr>dm_pending := cs, dm_hud := cp_feed1 c (dm_hud s)\<rparr>"
  have "dm_step on own cfg s ?t" by (rule dm_step.deliver [OF Cons.prems])
  moreover have "(dm_step on own cfg)\<^sup>*\<^sup>* ?t (?t\<lparr>dm_pending := [], dm_hud := cp_feed cs (dm_hud ?t)\<rparr>)"
    by (rule Cons.IH) simp
  ultimately have "(dm_step on own cfg)\<^sup>*\<^sup>* s (?t\<lparr>dm_pending := [], dm_hud := cp_feed cs (dm_hud ?t)\<rparr>)"
    by (rule converse_rtranclp_into_rtranclp)
  then show ?case by (simp add: cp_feed_def)
qed

lemma tap_deliver_steps:
  assumes "tap_deliver e m s = Some t" and "dm_pending s = []" and "snd m \<le> length (fst m)"
  shows "(dm_step True own cfg)\<^sup>*\<^sup>* s t \<and> dm_pending t = []"
proof -
  let ?rcv = "\<lambda>(f :: u32) (p :: u8 list option). (int (snd m), Some (fst m))"
  obtain n buf u where u: "msgrcv True e ?rcv None s = Some (n, buf, u)"
    "t = u\<lparr>dm_pending := [], dm_hud := cp_feed (dm_pending u) (dm_hud u)\<rparr>"
    using assms(1) by (auto simp: tap_deliver_def split: option.splits)
  have "dm_step True own cfg s u"
    by (rule dm_step.receive [where rcv = ?rcv, OF assms(2) _ u(1)]) (use assms(3) in simp)
  then show ?thesis
    using deliver_all [OF refl, of True own cfg u] u(2) by (simp add: converse_rtranclp_into_rtranclp)
qed

lemma tap_all_steps:
  "tap_all e ms s = Some t \<Longrightarrow> dm_pending s = [] \<Longrightarrow> \<forall>m \<in> set ms. tapped m \<Longrightarrow>
   (dm_step True own cfg)\<^sup>*\<^sup>* s t"
proof (induction ms arbitrary: s)
  case (Cons m ms)
  then obtain u where u: "tap_deliver e m s = Some u" "tap_all e ms u = Some t"
    by (auto split: option.splits)
  have "(dm_step True own cfg)\<^sup>*\<^sup>* s u \<and> dm_pending u = []"
    using tap_deliver_steps [OF u(1)] Cons.prems(2,3) by (simp add: tapped_def)
  then show ?case using Cons.IH [OF u(2)] Cons.prems(3) by (meson list.set_intros(2) rtranclp_trans)
qed simp

section \<open>From the queue to the display\<close>

text \<open>In a reachable state the decoder and the sender are in states of their own.\<close>

lemma reachable_parts:
  assumes "(dm_step True own cfg)\<^sup>*\<^sup>* devmgr_init s"
  obtains ins cs where "\<forall>i \<in> set ins. input_ok i" and "nav_run ins cp_nav_init = Some (cs, dm_decoder s)"
    and "(cp_step cfg)\<^sup>*\<^sup>* cp_hud_init (dm_hud s)"
proof -
  have ok: "parts_ok cfg s" by (rule dm_okD(1) [OF dm_reachable_ok [OF assms]])
  then have "dm_decoder s = dm_nav s \<or> dm_decoder s = nav_request_reset (dm_nav s)"
    by (cases "ch_nav_reset (dm_hud s)") (auto simp: parts_ok_def dm_decoder_def nav_request_reset_def)
  then have "nav_reached (dm_decoder s)"
    using ok nav_reached_reset [of "dm_nav s"] by (auto simp: parts_ok_def)
  then show ?thesis using ok that by (auto simp: nav_reached_def parts_ok_def)
qed

text \<open>A sender that took the reset flag or kept it.\<close>

lemma reset_taken:
  assumes "(cp_step cfg)\<^sup>*\<^sup>* cp_hud_init h" and "b \<longrightarrow> ch_nav_reset h"
  shows "(cp_step cfg)\<^sup>*\<^sup>* cp_hud_init (h\<lparr>ch_nav_reset := b\<rparr>)"
proof (cases "b = ch_nav_reset h")
  case True
  then show ?thesis using assms(1) by simp
next
  case False
  then have "\<not> b" using assms(2) by simp
  then show ?thesis
    using assms(1) cp_step.nav_took_reset [of cfg h] by (simp add: rtranclp.rtrancl_into_rtrancl)
qed

lemma run_reset:
  "nav_run (map nav_input ms) s = Some (cs, t) \<Longrightarrow> \<forall>m \<in> set ms. tapped m \<Longrightarrow>
   cn_reset_req t \<longrightarrow> cn_reset_req s"
proof (induction ms arbitrary: s cs)
  case (Cons m ms)
  obtain cs1 u cs2 where r: "nav_on_devmgr_msg (Some (fst m)) (int (snd m)) s = Some (cs1, u)"
    "nav_run (map nav_input ms) u = Some (cs2, t)"
    using Cons.prems(1) by (cases m) (auto split: bind_splits)
  have "input_ok (CpMsg (Some (fst m)) (int (snd m)))" using Cons.prems(2) by (simp add: tapped_def)
  from nav_msg_step [OF this, of s] r(1) have "cn_reset_req u \<longrightarrow> cn_reset_req s"
    using nav_step_takes_reset by (metis option.inject prod.inject snd_conv)
  then show ?case using Cons.IH [OF r(2)] Cons.prems(2) by simp
qed simp

text \<open>
  C3.  From the message queue to the display: in any reachable state of the library with a session
  armed, iOS starts (or restarts) a route - a reset is pending or nothing has been shown yet - and the
  queue delivers a burst of maneuvers and a guidance message whose list head designates one of them.
  Every receive returns what the queue held, the library stays in a reachable state, and when the display
  sender then makes its next pass and none of its calls fails, the display shows the glyph of exactly
  that maneuver and its road name.
\<close>

theorem queue_to_display:
  assumes reach: "(dm_step True own cfg)\<^sup>*\<^sup>* devmgr_init s" and armed: "dm_armed s" "dm_pending s = []"
    and rcv: "dlsym_next e (ascii ''msgrcv'') \<noteq> 0"
    and fresh: "ch_nav_reset (dm_hud s) \<or> never_shown (dm_nav s)"
    and burst: "is_burst ms" and guide: "msg_of_kind kMtGuidance (g, k)" "field16 g k kManListCntOff \<noteq> 0"
    and head: "is_head_of (burst_window ms) (ucast (field16 g k kManListOff)) m"
    and big: "\<forall>p \<in> set (ms @ [(g, k)]). 0x300 \<le> snd p"
    and idle: "ch_pc (dm_hud s) = CpLoop" and debug: "\<not> cfg_carplay_hud_debug cfg"
  shows "\<exists>t u. tap_all e (ms @ [(g, k)]) s = Some t \<and> (dm_step True own cfg)\<^sup>*\<^sup>* s t \<and>
    cp_pass_send cfg env (dm_hud t) = Some u \<and>
    (\<not> ch_missed u \<and> ch_commits (dm_hud t) - ch_seen (dm_hud s) < 2 ^ 31 \<longrightarrow>
      (\<exists>d strip n. cp_view (ch_calls u) = (Some d, Some strip) \<and>
        nextManeuverInfo d = cp_icon (cp_of_maneuver (bm_mv m) cp_blank) \<and>
        guidancePointName strip = cp_strip cfg n \<and>
        cstr (cs_road n) = (if cstr (sh_road (shown_of m)) = [] then [32] else cstr (sh_road (shown_of m)))))"
proof -
  let ?ms = "ms @ [(g, k)]"
  obtain ins cs0 where p: "\<forall>i \<in> set ins. input_ok i" "nav_run ins cp_nav_init = Some (cs0, dm_decoder s)"
    "(cp_step cfg)\<^sup>*\<^sup>* cp_hud_init (dm_hud s)" by (rule reachable_parts [OF reach])
  have fresh': "cn_reset_req (dm_decoder s) \<or> never_shown (dm_decoder s)"
    using fresh by (simp add: dm_decoder_def never_shown_def)
  have tapped: "\<forall>q \<in> set ?ms. tapped q"
    using burst guide(1) big by (auto simp: tapped_def is_burst_def msg_of_kind_def)
  obtain cs nav where run: "nav_run (map nav_input ?ms) (dm_decoder s) = Some (cs, nav)"
    using head_shown [OF p(1,2) burst guide head] by auto
  let ?h = "(dm_hud s)\<lparr>ch_nav_reset := cn_reset_req nav\<rparr>"
  have "cn_reset_req nav \<longrightarrow> ch_nav_reset (dm_hud s)"
    using run_reset [OF run tapped] by (simp add: dm_decoder_def)
  then have h: "(cp_step cfg)\<^sup>*\<^sup>* cp_hud_init ?h" "ch_pc ?h = CpLoop"
    using reset_taken [OF p(3)] idle by simp_all
  obtain t where t: "tap_all e ?ms s = Some t" "dm_hud t = cp_feed cs ?h"
    using tap_all_run [OF tapped armed rcv run] by (auto simp: feed_reset)
  have steps: "(dm_step True own cfg)\<^sup>*\<^sup>* s t" by (rule tap_all_steps [OF t(1) armed(2) tapped])
  show ?thesis
    using carplay_end_to_end [OF p(1,2) fresh' burst guide head h debug, of env] run t steps by auto
qed

section \<open>A sample route\<close>

text \<open>Messages at the sizes iOS uses: a heading entry and a left turn of 840 bytes, and a guidance message.\<close>

definition queue_heading :: nav_msg where
  "queue_heading = (nav_bytes [(0, 0x59), (1, 0x80)] 840, 840)"

definition queue_turn :: nav_msg where
  "queue_turn = (nav_bytes [(0, 0x59), (1, 0x80), (0x22, 1), (0x128, 1), (0x12c, 0x41)] 840, 840)"

lemma queue_kinds: "msg_of_kind kMtManeuver queue_heading" "msg_of_kind kMtManeuver queue_turn"
  by (simp_all add: msg_of_kind_def queue_heading_def queue_turn_def msg_kind_def
      field32_def bytes_u32_def kMtManeuver_def)

lemma queue_indices: "idx_of queue_heading = 0" "idx_of queue_turn = 1"
  by (simp_all add: idx_of_def msg_idx_def queue_heading_def queue_turn_def field32_def bytes_u32_def
      kBurstIdxOff_def)

lemma queue_displayable:
  "displayable (fst queue_turn) (snd queue_turn)" "\<not> displayable (fst queue_heading) (snd queue_heading)"
proof -
  have "msg_type (fst queue_turn) (snd queue_turn) = 1"
    by (simp add: msg_type_def queue_turn_def field32_def bytes_u32_def kManeuverTypeOff_def)
  then show "displayable (fst queue_turn) (snd queue_turn)"
    "\<not> displayable (fst queue_heading) (snd queue_heading)"
    using queue_indices by (simp_all add: displayable_def idx_of_def is_context_type_def)
qed

theorem queue_to_display_witness:
  "\<exists>t u. tap_all dm_sample_env [queue_heading, queue_turn, guide_msg] dm_connected = Some t \<and>
    (dm_step True dm_own default_settings)\<^sup>*\<^sup>* dm_connected t \<and>
    cp_pass_send default_settings cp_env (dm_hud t) = Some u"
proof -
  let ?m = "maneuver_at (fst queue_turn) (snd queue_turn)"
  have burst: "is_burst [queue_heading, queue_turn]"
    by (simp add: is_burst_def queue_kinds queue_indices)
  have "burst_window [queue_heading, queue_turn] = [?m]"
    by (simp add: burst_window_def queue_displayable)
  then have head: "is_head_of (burst_window [queue_heading, queue_turn])
      (ucast (field16 (fst guide_msg) (snd guide_msg) kManListOff)) ?m"
    using queue_indices by (simp add: is_head_of_def sample_guide maneuver_at_def idx_of_def)
  have g: "msg_of_kind kMtGuidance (fst guide_msg, snd guide_msg)" using sample_kinds(3) by simp
  have n: "field16 (fst guide_msg) (snd guide_msg) kManListCntOff \<noteq> 0" by (simp add: sample_guide)
  have rcv: "dlsym_next dm_sample_env (ascii ''msgrcv'') \<noteq> 0" by (simp add: dm_sample_env_def)
  have never: "ch_nav_reset (dm_hud dm_connected) \<or> never_shown (dm_nav dm_connected)"
    by (simp add: dm_connected_fields never_shown_def) (simp add: cp_nav_init_def cp_never_def)
  have big: "\<forall>p \<in> set ([queue_heading, queue_turn] @ [(fst guide_msg, snd guide_msg)]). 0x300 \<le> snd p"
    by (simp add: queue_heading_def queue_turn_def guide_msg_def)
  have debug: "\<not> cfg_carplay_hud_debug default_settings" by (simp add: default_settings_def)
  from queue_to_display [OF dm_connected_reachable dm_connected_fields(1,2) rcv never burst g n head big
      dm_connected_fields(4) debug, of cp_env] show ?thesis by simp blast
qed

end
