(* ===== verification/Audio.thy ===== *)
theory Audio
  imports Preload
begin

text \<open>
  The audio shim of \<open>aap_service\<close> (\<open>aap_service/audio/audio.cpp\<close>): the table of open Android Auto
  playback handles and the three interposed ALSA functions.  Handles and addresses are words, 0 is
  null; an empty slot of the table is \<open>None\<close>.  The mutex makes an access to the table one step.
\<close>

section \<open>The table of handles\<close>

type_synonym tracked = "(u32 \<times> u8 list) option list"

definition kTrackedSlots :: nat where "kTrackedSlots = 8"

definition canonical_aa_name :: "u8 list option \<Rightarrow> u8 list option" where
  "canonical_aa_name name =
     (case name of
        None \<Rightarrow> None
      | Some n \<Rightarrow>
          if cstr n = ascii ''androidautoMainAudio'' then Some (ascii ''androidautoMainAudio'')
          else if cstr n = ascii ''androidautoMainAudioVR'' then Some (ascii ''androidautoMainAudioVR'')
          else if cstr n = ascii ''androidautoAltAudio'' then Some (ascii ''androidautoAltAudio'')
          else None)"

fun track_pcm :: "u32 \<Rightarrow> u8 list \<Rightarrow> tracked \<Rightarrow> tracked" where
  "track_pcm pcm name [] = []"
| "track_pcm pcm name (None # ts) = Some (pcm, name) # ts"
| "track_pcm pcm name (Some t # ts) = Some t # track_pcm pcm name ts"

fun tracked_name :: "u32 \<Rightarrow> tracked \<Rightarrow> u8 list option" where
  "tracked_name pcm [] = None"
| "tracked_name pcm (None # ts) = (if pcm = 0 then None else tracked_name pcm ts)"
| "tracked_name pcm (Some (p, n) # ts) = (if p = pcm then Some n else tracked_name pcm ts)"

fun untrack_pcm :: "u32 \<Rightarrow> tracked \<Rightarrow> tracked" where
  "untrack_pcm pcm [] = []"
| "untrack_pcm pcm (None # ts) = (if pcm = 0 then None # ts else None # untrack_pcm pcm ts)"
| "untrack_pcm pcm (Some (p, n) # ts) =
     (if p = pcm then None # ts else Some (p, n) # untrack_pcm pcm ts)"

section \<open>The interposed functions\<close>

record audio =
  au_resolved :: bool
  au_open :: u32
  au_close :: u32
  au_set_threshold :: u32
  au_get_params :: u32
  au_enabled :: bool
  au_tracked :: tracked

definition audio_init :: audio where
  "audio_init = \<lparr>au_resolved = False, au_open = 0, au_close = 0, au_set_threshold = 0, au_get_params = 0,
     au_enabled = False, au_tracked = replicate kTrackedSlots None\<rparr>"

definition ENOSYS :: int where "ENOSYS = 38"
definition SND_PCM_STREAM_PLAYBACK :: int where "SND_PCM_STREAM_PLAYBACK = 0"

definition resolve_real_functions :: "linker \<Rightarrow> audio \<Rightarrow> audio" where
  "resolve_real_functions ld s =
     s\<lparr>au_open := dlsym_next ld (ascii ''snd_pcm_open''),
       au_close := dlsym_next ld (ascii ''snd_pcm_close''),
       au_set_threshold := dlsym_next ld (ascii ''snd_pcm_sw_params_set_start_threshold''),
       au_get_params := dlsym_next ld (ascii ''snd_pcm_get_params'')\<rparr>"

definition resolve_audio_once :: "linker \<Rightarrow> audio \<Rightarrow> audio" where
  "resolve_audio_once ld s =
     (if au_resolved s then s else (resolve_real_functions ld s)\<lparr>au_resolved := True\<rparr>)"

definition aap_service_audio_init :: "audio \<Rightarrow> audio" where
  "aap_service_audio_init s = s\<lparr>au_enabled := True\<rparr>"

text \<open>
  The vendor's functions by address: \<open>open\<close> gives the return code and what it left in \<open>*pcm\<close>
  (\<open>None\<close> for a null \<open>pcm\<close>), \<open>get_params\<close> the code, the buffer size and the period.
\<close>

record alsa =
  al_open :: "u32 \<Rightarrow> u8 list option \<Rightarrow> int \<Rightarrow> int \<Rightarrow> int \<times> u32 option"
  al_close :: "u32 \<Rightarrow> u32 \<Rightarrow> int"
  al_set_threshold :: "u32 \<Rightarrow> u32 \<Rightarrow> u32 \<Rightarrow> int"
  al_get_params :: "u32 \<Rightarrow> u32 \<Rightarrow> int \<times> u32 \<times> u32"

definition snd_pcm_open ::
  "linker \<Rightarrow> alsa \<Rightarrow> u8 list option \<Rightarrow> int \<Rightarrow> int \<Rightarrow> audio \<Rightarrow> int \<times> u32 option \<times> audio" where
  "snd_pcm_open ld al name stream mode s =
     (let s = resolve_audio_once ld s in
      if au_open s = 0 then (- ENOSYS, None, s)
      else
        (case al_open al (au_open s) name stream mode of
           (rc, pcm) \<Rightarrow>
             (rc, pcm,
              case (pcm, canonical_aa_name name) of
                (Some p, Some aa) \<Rightarrow>
                  if rc = 0 \<and> au_enabled s \<and> p \<noteq> 0 \<and> stream = SND_PCM_STREAM_PLAYBACK
                  then s\<lparr>au_tracked := track_pcm p aa (au_tracked s)\<rparr> else s
              | _ \<Rightarrow> s)))"

text \<open>The threshold handed to the vendor's function, if it was called, comes with the result.\<close>

definition snd_pcm_sw_params_set_start_threshold ::
  "linker \<Rightarrow> alsa \<Rightarrow> u32 \<Rightarrow> u32 \<Rightarrow> audio \<Rightarrow> int \<times> u32 option \<times> audio" where
  "snd_pcm_sw_params_set_start_threshold ld al pcm threshold s =
     (let s = resolve_audio_once ld s in
      if au_set_threshold s = 0 then (- ENOSYS, None, s)
      else
        let name = (if au_enabled s then tracked_name pcm (au_tracked s) else None);
            keep = (al_set_threshold al (au_set_threshold s) pcm threshold, Some threshold, s) in
        if name = None \<or> au_get_params s = 0 then keep
        else
          (case al_get_params al (au_get_params s) pcm of
             (rc, buffer_size, period_size) \<Rightarrow>
               if rc < 0 \<or> period_size = 0 then keep
               else
                 let replacement = (if period_size < threshold then period_size else threshold) in
                 (al_set_threshold al (au_set_threshold s) pcm replacement, Some replacement, s)))"

definition snd_pcm_close :: "linker \<Rightarrow> alsa \<Rightarrow> u32 \<Rightarrow> audio \<Rightarrow> int \<times> audio" where
  "snd_pcm_close ld al pcm s =
     (let s = resolve_audio_once ld s in
      if au_close s = 0 then (- ENOSYS, s)
      else
        let s = (if au_enabled s then s\<lparr>au_tracked := untrack_pcm pcm (au_tracked s)\<rparr> else s) in
        (al_close al (au_close s) pcm, s))"

section \<open>The table implements a bounded map\<close>

definition handles :: "tracked \<Rightarrow> (u32 \<times> u8 list) list" where
  "handles ts = List.map_filter id ts"

definition tracked_ok :: "tracked \<Rightarrow> bool" where
  "tracked_ok ts \<longleftrightarrow> length ts = kTrackedSlots \<and> distinct (map fst (handles ts)) \<and> 0 \<notin> fst ` set (handles ts)"

lemma handles_simps [simp]:
  "handles [] = []" "handles (None # ts) = handles ts" "handles (Some t # ts) = t # handles ts"
  by (simp_all add: handles_def List.map_filter_def)

lemma length_track [simp]: "length (track_pcm p n ts) = length ts"
  by (induction p n ts rule: track_pcm.induct) simp_all

lemma length_untrack [simp]: "length (untrack_pcm p ts) = length ts"
  by (induction p ts rule: untrack_pcm.induct) simp_all

lemma length_handles: "length (handles ts) \<le> length ts"
proof (induction ts)
  case (Cons t ts)
  then show ?case by (cases t) simp_all
qed simp

lemma tracked_name_map:
  assumes "0 \<notin> fst ` set (handles ts)"
  shows "tracked_name p ts = map_of (handles ts) p"
proof -
  have "0 \<notin> fst ` set (handles us) \<Longrightarrow> tracked_name p us = map_of (handles us) p" for us
  proof (induction p us rule: tracked_name.induct)
    case (2 p ts)
    show ?case
    proof (cases "p = 0")
      case True
      have "map_of (handles ts) 0 = None" using 2(2) by (simp add: map_of_eq_None_iff)
      then show ?thesis using True by simp
    qed (use 2 in simp)
  qed simp_all
  then show ?thesis using assms .
qed

lemma track_full: "length (handles ts) = length ts \<Longrightarrow> track_pcm p n ts = ts"
proof (induction p n ts rule: track_pcm.induct)
  case (2 p n ts)
  then show ?case using length_handles [of ts] by simp
qed simp_all

lemma track_room:
  "length (handles ts) < length ts \<Longrightarrow> p \<notin> fst ` set (handles ts) \<Longrightarrow>
   set (handles (track_pcm p n ts)) = insert (p, n) (set (handles ts)) \<and>
   (distinct (map fst (handles ts)) \<longrightarrow> distinct (map fst (handles (track_pcm p n ts))))"
  by (induction p n ts rule: track_pcm.induct) (auto simp: insert_commute)

lemma untrack_handles:
  "0 \<notin> fst ` set (handles ts) \<Longrightarrow> distinct (map fst (handles ts)) \<Longrightarrow>
   handles (untrack_pcm p ts) = filter (\<lambda>(q, n). q \<noteq> p) (handles ts)"
proof (induction p ts rule: untrack_pcm.induct)
  case (2 p ts)
  have "filter (\<lambda>(q, n). q \<noteq> 0) (handles ts) = handles ts"
    using 2(2) by (intro filter_True) force
  then show ?case using 2 by simp
next
  case (3 p q n ts)
  have "filter (\<lambda>(r, n). r \<noteq> q) (handles ts) = handles ts"
    using 3(3) by (intro filter_True) force
  then show ?case using 3 by auto
qed simp

lemma tracked_ok_track:
  assumes "tracked_ok ts" and "p \<noteq> 0" and "tracked_name p ts = None"
  shows "tracked_ok (track_pcm p n ts)" and
    "tracked_name q (track_pcm p n ts) =
       (if length (handles ts) < kTrackedSlots \<and> q = p then Some n else tracked_name q ts)"
proof -
  have z: "0 \<notin> fst ` set (handles ts)" and d: "distinct (map fst (handles ts))" and l: "length ts = kTrackedSlots"
    using assms(1) by (simp_all add: tracked_ok_def)
  have fresh: "p \<notin> fst ` set (handles ts)"
    using assms(3) tracked_name_map [OF z] by (simp add: map_of_eq_None_iff)
  have both: "tracked_ok (track_pcm p n ts) \<and> tracked_name q (track_pcm p n ts) =
       (if length (handles ts) < kTrackedSlots \<and> q = p then Some n else tracked_name q ts)"
  proof (cases "length (handles ts) < length ts")
    case True
    note r = track_room [OF True fresh, of n]
    have ok: "tracked_ok (track_pcm p n ts)" using r z d l assms(2) by (auto simp: tracked_ok_def)
    have "map_of (handles (track_pcm p n ts)) = (map_of (handles ts))(p \<mapsto> n)"
    proof (rule ext, rule option.expand)
      fix x
      show "(map_of (handles (track_pcm p n ts)) x = None) = (((map_of (handles ts))(p \<mapsto> n)) x = None)"
        using r by (auto simp: map_of_eq_None_iff)
      assume "map_of (handles (track_pcm p n ts)) x \<noteq> None"
      then obtain y where y: "map_of (handles (track_pcm p n ts)) x = Some y" by blast
      then have "(x, y) \<in> insert (p, n) (set (handles ts))" using r map_of_SomeD by fastforce
      then show "the (map_of (handles (track_pcm p n ts)) x) = the (((map_of (handles ts))(p \<mapsto> n)) x)"
        using y d fresh by (auto simp: rev_image_eqI)
    qed
    then show ?thesis
      using ok z True l by (simp add: tracked_name_map tracked_ok_def)
  next
    case False
    then have "length (handles ts) = length ts" using length_handles [of ts] by simp
    then show ?thesis using track_full [of ts p n] assms(1) l by simp
  qed
  then show "tracked_ok (track_pcm p n ts)" and "tracked_name q (track_pcm p n ts) =
       (if length (handles ts) < kTrackedSlots \<and> q = p then Some n else tracked_name q ts)" by simp_all
qed

lemma tracked_ok_untrack:
  assumes "tracked_ok ts"
  shows "tracked_ok (untrack_pcm p ts)" and
    "tracked_name q (untrack_pcm p ts) = (if q = p then None else tracked_name q ts)"
proof -
  have z: "0 \<notin> fst ` set (handles ts)" and d: "distinct (map fst (handles ts))"
    using assms by (simp_all add: tracked_ok_def)
  note h = untrack_handles [OF z d, of p]
  show ok: "tracked_ok (untrack_pcm p ts)"
    using assms h by (auto simp: tracked_ok_def distinct_map_filter image_iff)
  have "map_of (filter (\<lambda>(q, n). q \<noteq> p) hs) q = (if q = p then None else map_of hs q)"
    for hs :: "(u32 \<times> u8 list) list"
    by (induction hs) auto
  then show "tracked_name q (untrack_pcm p ts) = (if q = p then None else tracked_name q ts)"
    using ok z h by (simp add: tracked_name_map tracked_ok_def)
qed

section \<open>Open handles\<close>

text \<open>
  The history: what each open handle is (\<open>Some aa\<close> for a playback handle of Android Auto opened with
  the override on), and whether such a handle ever found the table full.  ALSA gives out a handle
  that is not open.
\<close>

type_synonym open_pcms = "u32 \<Rightarrow> u8 list option option"

definition pcm_class :: "bool \<Rightarrow> u8 list option \<Rightarrow> int \<Rightarrow> u8 list option" where
  "pcm_class enabled name stream =
     (if enabled \<and> stream = SND_PCM_STREAM_PLAYBACK then canonical_aa_name name else None)"

inductive au_step :: "audio \<times> open_pcms \<times> bool \<Rightarrow> audio \<times> open_pcms \<times> bool \<Rightarrow> bool" where
  enable: "au_step (s, live, over) (aap_service_audio_init s, live, over)"
| open_ok: "snd_pcm_open ld al name stream mode s = (0, Some p, t) \<Longrightarrow> p \<noteq> 0 \<Longrightarrow> live p = None \<Longrightarrow>
    au_step (s, live, over)
      (t, live(p \<mapsto> pcm_class (au_enabled s) name stream),
       over \<or> pcm_class (au_enabled s) name stream \<noteq> None \<and> length (handles (au_tracked s)) = kTrackedSlots)"
| open_failed: "snd_pcm_open ld al name stream mode s = (rc, p, t) \<Longrightarrow> rc \<noteq> 0 \<or> p = None \<or> p = Some 0 \<Longrightarrow>
    au_step (s, live, over) (t, live, over)"
| close: "snd_pcm_close ld al p s = (rc, t) \<Longrightarrow> au_close t \<noteq> 0 \<Longrightarrow>
    au_step (s, live, over) (t, live(p := None), over)"
| close_unresolved: "snd_pcm_close ld al p s = (rc, t) \<Longrightarrow> au_close t = 0 \<Longrightarrow>
    au_step (s, live, over) (t, live, over)"
| threshold: "snd_pcm_sw_params_set_start_threshold ld al p th s = (rc, r, t) \<Longrightarrow>
    au_step (s, live, over) (t, live, over)"

fun audio_ok :: "audio \<times> open_pcms \<times> bool \<Rightarrow> bool" where
  "audio_ok (s, live, over) \<longleftrightarrow>
     tracked_ok (au_tracked s) \<and> (\<forall>p n. live p = Some (Some n) \<longrightarrow> au_enabled s) \<and>
     (\<forall>p n. tracked_name p (au_tracked s) = Some n \<longrightarrow> live p = Some (Some n)) \<and>
     (\<not> over \<longrightarrow> (\<forall>p n. live p = Some (Some n) \<longrightarrow> tracked_name p (au_tracked s) = Some n))"

lemma resolve_audio_keeps [simp]:
  "au_tracked (resolve_audio_once ld s) = au_tracked s"
  "au_enabled (resolve_audio_once ld s) = au_enabled s"
  by (simp_all add: resolve_audio_once_def resolve_real_functions_def)

lemma open_tracked:
  assumes "snd_pcm_open ld al name stream mode s = (rc, p, t)"
  shows "au_tracked t = (case (p, pcm_class (au_enabled s) name stream) of
      (Some q, Some aa) \<Rightarrow> if rc = 0 \<and> q \<noteq> 0 then track_pcm q aa (au_tracked s) else au_tracked s
    | _ \<Rightarrow> au_tracked s)"
  using assms
  by (auto simp: snd_pcm_open_def pcm_class_def Let_def split: if_splits prod.splits option.splits)

lemma close_tracked:
  assumes "snd_pcm_close ld al p s = (rc, t)"
  shows "au_tracked t = (if au_close t \<noteq> 0 \<and> au_enabled s then untrack_pcm p (au_tracked s) else au_tracked s)"
  using assms by (auto simp: snd_pcm_close_def Let_def split: if_splits)

lemma threshold_tracked:
  assumes "snd_pcm_sw_params_set_start_threshold ld al p th s = (rc, r, t)"
  shows "t = resolve_audio_once ld s"
  using assms
  by (auto simp: snd_pcm_sw_params_set_start_threshold_def Let_def split: if_splits prod.splits)


declare audio_ok.simps [simp del]

lemma audio_okI:
  "tracked_ok (au_tracked s) \<Longrightarrow> (\<And>p n. live p = Some (Some n) \<Longrightarrow> au_enabled s) \<Longrightarrow>
   (\<And>p n. tracked_name p (au_tracked s) = Some n \<Longrightarrow> live p = Some (Some n)) \<Longrightarrow>
   (\<And>p n. \<not> over \<Longrightarrow> live p = Some (Some n) \<Longrightarrow> tracked_name p (au_tracked s) = Some n) \<Longrightarrow>
   audio_ok (s, live, over)"
  unfolding audio_ok.simps by blast

lemma audio_okD:
  assumes "audio_ok (s, live, over)"
  shows "tracked_ok (au_tracked s)" and "live p = Some (Some n) \<Longrightarrow> au_enabled s"
    and "tracked_name p (au_tracked s) = Some n \<Longrightarrow> live p = Some (Some n)"
    and "\<not> over \<Longrightarrow> live p = Some (Some n) \<Longrightarrow> tracked_name p (au_tracked s) = Some n"
  using assms unfolding audio_ok.simps by blast+

lemma audio_ok_same:
  assumes "audio_ok (s, live, over)" and "au_tracked t = au_tracked s"
    and "au_enabled s \<Longrightarrow> au_enabled t"
  shows "audio_ok (t, live, over)"
proof (rule audio_okI)
  show "tracked_ok (au_tracked t)" using audio_okD(1) [OF assms(1)] assms(2) by simp
  fix p n
  show "au_enabled t" if "live p = Some (Some n)" by (rule assms(3)) (rule audio_okD(2) [OF assms(1) that])
  show "live p = Some (Some n)" if "tracked_name p (au_tracked t) = Some n"
    using audio_okD(3) [OF assms(1), of p n] that assms(2) by simp
  show "tracked_name p (au_tracked t) = Some n" if "\<not> over" "live p = Some (Some n)"
    using audio_okD(4) [OF assms(1) that] assms(2) by simp
qed

lemma call_enabled:
  "snd_pcm_open ld al name stream mode s = (rc, p, t) \<Longrightarrow> au_enabled t = au_enabled s"
  "snd_pcm_close ld al q s = (rc, t) \<Longrightarrow> au_enabled t = au_enabled s"
  by (auto simp: snd_pcm_open_def snd_pcm_close_def Let_def split: if_splits prod.splits option.splits)

lemma open_other_ok:
  assumes ok: "audio_ok (s, live, over)" and o: "snd_pcm_open ld al name stream mode s = (0, Some p, t)"
    and p: "live p = None" and c: "pcm_class (au_enabled s) name stream = None"
  shows "audio_ok (t, live(p \<mapsto> None), over)"
proof (rule audio_okI)
  have t: "au_tracked t = au_tracked s" using open_tracked [OF o] c by simp
  note d = audio_okD [OF ok]
  have l: "(live(p \<mapsto> None)) q = Some (Some n) \<longleftrightarrow> live q = Some (Some n)" for q n using p by simp
  show "tracked_ok (au_tracked t)" using d(1) t by simp
  fix q n
  show "au_enabled t" if "(live(p \<mapsto> None)) q = Some (Some n)"
    using d(2) [where p = q and n = n] that l call_enabled(1) [OF o] by simp
  show "(live(p \<mapsto> None)) q = Some (Some n)" if "tracked_name q (au_tracked t) = Some n"
    using d(3) [where p = q and n = n] that unfolding l t .
  show "tracked_name q (au_tracked t) = Some n"
    if "\<not> over" "(live(p \<mapsto> None)) q = Some (Some n)"
    using d(4) [where p = q and n = n] that unfolding l t by simp
qed

lemma open_class_ok:
  assumes ok: "audio_ok (s, live, over)" and o: "snd_pcm_open ld al name stream mode s = (0, Some p, t)"
    and p: "p \<noteq> 0" "live p = None" and c: "pcm_class (au_enabled s) name stream = Some aa"
  shows "audio_ok (t, live(p \<mapsto> Some aa), over \<or> length (handles (au_tracked s)) = kTrackedSlots)"
proof (rule audio_okI)
  note d = audio_okD [OF ok]
  have t: "au_tracked t = track_pcm p aa (au_tracked s)" using open_tracked [OF o] c p by simp
  have no: "tracked_name p (au_tracked s) = None"
    using d(3) [where p = p] p(2) by (cases "tracked_name p (au_tracked s)") simp_all
  have len: "length (handles (au_tracked s)) \<le> kTrackedSlots"
    using length_handles [of "au_tracked s"] d(1) by (simp add: tracked_ok_def)
  note tr = tracked_ok_track [OF d(1) p(1) no, where n = aa]
  show "tracked_ok (au_tracked t)" using tr(1) t by simp
  show "au_enabled t" using c call_enabled(1) [OF o] by (simp add: pcm_class_def split: if_splits)
  fix q n
  show "(live(p \<mapsto> Some aa)) q = Some (Some n)" if "tracked_name q (au_tracked t) = Some n"
    using that d(3) [where p = q and n = n] no by (cases "q = p") (auto simp: t tr(2) split: if_splits)
  show "tracked_name q (au_tracked t) = Some n"
    if "\<not> (over \<or> length (handles (au_tracked s)) = kTrackedSlots)" "(live(p \<mapsto> Some aa)) q = Some (Some n)"
    using that d(4) [where p = q and n = n] len tr(2) [where q = q]
    by (cases "q = p") (simp_all add: t le_less)
qed

lemma open_audio_ok:
  assumes "audio_ok (s, live, over)" "snd_pcm_open ld al name stream mode s = (0, Some p, t)"
    and "p \<noteq> 0" "live p = None"
  shows "audio_ok (t, live(p \<mapsto> pcm_class (au_enabled s) name stream),
    over \<or> pcm_class (au_enabled s) name stream \<noteq> None \<and> length (handles (au_tracked s)) = kTrackedSlots)"
  using open_other_ok [OF assms(1,2,4)] open_class_ok [OF assms]
  by (cases "pcm_class (au_enabled s) name stream") simp_all

lemma close_audio_ok:
  assumes ok: "audio_ok (s, live, over)" and c: "snd_pcm_close ld al p s = (rc, t)" "au_close t \<noteq> 0"
  shows "audio_ok (t, live(p := None), over)"
proof (cases "au_enabled s")
  case True
  note d = audio_okD [OF ok]
  have t: "au_tracked t = untrack_pcm p (au_tracked s)" using close_tracked [OF c(1)] c(2) True by simp
  note u = tracked_ok_untrack [OF d(1), where p = p]
  show ?thesis
  proof (rule audio_okI)
    show "tracked_ok (au_tracked t)" using u(1) t by simp
    show "au_enabled t" using True call_enabled(2) [OF c(1)] by simp
    fix q n
    show "(live(p := None)) q = Some (Some n)" if "tracked_name q (au_tracked t) = Some n"
      using that d(3) [where p = q and n = n] by (cases "q = p") (simp_all add: t u(2))
    show "tracked_name q (au_tracked t) = Some n" if "\<not> over" "(live(p := None)) q = Some (Some n)"
      using that d(4) [where p = q and n = n] by (cases "q = p") (simp_all add: t u(2))
  qed
next
  case False
  note d = audio_okD [OF ok]
  have t: "au_tracked t = au_tracked s" using close_tracked [OF c(1)] False by simp
  have n: "live q \<noteq> Some (Some n)" for q n using d(2) [where p = q and n = n] False by blast
  show ?thesis
  proof (rule audio_okI)
    show "tracked_ok (au_tracked t)" using d(1) t by simp
    fix q m
    show "au_enabled t" if "(live(p := None)) q = Some (Some m)"
      using that n [of q m] by (simp split: if_splits)
    show "(live(p := None)) q = Some (Some m)" if "tracked_name q (au_tracked t) = Some m"
      using d(3) [where p = q and n = m] n [of q m] that unfolding t by simp
    show "tracked_name q (au_tracked t) = Some m" if "\<not> over" "(live(p := None)) q = Some (Some m)"
      using that(2) n [of q m] by (simp split: if_splits)
  qed
qed

lemma au_step_ok: "au_step a b \<Longrightarrow> audio_ok a \<Longrightarrow> audio_ok b"
proof (induction rule: au_step.induct)
  case (enable s live over)
  then show ?case by (rule audio_ok_same) (simp_all add: aap_service_audio_init_def)
next
  case (open_ok ld al name stream mode s p t live over)
  then show ?case using open_audio_ok by blast
next
  case (open_failed ld al name stream mode s rc p t live over)
  have "au_tracked t = au_tracked s" using open_tracked [OF open_failed(1)] open_failed(2)
    by (auto split: option.splits)
  then show ?case using open_failed(3) call_enabled(1) [OF open_failed(1)] audio_ok_same by blast
next
  case (close ld al p s rc t live over)
  then show ?case using close_audio_ok by blast
next
  case (close_unresolved ld al p s rc t live over)
  have "au_tracked t = au_tracked s" using close_tracked [OF close_unresolved(1)] close_unresolved(2) by simp
  then show ?case using close_unresolved(3) call_enabled(2) [OF close_unresolved(1)] audio_ok_same by blast
next
  case (threshold ld al p th s rc r t live over)
  then show ?case using threshold_tracked [OF threshold(1)] audio_ok_same [of s live over t] by simp
qed

lemma handles_empty [simp]: "handles (replicate k None) = []"
  by (induction k) simp_all

lemma au_reachable_ok: "au_step\<^sup>*\<^sup>* (audio_init, Map.empty, False) a \<Longrightarrow> audio_ok a"
proof (induction rule: rtranclp_induct)
  case base
  have "tracked_name p (replicate k None) = None" for p k by (induction k) simp_all
  then show ?case by (intro audio_okI) (simp_all add: audio_init_def tracked_ok_def)
next
  case (step a b)
  then show ?case using au_step_ok by blast
qed

section \<open>Properties\<close>

text \<open>
  C16.  Only Android Auto playback is touched, and only lowered: along every run of opens, closes
  and threshold calls, the threshold handed to ALSA never exceeds the requested one and differs
  from it only on a handle that is open and was opened as Android Auto playback; and as long as
  there was always a free slot, every such handle gets exactly the smaller of the requested value
  and one period.
\<close>

theorem threshold_only_lowered:
  assumes "au_step\<^sup>*\<^sup>* (audio_init, Map.empty, False) (s, live, over)"
    and "snd_pcm_sw_params_set_start_threshold ld al pcm threshold s = (rc, Some th, t)"
  shows "th \<le> threshold \<and> (th \<noteq> threshold \<longrightarrow> (\<exists>aa. live pcm = Some (Some aa))) \<and>
    rc = al_set_threshold al (au_set_threshold t) pcm th \<and>
    (\<forall>aa. \<not> over \<and> live pcm = Some (Some aa) \<and> au_get_params t \<noteq> 0 \<and>
       fst (al_get_params al (au_get_params t) pcm) \<ge> 0 \<and>
       snd (snd (al_get_params al (au_get_params t) pcm)) \<noteq> 0 \<longrightarrow>
       th = min threshold (snd (snd (al_get_params al (au_get_params t) pcm))))"
proof -
  have ok: "audio_ok (s, live, over)" by (rule au_reachable_ok [OF assms(1)])
  obtain grc buf per where g: "al_get_params al (au_get_params t) pcm = (grc, buf, per)"
    by (metis prod_cases3)
  have t: "t = resolve_audio_once ld s" by (rule threshold_tracked [OF assms(2)])
  have call: "rc = al_set_threshold al (au_set_threshold t) pcm th"
    "th = (if au_enabled s \<and> tracked_name pcm (au_tracked s) \<noteq> None \<and> au_get_params t \<noteq> 0 \<and>
        grc \<ge> 0 \<and> per \<noteq> 0 then min per threshold else threshold)"
    using assms(2) g
    by (auto simp: snd_pcm_sw_params_set_start_threshold_def t Let_def min_def not_less split: if_splits)
  have e: "live pcm = Some (Some aa) \<Longrightarrow> au_enabled s" for aa by (rule audio_okD(2) [OF ok])
  have l: "\<exists>aa. live pcm = Some (Some aa)" if "tracked_name pcm (au_tracked s) \<noteq> None"
    using that audio_okD(3) [OF ok, of pcm] by blast
  have n: "tracked_name pcm (au_tracked s) \<noteq> None" if "\<not> over" "live pcm = Some (Some aa)" for aa
    using audio_okD(4) [OF ok that] by simp
  show ?thesis
    unfolding g fst_conv snd_conv using call e l n by (auto simp: min.commute)
qed

lemma threshold_called:
  assumes "au_set_threshold (resolve_audio_once ld s) \<noteq> 0"
  shows "\<exists>rc th u. snd_pcm_sw_params_set_start_threshold ld al pcm threshold s = (rc, Some th, u)"
proof (cases "al_get_params al (au_get_params (resolve_audio_once ld s)) pcm")
  case (fields rc buf per)
  then show ?thesis using assms by (simp add: snd_pcm_sw_params_set_start_threshold_def Let_def)
qed

text \<open>A session with one playback handle of 960 frames per period.\<close>

definition audio_alsa :: alsa where
  "audio_alsa = \<lparr>al_open = \<lambda>f n st m. (0, Some 50), al_close = \<lambda>f p. 0, al_set_threshold = \<lambda>f p th. 0,
     al_get_params = \<lambda>f p. (0, 3840, 960)\<rparr>"

definition audio_linker :: linker where
  "audio_linker = \<lparr>dlsym_next = \<lambda>n. 9, dlopen_noload = \<lambda>n. 0, dlsym_in = \<lambda>h n. 0\<rparr>"

theorem threshold_only_lowered_witness:
  "\<exists>s live. au_step\<^sup>*\<^sup>* (audio_init, Map.empty, False) (s, live, False) \<and>
    live 50 = Some (Some (ascii ''androidautoMainAudio'')) \<and>
    (\<exists>t. snd_pcm_sw_params_set_start_threshold audio_linker audio_alsa 50 3840 s = (0, Some 960, t))"
proof -
  let ?n = "Some (ascii ''androidautoMainAudio'')"
  let ?a = "aap_service_audio_init audio_init"
  obtain t where t: "snd_pcm_open audio_linker audio_alsa ?n 0 0 ?a = (0, Some 50, t)"
    by (auto simp: snd_pcm_open_def audio_alsa_def audio_linker_def resolve_audio_once_def
        resolve_real_functions_def audio_init_def aap_service_audio_init_def Let_def split: option.splits)
  have name: "canonical_aa_name ?n = ?n"
    by (simp add: canonical_aa_name_def ascii_def cstr_def)
  have cls: "pcm_class (au_enabled ?a) ?n 0 = ?n"
    by (simp add: pcm_class_def aap_service_audio_init_def SND_PCM_STREAM_PLAYBACK_def name)
  have "au_step (audio_init, Map.empty, False) (?a, Map.empty, False)" by (rule au_step.enable)
  moreover have "length (handles (au_tracked ?a)) \<noteq> kTrackedSlots"
    by (simp add: aap_service_audio_init_def audio_init_def kTrackedSlots_def)
  then have "au_step (?a, Map.empty, False) (t, [50 \<mapsto> ?n], False)"
    using au_step.open_ok [OF t, of Map.empty False] cls by simp
  ultimately have r: "au_step\<^sup>*\<^sup>* (audio_init, Map.empty, False) (t, [50 \<mapsto> ?n], False)"
    by (meson rtranclp.rtrancl_into_rtrancl rtranclp.rtrancl_refl)
  have au: "au_set_threshold (resolve_audio_once audio_linker t) \<noteq> 0"
    "au_get_params (resolve_audio_once audio_linker t) \<noteq> 0"
    using t by (auto simp: snd_pcm_open_def audio_alsa_def audio_linker_def resolve_audio_once_def
        resolve_real_functions_def audio_init_def aap_service_audio_init_def Let_def split: option.splits if_splits)
  obtain rc th u where c: "snd_pcm_sw_params_set_start_threshold audio_linker audio_alsa 50 3840 t =
      (rc, Some th, u)"
    using au(1) threshold_called by blast
  have u: "u = resolve_audio_once audio_linker t" by (rule threshold_tracked [OF c])
  from threshold_only_lowered [OF r c] have "th = 960" "rc = 0"
    using au by (auto simp: u audio_alsa_def min_def)
  then have "snd_pcm_sw_params_set_start_threshold audio_linker audio_alsa 50 3840 t = (0, Some 960, u)"
    using c by simp
  then show ?thesis
    using r by (intro exI [of _ t] exI [of _ "[50 \<mapsto> ?n]"] conjI exI [of _ u]) simp_all
qed

end
