(* ===== verification/Oem_Thunks.thy ===== *)
theory Oem_Thunks
  imports Bt16pair Nav16_Msg Preload
begin

text \<open>
  The bindings to the vendor's code.  \<open>oem/blmjciaapa.cpp\<close> reaches local functions of
  \<open>blmjciaapa.so\<close> by their distance from the one exported symbol, each thunk caching what it found;
  \<open>oem/oem_thunk.h\<close> with \<open>libdbus.cpp\<close>, \<open>libjcidbus.cpp\<close> and \<open>libjcivbsnaviclient.cpp\<close> reaches
  exported functions by name.  Addresses and handles are words, 0 is null; the code at an address
  is a function of it.
\<close>

section \<open>Anchor and offset\<close>

datatype blm_target =
    Singleton_AapProc_GetInstance
  | AapProc_GetVideoManager
  | AapProc_GetRaceAap
  | AapProc_GetAudioManager
  | AapProc_GetAapConnectionManager
  | VideoManager_IsAAVideoInFocus
  | AudioManager_IsAAMediaInFocus
  | AudioManager_IsAAMediaInPlaying
  | RaceAap_SendTouchInput
  | RaceAap_SendKeyInput
  | AapConnectionManager_NotifyBtPairingResult
  | AapConnectionManager_ActivateAapSession

definition off_GetServiceInterfaces :: u32 where "off_GetServiceInterfaces = 0x00061768"

fun off :: "blm_target \<Rightarrow> u32" where
  "off Singleton_AapProc_GetInstance = 0x00062670"
| "off AapProc_GetVideoManager = 0x0007f664"
| "off AapProc_GetRaceAap = 0x0007f614"
| "off AapProc_GetAudioManager = 0x0007f63c"
| "off AapProc_GetAapConnectionManager = 0x000872fc"
| "off VideoManager_IsAAVideoInFocus = 0x000b3af4"
| "off AudioManager_IsAAMediaInFocus = 0x000ac3b0"
| "off AudioManager_IsAAMediaInPlaying = 0x000ac3f8"
| "off RaceAap_SendTouchInput = 0x0008e3a8"
| "off RaceAap_SendKeyInput = 0x0008e534"
| "off AapConnectionManager_NotifyBtPairingResult = 0x0007c820"
| "off AapConnectionManager_ActivateAapSession = 0x00078db4"

definition off_DevName :: u32 where "off_DevName = 0x54"
definition off_ConnectMode :: u32 where "off_ConnectMode = 0xdc"

text \<open>The static variables: the load bias, and the address each thunk has cached.\<close>

record blm =
  bl_base :: u32
  bl_fn :: "blm_target \<Rightarrow> u32"

definition blm_init :: blm where
  "blm_init = \<lparr>bl_base = 0, bl_fn = \<lambda>t. 0\<rparr>"

definition blm_anchor :: "linker \<Rightarrow> u32" where
  "blm_anchor ld =
     (let handle = dlopen_noload ld (ascii ''/jci/aapa/blmjciaapa.so'') in
      if handle \<noteq> 0 then dlsym_in ld handle (ascii ''GetServiceInterfaces'') else 0)"

definition blm_base :: "linker \<Rightarrow> blm \<Rightarrow> u32 \<times> blm" where
  "blm_base ld s =
     (if bl_base s = 0 then
        (let sym = blm_anchor ld in
         if sym \<noteq> 0 then (sym - off_GetServiceInterfaces, s\<lparr>bl_base := sym - off_GetServiceInterfaces\<rparr>)
         else (0, s))
      else (bl_base s, s))"

definition blm_addr :: "linker \<Rightarrow> u32 \<Rightarrow> blm \<Rightarrow> u32 \<times> blm" where
  "blm_addr ld target_offset s =
     (let (base, s) = blm_base ld s in (if base \<noteq> 0 then base + target_offset else 0, s))"

text \<open>\<open>code f\<close> is the result of the call at \<open>f\<close> on the thunk's arguments.\<close>

definition BLM_THUNK :: "linker \<Rightarrow> blm_target \<Rightarrow> (u32 \<Rightarrow> 'r) \<Rightarrow> 'r \<Rightarrow> blm \<Rightarrow> 'r \<times> blm" where
  "BLM_THUNK ld name code failval s =
     (let s = (if bl_fn s name = 0 then
                 (let (fn, s) = blm_addr ld (off name) s in s\<lparr>bl_fn := (bl_fn s)(name := fn)\<rparr>)
               else s) in
      (if bl_fn s name \<noteq> 0 then code (bl_fn s name) else failval, s))"

text \<open>Fields of an instance in memory; an \<open>int\<close> is four bytes, the lowest first.\<close>

definition BLM_FIELD :: "(u32 \<Rightarrow> u8) \<Rightarrow> u32 \<Rightarrow> int \<Rightarrow> u32 \<Rightarrow> int" where
  "BLM_FIELD mem self_off failval self =
     (if self \<noteq> 0 then
        (let a = self + self_off in sint (bytes_u32 (mem a) (mem (a + 1)) (mem (a + 2)) (mem (a + 3))))
      else failval)"

definition BLM_FIELD_PTR :: "u32 \<Rightarrow> u32 \<Rightarrow> u32" where
  "BLM_FIELD_PTR self_off self = (if self \<noteq> 0 then self + self_off else 0)"

definition AapConnectionManager_dev_name :: "u32 \<Rightarrow> u32" where
  "AapConnectionManager_dev_name self = BLM_FIELD_PTR off_DevName self"

definition AapConnectionManager_connect_mode :: "(u32 \<Rightarrow> u8) \<Rightarrow> u32 \<Rightarrow> int" where
  "AapConnectionManager_connect_mode mem self = BLM_FIELD mem off_ConnectMode (-1) self"

text \<open>The vendor's code, by address: the getters and the functions that answer an \<open>int\<close>.\<close>

record blm_vendor =
  bv_getter :: "u32 \<Rightarrow> u32 \<Rightarrow> u32"
  bv_int :: "u32 \<Rightarrow> u32 \<Rightarrow> int"

definition AapConnectionManager_instance :: "linker \<Rightarrow> blm_vendor \<Rightarrow> blm \<Rightarrow> u32 \<times> blm" where
  "AapConnectionManager_instance ld vd s =
     (let (aap, s) = BLM_THUNK ld Singleton_AapProc_GetInstance (\<lambda>f. bv_getter vd f 0) 0 s in
      if aap \<noteq> 0 then BLM_THUNK ld AapProc_GetAapConnectionManager (\<lambda>f. bv_getter vd f aap) 0 s
      else (0, s))"

text \<open>
  What one poll of the activator thread (\<open>bt16pair.cpp\<close>) collects; the device name is read by the
  projection callback only.
\<close>

definition activator_look :: "linker \<Rightarrow> blm_vendor \<Rightarrow> (u32 \<Rightarrow> u8) \<Rightarrow> blm \<Rightarrow> bt_view \<times> blm" where
  "activator_look ld vd mem s =
     (let (aap, s) = BLM_THUNK ld Singleton_AapProc_GetInstance (\<lambda>f. bv_getter vd f 0) 0 s;
          (vm, s) = (if aap \<noteq> 0 then BLM_THUNK ld AapProc_GetVideoManager (\<lambda>f. bv_getter vd f aap) 0 s
                     else (0, s));
          (focus, s) = (if vm \<noteq> 0 then BLM_THUNK ld VideoManager_IsAAVideoInFocus (\<lambda>f. bv_int vd f vm) 0 s
                        else (0, s));
          (cm, s) = AapConnectionManager_instance ld vd s;
          mode = (if cm \<noteq> 0 then AapConnectionManager_connect_mode mem cm else -1) in
      (\<lparr>bv_aap = aap, bv_vm = vm, bv_focus = focus, bv_cm = cm, bv_mode = mode, bv_dev = None\<rparr>, s))"

section \<open>By name\<close>

text \<open>
  A binding file has its own library handle, opened at its first call of \<open>oem_sym\<close>, and each thunk
  its own address, both static and set once: \<open>None\<close> before.
\<close>

record oem_linker =
  ol_dlopen :: "u8 list \<Rightarrow> u32"
  ol_dlsym :: "u32 \<Rightarrow> u8 list \<Rightarrow> u32"

definition RTLD_DEFAULT :: u32 where "RTLD_DEFAULT = 0"

record oem_lib =
  oe_handle :: "u32 option"
  oe_fn :: "u8 list \<Rightarrow> u32 option"

definition oem_lib_init :: oem_lib where
  "oem_lib_init = \<lparr>oe_handle = None, oe_fn = \<lambda>n. None\<rparr>"

definition oem_sym :: "oem_linker \<Rightarrow> u8 list \<Rightarrow> u8 list \<Rightarrow> oem_lib \<Rightarrow> u32 \<times> oem_lib" where
  "oem_sym ld soname name s =
     (let handle = (case oe_handle s of Some h \<Rightarrow> h | None \<Rightarrow> ol_dlopen ld soname) in
      (ol_dlsym ld (if handle \<noteq> 0 then handle else RTLD_DEFAULT) name, s\<lparr>oe_handle := Some handle\<rparr>))"

definition OEM_THUNK ::
  "oem_linker \<Rightarrow> u8 list \<Rightarrow> u8 list \<Rightarrow> (u32 \<Rightarrow> 'r) \<Rightarrow> 'r \<Rightarrow> oem_lib \<Rightarrow> 'r \<times> oem_lib" where
  "OEM_THUNK ld soname name code failval s =
     (let (fn, s) =
        (case oe_fn s name of
           Some fn \<Rightarrow> (fn, s)
         | None \<Rightarrow>
             (let (fn, s) = oem_sym ld soname name s in
              (fn, s\<lparr>oe_fn := (oe_fn s)(name \<mapsto> fn)\<rparr>))) in
      (if fn \<noteq> 0 then code fn else failval, s))"

definition kLibdbus :: "u8 list" where "kLibdbus = ascii ''libdbus-1.so.3''"
definition kLibjcidbus :: "u8 list" where "kLibjcidbus = ascii ''libjcidbus.so''"
definition kLibjcivbsnaviclient :: "u8 list" where
  "kLibjcivbsnaviclient = ascii ''libjcivbsnaviclient.so''"

text \<open>The thunks of each file with the value of a failed call; \<open>None\<close> for a \<open>void\<close> function.\<close>

definition libdbus_thunks :: "(u8 list \<times> int option) list" where
  "libdbus_thunks =
     [(ascii ''dbus_connection_open_private'', Some 0),
      (ascii ''dbus_bus_register'', Some 0),
      (ascii ''dbus_connection_set_exit_on_disconnect'', None),
      (ascii ''dbus_connection_get_is_connected'', Some 0),
      (ascii ''dbus_connection_close'', None),
      (ascii ''dbus_connection_unref'', None),
      (ascii ''dbus_message_new_signal'', Some 0),
      (ascii ''dbus_message_iter_init_append'', None),
      (ascii ''dbus_message_iter_append_basic'', Some 0),
      (ascii ''dbus_connection_send'', Some 0),
      (ascii ''dbus_connection_flush'', None),
      (ascii ''dbus_message_unref'', None),
      (ascii ''dbus_bus_add_match'', None),
      (ascii ''dbus_connection_set_watch_functions'', Some 0),
      (ascii ''dbus_watch_get_unix_fd'', Some (-1)),
      (ascii ''dbus_watch_get_flags'', Some 0),
      (ascii ''dbus_watch_get_enabled'', Some 0),
      (ascii ''dbus_watch_handle'', Some 0),
      (ascii ''dbus_connection_pop_message'', Some 0),
      (ascii ''dbus_message_is_signal'', Some 0),
      (ascii ''dbus_message_iter_init'', Some 0),
      (ascii ''dbus_message_iter_get_arg_type'', Some 0),
      (ascii ''dbus_message_iter_get_basic'', None)]"

definition libjcidbus_thunks :: "(u8 list \<times> int option) list" where
  "libjcidbus_thunks =
     [(ascii ''JCIDBUS_conn_create'', Some 0),
      (ascii ''JCIDBUS_conn_connect'', Some 0),
      (ascii ''JCIDBUS_worker_start'', Some (-1)),
      (ascii ''JCIDBUS_worker_stop'', None),
      (ascii ''JCIDBUS_conn_disconnect'', None),
      (ascii ''JCIDBUS_conn_free'', None)]"

definition libjcivbsnaviclient_thunks :: "(u8 list \<times> int option) list" where
  "libjcivbsnaviclient_thunks =
     [(ascii ''VBS_NAVI_SetHUDDisplayMsgReq'', Some (-1)),
      (ascii ''VBS_NAVI_TMC_SetHUD_Display_Msg2'', Some (-1)),
      (ascii ''VBS_NAVI_GetHUDStatus'', Some (-1)),
      (ascii ''VBS_NAVI_SetRecommLaneReq'', Some (-1))]"

definition thunk_fail :: "(u8 list \<times> int option) list \<Rightarrow> u8 list \<Rightarrow> int" where
  "thunk_fail thunks name = (case map_of thunks name of Some (Some v) \<Rightarrow> v | _ \<Rightarrow> 0)"

section \<open>Sequences of calls\<close>

text \<open>Each call meets the linker as it is then.\<close>

fun blm_run ::
  "(blm_target \<Rightarrow> u32 \<Rightarrow> 'r) \<Rightarrow> (blm_target \<Rightarrow> 'r) \<Rightarrow> (linker \<times> blm_target) list \<Rightarrow> blm \<Rightarrow> 'r list \<times> blm" where
  "blm_run code failval [] s = ([], s)"
| "blm_run code failval ((ld, t) # cs) s =
     (let (r, s) = BLM_THUNK ld t (code t) (failval t) s;
          (rs, s) = blm_run code failval cs s in (r # rs, s))"

fun oem_run ::
  "u8 list \<Rightarrow> (u8 list \<Rightarrow> u32 \<Rightarrow> int) \<Rightarrow> (u8 list \<times> int option) list \<Rightarrow> (oem_linker \<times> u8 list) list \<Rightarrow>
     oem_lib \<Rightarrow> int list" where
  "oem_run soname code thunks [] s = []"
| "oem_run soname code thunks ((ld, n) # cs) s =
     (let (r, s) = OEM_THUNK ld soname n (code n) (thunk_fail thunks n) s in
      r # oem_run soname code thunks cs s)"

section \<open>The thunks follow the image\<close>

text \<open>Where the image puts a function when it exports the anchor at \<open>A\<close>.\<close>

definition blm_at :: "u32 \<Rightarrow> blm_target \<Rightarrow> u32" where
  "blm_at A t = A - off_GetServiceInterfaces + off t"

text \<open>The image lies inside the address space, and its anchor is \<open>A\<close> whenever it is found.\<close>

definition image_at :: "u32 \<Rightarrow> bool" where
  "image_at A \<longleftrightarrow> off_GetServiceInterfaces < A \<and> A < 0xfff00000"

definition anchored :: "u32 \<Rightarrow> linker \<Rightarrow> bool" where
  "anchored A ld \<longleftrightarrow> blm_anchor ld = 0 \<or> blm_anchor ld = A"

text \<open>What the calls must answer: once the image was seen, every call reaches its function.\<close>

fun blm_answers ::
  "u32 \<Rightarrow> (blm_target \<Rightarrow> u32 \<Rightarrow> 'r) \<Rightarrow> (blm_target \<Rightarrow> 'r) \<Rightarrow> bool \<Rightarrow> (linker \<times> blm_target) list \<Rightarrow> 'r list" where
  "blm_answers A code failval seen [] = []"
| "blm_answers A code failval seen ((ld, t) # cs) =
     (let seen = (seen \<or> blm_anchor ld \<noteq> 0) in
      (if seen then code t (blm_at A t) else failval t) # blm_answers A code failval seen cs)"

definition blm_ok :: "u32 \<Rightarrow> bool \<Rightarrow> blm \<Rightarrow> bool" where
  "blm_ok A seen s \<longleftrightarrow>
     bl_base s = (if seen then A - off_GetServiceInterfaces else 0) \<and>
     (\<forall>t. bl_fn s t \<noteq> 0 \<longrightarrow> seen \<and> bl_fn s t = blm_at A t)"

lemma off_bounds: "off_GetServiceInterfaces < off t" "off t < 0x100000"
  by (cases t; simp add: off_GetServiceInterfaces_def)+

lemma image_nonzero:
  assumes "image_at A"
  shows "A \<noteq> 0" and "A - off_GetServiceInterfaces \<noteq> 0" and "blm_at A t \<noteq> 0"
proof -
  have a: "off_GetServiceInterfaces < A" "A < 0xfff00000" using assms by (simp_all add: image_at_def)
  have o: "off t < 0x100000" by (rule off_bounds)
  have u: "unat off_GetServiceInterfaces < unat A" "unat A < 0xfff00000" "unat (off t) < 0x100000"
    using a o by (simp_all add: word_less_nat_alt)
  show "A \<noteq> 0" "A - off_GetServiceInterfaces \<noteq> 0" using a by auto
  have d: "unat (A - off_GetServiceInterfaces) = unat A - unat off_GetServiceInterfaces"
    using a by (simp add: unat_sub order.strict_implies_order)
  have "unat (blm_at A t) = unat A - unat off_GetServiceInterfaces + unat (off t)"
    unfolding blm_at_def using u d by (subst unat_add_lem [THEN iffD1]) simp_all
  then show "blm_at A t \<noteq> 0" using u by (metis add_is_0 unat_0 zero_less_diff less_irrefl)
qed

lemma blm_thunk_ok:
  assumes "image_at A" and "anchored A ld" and "blm_ok A seen s"
  shows "fst (BLM_THUNK ld t code failval s) =
      (if seen \<or> blm_anchor ld \<noteq> 0 then code (blm_at A t) else failval) \<and>
    blm_ok A (seen \<or> blm_anchor ld \<noteq> 0) (snd (BLM_THUNK ld t code failval s))"
proof (cases "bl_fn s t = 0")
  case True
  then show ?thesis
    using assms image_nonzero [OF assms(1)]
    by (auto simp: BLM_THUNK_def blm_addr_def blm_base_def blm_ok_def anchored_def blm_at_def Let_def)
next
  case False
  then show ?thesis using assms by (auto simp: BLM_THUNK_def blm_ok_def Let_def)
qed

lemma blm_run_ok:
  assumes "image_at A"
  shows "list_all (\<lambda>(ld, t). anchored A ld) cs \<Longrightarrow> blm_ok A seen s \<Longrightarrow>
    fst (blm_run code failval cs s) = blm_answers A code failval seen cs \<and>
    blm_ok A (seen \<or> (\<exists>(ld, t) \<in> set cs. blm_anchor ld \<noteq> 0)) (snd (blm_run code failval cs s))"
proof (induction cs arbitrary: seen s)
  case (Cons c cs)
  obtain ld t where c: "c = (ld, t)" by (cases c)
  let ?r = "BLM_THUNK ld t (code t) (failval t) s"
  have r: "fst ?r = (if seen \<or> blm_anchor ld \<noteq> 0 then code t (blm_at A t) else failval t)"
    and ok: "blm_ok A (seen \<or> blm_anchor ld \<noteq> 0) (snd ?r)"
    using blm_thunk_ok [OF assms _ Cons.prems(2), of ld t "code t" "failval t"] Cons.prems(1) c by simp_all
  note IH = Cons.IH [OF _ ok]
  show ?case
    using IH Cons.prems(1) r c by (simp add: case_prod_beta Let_def disj_assoc)
qed simp

lemma blm_init_ok: "blm_ok A False blm_init"
  by (simp add: blm_ok_def blm_init_def)

text \<open>
  The thunks into the vendor's library are right from the first moment they can be: whatever
  sequence of thunks is called and whenever the library becomes visible, each call made before the
  exported anchor was ever found returns its failure value without entering the library, and each
  later call reaches exactly the function the image holds at that distance from its anchor, also
  when the linker no longer answers.
\<close>

theorem blm_thunks_follow_image:
  assumes "image_at A" and "list_all (\<lambda>(ld, t). anchored A ld) cs"
  shows "fst (blm_run code failval cs blm_init) = blm_answers A code failval False cs"
  using blm_run_ok [OF assms blm_init_ok] by blast

definition early_linker :: linker where
  "early_linker = \<lparr>dlsym_next = \<lambda>n. 0, dlopen_noload = \<lambda>n. 0, dlsym_in = \<lambda>h n. 0\<rparr>"

definition mapped_linker :: linker where
  "mapped_linker = \<lparr>dlsym_next = \<lambda>n. 0, dlopen_noload = \<lambda>n. 7, dlsym_in = \<lambda>h n. 0x40061768\<rparr>"

lemma sample_anchors: "blm_anchor early_linker = 0" "blm_anchor mapped_linker = 0x40061768"
  by (simp_all add: blm_anchor_def early_linker_def mapped_linker_def)

lemma sample_image: "image_at 0x40061768"
  by (simp add: image_at_def off_GetServiceInterfaces_def)

theorem blm_thunks_follow_image_witness:
  "fst (blm_run (\<lambda>t f. f) (\<lambda>t. 1)
     [(early_linker, AapProc_GetRaceAap), (mapped_linker, RaceAap_SendTouchInput),
      (early_linker, AapProc_GetRaceAap)] blm_init) = [1, 0x4008e3a8, 0x4007f614]"
  by (subst blm_thunks_follow_image [OF sample_image])
    (simp_all add: anchored_def sample_anchors blm_at_def off_GetServiceInterfaces_def)

section \<open>What the activator sees\<close>


lemma blm_thunk_step:
  assumes "image_at A" and "anchored A ld" and "blm_ok A seen s"
  obtains u where "BLM_THUNK ld t code failval s =
      (if seen \<or> blm_anchor ld \<noteq> 0 then code (blm_at A t) else failval, u)"
    and "blm_ok A (seen \<or> blm_anchor ld \<noteq> 0) u"
proof (rule that [of "snd (BLM_THUNK ld t code failval s)"])
  note ok = blm_thunk_ok [OF assms, of t code failval]
  show "BLM_THUNK ld t code failval s =
      (if seen \<or> blm_anchor ld \<noteq> 0 then code (blm_at A t) else failval, snd (BLM_THUNK ld t code failval s))"
    by (rule prod_eqI) (simp_all only: fst_conv snd_conv conjunct1 [OF ok])
qed (rule conjunct2 [OF blm_thunk_ok [OF assms]])

definition look_of :: "u32 \<Rightarrow> blm_vendor \<Rightarrow> (u32 \<Rightarrow> u8) \<Rightarrow> bt_view" where
  "look_of A vd mem =
     (let aap = bv_getter vd (blm_at A Singleton_AapProc_GetInstance) 0;
          vm = (if aap \<noteq> 0 then bv_getter vd (blm_at A AapProc_GetVideoManager) aap else 0);
          focus = (if vm \<noteq> 0 then bv_int vd (blm_at A VideoManager_IsAAVideoInFocus) vm else 0);
          cm = (if aap \<noteq> 0 then bv_getter vd (blm_at A AapProc_GetAapConnectionManager) aap else 0);
          mode = (if cm \<noteq> 0 then AapConnectionManager_connect_mode mem cm else -1)
      in \<lparr>bv_aap = aap, bv_vm = vm, bv_focus = focus, bv_cm = cm, bv_mode = mode, bv_dev = None\<rparr>)"

lemma blm_instance:
  assumes "image_at A" and "anchored A ld" and "blm_ok A True s"
  obtains u where "AapConnectionManager_instance ld vd s =
      (let aap = bv_getter vd (blm_at A Singleton_AapProc_GetInstance) 0 in
       if aap \<noteq> 0 then bv_getter vd (blm_at A AapProc_GetAapConnectionManager) aap else 0, u)"
    and "blm_ok A True u"
proof -
  obtain u where u: "BLM_THUNK ld Singleton_AapProc_GetInstance (\<lambda>f. bv_getter vd f 0) 0 s =
      (bv_getter vd (blm_at A Singleton_AapProc_GetInstance) 0, u)" "blm_ok A True u"
    using blm_thunk_step [OF assms, of Singleton_AapProc_GetInstance "\<lambda>f. bv_getter vd f 0" 0] by auto
  let ?aap = "bv_getter vd (blm_at A Singleton_AapProc_GetInstance) 0"
  obtain w where w: "BLM_THUNK ld AapProc_GetAapConnectionManager (\<lambda>f. bv_getter vd f ?aap) 0 u =
      (bv_getter vd (blm_at A AapProc_GetAapConnectionManager) ?aap, w)" "blm_ok A True w"
    using blm_thunk_step [OF assms(1,2) u(2), of AapProc_GetAapConnectionManager "\<lambda>f. bv_getter vd f ?aap" 0]
    by auto
  show ?thesis
  proof (rule that)
    show "AapConnectionManager_instance ld vd s =
      (let aap = bv_getter vd (blm_at A Singleton_AapProc_GetInstance) 0 in
       if aap \<noteq> 0 then bv_getter vd (blm_at A AapProc_GetAapConnectionManager) aap else 0,
       if ?aap \<noteq> 0 then w else u)"
      by (simp add: AapConnectionManager_instance_def Let_def u(1) w(1))
    show "blm_ok A True (if ?aap \<noteq> 0 then w else u)" using u(2) w(2) by simp
  qed
qed

lemma blm_look_seen:
  assumes a: "image_at A" "anchored A ld" and "blm_ok A seen s" and seen: "seen \<or> blm_anchor ld \<noteq> 0"
  shows "fst (activator_look ld vd mem s) = look_of A vd mem"
proof -
  let ?aap = "bv_getter vd (blm_at A Singleton_AapProc_GetInstance) 0"
  let ?vm = "bv_getter vd (blm_at A AapProc_GetVideoManager) ?aap"
  obtain p where p: "BLM_THUNK ld Singleton_AapProc_GetInstance (\<lambda>f. bv_getter vd f 0) 0 s = (?aap, p)"
    "blm_ok A True p"
    using blm_thunk_step [OF assms(1-3), of Singleton_AapProc_GetInstance "\<lambda>f. bv_getter vd f 0" 0] seen by auto
  obtain q where q: "BLM_THUNK ld AapProc_GetVideoManager (\<lambda>f. bv_getter vd f ?aap) 0 p = (?vm, q)"
    "blm_ok A True q"
    using blm_thunk_step [OF a p(2), of AapProc_GetVideoManager "\<lambda>f. bv_getter vd f ?aap" 0] by auto
  obtain r where r: "BLM_THUNK ld VideoManager_IsAAVideoInFocus (\<lambda>f. bv_int vd f ?vm) 0 q =
      (bv_int vd (blm_at A VideoManager_IsAAVideoInFocus) ?vm, r)" "blm_ok A True r"
    using blm_thunk_step [OF a q(2), of VideoManager_IsAAVideoInFocus "\<lambda>f. bv_int vd f ?vm" 0] by auto
  define e where "e = (if ?aap = 0 then p else if ?vm = 0 then q else r)"
  have "blm_ok A True e" using p q r by (simp add: e_def)
  then obtain u where "AapConnectionManager_instance ld vd e =
      (if ?aap \<noteq> 0 then bv_getter vd (blm_at A AapProc_GetAapConnectionManager) ?aap else 0, u)"
    using blm_instance [OF a] unfolding Let_def by metis
  then show ?thesis
    by (cases "?aap = 0"; cases "?vm = 0")
      (simp_all add: activator_look_def look_of_def Let_def e_def p(1) q(1) r(1))
qed

lemma blm_look_unseen:
  assumes "blm_ok A False s" and "blm_anchor ld = 0"
  shows "bv_cm (fst (activator_look ld vd mem s)) = 0"
proof -
  have n: "BLM_THUNK ld t code failval w = (failval, w)" if "blm_ok A False w"
    for t w and code :: "u32 \<Rightarrow> u32" and failval
    using that assms(2) by (auto simp: BLM_THUNK_def blm_addr_def blm_base_def blm_ok_def Let_def intro!: blm.equality ext)
  show ?thesis
    using n [OF assms(1)] by (simp add: activator_look_def AapConnectionManager_instance_def Let_def)
qed

text \<open>
  C17.  The activator acts on the vendor's own state.  After any thunk calls, it sees nothing and
  forces nothing until the library is found; from then on it forces the activation in a poll
  exactly when the connection manager which the vendor's getters return is there and the field at
  its offset 0xdc reads 2 while the video manager, if there is one, reports no focus; and the
  manager it activates is that one.
\<close>

theorem activator_reads_vendor:
  assumes "image_at A" and "list_all (\<lambda>(l, t). anchored A l) cs" and "anchored A ld"
    and "activator_look ld vd mem (snd (blm_run code failval cs blm_init)) = (v, s)"
    and "activator_step v i = (a, calls)" and "i < kGraceTries"
    and "found \<longleftrightarrow> (\<exists>(l, t) \<in> set cs. blm_anchor l \<noteq> 0) \<or> blm_anchor ld \<noteq> 0"
    and "aap = bv_getter vd (blm_at A Singleton_AapProc_GetInstance) 0"
    and "vm = bv_getter vd (blm_at A AapProc_GetVideoManager) aap"
    and "cm = bv_getter vd (blm_at A AapProc_GetAapConnectionManager) aap"
  shows "calls = (if found \<and> aap \<noteq> 0 \<and> cm \<noteq> 0 \<and>
        (vm = 0 \<or> bv_int vd (blm_at A VideoManager_IsAAVideoInFocus) vm = 0) \<and>
        sint (bytes_u32 (mem (cm + 0xdc)) (mem (cm + 0xdd)) (mem (cm + 0xde)) (mem (cm + 0xdf))) = 2
      then [(cm, v)] else [])"
proof -
  let ?s = "snd (blm_run code failval cs blm_init)"
  let ?seen = "\<exists>(l, t) \<in> set cs. blm_anchor l \<noteq> 0"
  have ok: "blm_ok A ?seen ?s"
    using blm_run_ok [OF assms(1,2) blm_init_ok, of code failval] by simp
  have v: "v = fst (activator_look ld vd mem ?s)" using assms(4) by simp
  have c: "cm + 0xdc + 1 = cm + 0xdd" "cm + 0xdc + 2 = cm + 0xde" "cm + 0xdc + 3 = cm + 0xdf" by simp_all
  have m: "sint (bytes_u32 (mem (cm + 0xdc)) (mem (cm + 0xdd)) (mem (cm + 0xde)) (mem (cm + 0xdf))) =
      AapConnectionManager_connect_mode mem cm" if "cm \<noteq> 0"
    unfolding AapConnectionManager_connect_mode_def BLM_FIELD_def off_ConnectMode_def Let_def c
    using that by simp
  show ?thesis
  proof (cases found)
    case True
    then have "v = look_of A vd mem"
      using blm_look_seen [OF assms(1,3) ok] assms(7) v by simp
    then show ?thesis
      using True assms(5,6)
      by (auto simp: look_of_def Let_def assms(8-10) [symmetric] activator_step_def view_activated_def
          view_parked_def view_focus_def view_mode_def kConnModePendingPair_def kConnModeActivated_def m
          split: if_splits)
  next
    case False
    then have "bv_cm v = 0"
      using blm_look_unseen [where s = ?s and ld = ld and A = A and vd = vd and mem = mem] ok assms(7) v by simp
    then show ?thesis
      using False assms(5) by (auto simp: activator_step_def view_parked_def split: if_splits)
  qed
qed

theorem activator_reads_vendor_witness:
  "\<exists>v s. activator_look mapped_linker \<lparr>bv_getter = \<lambda>f x. 0x1000, bv_int = \<lambda>f x. 0\<rparr>
      (\<lambda>a. if a = 0x10dc then 2 else 0) blm_init = (v, s) \<and>
    snd (activator_step v 0) = [(0x1000, v)]"
proof -
  let ?vd = "\<lparr>bv_getter = \<lambda>f x. 0x1000, bv_int = \<lambda>f x. 0\<rparr>"
  let ?mem = "\<lambda>a. if a = 0x10dc then 2 else 0"
  obtain v s where l: "activator_look mapped_linker ?vd ?mem blm_init = (v, s)" by fastforce
  obtain a calls where a: "activator_step v 0 = (a, calls)" by fastforce
  have "calls = [(0x1000, v)]"
    using activator_reads_vendor [where A = "0x40061768" and cs = "[]" and ld = mapped_linker and
        vd = ?vd and mem = ?mem and s = s and code = "\<lambda>t f. f" and
        failval = "\<lambda>t. 0" and found = True and aap = "0x1000" and vm = "0x1000" and cm = "0x1000",
        OF sample_image _ _ _ a] l
    by (simp add: anchored_def sample_anchors kGraceTries_def bytes_u32_def)
  then show ?thesis using l a by auto
qed

section \<open>The first answer of a name lasts\<close>

text \<open>What the thunk \<open>n\<close> holds after the calls \<open>cs\<close>.\<close>

definition first_answer :: "u8 list \<Rightarrow> (oem_linker \<times> u8 list) list \<Rightarrow> u8 list \<Rightarrow> u32 option" where
  "first_answer soname cs n =
     (case find (\<lambda>(l, m). m = n) cs of
        None \<Rightarrow> None
      | Some (l, m) \<Rightarrow>
          let h = ol_dlopen (fst (hd cs)) soname in
          Some (ol_dlsym l (if h \<noteq> 0 then h else RTLD_DEFAULT) n))"

definition oem_ok :: "u8 list \<Rightarrow> (oem_linker \<times> u8 list) list \<Rightarrow> oem_lib \<Rightarrow> bool" where
  "oem_ok soname cs s \<longleftrightarrow>
     oe_handle s = (if cs = [] then None else Some (ol_dlopen (fst (hd cs)) soname)) \<and>
     oe_fn s = first_answer soname cs"

lemma find_append: "find P (xs @ ys) = (case find P xs of None \<Rightarrow> find P ys | Some x \<Rightarrow> Some x)"
  by (induction xs) simp_all

lemma first_answer_snoc:
  assumes "cs \<noteq> []"
  shows "first_answer soname (cs @ [(l, m)]) =
     (if first_answer soname cs m = None then
        let h = ol_dlopen (fst (hd cs)) soname in
        (first_answer soname cs)(m \<mapsto> ol_dlsym l (if h \<noteq> 0 then h else RTLD_DEFAULT) m)
      else first_answer soname cs)"
proof
  fix n
  show "first_answer soname (cs @ [(l, m)]) n = (if first_answer soname cs m = None then
        let h = ol_dlopen (fst (hd cs)) soname in
        (first_answer soname cs)(m \<mapsto> ol_dlsym l (if h \<noteq> 0 then h else RTLD_DEFAULT) m)
      else first_answer soname cs) n"
    using assms by (auto simp: first_answer_def find_append Let_def hd_append split: option.splits)
qed

lemma oem_thunk_ok:
  assumes "oem_ok soname cs s"
  shows "fst (OEM_THUNK l soname n code failval s) =
      (case first_answer soname (cs @ [(l, n)]) n of
         Some fn \<Rightarrow> if fn \<noteq> 0 then code fn else failval | None \<Rightarrow> failval) \<and>
    oem_ok soname (cs @ [(l, n)]) (snd (OEM_THUNK l soname n code failval s))"
proof -
  have f: "oe_fn s = first_answer soname cs"
    and h: "oe_handle s = (if cs = [] then None else Some (ol_dlopen (fst (hd cs)) soname))"
    using assms by (simp_all add: oem_ok_def)
  show ?thesis
  proof (cases "cs = []")
    case True
    then show ?thesis
      by (auto simp: OEM_THUNK_def oem_sym_def oem_ok_def f h first_answer_def Let_def fun_eq_iff)
  next
    case False
    note snoc = first_answer_snoc [OF False, of soname l n]
    show ?thesis
      by (cases "first_answer soname cs n")
        (simp_all add: OEM_THUNK_def oem_sym_def oem_ok_def f h snoc Let_def False)
  qed
qed

lemma first_answer_prefix:
  "first_answer soname cs n = Some a \<Longrightarrow> first_answer soname (cs @ ds) n = Some a"
  by (cases cs) (auto simp: first_answer_def find_append Let_def split: option.splits if_splits)

lemma first_answer_called: "first_answer soname (cs @ [(l, n)]) n \<noteq> None"
  by (auto simp: first_answer_def find_append Let_def split: option.splits)

lemma oem_run_ok:
  "oem_ok soname cs s \<Longrightarrow>
   oem_run soname code thunks ds s =
     map (\<lambda>(l, n). case first_answer soname (cs @ ds) n of
        Some fn \<Rightarrow> if fn \<noteq> 0 then code n fn else thunk_fail thunks n | None \<Rightarrow> thunk_fail thunks n) ds"
proof (induction ds arbitrary: cs s)
  case (Cons d ds)
  obtain l n where d: "d = (l, n)" by (cases d)
  note ok = oem_thunk_ok [OF Cons.prems, of l n "code n" "thunk_fail thunks n"]
  obtain a where a: "first_answer soname (cs @ [(l, n)]) n = Some a"
    using first_answer_called [of soname cs l n] by auto
  show ?case
    using Cons.IH [OF conjunct2 [OF ok]] conjunct1 [OF ok] a first_answer_prefix [OF a, of ds] d
    by (simp add: case_prod_beta Let_def)
qed simp

text \<open>
  A thunk bound by name is decided by its first call: in every sequence of calls of a binding
  file, whatever the linker answers at each call, a call enters the address which the linker gave at
  the first call of that name, looked up in the library which the first call of the file opened (or
  in the global scope when it did not open); when that was null, the call, and every later one,
  returns the declared failure value, even once the library has become available.
\<close>

theorem oem_thunks_decided_once:
  "oem_run soname code thunks cs oem_lib_init =
     map (\<lambda>(l, n). case first_answer soname cs n of
        Some fn \<Rightarrow> if fn \<noteq> 0 then code n fn else thunk_fail thunks n | None \<Rightarrow> thunk_fail thunks n) cs"
  using oem_run_ok [of soname "[]" oem_lib_init code thunks cs]
  by (simp add: oem_ok_def oem_lib_init_def first_answer_def fun_eq_iff)

text \<open>
  A binding whose library and global scope have nothing: the three files answer null, 0 or -1, and
  no call enters any code.
\<close>

lemma unresolved_fails:
  assumes "list_all (\<lambda>(l, n). ol_dlopen l soname = 0 \<and> (\<forall>m. ol_dlsym l RTLD_DEFAULT m = 0)) cs"
  shows "oem_run soname code thunks cs oem_lib_init = map (\<lambda>(l, n). thunk_fail thunks n) cs"
proof -
  have z: "first_answer soname cs n \<in> {None, Some 0}" for n
  proof (cases "find (\<lambda>(l, m). m = n) cs")
    case (Some x)
    then have x: "x \<in> set cs" "cs \<noteq> []" by (auto simp: find_Some_iff in_set_conv_nth)
    have none: "ol_dlopen (fst y) soname = 0" "ol_dlsym (fst y) RTLD_DEFAULT n = 0" if "y \<in> set cs" for y
      using assms that by (auto simp: list_all_iff)
    have "ol_dlopen (fst (hd cs)) soname = 0" "ol_dlsym (fst x) RTLD_DEFAULT n = 0"
      using none(1) [OF hd_in_set [OF x(2)]] none(2) [OF x(1)] .
    then show ?thesis using Some by (cases x) (simp add: first_answer_def Let_def)
  qed (simp add: first_answer_def)
  have "(case first_answer soname cs n of Some fn \<Rightarrow> if fn \<noteq> 0 then code n fn else thunk_fail thunks n
      | None \<Rightarrow> thunk_fail thunks n) = thunk_fail thunks n" for n
    using z [of n] by auto
  then show ?thesis using oem_run_ok [of soname "[]" oem_lib_init code thunks cs]
    by (simp add: oem_ok_def oem_lib_init_def first_answer_def [of soname "[]"] fun_eq_iff)
qed

end
