(* ===== verification/Navi_Monitor.thy ===== *)
theory Navi_Monitor
  imports Config
begin

text \<open>
  The eavesdropper of debug builds (\<open>monitor/navi_monitor.cpp\<close>): the reader thread that filters
  what \<open>dbus-monitor\<close> prints, and the pair of session hooks that start and stop the child process.
  What a hook does to the system is a list of operations; process ids, descriptors and threads are
  words, and what \<open>pipe\<close>, \<open>fork\<close> and the thread creation give is an argument.
\<close>

section \<open>The reader\<close>

definition kMonitorBin :: "u8 list" where "kMonitorBin = ascii ''/usr/bin/dbus-monitor''"
definition kFallbackAddr :: "u8 list" where "kFallbackAddr = ascii ''unix:path=/tmp/dbus_service_socket''"
definition kMatchNavi :: "u8 list" where "kMatchNavi = ascii ''destination=com.jci.vbs.navi''"
definition kMatchNaviTmc :: "u8 list" where "kMatchNaviTmc = ascii ''destination=com.jci.vbs.navi.tmc''"
definition kLineSuppress :: "u8 list" where "kLineSuppress = ascii ''member=NaviCompassVal''"

fun contains :: "u8 list \<Rightarrow> u8 list \<Rightarrow> bool" where
  "contains sub [] \<longleftrightarrow> sub = []"
| "contains sub (c # cs) \<longleftrightarrow> take (length sub) (c # cs) = sub \<or> contains sub cs"

text \<open>The variables of \<open>reader_main\<close> and the lines it logged.\<close>

record mon_reader =
  mr_line :: "u8 list"
  mr_suppress_next :: bool
  mr_log :: "u8 list list"

definition mon_reader_init :: mon_reader where
  "mon_reader_init = \<lparr>mr_line = [], mr_suppress_next = False, mr_log = []\<rparr>"

definition reader_char :: "u8 \<Rightarrow> mon_reader \<Rightarrow> mon_reader" where
  "reader_char c s =
     (if c = 10 then
        (if contains kLineSuppress (mr_line s) then s\<lparr>mr_suppress_next := True, mr_line := []\<rparr>
         else if mr_suppress_next s then s\<lparr>mr_suppress_next := False, mr_line := []\<rparr>
         else s\<lparr>mr_log := mr_log s @ [cstr (mr_line s)], mr_line := []\<rparr>)
      else if c \<noteq> 13 then s\<lparr>mr_line := mr_line s @ [c]\<rparr>
      else s)"

text \<open>What \<open>read\<close> returns: bytes, the end, an interrupted call or another error.\<close>

datatype read_result = ReadBytes "u8 list" | ReadEof | ReadEintr | ReadError

definition reader_flush :: "mon_reader \<Rightarrow> u8 list list" where
  "reader_flush s =
     (if mr_line s \<noteq> [] \<and> \<not> contains kLineSuppress (mr_line s) \<and> \<not> mr_suppress_next s
      then mr_log s @ [cstr (mr_line s)] else mr_log s)"

text \<open>The loop on the results in turn; \<open>None\<close> while it still waits for one.\<close>

fun reader_main :: "read_result list \<Rightarrow> mon_reader \<Rightarrow> u8 list list option" where
  "reader_main [] s = None"
| "reader_main (ReadBytes bs # rs) s =
     (if bs = [] then Some (reader_flush s) else reader_main rs (fold reader_char bs s))"
| "reader_main (ReadEof # rs) s = Some (reader_flush s)"
| "reader_main (ReadEintr # rs) s = reader_main rs s"
| "reader_main (ReadError # rs) s = Some (reader_flush s)"

section \<open>The session hooks\<close>

datatype mon_op =
    OpenPipe u32 u32
  | Fork u32 "u8 list" "u8 list list"
  | CloseFd u32
  | SpawnReader u32 u32
  | KillChild u32
  | WaitChild u32
  | JoinReader u32

record monitor =
  mo_running :: bool
  mo_pid :: u32
  mo_read_fd :: u32
  mo_reader :: u32

definition monitor_init :: monitor where
  "monitor_init = \<lparr>mo_running = False, mo_pid = -1, mo_read_fd = -1, mo_reader = 0\<rparr>"

text \<open>The address handed to the child: the environment variable when it is set and not empty.\<close>

definition monitor_addr :: "u8 list option \<Rightarrow> u8 list" where
  "monitor_addr env = (case env of None \<Rightarrow> kFallbackAddr | Some a \<Rightarrow> if cstr a = [] then kFallbackAddr else cstr a)"

definition monitor_argv :: "u8 list \<Rightarrow> u8 list list" where
  "monitor_argv addr = [ascii ''dbus-monitor'', ascii ''--address'', addr, kMatchNavi, kMatchNaviTmc]"

text \<open>
  \<open>env\<close> is \<open>$JCI_SERVICE_BUS\<close>, \<open>pipefd\<close> is the pipe if there is one, \<open>forked\<close> the child of a successful \<open>fork\<close>, \<open>reader\<close> the thread
  if it was created.
\<close>

definition navi_monitor_post_aap_create_session ::
  "u8 list option \<Rightarrow> (u32 \<times> u32) option \<Rightarrow> u32 option \<Rightarrow> u32 option \<Rightarrow> monitor \<Rightarrow> mon_op list \<times> monitor" where
  "navi_monitor_post_aap_create_session env pipefd forked reader s =
     (if mo_running s then ([], s)
      else
        (case pipefd of
           None \<Rightarrow> ([], s)
         | Some (r, w) \<Rightarrow>
             (case forked of
                None \<Rightarrow> ([OpenPipe r w, CloseFd r, CloseFd w], s)
              | Some pid \<Rightarrow>
                  let s = s\<lparr>mo_pid := pid, mo_read_fd := r\<rparr> in
                  (case reader of
                     None \<Rightarrow>
                       ([OpenPipe r w, Fork pid kMonitorBin (monitor_argv (monitor_addr env)), CloseFd w, KillChild pid, WaitChild pid, CloseFd r],
                        s\<lparr>mo_read_fd := -1, mo_pid := -1\<rparr>)
                   | Some t \<Rightarrow>
                       ([OpenPipe r w, Fork pid kMonitorBin (monitor_argv (monitor_addr env)), CloseFd w, SpawnReader t r],
                        s\<lparr>mo_reader := t, mo_running := True\<rparr>)))))"

definition navi_monitor_pre_aap_destroy_session :: "monitor \<Rightarrow> mon_op list \<times> monitor" where
  "navi_monitor_pre_aap_destroy_session s =
     (if \<not> mo_running s then ([], s)
      else
        let pid = mo_pid s; read_fd = mo_read_fd s; reader = mo_reader s in
        ((if 0 < sint pid then [KillChild pid, WaitChild pid] else []) @ [JoinReader reader] @
           (if 0 \<le> sint read_fd then [CloseFd read_fd] else []),
         s\<lparr>mo_running := False, mo_pid := -1, mo_read_fd := -1\<rparr>))"

section \<open>The log is the filtered stream\<close>

text \<open>The lines of a stream, without carriage returns; an unfinished last line counts if not empty.\<close>

fun stream_lines :: "u8 list \<Rightarrow> u8 list \<Rightarrow> u8 list list" where
  "stream_lines line [] = (if line = [] then [] else [line])"
| "stream_lines line (c # cs) =
     (if c = 10 then line # stream_lines [] cs
      else if c = 13 then stream_lines line cs
      else stream_lines (line @ [c]) cs)"

text \<open>A line with the suppressed member goes, and the first line after it which has not got it.\<close>

fun visible_lines :: "bool \<Rightarrow> u8 list list \<Rightarrow> u8 list list" where
  "visible_lines drop_next [] = []"
| "visible_lines drop_next (l # ls) =
     (if contains kLineSuppress l then visible_lines True ls
      else if drop_next then visible_lines False ls
      else cstr l # visible_lines False ls)"

text \<open>The bytes read until the end, an error or the last result.\<close>

fun stream_of :: "read_result list \<Rightarrow> u8 list" where
  "stream_of (ReadBytes bs # rs) = (if bs = [] then [] else bs @ stream_of rs)"
| "stream_of (ReadEintr # rs) = stream_of rs"
| "stream_of _ = []"

fun ends :: "read_result list \<Rightarrow> bool" where
  "ends [] = False"
| "ends (ReadBytes bs # rs) = (bs = [] \<or> ends rs)"
| "ends (ReadEintr # rs) = ends rs"
| "ends _ = True"

lemma flush_fold:
  "reader_flush (fold reader_char bs s) = mr_log s @ visible_lines (mr_suppress_next s) (stream_lines (mr_line s) bs)"
proof (induction bs arbitrary: s)
  case Nil
  have "\<not> contains kLineSuppress []" by (simp add: kLineSuppress_def ascii_def)
  then show ?case by (simp add: reader_flush_def)
next
  case (Cons c cs)
  show ?case unfolding fold.simps o_def Cons.IH by (simp add: reader_char_def)
qed

lemma reader_main_fold:
  "reader_main rs s = (if ends rs then Some (reader_flush (fold reader_char (stream_of rs) s)) else None)"
  by (induction rs s rule: reader_main.induct) simp_all

text \<open>
  The debug log is a function of what the child printed, however the pipe delivers it: for
  every way the bytes are cut into reads, with interrupted calls in between, the reader stops
  exactly at the end of the stream or at an error, and has then logged, in order, every line of the
  stream (a last one without newline included) except those with the suppressed member and the one
  line after each.
\<close>

theorem monitor_log_is_filtered:
  "reader_main rs mon_reader_init =
     (if ends rs then Some (visible_lines False (stream_lines [] (stream_of rs))) else None)"
  by (simp add: reader_main_fold flush_fold mon_reader_init_def)

section \<open>Nothing leaks\<close>

text \<open>
  What the process holds: open descriptors, children that run, children killed but not reaped,
  reader threads with the descriptor they read.  \<open>None\<close> is a call that blocks for good or hits
  something not held: waiting for a child nobody killed, joining a reader while its child still
  runs, closing a descriptor a reader still uses.
\<close>

record held =
  h_fds :: "u32 set"
  h_running :: "u32 set"
  h_killed :: "u32 set"
  h_readers :: "(u32 \<times> u32) set"

definition nothing_held :: held where
  "nothing_held = \<lparr>h_fds = {}, h_running = {}, h_killed = {}, h_readers = {}\<rparr>"

fun mon_op_effect :: "mon_op \<Rightarrow> held \<Rightarrow> held option" where
  "mon_op_effect (OpenPipe r w) h =
     (if r \<noteq> w \<and> r \<notin> h_fds h \<and> w \<notin> h_fds h then Some (h\<lparr>h_fds := {r, w} \<union> h_fds h\<rparr>) else None)"
| "mon_op_effect (Fork p bin argv) h =
     (if p \<notin> h_running h \<union> h_killed h then Some (h\<lparr>h_running := insert p (h_running h)\<rparr>) else None)"
| "mon_op_effect (CloseFd f) h =
     (if f \<in> h_fds h \<and> f \<notin> snd ` h_readers h then Some (h\<lparr>h_fds := h_fds h - {f}\<rparr>) else None)"
| "mon_op_effect (SpawnReader t f) h =
     (if f \<in> h_fds h \<and> t \<notin> fst ` h_readers h then Some (h\<lparr>h_readers := insert (t, f) (h_readers h)\<rparr>) else None)"
| "mon_op_effect (KillChild p) h =
     (if p \<in> h_running h
      then Some (h\<lparr>h_running := h_running h - {p}, h_killed := insert p (h_killed h)\<rparr>) else None)"
| "mon_op_effect (WaitChild p) h =
     (if p \<in> h_killed h then Some (h\<lparr>h_killed := h_killed h - {p}\<rparr>) else None)"
| "mon_op_effect (JoinReader t) h =
     (if t \<in> fst ` h_readers h \<and> h_running h = {}
      then Some (h\<lparr>h_readers := {x \<in> h_readers h. fst x \<noteq> t}\<rparr>) else None)"

fun mon_effects :: "mon_op list \<Rightarrow> held \<Rightarrow> held option" where
  "mon_effects [] h = Some h"
| "mon_effects (x # xs) h = (case mon_op_effect x h of None \<Rightarrow> None | Some h \<Rightarrow> mon_effects xs h)"

text \<open>A session call; a descriptor is not negative, a child's id is positive.\<close>

datatype mon_hook =
    MonStart "u8 list option" "(u32 \<times> u32) option" "u32 option" "u32 option"
  | MonStop

fun mon_call_ok :: "mon_hook \<Rightarrow> bool" where
  "mon_call_ok (MonStart env pipefd forked reader) \<longleftrightarrow>
     (case pipefd of None \<Rightarrow> True | Some (r, w) \<Rightarrow> r \<noteq> w \<and> 0 \<le> sint r \<and> 0 \<le> sint w) \<and>
     (case forked of None \<Rightarrow> True | Some p \<Rightarrow> 0 < sint p)"
| "mon_call_ok MonStop \<longleftrightarrow> True"

fun mon_call :: "mon_hook \<Rightarrow> monitor \<Rightarrow> mon_op list \<times> monitor" where
  "mon_call (MonStart env pipefd forked reader) s = navi_monitor_post_aap_create_session env pipefd forked reader s"
| "mon_call MonStop s = navi_monitor_pre_aap_destroy_session s"

fun mon_run :: "mon_hook list \<Rightarrow> monitor \<Rightarrow> mon_op list \<times> monitor" where
  "mon_run [] s = ([], s)"
| "mon_run (c # cs) s = (let (xs, s) = mon_call c s; (ys, s) = mon_run cs s in (xs @ ys, s))"

definition mon_holds :: "monitor \<Rightarrow> held" where
  "mon_holds s =
     (if mo_running s
      then \<lparr>h_fds = {mo_read_fd s}, h_running = {mo_pid s}, h_killed = {},
            h_readers = {(mo_reader s, mo_read_fd s)}\<rparr>
      else nothing_held)"

definition mon_ok :: "monitor \<Rightarrow> bool" where
  "mon_ok s \<longleftrightarrow> (mo_running s \<longrightarrow> 0 < sint (mo_pid s) \<and> 0 \<le> sint (mo_read_fd s))"

lemma mon_effects_append:
  "mon_effects (xs @ ys) h = (case mon_effects xs h of None \<Rightarrow> None | Some h \<Rightarrow> mon_effects ys h)"
  by (induction xs arbitrary: h) (simp_all split: option.splits)

lemma mon_call_balanced:
  assumes "mon_ok s" and "mon_call_ok c"
  shows "mon_ok (snd (mon_call c s)) \<and>
    mon_effects (fst (mon_call c s)) (mon_holds s) = Some (mon_holds (snd (mon_call c s)))"
proof (cases c)
  case (MonStart env pipefd forked reader)
  then show ?thesis
    using assms
    by (auto simp: navi_monitor_post_aap_create_session_def mon_holds_def nothing_held_def mon_ok_def Let_def
        split: option.splits prod.splits)
next
  case MonStop
  then show ?thesis
    using assms
    by (auto simp: navi_monitor_pre_aap_destroy_session_def mon_holds_def nothing_held_def mon_ok_def Let_def)
qed

lemma mon_run_balanced:
  "mon_ok s \<Longrightarrow> list_all mon_call_ok cs \<Longrightarrow>
   mon_effects (fst (mon_run cs s)) (mon_holds s) = Some (mon_holds (snd (mon_run cs s)))"
proof (induction cs arbitrary: s)
  case (Cons c cs)
  then show ?case
    using mon_call_balanced [of s c] Cons.IH [of "snd (mon_call c s)"]
    by (simp add: case_prod_beta Let_def mon_effects_append)
qed simp

text \<open>
  The monitor never leaks and never hangs: in every sequence of its two hooks, whatever
  \<open>pipe\<close>, \<open>fork\<close> and the thread creation answer, no call blocks or touches what is not held, and
  after each hook the process holds either nothing or exactly one child, one descriptor and one
  reader on it.
\<close>

theorem monitor_balanced:
  assumes "list_all mon_call_ok cs"
  shows "mon_effects (fst (mon_run cs monitor_init)) nothing_held = Some (mon_holds (snd (mon_run cs monitor_init)))"
  using mon_run_balanced [OF _ assms, of monitor_init]
  by (simp add: mon_ok_def monitor_init_def mon_holds_def)

theorem monitor_balanced_witness:
  "mon_effects (fst (mon_run [MonStart None (Some (5, 6)) (Some 100) (Some 1), MonStop] monitor_init)) nothing_held =
     Some nothing_held"
  by (subst monitor_balanced)
    (simp_all add: mon_holds_def monitor_init_def navi_monitor_post_aap_create_session_def
      navi_monitor_pre_aap_destroy_session_def Let_def)

end
