(* ===== verification/Log_Text.thy ===== *)
theory Log_Text
  imports Nav16_Glyph Decimal
begin

text \<open>
  The text of the navigation log lines: the two formatters of \<open>hud_nav16.cpp\<close>, which print into a
  caller's buffer, and the enumerator names of \<open>hud.cpp\<close>.  A buffer is the list of its bytes, an
  access past it is \<open>None\<close>.
\<close>

section \<open>snprintf\<close>

text \<open>
  The formatted text \<open>t\<close> printed at offset \<open>off\<close> into \<open>room\<close> bytes: what fits with a closing NUL is
  stored, the length of the whole text is returned.
\<close>

definition snprintf_at :: "nat \<Rightarrow> nat \<Rightarrow> u8 list \<Rightarrow> u8 list \<Rightarrow> (nat \<times> u8 list) option" where
  "snprintf_at off room t buf =
     (if off + room > length buf then None
      else if room = 0 then Some (length t, buf)
      else
        let n = min (room - 1) (length t) in
        Some (length t, take off buf @ take n t @ [0] @ drop (off + n + 1) buf))"

section \<open>The two formatters\<close>

definition guidance_head :: "AaGuidance \<Rightarrow> u8 list" where
  "guidance_head g =
     ascii ''nav16 STATE: maneuver='' @ dec_nat (unat (maneuver_type g)) @ ascii ''('' @
     ascii (hud_nav16_maneuver_name (maneuver_type g)) @ ascii '') glyph='' @
     dec_nat (unat (hud_nav16_glyph (Some g))) @ ascii '' road='' @ [34] @ cstr (road g) @ [34] @
     ascii '' steps='' @ dec_int (n_steps g) @ ascii '' lanes='' @ dec_int (n_lanes g)"

definition lane_text :: "nat \<Rightarrow> AaLane \<Rightarrow> u8 list" where
  "lane_text i l =
     ascii '' [L'' @ dec_nat i @ ascii '' pres=0x'' @ hex3 (unat (present_mask l)) @ ascii '' hi=0x'' @
     hex3 (unat (highlight_mask l)) @ ascii '']''"

text \<open>The loop over the lanes, \<open>o\<close> the offset reached; an index past the array is \<open>None\<close>.\<close>

function format_lanes ::
  "AaGuidance \<Rightarrow> nat \<Rightarrow> nat \<Rightarrow> nat \<Rightarrow> u8 list \<Rightarrow> (nat \<times> u8 list) option" where
  "format_lanes g cap i off buf =
     (if int i < n_lanes g \<and> off < cap then
        (case load (lanes g) i of
           None \<Rightarrow> None
         | Some l \<Rightarrow>
             (case snprintf_at off (cap - off) (lane_text i l) buf of
                None \<Rightarrow> None
              | Some (n, buf) \<Rightarrow> format_lanes g cap (i + 1) (off + n) buf))
      else Some (off, buf))"
  by pat_completeness auto
termination
  by (relation "measure (\<lambda>(g, cap, i, off, buf). nat (n_lanes g - int i))") auto

declare format_lanes.simps [simp del]

definition hud_nav16_format_guidance ::
  "AaGuidance option \<Rightarrow> u8 list option \<Rightarrow> int \<Rightarrow> (nat \<times> u8 list option) option" where
  "hud_nav16_format_guidance go bo cap =
     (case (go, bo) of
        (Some g, Some buf) \<Rightarrow>
          if cap \<le> 0 then Some (0, Some buf)
          else
            (case snprintf_at 0 (nat cap) (guidance_head g) buf of
               None \<Rightarrow> None
             | Some (n, buf) \<Rightarrow> map_option (map_prod id Some) (format_lanes g (nat cap) 0 n buf))
      | _ \<Rightarrow> Some (0, bo))"

definition position_text :: "AaPosition \<Rightarrow> u8 list" where
  "position_text p =
     ascii ''nav16 POS: step='' @ dec_int (step_meters p) @ ascii ''m '' @ [34] @ cstr (step_display p) @
     [34] @ ascii '' u'' @ dec_nat (unat (step_units p)) @ ascii '' | dest='' @ dec_int (dest_meters p) @
     ascii ''m '' @ [34] @ cstr (dest_display p) @ [34] @ ascii '' u'' @ dec_nat (unat (dest_units p)) @
     ascii '' eta='' @ [34] @ cstr (eta p) @ [34]"

definition hud_nav16_format_position ::
  "AaPosition option \<Rightarrow> u8 list option \<Rightarrow> int \<Rightarrow> (nat \<times> u8 list option) option" where
  "hud_nav16_format_position po bo cap =
     (case (po, bo) of
        (Some p, Some buf) \<Rightarrow>
          if cap \<le> 0 then Some (0, Some buf)
          else map_option (map_prod id Some) (snprintf_at 0 (nat cap) (position_text p) buf)
      | _ \<Rightarrow> Some (0, bo))"

section \<open>Enumerator names\<close>

definition nav_status_name :: "u32 \<Rightarrow> string" where
  "nav_status_name v = (if v = 1 then ''START'' else if v = 2 then ''STOP'' else ''?'')"

definition nav_turn_side_name :: "u32 \<Rightarrow> string" where
  "nav_turn_side_name v =
     (if v = 1 then ''LEFT'' else if v = 2 then ''RIGHT'' else if v = 3 then ''UNSPECIFIED'' else ''?'')"

definition turn_event_names :: "(u32 \<times> string) list" where
  "turn_event_names =
     [(0, ''UNKNOWN''), (1, ''DEPART''), (2, ''NAME_CHANGE''), (3, ''SLIGHT_TURN''), (4, ''TURN''),
      (5, ''SHARP_TURN''), (6, ''U_TURN''), (7, ''ON_RAMP''), (8, ''OFF_RAMP''), (9, ''FORK''),
      (10, ''MERGE''), (11, ''ROUNDABOUT_ENTER''), (12, ''ROUNDABOUT_EXIT''),
      (13, ''ROUNDABOUT_ENTER_AND_EXIT''), (14, ''STRAIGHT''), (16, ''FERRY_BOAT''),
      (17, ''FERRY_TRAIN''), (19, ''DESTINATION'')]"

definition nav_turn_event_name :: "u32 \<Rightarrow> string" where
  "nav_turn_event_name v = (case map_of turn_event_names v of Some n \<Rightarrow> n | None \<Rightarrow> ''?'')"

definition distance_unit_names :: "(u32 \<times> string) list" where
  "distance_unit_names =
     [(1, ''METERS''), (2, ''KILOMETERS10''), (3, ''KILOMETERS''), (4, ''MILES10''), (5, ''MILES''), (6, ''FEET'')]"

definition nav_distance_unit_name :: "u32 \<Rightarrow> string" where
  "nav_distance_unit_name v = (case map_of distance_unit_names v of Some n \<Rightarrow> n | None \<Rightarrow> ''?'')"

section \<open>The text that reaches the buffer\<close>

lemma snprintf_at_fits:
  assumes "off + room \<le> length buf" and "0 < room" and "0 \<notin> set t" and "0 \<notin> set (take off buf)"
  shows "\<exists>buf'. snprintf_at off room t buf = Some (length t, buf') \<and> length buf' = length buf \<and>
    take off buf' = take off buf \<and> drop (off + room) buf' = drop (off + room) buf \<and>
    cstr buf' = take off buf @ take (room - 1) t \<and> take (off + min (room - 1) (length t)) buf' = cstr buf'"
proof -
  let ?n = "min (room - 1) (length t)"
  let ?b = "take off buf @ take ?n t @ [0] @ drop (off + ?n + 1) buf"
  have n: "off + ?n + 1 \<le> length buf" using assms(1,2) by simp
  have nz: "0 \<notin> set (take off buf @ take ?n t)" using assms(3,4) by (auto dest: in_set_takeD)
  have "cstr ?b = take off buf @ take ?n t"
    using cstr_append_nul [OF nz, of "drop (off + ?n + 1) buf"] by simp
  moreover have "take ?n t = take (room - 1) t" by (simp add: min_def)
  ultimately have c: "cstr ?b = take off buf @ take (room - 1) t" by simp
  let ?p = "take off buf @ take ?n t @ [0]"
  have p: "length ?p = off + ?n + 1" "?b = ?p @ drop (length ?p) buf" using n by simp_all
  have "length ?b = length buf" using n by simp
  moreover have "take off ?b = take off buf" using n by simp
  moreover have "drop (off + room) ?b = drop (off + room) buf"
    unfolding p(2) using p(1) assms(2) by (simp del: length_append append_assoc add: add.commute)
  moreover have "take (off + ?n) ?b = cstr ?b" unfolding c using n by (simp add: min_def)
  moreover have "snprintf_at off room t buf = Some (length t, ?b)"
    using assms(1,2) by (simp add: snprintf_at_def Let_def)
  ultimately show ?thesis using c by blast
qed


lemma maneuver_name_no_nul: "0 \<notin> set (ascii (hud_nav16_maneuver_name t))"
proof -
  have "\<forall>n \<in> set kManeuver. 0 \<notin> set (ascii n)" by (simp add: kManeuver_def ascii_def)
  then show ?thesis by (simp add: hud_nav16_maneuver_name_def) (simp add: ascii_def)
qed

text \<open>The lane texts from lane \<open>i\<close> on.\<close>

definition lane_texts :: "AaGuidance \<Rightarrow> nat \<Rightarrow> u8 list" where
  "lane_texts g i = concat (map (\<lambda>j. lane_text j (lanes g ! j)) [i..<nat (n_lanes g)])"

definition guidance_text :: "AaGuidance \<Rightarrow> u8 list" where
  "guidance_text g = guidance_head g @ lane_texts g 0"

text \<open>The buffer holds the text \<open>t\<close>, cut to \<open>cap\<close> bytes with the NUL, and nothing else was touched.\<close>

definition holds_text :: "nat \<Rightarrow> u8 list \<Rightarrow> u8 list \<Rightarrow> u8 list \<Rightarrow> bool" where
  "holds_text cap t buf buf' \<longleftrightarrow>
     length buf' = length buf \<and> drop cap buf' = drop cap buf \<and> cstr buf' = take (cap - 1) t \<and>
     take (min (cap - 1) (length t)) buf' = cstr buf'"

lemma holds_text_more:
  assumes "holds_text cap t buf buf1" and "length t < cap" and "cap \<le> length buf" and "0 \<notin> set t" and "0 \<notin> set u"
  shows "\<exists>buf2. snprintf_at (length t) (cap - length t) u buf1 = Some (length u, buf2) \<and>
    holds_text cap (t @ u) buf buf2"
proof -
  have l: "length buf1 = length buf" and t: "take (length t) buf1 = t" and d: "drop cap buf1 = drop cap buf"
    using assms(1,2) by (simp_all add: holds_text_def min_absorb2)
  have "\<exists>buf2. snprintf_at (length t) (cap - length t) u buf1 = Some (length u, buf2) \<and>
      length buf2 = length buf1 \<and> take (length t) buf2 = take (length t) buf1 \<and>
      drop (length t + (cap - length t)) buf2 = drop (length t + (cap - length t)) buf1 \<and>
      cstr buf2 = take (length t) buf1 @ take (cap - length t - 1) u \<and>
      take (length t + min (cap - length t - 1) (length u)) buf2 = cstr buf2"
    using assms l t by (intro snprintf_at_fits) simp_all
  then obtain buf2 where b: "snprintf_at (length t) (cap - length t) u buf1 = Some (length u, buf2)"
      "length buf2 = length buf1" "drop cap buf2 = drop cap buf1"
      "cstr buf2 = t @ take (cap - length t - 1) u"
      "take (length t + min (cap - length t - 1) (length u)) buf2 = cstr buf2"
    using assms(2) t by auto
  have "length t + min (cap - length t - 1) (length u) = min (cap - 1) (length (t @ u))"
    using assms(2) by simp
  moreover have "t @ take (cap - length t - 1) u = take (cap - 1) (t @ u)" using assms(2) by simp
  ultimately have "holds_text cap (t @ u) buf buf2"
    using b(2-5) l d by (simp add: holds_text_def)
  then show ?thesis using b(1) by blast
qed

lemma lane_text_no_nul: "0 \<notin> set (lane_text i l)"
  by (simp add: lane_text_def hex3_def Let_def hex_nat_no_nul dec_nat_facts) (simp add: ascii_def)

lemma format_lanes_text:
  assumes "guidance_ok g" and "cap \<le> length buf"
  shows "holds_text cap t buf buf1 \<Longrightarrow> 0 \<notin> set t \<Longrightarrow> i \<le> 8 \<Longrightarrow>
    \<exists>n buf2. format_lanes g cap i (length t) buf1 = Some (n, buf2) \<and>
      holds_text cap (t @ lane_texts g i) buf buf2 \<and>
      (if n < cap then n = length (t @ lane_texts g i) else cap \<le> length (t @ lane_texts g i))"
proof (induction "8 - i" arbitrary: i t buf1)
  case (0 i)
  then have "\<not> int i < n_lanes g" "lane_texts g i = []" using assms(1) by (auto simp: guidance_ok_def lane_texts_def)
  then show ?case using 0 by (simp add: format_lanes.simps [of g cap i] format_lanes.simps [of g cap 8])
next
  case (Suc k)
  consider (stop) "\<not> int i < n_lanes g" | (full) "int i < n_lanes g" "\<not> length t < cap"
    | (more) "int i < n_lanes g" "length t < cap" by blast
  then show ?case
  proof cases
    case stop
    then have "lane_texts g i = []" by (auto simp: lane_texts_def)
    then show ?thesis using stop Suc.prems by (simp add: format_lanes.simps [of g cap i])
  next
    case full
    then have "holds_text cap (t @ lane_texts g i) buf buf1"
      using Suc.prems(1) by (auto simp: holds_text_def min_def split: if_splits)
    then show ?thesis using full by (simp add: format_lanes.simps [of g cap i])
  next
    case more
    have i: "i < length (lanes g)" using more(1) assms(1) by (auto simp: guidance_ok_def)
    let ?u = "lane_text i (lanes g ! i)"
    obtain buf2 where b: "snprintf_at (length t) (cap - length t) ?u buf1 = Some (length ?u, buf2)"
        "holds_text cap (t @ ?u) buf buf2"
      using holds_text_more [OF Suc.prems(1) more(2) assms(2) Suc.prems(2) lane_text_no_nul] by blast
    have u: "t @ lane_texts g i = (t @ ?u) @ lane_texts g (i + 1)"
      using more(1) by (simp add: lane_texts_def upt_conv_Cons)
    have nz: "0 \<notin> set (t @ ?u)" using Suc.prems(2) lane_text_no_nul by simp
    have k: "k = 8 - (i + 1)" "i + 1 \<le> 8" using Suc.hyps(2) by simp_all
    have "format_lanes g cap i (length t) buf1 = format_lanes g cap (i + 1) (length (t @ ?u)) buf2"
      using more b(1) i by (simp add: format_lanes.simps [of g cap i])
    then show ?thesis
      unfolding u using Suc.hyps(1) [OF k(1) b(2) nz k(2)] by simp
  qed
qed

text \<open>
  C34.  The log formatters stay inside the caller's buffer.  For every guidance the decoder can
  deliver and every buffer with room for \<open>cap > 0\<close> bytes, the formatter ends, leaves every byte from
  \<open>cap\<close> on alone, and the buffer then holds, closed by a NUL, exactly the whole line, head and one
  entry per lane, cut to \<open>cap - 1\<close> bytes; the returned length is below \<open>cap\<close> only when nothing was
  cut, and is then the line's length.
\<close>

theorem format_guidance_fits:
  assumes "guidance_ok g" and "0 < cap" and "cap \<le> int (length buf)"
  shows "\<exists>n buf'. hud_nav16_format_guidance (Some g) (Some buf) cap = Some (n, Some buf') \<and>
    length buf' = length buf \<and> drop (nat cap) buf' = drop (nat cap) buf \<and>
    cstr buf' = take (nat cap - 1) (guidance_text g) \<and>
    (int n < cap \<longleftrightarrow> int (length (guidance_text g)) < cap) \<and>
    (int n < cap \<longrightarrow> n = length (guidance_text g))"
proof -
  have nz: "0 \<notin> set (guidance_head g)"
    using assms(1) by (simp add: guidance_head_def maneuver_name_no_nul dec_nat_facts dec_int_no_nul)
      (simp add: ascii_def)
  have c: "0 + nat cap \<le> length buf" "0 < nat cap" using assms(2,3) by simp_all
  obtain buf1 where b: "snprintf_at 0 (nat cap) (guidance_head g) buf = Some (length (guidance_head g), buf1)"
    "holds_text (nat cap) (guidance_head g) buf buf1"
    using snprintf_at_fits [OF c nz] by (auto simp: holds_text_def)
  obtain n buf2 where l: "format_lanes g (nat cap) 0 (length (guidance_head g)) buf1 = Some (n, buf2)"
    "holds_text (nat cap) (guidance_text g) buf buf2"
    "if n < nat cap then n = length (guidance_text g) else nat cap \<le> length (guidance_text g)"
    using format_lanes_text [OF assms(1) _ b(2) nz zero_le] c(1) unfolding guidance_text_def add_0 by blast
  have "int n < cap \<longleftrightarrow> int (length (guidance_text g)) < cap" "int n < cap \<longrightarrow> n = length (guidance_text g)"
    using l(3) assms(2) by (auto split: if_splits)
  moreover have "hud_nav16_format_guidance (Some g) (Some buf) cap = Some (n, Some buf2)"
    using assms(2) b(1) l(1) by (simp add: hud_nav16_format_guidance_def)
  ultimately show ?thesis using l(2) by (auto simp: holds_text_def)
qed

theorem format_guidance_fits_witness:
  "\<exists>n buf'. hud_nav16_format_guidance (Some zero_guidance) (Some (replicate 20 1)) 12 = Some (n, Some buf') \<and>
    cstr buf' = ascii ''nav16 STATE'' \<and> drop 12 buf' = replicate 8 1"
proof -
  have t: "take 11 (guidance_text zero_guidance) = ascii ''nav16 STATE''"
    by (simp add: guidance_text_def guidance_head_def ascii_def)
  show ?thesis
    using format_guidance_fits [OF zero_guidance_ok, of 12 "replicate 20 1"] t by auto
qed

lemma format_position_fits:
  assumes "0 < cap" and "cap \<le> int (length buf)"
  shows "\<exists>buf'. hud_nav16_format_position (Some p) (Some buf) cap =
      Some (length (position_text p), Some buf') \<and> length buf' = length buf \<and>
    drop (nat cap) buf' = drop (nat cap) buf \<and> cstr buf' = take (nat cap - 1) (position_text p)"
proof -
  have nz: "0 \<notin> set (position_text p)"
    by (simp add: position_text_def dec_nat_facts dec_int_no_nul) (simp add: ascii_def)
  have c: "0 + nat cap \<le> length buf" "0 < nat cap" using assms by simp_all
  show ?thesis
    using snprintf_at_fits [OF c nz] assms(1) by (auto simp: hud_nav16_format_position_def)
qed

text \<open>The name tables tell the enumerators apart, and no enumerator is called unknown.\<close>

lemma names_distinct:
  "inj_on nav_turn_event_name (fst ` set turn_event_names)" "''?'' \<notin> nav_turn_event_name ` fst ` set turn_event_names"
  "inj_on nav_distance_unit_name (fst ` set distance_unit_names)"
  "''?'' \<notin> nav_distance_unit_name ` fst ` set distance_unit_names"
  by (simp_all add: nav_turn_event_name_def turn_event_names_def nav_distance_unit_name_def distance_unit_names_def)

end
