(* ===== verification/Logging.thy ===== *)
theory Logging
  imports Config
begin

text \<open>
  \<open>common/log.h\<close>: the level of a build, which of the five macros it keeps, and the line a kept
  macro writes to its sink.  A message is the text \<open>printf\<close> makes of the format and its arguments.
\<close>

section \<open>Levels\<close>

datatype LogLevel =
    LOG_LEVEL_VERBOSE | LOG_LEVEL_DEBUG | LOG_LEVEL_WARN | LOG_LEVEL_ERROR | LOG_LEVEL_CRITICAL
  | LOG_LEVEL_SILENT

fun level_code :: "LogLevel \<Rightarrow> nat" where
  "level_code LOG_LEVEL_VERBOSE = 0"
| "level_code LOG_LEVEL_DEBUG = 1"
| "level_code LOG_LEVEL_WARN = 2"
| "level_code LOG_LEVEL_ERROR = 3"
| "level_code LOG_LEVEL_CRITICAL = 4"
| "level_code LOG_LEVEL_SILENT = 5"

lemma level_code_inj: "level_code a = level_code b \<Longrightarrow> a = b"
  by (cases a; cases b) simp_all

text \<open>The preprocessor compares the codes.\<close>

instantiation LogLevel :: linorder
begin

definition less_eq_LogLevel :: "LogLevel \<Rightarrow> LogLevel \<Rightarrow> bool" where
  "less_eq_LogLevel a b \<longleftrightarrow> level_code a \<le> level_code b"

definition less_LogLevel :: "LogLevel \<Rightarrow> LogLevel \<Rightarrow> bool" where
  "less_LogLevel a b \<longleftrightarrow> level_code a < level_code b"

instance
  by standard (auto simp: less_eq_LogLevel_def less_LogLevel_def dest: level_code_inj)

end

text \<open>\<open>ndebug\<close> is the release build; \<open>override\<close> a \<open>LOG_LEVEL\<close> given to the compiler.\<close>

definition LOG_LEVEL :: "bool \<Rightarrow> LogLevel option \<Rightarrow> LogLevel" where
  "LOG_LEVEL ndebug override =
     (case override of
        Some l \<Rightarrow> l
      | None \<Rightarrow> if ndebug then LOG_LEVEL_ERROR else LOG_LEVEL_VERBOSE)"

section \<open>Lines\<close>

definition LOG_EMIT :: "u8 list \<Rightarrow> u8 list \<Rightarrow> u8 list \<Rightarrow> u8 list \<Rightarrow> u8 list" where
  "LOG_EMIT name log_tag letter msg =
     ascii ''[libpatch-'' @ name @ ascii '']['' @ log_tag @ ascii '']['' @ letter @ ascii ''] '' @ msg @ [10]"

definition log_at ::
  "LogLevel \<Rightarrow> LogLevel \<Rightarrow> u8 list \<Rightarrow> u8 list \<Rightarrow> u8 list \<Rightarrow> u8 list \<Rightarrow> u8 list" where
  "log_at threshold l letter name log_tag msg =
     (if threshold \<le> l then LOG_EMIT name log_tag letter msg else [])"

definition LOGV where "LOGV t = log_at t LOG_LEVEL_VERBOSE (ascii ''V'')"
definition LOGD where "LOGD t = log_at t LOG_LEVEL_DEBUG (ascii ''D'')"
definition LOGW where "LOGW t = log_at t LOG_LEVEL_WARN (ascii ''W'')"
definition LOGE where "LOGE t = log_at t LOG_LEVEL_ERROR (ascii ''E'')"
definition LOGC where "LOGC t = log_at t LOG_LEVEL_CRITICAL (ascii ''C'')"

lemma level_le [simp]: "a \<le> b \<longleftrightarrow> level_code a \<le> level_code b" for a b :: LogLevel
  by (simp add: less_eq_LogLevel_def)

lemma log_at_empty_iff: "log_at t l letter name log_tag msg = [] \<longleftrightarrow> l < t"
  by (simp add: log_at_def LOG_EMIT_def less_LogLevel_def not_le)

text \<open>
  A release build writes errors and critical messages and nothing else; a debug build writes
  everything; raising the threshold never adds a line.
\<close>

theorem release_writes_errors_only:
  "LOGV (LOG_LEVEL True None) n g m = [] \<and> LOGD (LOG_LEVEL True None) n g m = [] \<and>
   LOGW (LOG_LEVEL True None) n g m = [] \<and> LOGE (LOG_LEVEL True None) n g m = LOG_EMIT n g (ascii ''E'') m \<and>
   LOGC (LOG_LEVEL True None) n g m = LOG_EMIT n g (ascii ''C'') m \<and>
   log_at (LOG_LEVEL False None) l c n g m = LOG_EMIT n g c m \<and>
   (log_at t l c n g m = [] \<longrightarrow> log_at (max t t') l c n g m = [])"
proof -
  have "log_at (max t t') l c n g m = []" if "log_at t l c n g m = []"
    using that unfolding log_at_empty_iff by (simp add: less_max_iff_disj)
  then show ?thesis
    by (simp add: LOGV_def LOGD_def LOGW_def LOGE_def LOGC_def log_at_def LOG_LEVEL_def)
qed

end
