(* ===== verification/Crash.thy ===== *)
theory Crash
  imports Logging Log_Text Preload
begin

text \<open>
  The crash dump: the fatal-signal handler of \<open>common/preload_guard.h\<close>, its copy in
  \<open>blmjcicarplay/main.cpp\<close>, and their installation.  Standard error is a record with the bytes written
  and an oracle for the results of \<open>write\<close>; a read past the line buffer is \<open>None\<close>.  What the C library's
  \<open>backtrace_symbols_fd\<close> prints is a parameter.
\<close>

section \<open>Standard error\<close>

text \<open>\<open>er_result k n\<close>: what the \<open>k\<close>-th call of \<open>write\<close> returns for \<open>n\<close> bytes.\<close>

record stderr =
  er_out :: "u8 list"
  er_calls :: nat
  er_result :: "nat \<Rightarrow> nat \<Rightarrow> int"

definition write_err :: "u8 list \<Rightarrow> stderr \<Rightarrow> int \<times> stderr" where
  "write_err bs e =
     (let r = er_result e (er_calls e) (length bs) in
      (r, e\<lparr>er_out := er_out e @ take (nat r) bs, er_calls := er_calls e + 1\<rparr>))"

section \<open>Numbers\<close>

text \<open>\<open>%08lx\<close> of a 32-bit register, and \<open>%p\<close>.\<close>

definition hex8 :: "u32 \<Rightarrow> u8 list" where
  "hex8 w = (let h = hex_nat (unat w) in replicate (8 - length h) 48 @ h)"

definition ptr_text :: "u32 \<Rightarrow> u8 list" where
  "ptr_text p = (if p = 0 then ascii ''(nil)'' else ascii ''0x'' @ hex_nat (unat p))"

section \<open>The lines\<close>

record siginfo =
  si_code :: int
  si_addr :: u32

record mcontext =
  arm_r0 :: u32
  arm_r1 :: u32
  arm_r2 :: u32
  arm_r3 :: u32
  arm_r4 :: u32
  arm_r5 :: u32
  arm_r6 :: u32
  arm_r7 :: u32
  arm_fp :: u32
  arm_ip :: u32
  arm_sp :: u32
  arm_lr :: u32
  arm_pc :: u32
  arm_cpsr :: u32
  fault_address :: u32

definition crash_prefix :: "u8 list \<Rightarrow> u8 list" where
  "crash_prefix name = ascii ''[libpatch-'' @ name @ ascii ''][C] ''"

definition crash_header :: "u8 list \<Rightarrow> u8 list" where
  "crash_header name = [10] @ crash_prefix name @ ascii ''*** fatal signal caught ***'' @ [10]"

definition signal_line :: "u8 list \<Rightarrow> int \<Rightarrow> int \<Rightarrow> int \<Rightarrow> siginfo option \<Rightarrow> u8 list" where
  "signal_line name sig pid tid info =
     crash_prefix name @ ascii ''signal='' @ dec_int sig @ ascii '' pid='' @ dec_int pid @
     ascii '' tid='' @ dec_int tid @ ascii '' si_code='' @
     dec_int (case info of Some i \<Rightarrow> si_code i | None \<Rightarrow> -1) @ ascii '' si_addr='' @
     ptr_text (case info of Some i \<Rightarrow> si_addr i | None \<Rightarrow> 0) @ [10]"

text \<open>The labelled registers of one line.\<close>

definition reg_fields :: "(string \<times> u32) list \<Rightarrow> u8 list" where
  "reg_fields fs = concat (map (\<lambda>(l, v). [32] @ ascii l @ [61] @ hex8 v) fs)"

definition state_line :: "u8 list \<Rightarrow> mcontext \<Rightarrow> u8 list" where
  "state_line name mc =
     crash_prefix name @ ascii ''regs:'' @
     reg_fields [(''pc'', arm_pc mc), (''lr'', arm_lr mc), (''sp'', arm_sp mc), (''fp'', arm_fp mc),
       (''ip'', arm_ip mc), (''cpsr'', arm_cpsr mc), (''fault'', fault_address mc)] @ [10]"

definition regs_line :: "u8 list \<Rightarrow> mcontext \<Rightarrow> u8 list" where
  "regs_line name mc =
     crash_prefix name @ ascii ''regs:'' @
     reg_fields [(''r0'', arm_r0 mc), (''r1'', arm_r1 mc), (''r2'', arm_r2 mc), (''r3'', arm_r3 mc),
       (''r4'', arm_r4 mc), (''r5'', arm_r5 mc), (''r6'', arm_r6 mc), (''r7'', arm_r7 mc)] @ [10]"

text \<open>
  \<open>m = snprintf(buf, sizeof buf, ...)\<close> followed by \<open>write(2, buf, m)\<close>: \<open>m\<close> is the length of the whole
  text, and the write reads that many bytes of \<open>buf\<close>.
\<close>

definition kDumpBuf :: nat where "kDumpBuf = 256"

definition dump_line :: "u8 list \<Rightarrow> u8 list \<Rightarrow> stderr \<Rightarrow> (u8 list \<times> stderr) option" where
  "dump_line t buf e =
     (case snprintf_at 0 kDumpBuf t buf of
        None \<Rightarrow> None
      | Some (m, buf) \<Rightarrow>
          if m = 0 then Some (buf, e)
          else if length buf < m then None
          else Some (buf, snd (write_err (take m buf) e)))"

section \<open>The copy of the memory map\<close>

text \<open>The inner loop: the rest of a chunk from \<open>off\<close> on.\<close>

function copy_chunk :: "u8 list \<Rightarrow> nat \<Rightarrow> stderr \<Rightarrow> stderr" where
  "copy_chunk b off e =
     (if off < length b then
        (case write_err (drop off b) e of
           (wn, e) \<Rightarrow> if wn \<le> 0 then e else copy_chunk b (off + nat wn) e)
      else e)"
  by pat_completeness auto
termination
  by (relation "measure (\<lambda>(b, off, e). length b - off)") auto

declare copy_chunk.simps [simp del]

text \<open>
  The file is what the successive reads return: nonempty chunks, until a read returns none.  \<open>None\<close>:
  it cannot be opened.
\<close>

definition copy_maps :: "u8 list list option \<Rightarrow> stderr \<Rightarrow> stderr" where
  "copy_maps maps e =
     (case maps of None \<Rightarrow> e | Some chunks \<Rightarrow> foldl (\<lambda>e b. copy_chunk b 0 e) e chunks)"

section \<open>The process\<close>

text \<open>\<open>pr_died\<close>: the signal whose default action ended the process.\<close>

datatype disposition = SigDfl | SigHandler

record process =
  pr_disp :: "int \<Rightarrow> disposition"
  pr_err :: stderr
  pr_died :: "int option"
  pr_reentered :: bool

definition signal_dfl :: "int \<Rightarrow> process \<Rightarrow> process" where
  "signal_dfl sig p = p\<lparr>pr_disp := (pr_disp p)(sig := SigDfl)\<rparr>"

text \<open>With \<open>SA_NODEFER\<close> the raised signal is delivered at once, to whatever is installed for it.\<close>

definition raise_sig :: "int \<Rightarrow> process \<Rightarrow> process" where
  "raise_sig sig p =
     (case pr_disp p sig of
        SigDfl \<Rightarrow> p\<lparr>pr_died := Some sig\<rparr>
      | SigHandler \<Rightarrow> p\<lparr>pr_reentered := True\<rparr>)"

record crash_env =
  cr_pid :: int
  cr_tid :: int
  cr_backtrace :: "u8 list"
  cr_maps :: "u8 list list option"

definition print_backtrace :: "u8 list \<Rightarrow> stderr \<Rightarrow> stderr" where
  "print_backtrace bs e = e\<lparr>er_out := er_out e @ bs\<rparr>"

definition preload_fatal_signal_handler ::
  "u8 list \<Rightarrow> crash_env \<Rightarrow> int \<Rightarrow> siginfo option \<Rightarrow> mcontext option \<Rightarrow> u8 list \<Rightarrow> process \<Rightarrow> process option" where
  "preload_fatal_signal_handler name ce sig info uc buf p =
     (let e = snd (write_err (crash_header name) (pr_err p)) in
      case dump_line (signal_line name sig (cr_pid ce) (cr_tid ce) info) buf e of
        None \<Rightarrow> None
      | Some (buf, e) \<Rightarrow>
          (case (case uc of
                   None \<Rightarrow> Some (buf, e)
                 | Some mc \<Rightarrow>
                     (case dump_line (state_line name mc) buf e of
                        None \<Rightarrow> None
                      | Some (buf, e) \<Rightarrow> dump_line (regs_line name mc) buf e)) of
             None \<Rightarrow> None
           | Some (buf, e) \<Rightarrow>
               let e = snd (write_err (crash_prefix name @ ascii ''backtrace (may be truncated at sigreturn):'' @ [10]) e);
                   e = print_backtrace (cr_backtrace ce) e;
                   e = snd (write_err (crash_prefix name @ ascii ''/proc/self/maps:'' @ [10]) e);
                   e = copy_maps (cr_maps ce) e
               in Some (raise_sig sig (signal_dfl sig (p\<lparr>pr_err := e\<rparr>)))))"

text \<open>The CarPlay library's copy: one register line, no headings.\<close>

definition fatal_signal_handler ::
  "crash_env \<Rightarrow> int \<Rightarrow> siginfo option \<Rightarrow> mcontext option \<Rightarrow> u8 list \<Rightarrow> process \<Rightarrow> process option" where
  "fatal_signal_handler ce sig info uc buf p =
     (let name = ascii ''blmjcicarplay''; e = snd (write_err (crash_header name) (pr_err p)) in
      case dump_line (signal_line name sig (cr_pid ce) (cr_tid ce) info) buf e of
        None \<Rightarrow> None
      | Some (buf, e) \<Rightarrow>
          (case (case uc of None \<Rightarrow> Some (buf, e) | Some mc \<Rightarrow> dump_line (state_line name mc) buf e) of
             None \<Rightarrow> None
           | Some (buf, e) \<Rightarrow>
               let e = copy_maps (cr_maps ce) (print_backtrace (cr_backtrace ce) e)
               in Some (raise_sig sig (signal_dfl sig (p\<lparr>pr_err := e\<rparr>)))))"

text \<open>\<open>SIGSEGV\<close>, \<open>SIGBUS\<close>, \<open>SIGABRT\<close>, \<open>SIGFPE\<close> and \<open>SIGILL\<close>, in the order of the calls.\<close>

definition fatal_signals :: "int list" where "fatal_signals = [11, 7, 6, 8, 4]"

definition install_fatal_handler :: "(int \<Rightarrow> disposition) \<Rightarrow> int \<Rightarrow> disposition" where
  "install_fatal_handler d = fold (\<lambda>sig d. d(sig := SigHandler)) fatal_signals d"

text \<open>A constructor's actions on the dispositions of the process.\<close>

fun startup_disp :: "startup_action \<Rightarrow> (int \<Rightarrow> disposition) \<Rightarrow> int \<Rightarrow> disposition" where
  "startup_disp InstallFatalHandler d = install_fatal_handler d"
| "startup_disp _ d = d"

definition run_startup :: "startup_action list \<Rightarrow> (int \<Rightarrow> disposition) \<Rightarrow> int \<Rightarrow> disposition" where
  "run_startup acts d = fold startup_disp acts d"

section \<open>Every line fits its buffer\<close>

definition libpatch_names :: "u8 list list" where
  "libpatch_names = [ascii ''aap_service'', ascii ''blmjciaapa'', ascii ''blmjcicarplay'', ascii ''svcjcinavi'']"

lemma length_hex_nat: "n < 16 ^ Suc k \<Longrightarrow> length (hex_nat n) \<le> Suc k"
proof (induction k arbitrary: n)
  case 0
  then show ?case by (simp add: hex_nat.simps [of n])
next
  case (Suc k)
  have "n div 16 < 16 ^ Suc k" using Suc.prems by (simp add: less_mult_imp_div_less)
  from Suc.IH [OF this] show ?case by (simp add: hex_nat.simps [of n])
qed

lemma length_dec_nat: "n < 10 ^ Suc k \<Longrightarrow> length (dec_nat n) \<le> Suc k"
proof (induction k arbitrary: n)
  case 0
  then show ?case by (simp add: dec_nat.simps [of n])
next
  case (Suc k)
  have "n div 10 < 10 ^ Suc k" using Suc.prems by (simp add: less_mult_imp_div_less)
  from Suc.IH [OF this] show ?case by (simp add: dec_nat.simps [of n])
qed

lemma length_hex_u32: "length (hex_nat (unat (w :: u32))) \<le> 8"
  using length_hex_nat [of "unat w" 7] unsigned_less [of w, where ?'a = nat] by simp

lemma length_hex8 [simp]: "length (hex8 w) = 8"
  using length_hex_u32 [of w] by (simp add: hex8_def Let_def)

lemma length_ptr_text: "length (ptr_text p) \<le> 10"
  using length_hex_u32 [of p] by (simp add: ptr_text_def ascii_def)

lemma length_dec_i32: "i32_range i \<Longrightarrow> length (dec_int i) \<le> 11"
proof -
  assume "i32_range i"
  then have "nat (- i) < 10 ^ Suc 9" "nat i < 10 ^ Suc 9"
    by (auto simp: i32_range_def nat_less_iff)
  from length_dec_nat [OF this(1)] length_dec_nat [OF this(2)] show ?thesis by (simp add: dec_int_def)
qed

lemma length_reg_fields: "length (reg_fields fs) = (\<Sum>(l, v) \<leftarrow> fs. 10 + length l)"
  by (induction fs) (auto simp: reg_fields_def ascii_def)

lemma length_crash_prefix: "name \<in> set libpatch_names \<Longrightarrow> length (crash_prefix name) \<le> 28"
  by (auto simp: libpatch_names_def crash_prefix_def ascii_def)

lemma length_signal_line:
  assumes "name \<in> set libpatch_names" and "i32_range sig" "i32_range pid" "i32_range tid"
    and "\<forall>i. info = Some i \<longrightarrow> i32_range (si_code i)"
  shows "length (signal_line name sig pid tid info) \<le> 118"
proof -
  let ?c = "case info of Some i \<Rightarrow> si_code i | None \<Rightarrow> -1"
  have "i32_range ?c" using assms(5) by (cases info) (simp_all add: i32_rangeI)
  note n = length_crash_prefix [OF assms(1)] length_dec_i32 [OF assms(2)] length_dec_i32 [OF assms(3)]
    length_dec_i32 [OF assms(4)] length_dec_i32 [OF this] length_ptr_text [of "case info of Some i \<Rightarrow> si_addr i | None \<Rightarrow> 0"]
  show ?thesis using n by (simp add: signal_line_def ascii_def)
qed

lemma length_register_lines:
  assumes "name \<in> set libpatch_names"
  shows "length (state_line name mc) \<le> 255" and "length (regs_line name mc) \<le> 255"
  using length_crash_prefix [OF assms] by (simp_all add: state_line_def regs_line_def length_reg_fields ascii_def)

lemma dump_line_fits:
  assumes "length t \<le> 255" and "length buf = kDumpBuf"
  obtains buf' where "dump_line t buf e = Some (buf', if t = [] then e else snd (write_err t e))"
    and "length buf' = kDumpBuf"
proof -
  let ?b = "t @ [0] @ drop (length t + 1) buf"
  have "snprintf_at 0 kDumpBuf t buf = Some (length t, ?b)"
    using assms by (simp add: snprintf_at_def kDumpBuf_def min_def Let_def)
  moreover have "length ?b = kDumpBuf" using assms by (simp add: kDumpBuf_def)
  ultimately show ?thesis
    using that [of ?b] assms(1) by (auto simp: dump_line_def kDumpBuf_def)
qed

section \<open>The whole map is copied\<close>

text \<open>A \<open>write\<close> that makes progress: it accepts some of what it is given, perhaps not all.\<close>

definition write_progress :: "stderr \<Rightarrow> bool" where
  "write_progress e \<longleftrightarrow> (\<forall>k n. 0 < n \<longrightarrow> 0 < er_result e k n \<and> er_result e k n \<le> int n)"

lemma write_err_keeps: "er_result (snd (write_err bs e)) = er_result e"
  by (simp add: write_err_def Let_def)

lemma write_progress_cong: "er_result f = er_result e \<Longrightarrow> write_progress f = write_progress e"
  by (simp add: write_progress_def)

lemma copy_chunk_keeps: "er_result (copy_chunk b off e) = er_result e"
proof (induction b off e rule: copy_chunk.induct)
  case (1 b off e)
  obtain wn f where f: "write_err (drop off b) e = (wn, f)" by fastforce
  then have "er_result f = er_result e" using write_err_keeps [of "drop off b" e] by simp
  then show ?case using 1 f by (subst copy_chunk.simps) simp
qed

lemma copy_chunk_all:
  "write_progress e \<Longrightarrow> er_out (copy_chunk b off e) = er_out e @ drop off b"
proof (induction b off e rule: copy_chunk.induct)
  case (1 b off e)
  show ?case
  proof (cases "off < length b")
    case True
    define wn where "wn = er_result e (er_calls e) (length b - off)"
    define f where "f = e\<lparr>er_out := er_out e @ take (nat wn) (drop off b), er_calls := er_calls e + 1\<rparr>"
    have w: "write_err (drop off b) e = (wn, f)" by (simp add: write_err_def Let_def wn_def f_def)
    have pos: "0 < wn" using 1(2) True unfolding write_progress_def wn_def by simp
    have "write_progress f" using 1(2) by (simp add: f_def write_progress_def)
    then have "er_out (copy_chunk b (off + nat wn) f) = er_out f @ drop (off + nat wn) b"
      using 1(1) [OF True w [symmetric]] pos by simp
    moreover have "copy_chunk b off e = copy_chunk b (off + nat wn) f"
      using True w pos by (subst copy_chunk.simps) simp
    moreover have "take (nat wn) (drop off b) @ drop (off + nat wn) b = drop off b"
      by (metis append_take_drop_id drop_drop add.commute)
    ultimately show ?thesis by (simp add: f_def)
  next
    case False
    then show ?thesis by (subst copy_chunk.simps) simp
  qed
qed

lemma copy_maps_all:
  assumes "write_progress e"
  shows "er_out (copy_maps (Some chunks) e) = er_out e @ concat chunks"
  using assms
proof (induction chunks arbitrary: e)
  case (Cons b bs)
  have "write_progress (copy_chunk b 0 e)"
    using Cons.prems write_progress_cong [OF copy_chunk_keeps] by blast
  from Cons.IH [OF this] show ?case using copy_chunk_all [OF Cons.prems, of b 0] by (simp add: copy_maps_def)
qed (simp add: copy_maps_def)

section \<open>What a dump leaves\<close>

text \<open>The successive texts of a dump up to the memory map, and a plain sequence of writes.\<close>

definition write_all :: "u8 list list \<Rightarrow> stderr \<Rightarrow> stderr" where
  "write_all ts e = foldl (\<lambda>e t. snd (write_err t e)) e ts"

lemma write_all_simps [simp]:
  "write_all [] e = e" "write_all (t # ts) e = write_all ts (snd (write_err t e))"
  by (simp_all add: write_all_def)

definition head_lines :: "u8 list \<Rightarrow> crash_env \<Rightarrow> int \<Rightarrow> siginfo option \<Rightarrow> u8 list list" where
  "head_lines name ce sig info = [crash_header name, signal_line name sig (cr_pid ce) (cr_tid ce) info]"

text \<open>What the arguments of a handler satisfy; \<open>int\<close> is 32 bits wide.\<close>

definition crash_args_ok :: "crash_env \<Rightarrow> int \<Rightarrow> siginfo option \<Rightarrow> u8 list \<Rightarrow> bool" where
  "crash_args_ok ce sig info buf \<longleftrightarrow>
     i32_range sig \<and> i32_range (cr_pid ce) \<and> i32_range (cr_tid ce) \<and>
     (case info of None \<Rightarrow> True | Some i \<Rightarrow> i32_range (si_code i)) \<and> length buf = kDumpBuf"

lemma dump_line_write:
  assumes "length t \<le> 255" and "length buf = kDumpBuf" and "t \<noteq> []"
  shows "\<exists>buf'. dump_line t buf e = Some (buf', snd (write_err t e)) \<and> length buf' = kDumpBuf"
  using dump_line_fits [OF assms(1,2), of e] assms(3) by auto

lemma crash_lines:
  assumes "crash_args_ok ce sig info buf" and "name \<in> set libpatch_names"
  shows "length (signal_line name sig (cr_pid ce) (cr_tid ce) info) \<le> 255"
    and "signal_line name sig pid tid info \<noteq> []" and "state_line name mc \<noteq> []" and "regs_line name mc \<noteq> []"
proof -
  have "length (signal_line name sig (cr_pid ce) (cr_tid ce) info) \<le> 118"
    by (rule length_signal_line [OF assms(2)])
      (use assms(1) in \<open>auto simp: crash_args_ok_def split: option.splits\<close>)
  then show "length (signal_line name sig (cr_pid ce) (cr_tid ce) info) \<le> 255" by simp
qed (simp_all add: signal_line_def state_line_def regs_line_def)

lemma preload_handler_eq:
  assumes ok: "crash_args_ok ce sig info buf" and name: "name \<in> set libpatch_names"
  shows "preload_fatal_signal_handler name ce sig info uc buf p =
    Some (raise_sig sig (signal_dfl sig (p\<lparr>pr_err :=
      copy_maps (cr_maps ce)
        (write_all [crash_prefix name @ ascii ''/proc/self/maps:'' @ [10]]
          (print_backtrace (cr_backtrace ce)
            (write_all (head_lines name ce sig info @
                (case uc of None \<Rightarrow> [] | Some mc \<Rightarrow> [state_line name mc, regs_line name mc]) @
                [crash_prefix name @ ascii ''backtrace (may be truncated at sigreturn):'' @ [10]])
              (pr_err p))))\<rparr>)))"
proof -
  note l = crash_lines [OF ok name] length_register_lines [OF name]
  have b: "length buf = kDumpBuf" using ok by (simp add: crash_args_ok_def)
  define e where "e = snd (write_err (crash_header name) (pr_err p))"
  obtain buf1 where b1: "dump_line (signal_line name sig (cr_pid ce) (cr_tid ce) info) buf e =
      Some (buf1, snd (write_err (signal_line name sig (cr_pid ce) (cr_tid ce) info) e))" "length buf1 = kDumpBuf"
    using dump_line_write [OF l(1) b l(2)] by blast
  show ?thesis
  proof (cases uc)
    case None
    then show ?thesis
      by (simp add: preload_fatal_signal_handler_def Let_def e_def [symmetric] b1(1) head_lines_def)
  next
    case (Some mc)
    define f where "f = snd (write_err (signal_line name sig (cr_pid ce) (cr_tid ce) info) e)"
    obtain buf2 where b2: "dump_line (state_line name mc) buf1 f = Some (buf2, snd (write_err (state_line name mc) f))"
      "length buf2 = kDumpBuf"
      using dump_line_write [OF l(5) b1(2) l(3)] by blast
    obtain buf3 where b3: "dump_line (regs_line name mc) buf2 (snd (write_err (state_line name mc) f)) =
        Some (buf3, snd (write_err (regs_line name mc) (snd (write_err (state_line name mc) f))))"
      using dump_line_write [OF l(6) b2(2) l(4)] by blast
    show ?thesis
      using Some b3
      by (simp add: preload_fatal_signal_handler_def Let_def e_def [symmetric] b1(1) f_def [symmetric] b2(1)
          head_lines_def)
  qed
qed

lemma carplay_handler_eq:
  assumes ok: "crash_args_ok ce sig info buf"
  shows "fatal_signal_handler ce sig info uc buf p =
    Some (raise_sig sig (signal_dfl sig (p\<lparr>pr_err :=
      copy_maps (cr_maps ce)
        (print_backtrace (cr_backtrace ce)
          (write_all (head_lines (ascii ''blmjcicarplay'') ce sig info @
              (case uc of None \<Rightarrow> [] | Some mc \<Rightarrow> [state_line (ascii ''blmjcicarplay'') mc]))
            (pr_err p)))\<rparr>)))"
proof -
  let ?n = "ascii ''blmjcicarplay''"
  have name: "?n \<in> set libpatch_names" by (simp add: libpatch_names_def)
  note l = crash_lines [OF ok name] length_register_lines [OF name]
  have b: "length buf = kDumpBuf" using ok by (simp add: crash_args_ok_def)
  define e where "e = snd (write_err (crash_header ?n) (pr_err p))"
  obtain buf1 where b1: "dump_line (signal_line ?n sig (cr_pid ce) (cr_tid ce) info) buf e =
      Some (buf1, snd (write_err (signal_line ?n sig (cr_pid ce) (cr_tid ce) info) e))" "length buf1 = kDumpBuf"
    using dump_line_write [OF l(1) b l(2)] by blast
  show ?thesis
  proof (cases uc)
    case None
    then show ?thesis
      by (simp add: fatal_signal_handler_def Let_def e_def [symmetric] b1(1) head_lines_def)
  next
    case (Some mc)
    define f where "f = snd (write_err (signal_line ?n sig (cr_pid ce) (cr_tid ce) info) e)"
    obtain buf2 where "dump_line (state_line ?n mc) buf1 f = Some (buf2, snd (write_err (state_line ?n mc) f))"
      using dump_line_write [OF l(5) b1(2) l(3)] by blast
    then show ?thesis
      using Some by (simp add: fatal_signal_handler_def Let_def e_def [symmetric] b1(1) f_def [symmetric] head_lines_def)
  qed
qed

text \<open>Writes only append.\<close>

definition appends :: "stderr \<Rightarrow> stderr \<Rightarrow> bool" where
  "appends e f \<longleftrightarrow> er_result f = er_result e \<and> (\<exists>t. er_out f = er_out e @ t)"

lemma appends_trans: "appends e f \<Longrightarrow> appends f g \<Longrightarrow> appends e g"
  by (auto simp: appends_def)

lemma write_appends: "appends e (snd (write_err t e))"
  by (simp add: appends_def write_err_def Let_def)

lemma write_all_appends: "appends e (write_all ts e)"
  by (induction ts arbitrary: e) (simp add: appends_def, simp, meson appends_trans write_appends)

lemma backtrace_appends: "appends e (print_backtrace bs e)"
  by (simp add: appends_def print_backtrace_def)

text \<open>A \<open>write\<close> that takes all it is given.\<close>

definition write_full :: "stderr \<Rightarrow> bool" where
  "write_full e \<longleftrightarrow> (\<forall>k n. er_result e k n = int n)"

lemma write_full_progress: "write_full e \<Longrightarrow> write_progress e"
  by (simp add: write_full_def write_progress_def)

lemma appends_full: "appends e f \<Longrightarrow> write_full f = write_full e"
  by (simp add: appends_def write_full_def)

lemma write_all_full: "write_full e \<Longrightarrow> er_out (write_all ts e) = er_out e @ concat ts"
proof (induction ts arbitrary: e)
  case (Cons t ts)
  have "write_full (snd (write_err t e))" using Cons.prems appends_full [OF write_appends] by blast
  from Cons.IH [OF this] show ?case
    using Cons.prems by (simp add: write_err_def Let_def write_full_def)
qed simp

section \<open>Properties\<close>

definition maps_text :: "crash_env \<Rightarrow> u8 list" where
  "maps_text ce = (case cr_maps ce of None \<Rightarrow> [] | Some chunks \<Rightarrow> concat chunks)"

lemma copy_maps_text: "write_progress e \<Longrightarrow> er_out (copy_maps (cr_maps ce) e) = er_out e @ maps_text ce"
  by (cases "cr_maps ce") (simp_all add: maps_text_def copy_maps_all, simp add: copy_maps_def)

lemma raised:
  assumes "q = raise_sig sig (signal_dfl sig (p\<lparr>pr_err := e\<rparr>))"
  shows "pr_died q = Some sig" and "pr_reentered q = pr_reentered p" and "pr_err q = e"
    and "pr_disp q = (pr_disp p)(sig := SigDfl)"
  using assms by (simp_all add: raise_sig_def signal_dfl_def)

text \<open>
  C23.  A crash dump is safe and ends: whatever the signal, the registers, the standard error and the
  memory map, the handler never reads past its line buffer and never loops for ever, it restores the
  default action before it raises the signal again, so that the process ends by that very signal
  instead of entering the handler a second time, and leaves the other signals alone.  When \<open>write\<close>
  makes progress the whole memory map is written, short writes or not; when it takes all it is given
  the output is the dump, line by line.
\<close>

theorem crash_dump_ends:
  assumes "crash_args_ok ce sig info buf" and "name \<in> set libpatch_names"
  shows "\<exists>q. preload_fatal_signal_handler name ce sig info uc buf p = Some q \<and>
    pr_died q = Some sig \<and> pr_reentered q = pr_reentered p \<and> pr_disp q = (pr_disp p)(sig := SigDfl) \<and>
    (write_progress (pr_err p) \<longrightarrow> (\<exists>pre. er_out (pr_err q) = er_out (pr_err p) @ pre @ maps_text ce)) \<and>
    (write_full (pr_err p) \<longrightarrow>
      er_out (pr_err q) = er_out (pr_err p) @ concat (head_lines name ce sig info) @
        (case uc of None \<Rightarrow> [] | Some mc \<Rightarrow> state_line name mc @ regs_line name mc) @
        crash_prefix name @ ascii ''backtrace (may be truncated at sigreturn):'' @ [10] @ cr_backtrace ce @
        crash_prefix name @ ascii ''/proc/self/maps:'' @ [10] @ maps_text ce)"
proof -
  let ?e = "pr_err p"
  define pre where "pre = head_lines name ce sig info @
    (case uc of None \<Rightarrow> [] | Some mc \<Rightarrow> [state_line name mc, regs_line name mc]) @
    [crash_prefix name @ ascii ''backtrace (may be truncated at sigreturn):'' @ [10]]"
  define f where "f = print_backtrace (cr_backtrace ce) (write_all pre ?e)"
  define hd where "hd = [crash_prefix name @ ascii ''/proc/self/maps:'' @ [10]]"
  define q where "q = raise_sig sig (signal_dfl sig (p\<lparr>pr_err := copy_maps (cr_maps ce) (write_all hd f)\<rparr>))"
  have run: "preload_fatal_signal_handler name ce sig info uc buf p = Some q"
    unfolding q_def f_def pre_def hd_def by (rule preload_handler_eq [OF assms])
  have app: "appends ?e f" unfolding f_def using appends_trans [OF write_all_appends backtrace_appends] .
  have app': "appends ?e (write_all hd f)" using appends_trans [OF app write_all_appends] .
  have "\<exists>t. er_out (pr_err q) = er_out ?e @ t @ maps_text ce" if "write_progress ?e"
    using app' that copy_maps_text [of "write_all hd f" ce] write_progress_cong [of "write_all hd f" ?e]
    unfolding raised(3) [OF q_def] appends_def by auto
  moreover have "er_out (pr_err q) = er_out ?e @ concat pre @ cr_backtrace ce @ concat hd @ maps_text ce"
    if full: "write_full ?e"
  proof -
    have "write_full f" "write_full (write_all hd f)" using appends_full app app' full by blast+
    then show ?thesis
      unfolding raised(3) [OF q_def]
      using copy_maps_text [of "write_all hd f" ce] write_all_full [of f hd] write_all_full [OF full, of pre]
      by (simp add: write_full_progress) (simp add: f_def print_backtrace_def)
  qed
  ultimately show ?thesis
    using run raised [OF q_def]
    by (intro exI [of _ q] conjI impI) (simp_all add: pre_def hd_def split: option.split)
qed

text \<open>The copy in the CarPlay library keeps the same promises.\<close>

theorem carplay_dump_ends:
  assumes "crash_args_ok ce sig info buf"
  shows "\<exists>q. fatal_signal_handler ce sig info uc buf p = Some q \<and>
    pr_died q = Some sig \<and> pr_reentered q = pr_reentered p \<and> pr_disp q = (pr_disp p)(sig := SigDfl) \<and>
    (write_progress (pr_err p) \<longrightarrow> (\<exists>pre. er_out (pr_err q) = er_out (pr_err p) @ pre @ maps_text ce))"
proof -
  let ?n = "ascii ''blmjcicarplay''" and ?e = "pr_err p"
  define f where "f = print_backtrace (cr_backtrace ce) (write_all (head_lines ?n ce sig info @
    (case uc of None \<Rightarrow> [] | Some mc \<Rightarrow> [state_line ?n mc])) ?e)"
  define q where "q = raise_sig sig (signal_dfl sig (p\<lparr>pr_err := copy_maps (cr_maps ce) f\<rparr>))"
  have run: "fatal_signal_handler ce sig info uc buf p = Some q"
    unfolding q_def f_def by (rule carplay_handler_eq [OF assms])
  have app: "appends ?e f" unfolding f_def using appends_trans [OF write_all_appends backtrace_appends] .
  have "\<exists>t. er_out (pr_err q) = er_out ?e @ t @ maps_text ce" if "write_progress ?e"
    using app that copy_maps_text [of f ce] write_progress_cong [of f ?e]
    unfolding raised(3) [OF q_def] appends_def by auto
  then show ?thesis using run raised [OF q_def] by blast
qed

text \<open>
  The handlers are installed in the patched process only: the constructors of the three Android Auto
  libraries catch exactly the five fatal signals there, and change no disposition anywhere else.
\<close>

lemma install_five:
  "install_fatal_handler d sig = (if sig \<in> {4, 6, 7, 8, 11} then SigHandler else d sig)"
  by (simp add: install_fatal_handler_def fatal_signals_def)

lemma startup_catches:
  "run_startup acts d sig =
     (if InstallFatalHandler \<in> set acts \<and> sig \<in> {4, 6, 7, 8, 11} then SigHandler else d sig)"
proof (induction acts arbitrary: d)
  case (Cons a acts)
  have "run_startup (a # acts) d sig = run_startup acts (startup_disp a d) sig" by (simp add: run_startup_def)
  then show ?case using Cons.IH [of "startup_disp a d"] install_five [of d sig] by (cases a) auto
qed (simp add: run_startup_def)

theorem handlers_only_in_place:
  assumes "a0 \<noteq> []" "0 \<notin> set a0" "32 \<notin> set a0" "length a0 \<le> 255" and proc: "proc = Some (a0 @ 0 # args)"
  shows "run_startup (svcjcinavi_on_load proc) d sig =
      (if basename a0 = ascii ''sm_svclauncher'' \<and> sig \<in> {4, 6, 7, 8, 11} then SigHandler else d sig)"
    and "run_startup (fst (blmjciaapa_on_load proc fname fs s)) d sig =
      (if basename a0 = ascii ''sm_svclauncher'' \<and> sig \<in> {4, 6, 7, 8, 11} then SigHandler else d sig)"
    and "run_startup (fst (aap_service_patch_init proc fname fs s)) d sig =
      (if basename a0 = ascii ''aap_service'' \<and> sig \<in> {4, 6, 7, 8, 11} then SigHandler else d sig)"
proof -
  note g = gates_exact [OF assms(1-4), of args, folded proc]
  have "InstallFatalHandler \<in> set (svcjcinavi_on_load proc) \<longleftrightarrow> basename a0 = ascii ''sm_svclauncher''"
    using g(1) by (simp add: svcjcinavi_on_load_def)
  moreover have "InstallFatalHandler \<in> set (fst (blmjciaapa_on_load proc fname fs s)) \<longleftrightarrow>
      basename a0 = ascii ''sm_svclauncher''"
    using g(1) by (simp add: blmjciaapa_on_load_def)
  moreover have "InstallFatalHandler \<in> set (fst (aap_service_patch_init proc fname fs s)) \<longleftrightarrow>
      basename a0 = ascii ''aap_service''"
    using g(2) by (simp add: aap_service_patch_init_def Let_def)
  ultimately show "run_startup (svcjcinavi_on_load proc) d sig =
      (if basename a0 = ascii ''sm_svclauncher'' \<and> sig \<in> {4, 6, 7, 8, 11} then SigHandler else d sig)"
    and "run_startup (fst (blmjciaapa_on_load proc fname fs s)) d sig =
      (if basename a0 = ascii ''sm_svclauncher'' \<and> sig \<in> {4, 6, 7, 8, 11} then SigHandler else d sig)"
    and "run_startup (fst (aap_service_patch_init proc fname fs s)) d sig =
      (if basename a0 = ascii ''aap_service'' \<and> sig \<in> {4, 6, 7, 8, 11} then SigHandler else d sig)"
    by (simp_all only: startup_catches)
qed

section \<open>A sample dump\<close>

text \<open>After five writes standard error takes one byte at a time.\<close>

definition crash_sample_env :: crash_env where
  "crash_sample_env =
     \<lparr>cr_pid = 1234, cr_tid = 1240, cr_backtrace = [], cr_maps = Some [ascii ''00008000-00009000 r-xp'', [10]]\<rparr>"

definition crash_sample :: process where
  "crash_sample =
     \<lparr>pr_disp = install_fatal_handler (\<lambda>_. SigDfl),
      pr_err = \<lparr>er_out = [], er_calls = 0, er_result = \<lambda>k n. if k < 5 then int n else 1\<rparr>,
      pr_died = None, pr_reentered = False\<rparr>"

theorem crash_dump_ends_witness:
  "\<exists>q pre. preload_fatal_signal_handler (ascii ''blmjciaapa'') crash_sample_env 11
      (Some \<lparr>si_code = 1, si_addr = 16\<rparr>) None (replicate 256 0) crash_sample = Some q \<and>
    pr_died q = Some 11 \<and> er_out (pr_err q) = pre @ ascii ''00008000-00009000 r-xp'' @ [10]"
proof -
  have ok: "crash_args_ok crash_sample_env 11 (Some \<lparr>si_code = 1, si_addr = 16\<rparr>) (replicate 256 0)"
    by (simp add: crash_args_ok_def crash_sample_env_def i32_rangeI kDumpBuf_def)
  have name: "ascii ''blmjciaapa'' \<in> set libpatch_names" by (simp add: libpatch_names_def)
  have p: "write_progress (pr_err crash_sample)" "er_out (pr_err crash_sample) = []"
    by (simp_all add: write_progress_def crash_sample_def)
  have m: "maps_text crash_sample_env = ascii ''00008000-00009000 r-xp'' @ [10]"
    by (simp add: maps_text_def crash_sample_env_def)
  from crash_dump_ends [OF ok name, of None crash_sample]
  obtain q where q: "preload_fatal_signal_handler (ascii ''blmjciaapa'') crash_sample_env 11
      (Some \<lparr>si_code = 1, si_addr = 16\<rparr>) None (replicate 256 0) crash_sample = Some q"
    "pr_died q = Some 11"
    "write_progress (pr_err crash_sample) \<longrightarrow>
      (\<exists>pre. er_out (pr_err q) = er_out (pr_err crash_sample) @ pre @ maps_text crash_sample_env)"
    by (elim exE conjE)
  from q(3) p m obtain pre where "er_out (pr_err q) = pre @ ascii ''00008000-00009000 r-xp'' @ [10]" by auto
  with q show ?thesis by blast
qed

end
