(* ===== verification/Threads.thy ===== *)
theory Threads
  imports Prelude
begin

text \<open>
  \<open>common/thread_util.h\<close>: how every worker thread is created.  The thread library is a record of
  results; the calls made are returned in order.
\<close>

record thread_lib =
  tl_init :: int
  tl_min :: "nat option"
  tl_setstack :: "nat \<Rightarrow> int"
  tl_create :: "nat option \<Rightarrow> int"

text \<open>\<open>Create\<close> carries the stack size in force, \<open>None\<close> the default.\<close>

datatype thread_call = AttrInit | SetStack nat | Create "nat option" | AttrDestroy

definition LIBPATCH_THREAD_STACK_SIZE :: nat where
  "LIBPATCH_THREAD_STACK_SIZE = 256 * 1024"

definition preload_thread_create :: "thread_lib \<Rightarrow> int \<times> thread_call list" where
  "preload_thread_create l =
     (if tl_init l \<noteq> 0 then (tl_create l None, [AttrInit, Create None])
      else
        let stack = LIBPATCH_THREAD_STACK_SIZE;
            stack = (case tl_min l of
                       None \<Rightarrow> stack
                     | Some m \<Rightarrow> if stack < m then m else stack);
            sz = (if tl_setstack l stack = 0 then Some stack else None)
        in (tl_create l sz, [AttrInit, SetStack stack, Create sz, AttrDestroy]))"

text \<open>
  A thread is attempted exactly once whatever fails before, the result is that attempt's, its stack is the
  default or large enough, and an attribute that was set up is released after it.
\<close>

theorem thread_always_attempted:
  "\<exists>sz pre post. snd (preload_thread_create l) = pre @ [Create sz] @ post \<and>
    (\<forall>z. Create z \<notin> set (pre @ post)) \<and> fst (preload_thread_create l) = tl_create l sz \<and>
    (\<forall>n. sz = Some n \<longrightarrow> 256 * 1024 \<le> n \<and> (\<forall>m. tl_min l = Some m \<longrightarrow> m \<le> n)) \<and>
    post = (if tl_init l = 0 then [AttrDestroy] else [])"
proof (cases "tl_init l = 0")
  case True
  define n where "n = (case tl_min l of None \<Rightarrow> 256 * 1024 | Some m \<Rightarrow> if 256 * 1024 < m then m else 256 * 1024)"
  have n: "256 * 1024 \<le> n" "\<forall>m. tl_min l = Some m \<longrightarrow> m \<le> n" by (auto simp: n_def split: option.split)
  let ?sz = "if tl_setstack l n = 0 then Some n else None"
  have "preload_thread_create l = (tl_create l ?sz, [AttrInit, SetStack n] @ [Create ?sz] @ [AttrDestroy])"
    using True unfolding preload_thread_create_def LIBPATCH_THREAD_STACK_SIZE_def Let_def n_def [symmetric]
    by simp
  then show ?thesis
    using True n by (intro exI [of _ ?sz] exI [of _ "[AttrInit, SetStack n]"] exI [of _ "[AttrDestroy]"]) simp
next
  case False
  then show ?thesis
    by (intro exI [of _ None] exI [of _ "[AttrInit]"] exI [of _ "[]"]) (simp add: preload_thread_create_def)
qed

end
