(* ===== verification/Splim_Udpd.thy ===== *)
theory Splim_Udpd
  imports Decimal
begin

text \<open>
  \<open>tools/splim_udpd/splim_udpd.c\<close>: the listener on UDP port 50505 that appends a line per datagram to
  its log file.  What the main loop meets is a list of events: a datagram, an interrupted or a failed
  receive, and the arrival of a termination signal.
\<close>

section \<open>One line of the log\<close>

text \<open>The address in network order, and the port.\<close>

record sockaddr_in =
  sin_addr :: "u8 \<times> u8 \<times> u8 \<times> u8"
  sin_port :: u16

definition inet_ntoa :: "u8 \<times> u8 \<times> u8 \<times> u8 \<Rightarrow> u8 list" where
  "inet_ntoa a =
     (case a of (a, b, c, d) \<Rightarrow>
        dec_nat (unat a) @ [46] @ dec_nat (unat b) @ [46] @ dec_nat (unat c) @ [46] @ dec_nat (unat d))"

text \<open>\<open>%02x\<close> of a byte.\<close>

definition hex2 :: "u8 \<Rightarrow> u8 list" where
  "hex2 b = [hex_digit (unat b div 16), hex_digit (unat b mod 16)]"

definition printable :: "u8 \<Rightarrow> u8" where
  "printable b = (if 0x20 \<le> b \<and> b < 0x7f then b else 46)"

definition hex_dump :: "u8 list \<Rightarrow> u8 list" where
  "hex_dump bs = concat (map (\<lambda>b. hex2 b @ [32]) bs)"

definition packet_line :: "int \<Rightarrow> sockaddr_in option \<Rightarrow> u8 list \<Rightarrow> u8 list" where
  "packet_line t src bs =
     ascii ''t='' @ dec_int t @ ascii '' from='' @
     (case src of Some s \<Rightarrow> inet_ntoa (sin_addr s) | None \<Rightarrow> ascii ''?'') @ [58] @
     dec_nat (case src of Some s \<Rightarrow> unat (sin_port s) | None \<Rightarrow> 0) @
     ascii '' len='' @ dec_nat (length bs) @ ascii '' ascii='' @ [34] @ map printable bs @ [34] @
     ascii '' hex='' @ hex_dump bs @ [10]"

text \<open>The file is opened by the first packet that manages to; \<open>None\<close> before that.\<close>

definition log_packet :: "bool \<Rightarrow> int \<Rightarrow> sockaddr_in option \<Rightarrow> u8 list \<Rightarrow> u8 list option \<Rightarrow> u8 list option" where
  "log_packet opens t src bs lf =
     (case (case lf of None \<Rightarrow> if opens then Some [] else None | Some f \<Rightarrow> Some f) of
        None \<Rightarrow> None
      | Some f \<Rightarrow> Some (f @ packet_line t src bs))"

section \<open>The main loop\<close>

text \<open>
  A datagram with whether the log file can be opened, the time, the sender, its bytes and whether a termination
  signal arrives while it is logged; \<open>StopSignal\<close> arrives while the receive waits.
\<close>

datatype udpd_event =
    Datagram bool int sockaddr_in "u8 list" bool
  | Interrupted
  | RecvFailed
  | StopSignal

text \<open>
  The receive takes at most 63 bytes of a datagram into the buffer of 64, which it then terminates; a store past
  it is \<open>None\<close>.
\<close>

definition kUdpBuf :: nat where "kUdpBuf = 64"

definition udpd_receive :: "u8 list \<Rightarrow> u8 list \<Rightarrow> (nat \<times> u8 list) option" where
  "udpd_receive dg buf =
     (let got = take (kUdpBuf - 1) dg; n = length got in
      if length buf < n then None
      else
        let buf = got @ drop n buf in
        if n < length buf then Some (n, buf[n := 0]) else None)"

text \<open>From a waiting receive on: the log, and whether the loop has ended.\<close>

fun udpd_loop ::
  "udpd_event list \<Rightarrow> bool \<Rightarrow> u8 list \<Rightarrow> u8 list option \<Rightarrow> (u8 list option \<times> bool) option" where
  "udpd_loop [] stop buf lf = Some (lf, False)"
| "udpd_loop (StopSignal # es) stop buf lf = udpd_loop es True buf lf"
| "udpd_loop (Interrupted # es) stop buf lf = (if stop then Some (lf, True) else udpd_loop es stop buf lf)"
| "udpd_loop (RecvFailed # es) stop buf lf = Some (lf, True)"
| "udpd_loop (Datagram opens t src dg sig # es) stop buf lf =
     (case udpd_receive dg buf of
        None \<Rightarrow> None
      | Some (n, buf) \<Rightarrow>
          (let lf = log_packet opens t (Some src) (take n buf) lf in
           if stop \<or> sig then Some (lf, True) else udpd_loop es False buf lf))"

text \<open>The exit code, with what the set-up calls return; \<open>None\<close> while the loop is still waiting.\<close>

definition udpd_main :: "int \<Rightarrow> int \<Rightarrow> udpd_event list \<Rightarrow> (int option \<times> u8 list option) option" where
  "udpd_main fd bind_rc es =
     (if fd < 0 then Some (Some 1, None)
      else if bind_rc \<noteq> 0 then Some (Some 1, None)
      else map_option (\<lambda>(lf, ended). (if ended then Some 0 else None, lf)) (udpd_loop es False (replicate kUdpBuf 0) None))"

text \<open>
  Who starts it: the display sender of \<open>blmjcicarplay\<close>, when both settings ask for it and \<open>pgrep\<close> finds no
  instance.
\<close>

definition launches_udpd :: "Settings \<Rightarrow> bool \<Rightarrow> bool" where
  "launches_udpd cfg running =
     (cfg_carplay_speed_limit cfg \<and> cfg_carplay_udpd_launch cfg \<and> \<not> running)"

lemma default_launches_nothing: "\<not> launches_udpd default_settings running"
  by (simp add: launches_udpd_def default_settings_def)

section \<open>The log is faithful\<close>

text \<open>Reading the hexadecimal view back.\<close>

definition hex_value :: "u8 \<Rightarrow> nat" where
  "hex_value c = (if c < 58 then unat c - 48 else unat c - 87)"

fun read_hex :: "u8 list \<Rightarrow> u8 list" where
  "read_hex (a # b # c # rest) =
     (if c = 32 then of_nat (16 * hex_value a + hex_value b) # read_hex rest else [])"
| "read_hex _ = []"

lemma hex_value_digit: "d < 16 \<Longrightarrow> hex_value (hex_digit d) = d"
proof -
  assume d: "d < 16"
  have "unat (hex_digit d) = (if d < 10 then 48 + d else 87 + d)"
    using d by (simp add: hex_digit_def unat_of_nat del: of_nat_add)
  then show ?thesis using d by (auto simp: hex_value_def word_less_nat_alt)
qed

lemma hex2_value: "of_nat (16 * hex_value (hex_digit (unat b div 16)) + hex_value (hex_digit (unat b mod 16))) = (b :: u8)"
proof -
  have "unat b div 16 < 16" using unsigned_less [of b, where ?'a = nat] by (simp add: less_mult_imp_div_less)
  then show ?thesis by (simp add: hex_value_digit)
qed

lemma read_hex_dump: "read_hex (hex_dump bs @ [10]) = bs"
proof (induction bs)
  case (Cons b bs)
  have "hex_dump (b # bs) = hex_digit (unat b div 16) # hex_digit (unat b mod 16) # 32 # hex_dump bs"
    by (simp add: hex_dump_def hex2_def)
  then show ?case using Cons hex2_value [of b] by simp
qed (simp add: hex_dump_def)

text \<open>The lines of the datagrams a run logs: up to the first one that ends it.\<close>

fun udpd_lines :: "udpd_event list \<Rightarrow> bool \<Rightarrow> u8 list list" where
  "udpd_lines [] stop = []"
| "udpd_lines (StopSignal # es) stop = udpd_lines es True"
| "udpd_lines (Interrupted # es) stop = (if stop then [] else udpd_lines es stop)"
| "udpd_lines (RecvFailed # es) stop = []"
| "udpd_lines (Datagram opens t src dg sig # es) stop =
     packet_line t (Some src) (take 63 dg) # (if stop \<or> sig then [] else udpd_lines es False)"

lemma udpd_receive_eq:
  assumes "length buf = kUdpBuf"
  shows "\<exists>b. udpd_receive dg buf = Some (min 63 (length dg), b) \<and> length b = kUdpBuf \<and>
    take (min 63 (length dg)) b = take 63 dg"
proof -
  let ?n = "min 63 (length dg)"
  let ?b = "(take 63 dg @ drop ?n buf)[?n := 0]"
  have n: "length (take 63 dg) = ?n" "?n < length (take 63 dg @ drop ?n buf)" "\<not> length buf < ?n"
    using assms by (simp_all add: kUdpBuf_def)
  have k: "kUdpBuf - 1 = 63" by (simp add: kUdpBuf_def)
  have "udpd_receive dg buf = Some (?n, ?b)"
    unfolding udpd_receive_def Let_def k n(1) using n(2,3) by simp
  moreover have "length ?b = kUdpBuf" using assms by (simp add: kUdpBuf_def)
  moreover have "take ?n ?b = take 63 dg" using n(1) by (cases "length dg \<le> 63") (simp_all add: min_def)
  ultimately show ?thesis by blast
qed

lemma udpd_loop_log:
  "length buf = kUdpBuf \<Longrightarrow> \<exists>ended. udpd_loop es stop buf (Some f) = Some (Some (f @ concat (udpd_lines es stop)), ended)"
proof (induction es stop buf "Some f" arbitrary: f rule: udpd_loop.induct)
  case (5 opens t src dg sig es stop buf)
  obtain b where b: "udpd_receive dg buf = Some (min 63 (length dg), b)" "length b = kUdpBuf"
    "take (min 63 (length dg)) b = take 63 dg" using udpd_receive_eq [OF 5(2)] by blast
  have l: "log_packet opens t (Some src) (take (min 63 (length dg)) b) (Some f) =
      Some (f @ packet_line t (Some src) (take 63 dg))" by (simp add: log_packet_def b(3))
  show ?case
  proof (cases "stop \<or> sig")
    case True
    then show ?thesis using b(1) l by (auto simp: Let_def)
  next
    case False
    then show ?thesis using 5(1) [OF b(1) refl l [symmetric]] b(1,2) l by (simp add: Let_def)
  qed
qed auto

text \<open>Before the file is open nothing is written; while it cannot be opened the lines are lost.\<close>

lemma udpd_loop_opens:
  "length buf = kUdpBuf \<Longrightarrow> \<forall>e \<in> set es. (case e of Datagram opens _ _ _ _ \<Rightarrow> opens | _ \<Rightarrow> True) \<Longrightarrow>
   \<exists>ended. udpd_loop es stop buf None =
     Some (if udpd_lines es stop = [] then None else Some (concat (udpd_lines es stop)), ended)"
proof (induction es stop buf "None :: u8 list option" rule: udpd_loop.induct)
  case (5 opens t src dg sig es stop buf)
  obtain b where b: "udpd_receive dg buf = Some (min 63 (length dg), b)" "length b = kUdpBuf"
    "take (min 63 (length dg)) b = take 63 dg" using udpd_receive_eq [OF 5(2)] by blast
  have l: "log_packet opens t (Some src) (take (min 63 (length dg)) b) None =
      Some (packet_line t (Some src) (take 63 dg))" using 5(3) by (simp add: log_packet_def b(3))
  show ?case
    using udpd_loop_log [OF b(2), of es False "packet_line t (Some src) (take 63 dg)"] b(1) l
    by (auto simp: Let_def)
qed auto

text \<open>
  The listener exits with 1 exactly when the socket cannot be had, so that a second instance ends at once,
  and otherwise logs one line for each datagram up to the signal that stops it, in order; the
  hexadecimal view of a line gives back the datagram, cut to 63 bytes, and no event makes it write outside
  its buffer.
\<close>

theorem udpd_logs_each:
  assumes "\<forall>e \<in> set es. (case e of Datagram opens _ _ _ _ \<Rightarrow> opens | _ \<Rightarrow> True)"
  shows "\<exists>code lf. udpd_main fd rc es = Some (code, lf) \<and>
    (code = Some 1 \<longleftrightarrow> fd < 0 \<or> rc \<noteq> 0) \<and>
    lf = (if code = Some 1 \<or> udpd_lines es False = [] then None else Some (concat (udpd_lines es False))) \<and>
    (\<exists>pre. packet_line t src bs = pre @ ascii '' hex='' @ hex_dump bs @ [10]) \<and>
    read_hex (hex_dump bs @ [10]) = bs"
proof -
  have "\<exists>pre. packet_line t src bs = pre @ ascii '' hex='' @ hex_dump bs @ [10]"
    unfolding packet_line_def by (simp only: append_assoc [symmetric]) blast
  moreover obtain ended where "udpd_loop es False (replicate kUdpBuf 0) None =
      Some (if udpd_lines es False = [] then None else Some (concat (udpd_lines es False)), ended)"
    using udpd_loop_opens [OF _ assms, of "replicate kUdpBuf 0" False] by auto
  ultimately show ?thesis
    using read_hex_dump [of bs] by (auto simp: udpd_main_def)
qed

end
