(* ===== verification/Diagnostics.thy ===== *)
theory Diagnostics
  imports Splim_Udpd Log_Text Hud_Core Devmgr_Shim
begin

text \<open>
  The diagnostic texts: the line with the effective settings (\<open>common/config.h\<close>), the lines with the headers
  of a 1.5 message (\<open>blmjciaapa/hud/hud.cpp\<close>) and the two dump files of the tap on the message queue
  (\<open>blmjcicarplay/devmgr_shim.cpp\<close>), which hold location data and are off by default.
\<close>

section \<open>The effective settings\<close>

definition bool_text :: "bool \<Rightarrow> u8 list" where
  "bool_text b = (if b then ascii ''true'' else ascii ''false'')"

definition effective_items :: "Settings \<Rightarrow> (u8 list \<times> u8 list) list" where
  "effective_items s =
     [(ascii ''touch'', bool_text (cfg_touch s)), (ascii ''hud'', bool_text (cfg_hud s)),
      (ascii ''hud_transport'', ascii (transport_name (cfg_hud_transport s))),
      (ascii ''force_street_name'', bool_text (cfg_force_street_name s)),
      (ascii ''hud_fold_latin'', bool_text (cfg_hud_fold_latin s)),
      (ascii ''use_protocol_v1_6'', bool_text (cfg_use_protocol_v1_6 s)),
      (ascii ''aa_audio_low_latency'', bool_text (cfg_aa_audio_low_latency s)),
      (ascii ''mute_pauses_phone'', bool_text (cfg_mute_pauses_phone s)),
      (ascii ''block_headunit_media_play'', bool_text (cfg_block_headunit_media_play s)),
      (ascii ''carplay_vn_normalize'', bool_text (cfg_carplay_vn_normalize s)),
      (ascii ''carplay_speed_limit'', bool_text (cfg_carplay_speed_limit s)),
      (ascii ''carplay_udpd_launch'', bool_text (cfg_carplay_udpd_launch s)),
      (ascii ''carplay_nav_diag'', bool_text (cfg_carplay_nav_diag s)),
      (ascii ''carplay_msgtype_diag'', bool_text (cfg_carplay_msgtype_diag s)),
      (ascii ''carplay_hud_debug'', bool_text (cfg_carplay_hud_debug s))]"

definition log_effective :: "u8 list \<Rightarrow> Settings \<Rightarrow> u8 list" where
  "log_effective prefix s =
     ascii ''config: '' @ prefix @ concat (map (\<lambda>(k, v). [32] @ k @ [61] @ v) (effective_items s))"

text \<open>Assigning what the line shows restores the settings.\<close>

lemma parse_bool_text: "parse_bool (Some (bool_text b)) d = b"
  by (cases b) (simp_all add: bool_text_def parse_bool_def key_words)

section \<open>The headers of a 1.5 message\<close>

definition status_line :: "u32 \<Rightarrow> u8 list" where
  "status_line status =
     ascii ''nav 0x500 NAVMessagesStatus: status='' @ dec_nat (unat status) @ [40] @
     ascii (nav_status_name status) @ [41]"

text \<open>\<open>%p\<close> of the image is a parameter of the text.\<close>

definition next_turn_line :: "(u32 \<Rightarrow> u8 list) \<Rightarrow> u8 list \<Rightarrow> NextTurnHdr \<Rightarrow> u32 \<Rightarrow> u8 list" where
  "next_turn_line ptr name h turn_event =
     ascii ''nav 0x501 NAVTurnMessage: road='' @ [34] @ cstr name @ [34] @ ascii '' road_len='' @
     dec_nat (unat (nt_road_name_len h)) @ ascii '' turn_side='' @ dec_nat (unat (nt_turn_side h)) @ [40] @
     ascii (nav_turn_side_name (nt_turn_side h)) @ ascii '') turn_event='' @ dec_nat (unat turn_event) @ [40] @
     ascii (nav_turn_event_name turn_event) @ ascii '') raw_event='' @ dec_nat (unat (nt_turn_event h)) @
     ascii '' turn_angle='' @ dec_int (nt_turn_angle h) @ ascii '' turn_number='' @
     dec_int (nt_turn_number h) @ ascii '' image='' @ ptr (nt_image h) @ ascii '' image_len='' @
     dec_nat (unat (nt_image_len h))"

definition distance_line :: "DistanceHdr \<Rightarrow> u8 list" where
  "distance_line h =
     ascii ''nav 0x502 NAVDistanceMessage: distance='' @ dec_int (dh_distance h) @ ascii ''m time_until='' @
     dec_int (dh_time_until h) @ ascii ''s display_distance='' @ dec_int (dh_display_distance h) @
     ascii '' display_distance_unit='' @ dec_nat (unat (dh_display_distance_unit h)) @ [40] @
     ascii (nav_distance_unit_name (dh_display_distance_unit h)) @ [41]"

text \<open>The road in the line is the start of the name the header points to, at most 255 bytes of it.\<close>

lemma dumped_road:
  assumes "dump_next_turn mem h = Some r" and "nt_road_name h \<noteq> 0" and "nt_road_name_len h \<noteq> 0"
  shows "\<exists>b. mem (nt_road_name h) = Some b \<and> cstr r = cstr (take (min 255 (unat (nt_road_name_len h))) b) \<and>
    length (cstr r) \<le> 255"
proof -
  let ?n = "min 255 (unat (nt_road_name_len h))"
  obtain b where b: "mem (nt_road_name h) = Some b" "r = take ?n b @ [0]"
    using assms by (auto simp: dump_next_turn_def Let_def min_def split: option.splits if_splits)
  have c: "cstr (x @ [0]) = cstr x" for x by (induction x) (simp_all add: cstr_def)
  have "length (cstr r) \<le> 255" using length_cstr_le [of "take ?n b"] by (simp add: b(2) c)
  then show ?thesis using b c by blast
qed

section \<open>The dump files of the tap\<close>

text \<open>\<open>%04x\<close>.\<close>

definition hex4 :: "nat \<Rightarrow> u8 list" where
  "hex4 n = (let h = hex_nat n in replicate (4 - length h) 48 @ h)"

text \<open>The bytes from \<open>i\<close> to \<open>n\<close>, each read from the message.\<close>

function dump_bytes :: "u8 list \<Rightarrow> nat \<Rightarrow> nat \<Rightarrow> u8 list option" where
  "dump_bytes b i n =
     (if i < n then
        do { c \<leftarrow> load b i; rest \<leftarrow> dump_bytes b (i + 1) n; Some (32 # hex2 c @ rest) }
      else Some [])"
  by pat_completeness auto
termination
  by (relation "measure (\<lambda>(b, i, n). n - i)") auto

declare dump_bytes.simps [simp del]

definition msgtype_line :: "int \<Rightarrow> u8 list \<Rightarrow> int \<Rightarrow> u8 list option" where
  "msgtype_line t b n =
     do {
       w \<leftarrow> load_u32 b 0;
       let mt = w AND 0xffff;
       let head = ascii ''t='' @ dec_int t @ ascii '' mt=0x'' @ hex4 (unat mt) @ ascii '' n=0x'' @ hex_nat (nat n);
       peek \<leftarrow> (if mt \<noteq> 0x8058 \<and> mt \<noteq> 0x8059 then dump_bytes b 0 (nat (if n < 40 then n else 40)) else Some []);
       Some (head @ peek @ [10])
     }"

definition nav_diag_line :: "bool \<Rightarrow> u8 list \<Rightarrow> int \<Rightarrow> u8 list option" where
  "nav_diag_line open_ok b n =
     do {
       w \<leftarrow> load_u32 b 0;
       let mt = w AND 0xffff;
       if (mt = 0x8059 \<or> mt = 0x8058) \<and> open_ok then
         do {
           d \<leftarrow> dump_bytes b 0 (nat n);
           Some (ascii ''msgrcv n=0x'' @ hex_nat (nat n) @ ascii '' mtype='' @ dec_int (sint w) @ ascii '' :'' @ d @ [10])
         }
       else Some []
     }"

text \<open>
  What one message adds to the two files; \<open>types\<close> and \<open>navs\<close>: whether each file is open.  A read outside the
  message is \<open>None\<close>.
\<close>

definition tap_dumps ::
  "Settings \<Rightarrow> bool \<Rightarrow> bool \<Rightarrow> int \<Rightarrow> u8 list option \<Rightarrow> int \<Rightarrow> (u8 list \<times> u8 list) option" where
  "tap_dumps cfg types navs t msgp n =
     do {
       d1 \<leftarrow> (case msgp of
                Some b \<Rightarrow> if cfg_carplay_msgtype_diag cfg \<and> n \<ge> 4 \<and> types then msgtype_line t b n else Some []
              | None \<Rightarrow> Some []);
       d2 \<leftarrow> (case msgp of
                Some b \<Rightarrow>
                  if n < 0x300 then Some []
                  else if cfg_carplay_nav_diag cfg then nav_diag_line navs b n
                  else Some []
              | None \<Rightarrow> Some []);
       Some (d1, d2)
     }"

section \<open>Properties\<close>

lemma assign_transport:
  "(if strcaseeq (ascii (transport_name tr)) (ascii ''svcnavi'') \<or>
       strcaseeq (ascii (transport_name tr)) (ascii ''svcjcinavi'') then a
    else if strcaseeq (ascii (transport_name tr)) (ascii ''vbs'') then b else c) =
   (if tr = HUD_TRANSPORT_SVCNAVI then a else b)"
  by (cases tr) (simp_all add: transport_name_def key_words)

text \<open>One assignment of the line: the setting it names, all others kept.\<close>

lemma effective_assign:
  "apply_kv (ascii ''touch'') (bool_text b) s = s\<lparr>cfg_touch := b\<rparr>"
  "apply_kv (ascii ''hud'') (bool_text b) s = s\<lparr>cfg_hud := b\<rparr>"
  "apply_kv (ascii ''hud_transport'') (ascii (transport_name tr)) s = s\<lparr>cfg_hud_transport := tr\<rparr>"
  "apply_kv (ascii ''force_street_name'') (bool_text b) s = s\<lparr>cfg_force_street_name := b\<rparr>"
  "apply_kv (ascii ''hud_fold_latin'') (bool_text b) s = s\<lparr>cfg_hud_fold_latin := b\<rparr>"
  "apply_kv (ascii ''use_protocol_v1_6'') (bool_text b) s = s\<lparr>cfg_use_protocol_v1_6 := b\<rparr>"
  "apply_kv (ascii ''aa_audio_low_latency'') (bool_text b) s = s\<lparr>cfg_aa_audio_low_latency := b\<rparr>"
  "apply_kv (ascii ''mute_pauses_phone'') (bool_text b) s = s\<lparr>cfg_mute_pauses_phone := b\<rparr>"
  "apply_kv (ascii ''block_headunit_media_play'') (bool_text b) s = s\<lparr>cfg_block_headunit_media_play := b\<rparr>"
  "apply_kv (ascii ''carplay_vn_normalize'') (bool_text b) s = s\<lparr>cfg_carplay_vn_normalize := b\<rparr>"
  "apply_kv (ascii ''carplay_speed_limit'') (bool_text b) s = s\<lparr>cfg_carplay_speed_limit := b\<rparr>"
  "apply_kv (ascii ''carplay_udpd_launch'') (bool_text b) s = s\<lparr>cfg_carplay_udpd_launch := b\<rparr>"
  "apply_kv (ascii ''carplay_nav_diag'') (bool_text b) s = s\<lparr>cfg_carplay_nav_diag := b\<rparr>"
  "apply_kv (ascii ''carplay_msgtype_diag'') (bool_text b) s = s\<lparr>cfg_carplay_msgtype_diag := b\<rparr>"
  "apply_kv (ascii ''carplay_hud_debug'') (bool_text b) s = s\<lparr>cfg_carplay_hud_debug := b\<rparr>"
  by (simp_all add: apply_kv_def parse_bool_text strcaseeq_keys assign_transport) (cases tr, simp_all)

text \<open>
  C35.  The line tells the truth about the configuration: assigning to every key the value shown gives back exactly
  the settings, whatever was set before; so a key name or a value in the line is one the parser reads.
\<close>

theorem effective_settings_roundtrip:
  "fold (\<lambda>(k, v). apply_kv k v) (effective_items s) t = s\<lparr>cfg_loaded := cfg_loaded t\<rparr>"
  by (simp add: effective_items_def effective_assign)

lemma dump_bytes_eq: "n \<le> length b \<Longrightarrow> i \<le> n \<Longrightarrow>
  dump_bytes b i n = Some (concat (map (\<lambda>c. 32 # hex2 c) (take (n - i) (drop i b))))"
proof (induction b i n rule: dump_bytes.induct)
  case (1 b i n)
  show ?case
  proof (cases "i < n")
    case True
    then have "take (n - i) (drop i b) = b ! i # take (n - Suc i) (drop (Suc i) b)"
      using 1(2) by (simp add: Cons_nth_drop_Suc [symmetric] take_Cons' Suc_diff_Suc)
    then show ?thesis using True 1 by (subst dump_bytes.simps) simp
  next
    case False
    then show ?thesis using 1(3) by (subst dump_bytes.simps) simp
  qed
qed

lemma msgtype_line_total:
  assumes "4 \<le> length b" and "n \<le> int (length b)"
  shows "\<exists>d. msgtype_line t b n = Some d"
proof -
  obtain w where w: "load_u32 b 0 = Some w" using assms(1) by (simp add: load_u32_def)
  define k where "k = nat (if n < 40 then n else 40)"
  have "k \<le> length b" using assms(2) by (auto simp: k_def)
  then obtain d where "dump_bytes b 0 k = Some d" using dump_bytes_eq [of k b 0] by simp
  then show ?thesis by (simp add: msgtype_line_def Let_def w k_def [symmetric])
qed

lemma nav_diag_line_total:
  assumes "4 \<le> length b" and "n \<le> int (length b)"
  shows "\<exists>d. nav_diag_line ok b n = Some d"
proof -
  obtain w where w: "load_u32 b 0 = Some w" using assms(1) by (simp add: load_u32_def)
  have "nat n \<le> length b" using assms(2) by simp
  then obtain d where "dump_bytes b 0 (nat n) = Some d" using dump_bytes_eq [of "nat n" b 0] by simp
  then show ?thesis by (simp add: nav_diag_line_def Let_def w)
qed

text \<open>
  The file of message types never holds a byte of a navigation message: two messages of those types and
  of one length leave the same line, whatever they say.
\<close>

theorem type_log_hides_route:
  assumes "load_u32 b 0 = Some w" and "load_u32 b' 0 = Some w" and "w AND 0xffff \<in> {0x8058, 0x8059}"
  shows "msgtype_line t b' n = msgtype_line t b n"
proof -
  have "\<not> (w AND 0xffff \<noteq> 0x8058 \<and> w AND 0xffff \<noteq> 0x8059)" using assms(3) by blast
  then show ?thesis by (simp only: msgtype_line_def Let_def assms(1,2) Option.bind.simps if_False)
qed

text \<open>The dumps read nothing outside the message, and with the default settings they write nothing.\<close>

theorem tap_dumps_off:
  assumes "n \<le> int (length b)" and "4 \<le> length b"
  shows "\<exists>d1 d2. tap_dumps cfg types navs t (Some b) n = Some (d1, d2) \<and>
    (\<not> cfg_carplay_nav_diag cfg \<longrightarrow> d2 = []) \<and> (\<not> cfg_carplay_msgtype_diag cfg \<longrightarrow> d1 = [])"
proof -
  obtain m where m: "msgtype_line t b n = Some m" using msgtype_line_total [OF assms(2,1)] by blast
  obtain d where d: "nav_diag_line navs b n = Some d" using nav_diag_line_total [OF assms(2,1)] by blast
  define d1 where "d1 = (if cfg_carplay_msgtype_diag cfg \<and> 4 \<le> n \<and> types then m else [])"
  define d2 where "d2 = (if n < 0x300 then [] else if cfg_carplay_nav_diag cfg then d else [])"
  have "(if cfg_carplay_msgtype_diag cfg \<and> n \<ge> 4 \<and> types then msgtype_line t b n else Some []) = Some d1"
    by (simp add: d1_def m)
  moreover have "(if n < 0x300 then Some [] else if cfg_carplay_nav_diag cfg then nav_diag_line navs b n else Some []) =
      Some d2" by (simp add: d2_def d)
  ultimately have "tap_dumps cfg types navs t (Some b) n = Some (d1, d2)"
    by (simp only: tap_dumps_def option.case Option.bind.simps)
  then show ?thesis by (simp add: d1_def d2_def)
qed

lemma default_dumps_off: "\<not> cfg_carplay_msgtype_diag default_settings" "\<not> cfg_carplay_nav_diag default_settings"
  by (simp_all add: default_settings_def)

end
