(* ===== verification/Spec2Isabelle.thy ===== *)
theory Spec2Isabelle
  imports Hud_Nav Hud_Lane Nav16_Msg Pb_Reader Pb_Wire Nav16_Decode Nav16_Spec Nav16_Glyph Nav16_Relay
    Config Translit Preload Merge Vbs_Tx Svcnavi_Tx Tx_Stop Seqlock Hud_Display Nav_Path Play_Pause Touch Bt16pair
    Lifecycle Carplay_Hud Devmgr_Shim Carplay_Path Audio Oem_Thunks Navi_Monitor Log_Text Logging Crash
    Threads Splim_Udpd Diagnostics
begin

text \<open>
  This library models the preload shims of the repository (\<open>src/mazda/patches\<close>): shared objects that
  are loaded into four processes of a Mazda CMU head unit, interpose a few of their functions, and
  bring the navigation of Android Auto and CarPlay to the head-up display, touch input to the phone,
  and the unit's mute to the phone's media.

  The program and its theories.

  \<^item> Shared ground.  \<open>Prelude\<close> (machine integers, C arithmetic, byte buffers), \<open>Config\<close>
    (\<open>common/config.h\<close>: the settings file), \<open>Preload\<close> (\<open>common/preload.h\<close>, the gates of
    \<open>common/preload_guard.h\<close> and the constructors of every \<open>main.cpp\<close>), \<open>Translit\<close>
    (\<open>common/translit.h\<close>: street names folded in place), \<open>Decimal\<close> (number formats), \<open>Oem_Thunks\<close>
    (\<open>oem/\<close>: how the vendor's functions are found), \<open>Logging\<close> (\<open>common/log.h\<close>: the levels, ordered, and the
    line of a log call), \<open>Crash\<close> (the fatal-signal handlers of \<open>common/preload_guard.h\<close> and of
    \<open>blmjcicarplay/main.cpp\<close>), \<open>Threads\<close> (\<open>common/thread_util.h\<close>), \<open>Diagnostics\<close> (the line with the
    settings, the header lines of a 1.5 message, the dump files of the CarPlay tap).

  \<^item> \<open>aap_service\<close>, the projection daemon.  \<open>Nav16_Msg\<close> and \<open>Nav16_Relay\<close>
    (\<open>common/aa_nav16_msg.h\<close>, \<open>aap_service/navi/navi.cpp\<close>, \<open>hud/nav16_rx.cpp\<close>): code patching, the
    relay of navigation frames over a datagram socket, and its receiver in the other process.
    \<open>Audio\<close> (\<open>aap_service/audio/audio.cpp\<close>): the ALSA start threshold.

  \<^item> \<open>blmjciaapa\<close>, Android Auto's HMI module.  \<open>Pb_Reader\<close>, \<open>Nav16_Decode\<close>, \<open>Nav16_Glyph\<close> and
    \<open>Log_Text\<close> (\<open>hud/hud_nav16.cpp\<close>: protobuf reader, message decoders, constant maps, log lines),
    with \<open>Pb_Wire\<close> and \<open>Nav16_Spec\<close> as their specification on messages; \<open>Hud_Nav\<close> and \<open>Hud_Lane\<close>
    (\<open>hud/hud_nav.h\<close>, \<open>hud/hud_lane.h\<close>: glyphs and lane codes); \<open>Hud_Core\<close> and \<open>Hud_Display\<close>
    (\<open>hud/hud.cpp\<close>), \<open>Nav_Path\<close> (a frame's way through all of these); \<open>Hud_Tx\<close>, \<open>Vbs_Tx\<close>, \<open>Svcnavi_Tx\<close>,
    \<open>Seqlock\<close>, \<open>Cv_Wait\<close> and \<open>Tx_Stop\<close> (\<open>hud/vbs_tx.cpp\<close>, \<open>hud/svcnavi_tx.cpp\<close>: the two transports to
    the display, the copy of the snapshot byte by byte, and the sender's wait on its condition variable); \<open>Dbus_Watch\<close> and \<open>Play_Pause\<close>
    (\<open>playpause/playpause.cpp\<close>); \<open>Touch_Send\<close> and \<open>Touch\<close> (\<open>touch/\<close>); \<open>Bt16pair\<close>
    (\<open>bt16pair/bt16pair.cpp\<close>); \<open>Navi_Monitor\<close> (\<open>monitor/navi_monitor.cpp\<close>, debug builds);
    \<open>Lifecycle\<close> (\<open>lifecycle.cpp\<close>: the session shims that start and stop all of these).

  \<^item> \<open>svcjcinavi\<close>, the unit's own navigation.  \<open>Merge\<close> (\<open>svcjcinavi/merge.cpp\<close>): one display shared by
    the unit's guidance and the phone's.

  \<^item> \<open>blmjcicarplay\<close>, CarPlay.  \<open>Devmgr_Shim\<close> (\<open>devmgr_shim.cpp\<close>: arming and the message tap),
    \<open>Carplay_Nav\<close> (\<open>nav.cpp\<close>: the decoder), \<open>Carplay_Send\<close> and \<open>Carplay_Hud\<close>
    (\<open>hud/hud_send.cpp\<close>: encoding and the sender thread), \<open>Carplay_Path\<close> (a message's way through these).
    \<open>Splim_Udpd\<close> (\<open>tools/splim_udpd\<close>) is the separate program that the sender may start.

  How the code is represented.  Unsigned integers are words of their width; signed ones are \<open>int\<close>
  with the wrap of the 32-bit machine written out (\<open>to_i32\<close>); addresses, handles and descriptors are
  words with 0 for null where the code tests for null, nullable data pointers are options.  Enumerators
  are named constants with their values.  A buffer is the list of its bytes, and a load or store
  outside it is the value \<open>None\<close> of the operation, so that a theorem that an operation returns \<open>Some\<close>
  says that it stays inside.  The global variables of a file are one record, an operation is a function
  of that record, and what the code is told by the kernel, by libdbus or by the vendor's functions is an
  argument of the operation: an environment record, a function of an address, or a list of results.
  What the code sends (display calls, touch events, key events, datagrams) is appended to a history
  component of the state, or returned.  Threads are step relations with one constructor for each
  atomic step; a mutex makes the section it guards one step.  Loops are recursive functions with a
  proved measure; there is no fuel.  The only bounds are the code's own: 30 polls of the pairing
  activator, the bounded open of the touch device, the array sizes.

  The interfaces.  \<open>field_handler\<close> (\<open>Pb_Reader\<close>) is the contract of a decoder's treatment of one
  protobuf field, and gives memory safety of the walk over a whole message; \<open>message_decoder\<close>
  (\<open>Pb_Wire\<close>) extends it by what the field means, and gives that decoding an encoded message applies
  its fields in order; both are interpreted for every decoder of \<open>hud_nav16.cpp\<close>.  \<open>hud_backend\<close>
  (\<open>Hud_Tx\<close>) is what the sender loop needs of a transport; its lemmas (the display follows the last
  committed snapshot; a stop ends unless its wake-up falls into the wait's window) are interpreted for both transports.  \<open>bounded_set\<close>
  (\<open>Dbus_Watch\<close>) is the contract of the watch table, \<open>session_worker\<close> (\<open>Lifecycle\<close>) what the session
  shims need of a worker, interpreted for touch, HUD and play/pause.

  What is shown.

  \<^item> Decoding.  Every byte sequence is decoded without an access outside its buffer, and what is handed
    on is well formed (\<open>Nav16_Decode\<close>, \<open>Carplay_Nav\<close>); an encoded message is decoded to its meaning
    (\<open>Nav16_Spec\<close>); what the relay sends is what the receiver hands on (\<open>Nav16_Relay\<close>).

  \<^item> Display.  From decoder callbacks to display calls, the display follows the last guidance
    (\<open>Hud_Display\<close>, \<open>Vbs_Tx\<close>, \<open>Svcnavi_Tx\<close>, \<open>Carplay_Hud\<close>), and from the phone's message through all
    processes (\<open>Nav_Path\<close> and the end of this theory; for CarPlay from the message queue, \<open>Carplay_Path\<close>), with the conditions the code needs for it: no
    failed or missing send, fewer than 2^31 commits between two looks.  A snapshot is never torn
    (\<open>Seqlock\<close>).  The merged display is the function of the history that its file describes (\<open>Merge\<close>).
    Glyph and lane tables are related to their meaning (\<open>Hud_Lane\<close>, \<open>Nav16_Glyph\<close>, \<open>Carplay_Send\<close>).

  \<^item> Input and media.  The touch stream is accepted by the multi-touch protocol (\<open>Touch_Send\<close>) except
    where two fingers lift at once, which is shown to break it; the reader survives every input
    (\<open>Touch\<close>); the bridge resumes only what it paused (\<open>Play_Pause\<close>); only Android Auto playback has its
    threshold lowered (\<open>Audio\<close>).

  \<^item> Sessions and processes.  Workers run only inside a session (\<open>Lifecycle\<close>, where a stop is one whose
    join returns; \<open>Tx_Stop\<close> says for the two transports when it does: at most four actions of the
    sender after the wake-up, or never when the wake-up comes between the wait's predicate and its
    sleep and nothing else wakes the thread), a shim never forwards to
    itself (\<open>Preload\<close>, \<open>Lifecycle\<close>), the tap leaves the vendor's messages alone (\<open>Devmgr_Shim\<close>), the
    activator acts at most once and only on a parked session, and every run of it is over after its 30
    polls (\<open>Bt16pair\<close>, \<open>Oem_Thunks\<close>), the monitor
    leaks nothing (\<open>Navi_Monitor\<close>), the settings are determined by the file (\<open>Config\<close>).

  \<^item> Diagnostics.  A crash dump stays inside its line buffer, copies the whole memory map under short writes
    and ends the process by the signal that came in (\<open>Crash\<close>); a release build writes errors only
    (\<open>Logging\<close>); the settings line can be read back (\<open>Diagnostics\<close>), the route is kept out of the file of
    message types; a thread is attempted on every path (\<open>Threads\<close>); the listener's log gives back the
    datagrams (\<open>Splim_Udpd\<close>).

  \<^item> Defects.  Where the code differs from what it or its comments promise, a theorem shows the
    difference on the model: \<open>parse_dist_overflow\<close> and the comparison of the roundabout formulas (\<open>Nav16_Glyph\<close>),
    \<open>two_lifted_malformed\<close> (\<open>Touch_Send\<close>), \<open>slot_overflow_hits_first\<close> (\<open>Touch\<close>), \<open>vbs_stale_snapshot\<close>
    (\<open>Vbs_Tx\<close>), \<open>vbs_stop_can_hang\<close> (\<open>Tx_Stop\<close>), \<open>gate_swallows_first_frame\<close> (\<open>Hud_Display\<close>), \<open>resent_is_stale\<close> (\<open>Carplay_Nav\<close>),
    the forgotten wipe and \<open>nav_off_repainted\<close> (\<open>Carplay_Hud\<close>), \<open>legacy_turn_event_lost\<close>
    (\<open>Nav16_Relay\<close>), \<open>long_comment_is_parsed\<close> (\<open>Config\<close>).

  Not modelled.  The individual log calls inside the other components (what one of them prints is the
  business of \<open>Logging\<close>, and nothing the library decides depends on it), a second fault inside the
  fatal-signal handler, what \<open>backtrace_symbols_fd\<close> prints, the installer, the build files and the host
  tests.  The memory model of the processor (the seqlock is proved over
  interleavings of single-byte accesses), instruction-cache flushes, real time (a wait is a step that may
  happen, the clock is an argument), and exceptions of the allocator.  The vendor's libraries and
  libdbus are arguments of the model.
\<close>

section \<open>The whole path\<close>

text \<open>
  C1.  From the phone to the display.  Whatever datagrams reached the receiver before, well formed
  or not: when \<open>aap_service\<close> then relays a navigation state that the phone encoded, the receiver
  takes it, and the next pass of the sender leaves on the display exactly what the message means: the
  glyph of its first maneuver, its street name (folded when the setting says so), and the glyph of
  each of its lanes; provided the session runs, every send succeeds, and fewer than 2^31 changes were
  made since the sender last looked.
\<close>

theorem phone_to_display:
  assumes "vbs_step\<^sup>*\<^sup>* vbs_init (hd_vbs h)" and "hd_tx h = HUD_TRANSPORT_VBS"
    and "hud_live h" and "\<not> hd_have_last h" and "rx_sink rx = nav16_callbacks cfg"
    and "list_all state_field_ok fs"
    and "raw = msg_frame AA_NAV16_MSG_NAV_STATE (enc_message enc_state fs)" and "length raw \<le> 1024"
    and "frame_bytes oem r = (Some raw, int (length raw))"
    and "relay_frame oem env r fd = Some (fd', Some dg)"
  shows "\<exists>rx' h'. rx_run (dgs @ [dg]) rx (Some h) = Some (rx', Some h') \<and> hud_nav16_rx_seen rx' \<and>
    (let l = sd_local (sender_pass vbs_send (hd_vbs h')); v = session_view (vl_calls l);
         g = guidance_of fs in
     tx_commits (hd_vbs h') - sd_seen (hd_vbs h') < 2 ^ 31 \<and> \<not> vl_missed l \<longrightarrow>
       hv_icon v = ingest_glyph g \<and> hv_road v = ingest_road cfg (road g) \<and>
       hv_lanes v = vbs_lane_wire (map (\<lambda>i. if int i < ingest_lanes g
         then oem_lane_code_for_aa (present_mask (lanes g ! i)) (highlight_mask (lanes g ! i))
         else OEM_LANE_NONE) [0..<8]))"
proof -
  obtain rx' h' es a where p: "rx_run (dgs @ [dg]) rx (Some h) = Some (rx', Some h')" "rx_seen rx'"
    "hud_events cfg es h = Some h'" "hd_acc h' = ingest cfg (guidance_of fs) a" "hd_have_last h'" "gate_inv h'"
    by (rule path_run [OF assms(3-10)])
  have "hd_tx h' = HUD_TRANSPORT_VBS" "vbs_step\<^sup>*\<^sup>* vbs_init (hd_vbs h')"
    using events_keep [OF p(3)] assms(1,2) by simp_all
  then show ?thesis
    using p(1,2) pass_shows_acc [OF p(6,5)]
    by (intro exI [of _ rx'] exI [of _ h'])
      (simp add: hud_nav16_rx_seen_def Let_def p(4) view_of_def ingest_snapshot)
qed

theorem phone_to_display_witness:
  "\<exists>dg rx' h'. rx_run [[1, 2, 3], dg] path_rx (Some hud_ready) = Some (rx', Some h') \<and>
    hv_icon (session_view (vl_calls (sd_local (sender_pass vbs_send (hd_vbs h'))))) =
      ingest_glyph (guidance_of sample_state)"
proof -
  obtain dg where dg: "relay_frame path_oem \<lparr>tx_sock = 3, tx_sent = True\<rparr> (Some path_frame) (-1) = Some (3, Some dg)"
    by (rule path_datagram)
  have r: "vbs_step\<^sup>*\<^sup>* vbs_init (hd_vbs hud_ready)"
    using vbs_live_reachable by (simp add: hud_ready_def)
  have s: "rx_sink path_rx = nav16_callbacks default_settings" by (simp add: path_rx_def)
  have run: "rx_run [[1, 2, 3], dg] path_rx (Some hud_ready) = Some (path_rx\<lparr>rx_seen := True\<rparr>, Some path_end)"
    using path_sample_run [OF dg] by (simp add: path_end_def on_guidance_ingest)
  have m: "\<not> vl_missed (sd_local (sender_pass vbs_send (hd_vbs path_end)))"
    by (simp add: path_end_facts vbs_live_facts)
  have "rx_run ([[1, 2, 3]] @ [dg]) path_rx (Some hud_ready) = rx_run [[1, 2, 3], dg] path_rx (Some hud_ready)"
    by simp
  from phone_to_display [OF r hud_ready_live(3,1,2) s sample_state_ok path_frame_def path_frame_bytes(3,1) dg,
      where dgs = "[[1, 2, 3]]", unfolded this run]
  show ?thesis using run m by (auto simp: path_end_facts Let_def)
qed

text \<open>
  C2.  From the phone to the navigation service.  The same on the transport that is the default: the
  next pass of its sender leaves in force the guidance signal with the glyph of the message's first
  maneuver, its street name and its lane codes, marked with the reserved speed limit by which the
  merged display recognises it.
\<close>

theorem phone_to_service:
  assumes "svc_step\<^sup>*\<^sup>* (svc_init senv) (hd_svc h)" and "hd_tx h = HUD_TRANSPORT_SVCNAVI"
    and "hud_live h" and "\<not> hd_have_last h" and "rx_sink rx = nav16_callbacks cfg"
    and "list_all state_field_ok fs"
    and "raw = msg_frame AA_NAV16_MSG_NAV_STATE (enc_message enc_state fs)" and "length raw \<le> 1024"
    and "frame_bytes oem r = (Some raw, int (length raw))"
    and "relay_frame oem env r fd = Some (fd', Some dg)"
  shows "\<exists>rx' h'. rx_run (dgs @ [dg]) rx (Some h) = Some (rx', Some h') \<and> hud_nav16_rx_seen rx' \<and>
    (let l = sd_local (sender_pass svc_send_one (hd_svc h')); s = session_guidance (sv_calls l);
         g = guidance_of fs in
     tx_commits (hd_svc h') - sd_seen (hd_svc h') < 2 ^ 31 \<and> \<not> sv_lost l \<longrightarrow>
       gd_dir s = sint (ingest_glyph g) \<and> gd_street s = ingest_road cfg (road g) \<and>
       gd_lanes s = map uint (map (\<lambda>i. if int i < ingest_lanes g
         then oem_lane_code_for_aa (present_mask (lanes g ! i)) (highlight_mask (lanes g ! i))
         else OEM_LANE_NONE) [0..<8]) \<and>
       gd_speed s = uint kAapSpeedSentinel)"
proof -
  obtain rx' h' es a where p: "rx_run (dgs @ [dg]) rx (Some h) = Some (rx', Some h')" "rx_seen rx'"
    "hud_events cfg es h = Some h'" "hd_acc h' = ingest cfg (guidance_of fs) a" "hd_have_last h'" "gate_inv h'"
    by (rule path_run [OF assms(3-10)])
  have "hd_tx h' = HUD_TRANSPORT_SVCNAVI" using events_keep [OF p(3)] assms(2) by simp
  moreover have "svc_step\<^sup>*\<^sup>* (svc_init senv) (hd_svc h')" by (rule svc_events_reachable [OF p(3) assms(1)])
  ultimately show ?thesis
    using p(1,2) svc_pass_shows_acc [OF p(6,5)]
    by (intro exI [of _ rx'] exI [of _ h'])
      (simp add: hud_nav16_rx_seen_def Let_def p(4) signal_of_def ingest_snapshot kAapSpeedSentinel_def)
qed

theorem phone_to_service_witness:
  "\<exists>dg rx' h'. rx_run [[1, 2, 3], dg] path_rx (Some service_ready) = Some (rx', Some h') \<and>
    gd_dir (session_guidance (sv_calls (sd_local (sender_pass svc_send_one (hd_svc h'))))) =
      sint (ingest_glyph (guidance_of sample_state))"
proof -
  obtain dg where dg: "relay_frame path_oem \<lparr>tx_sock = 3, tx_sent = True\<rparr> (Some path_frame) (-1) = Some (3, Some dg)"
    by (rule path_datagram)
  have s: "rx_sink path_rx = nav16_callbacks default_settings" by (simp add: path_rx_def)
  have run: "rx_run [[1, 2, 3], dg] path_rx (Some service_ready) = Some (path_rx\<lparr>rx_seen := True\<rparr>, Some service_end)"
    using path_sample_run [OF dg] by (simp add: service_end_def on_guidance_ingest)
  note m = service_end_sent
  have "rx_run ([[1, 2, 3]] @ [dg]) path_rx (Some service_ready) = rx_run [[1, 2, 3], dg] path_rx (Some service_ready)"
    by simp
  from phone_to_service [OF service_ready_facts(4,1-3) s sample_state_ok path_frame_def path_frame_bytes(3,1) dg,
      where dgs = "[[1, 2, 3]]", unfolded this run]
  show ?thesis using run m by (auto simp: service_end_facts Let_def)
qed

end
